(* ===== verification/Prelude.thy ===== *)
theory Prelude
  imports Main "HOL-Library.Word" "HOL-Library.List_Lexorder" "HOL-Library.Char_ord"
begin

text \<open>
  The shared ground of the development: the fact collections the component proofs use, Go's
  64-bit signed integers with their wrap-around written out, the string functions of the Go
  standard library the program calls, Go errors as values with \<^verbatim>\<open>errors.Is\<close>, and the
  world-passing computations every operation with an effect is written in.
\<close>

section \<open>Fact collections\<close>

named_theorems io_defs \<open>the combinators of world-passing computations\<close>
named_theorems go64 \<open>arithmetic of Go's int64 inside its range\<close>
named_theorems path_simps \<open>evaluation of path functions\<close>

section \<open>Go integers\<close>

text \<open>
  \<open>int64\<close> values are integers kept in the two's complement range by \<open>wrap64\<close>; Go's integer
  division truncates towards zero.
\<close>

type_synonym int64 = int

definition MinInt64 :: int where "MinInt64 = - (2 ^ 63)"

definition MaxInt64 :: int where "MaxInt64 = 2 ^ 63 - 1"

definition in64 :: "int \<Rightarrow> bool" where
  "in64 x \<longleftrightarrow> MinInt64 \<le> x \<and> x \<le> MaxInt64"

definition wrap64 :: "int \<Rightarrow> int64" where
  "wrap64 x = (x + 2 ^ 63) mod 2 ^ 64 - 2 ^ 63"

definition add64 :: "int64 \<Rightarrow> int64 \<Rightarrow> int64" where "add64 a b = wrap64 (a + b)"

definition sub64 :: "int64 \<Rightarrow> int64 \<Rightarrow> int64" where "sub64 a b = wrap64 (a - b)"

definition mul64 :: "int64 \<Rightarrow> int64 \<Rightarrow> int64" where "mul64 a b = wrap64 (a * b)"

definition quot64 :: "int64 \<Rightarrow> int64 \<Rightarrow> int64" where
  "quot64 a b = wrap64 (sgn a * sgn b * (\<bar>a\<bar> div \<bar>b\<bar>))"

lemma in64_iff: "in64 x \<longleftrightarrow> - 9223372036854775808 \<le> x \<and> x \<le> 9223372036854775807"
  by (simp add: in64_def MinInt64_def MaxInt64_def)

lemma in64_wrap64: "in64 (wrap64 x)"
proof -
  have "0 \<le> (x + 2 ^ 63) mod (2 ^ 64)" and "(x + 2 ^ 63) mod (2 ^ 64) < (2 ^ 64 :: int)"
    by simp_all
  then show ?thesis by (simp add: wrap64_def in64_iff)
qed

lemma wrap64_id [go64, simp]: "in64 x \<Longrightarrow> wrap64 x = x"
  by (simp add: wrap64_def in64_iff)

lemma in64_sub64 [simp]: "in64 (sub64 a b)"
  by (simp add: sub64_def in64_wrap64)

lemma add64_id [go64]: "in64 (a + b) \<Longrightarrow> add64 a b = a + b"
  by (simp add: add64_def)

lemma sub64_id [go64]: "in64 (a - b) \<Longrightarrow> sub64 a b = a - b"
  by (simp add: sub64_def)

lemma mul64_id [go64]: "in64 (a * b) \<Longrightarrow> mul64 a b = a * b"
  by (simp add: mul64_def)

lemma quot64_id [go64]:
  assumes "0 \<le> a" "in64 a" "0 < b"
  shows "quot64 a b = a div b"
proof -
  have eq: "sgn a * sgn b * (\<bar>a\<bar> div \<bar>b\<bar>) = a div b"
    using assms by (cases "a = 0") auto
  have "0 \<le> a div b" "a div b \<le> a"
    using assms int_div_less_self [of a b]
    by (auto simp: pos_imp_zdiv_nonneg_iff intro: zdiv_mono2 [of a 1 b, simplified])
  then have "in64 (a div b)"
    using assms by (simp add: in64_iff)
  then show ?thesis
    by (simp add: quot64_def eq)
qed

section \<open>Go strings\<close>

text \<open>
  A Go string is a byte sequence and so is \<^typ>\<open>string\<close>. \<open>HasPrefix\<close>, \<open>HasSuffix\<close> and
  \<open>TrimPrefix\<close> are the functions of package \<^verbatim>\<open>strings\<close>; \<open>Split\<close> and \<open>Join_str\<close> are
  \<^verbatim>\<open>strings.Split\<close> and \<^verbatim>\<open>strings.Join\<close> with a one-byte separator.
\<close>

definition HasPrefix :: "string \<Rightarrow> string \<Rightarrow> bool" where
  "HasPrefix s p = (take (length p) s = p)"

definition HasSuffix :: "string \<Rightarrow> string \<Rightarrow> bool" where
  "HasSuffix s p = HasPrefix (rev s) (rev p)"

definition TrimPrefix :: "string \<Rightarrow> string \<Rightarrow> string" where
  "TrimPrefix s p = (if HasPrefix s p then drop (length p) s else s)"

definition TrimSuffix :: "string \<Rightarrow> string \<Rightarrow> string" where
  "TrimSuffix s p = (if HasSuffix s p then take (length s - length p) s else s)"

fun Split :: "char \<Rightarrow> string \<Rightarrow> string list" where
  "Split c [] = [[]]"
| "Split c (x # xs) =
     (if x = c then [] # Split c xs
      else (case Split c xs of [] \<Rightarrow> [[x]] | s # ss \<Rightarrow> (x # s) # ss))"

fun Join_str :: "string \<Rightarrow> string list \<Rightarrow> string" where
  "Join_str sep [] = []"
| "Join_str sep [s] = s"
| "Join_str sep (s # t # ss) = s @ sep @ Join_str sep (t # ss)"

lemma HasPrefix_iff: "HasPrefix s p \<longleftrightarrow> (\<exists>t. s = p @ t)"
proof
  assume "HasPrefix s p"
  then have "s = p @ drop (length p) s"
    unfolding HasPrefix_def by (metis append_take_drop_id)
  then show "\<exists>t. s = p @ t" ..
qed (auto simp: HasPrefix_def)

lemma HasPrefix_append [simp]: "HasPrefix (p @ t) p"
  by (auto simp: HasPrefix_iff)

lemma HasPrefix_Nil [simp]: "HasPrefix s []"
  by (simp add: HasPrefix_def)

lemma HasPrefix_Cons [simp]: "HasPrefix (x # s) (y # p) \<longleftrightarrow> x = y \<and> HasPrefix s p"
  by (simp add: HasPrefix_def)

lemma HasPrefix_Nil_Cons [simp]: "\<not> HasPrefix [] (y # p)"
  by (simp add: HasPrefix_def)

lemma HasSuffix_iff: "HasSuffix s p \<longleftrightarrow> (\<exists>t. s = t @ p)"
proof -
  have "rev s = rev p @ t \<longleftrightarrow> s = rev t @ p" for t
    by (metis rev_append rev_rev_ident)
  then show ?thesis
    unfolding HasSuffix_def HasPrefix_iff by (metis rev_rev_ident)
qed

lemma TrimPrefix_append [simp]: "TrimPrefix (p @ t) p = t"
  by (simp add: TrimPrefix_def)

lemma TrimPrefix_no: "\<not> HasPrefix s p \<Longrightarrow> TrimPrefix s p = s"
  by (simp add: TrimPrefix_def)

lemma Split_not_Nil [simp]: "Split c s \<noteq> []"
  by (induction c s rule: Split.induct) (auto split: list.splits)

lemma Split_append_sep: "Split c (s @ c # t) = Split c s @ Split c t"
  by (induction s) (auto split: list.splits)

lemma Split_no_sep: "c \<notin> set s \<Longrightarrow> Split c s = [s]"
  by (induction s) auto

lemma Split_elems: "s \<in> set (Split c t) \<Longrightarrow> c \<notin> set s"
  by (induction t arbitrary: s) (auto split: if_splits list.splits)

lemma Join_str_Cons: "ss \<noteq> [] \<Longrightarrow> Join_str sep (s # ss) = s @ sep @ Join_str sep ss"
  by (cases ss) auto

lemma Join_str_append:
  "ss \<noteq> [] \<Longrightarrow> ts \<noteq> [] \<Longrightarrow> Join_str sep (ss @ ts) = Join_str sep ss @ sep @ Join_str sep ts"
  by (induction ss rule: induct_list012) (auto simp: Join_str_Cons)

lemma Join_Split: "Join_str [c] (Split c s) = s"
proof (induction s)
  case (Cons x s)
  then show ?case
    by (cases "Split c s" rule: list.exhaust; cases "tl (Split c s)") auto
qed simp

lemma Split_Join:
  "ss \<noteq> [] \<Longrightarrow> \<forall>s \<in> set ss. c \<notin> set s \<Longrightarrow> Split c (Join_str [c] ss) = ss"
proof (induction ss rule: induct_list012)
  case (3 s t ss)
  have "Split c (s @ c # Join_str [c] (t # ss)) = Split c s @ Split c (Join_str [c] (t # ss))"
    by (rule Split_append_sep)
  with 3 show ?case by (simp add: Split_no_sep)
qed (auto simp: Split_no_sep)

section \<open>Errors\<close>

text \<open>
  A Go error is a value: the sentinel errors of the packages, the two error types that carry
  data, an opaque error of a library or the operating system, a message made by
  \<^verbatim>\<open>errors.New\<close>, and the result of \<^verbatim>\<open>fmt.Errorf\<close> with its \<^verbatim>\<open>%w\<close> operands (the text
  keeps the constant part of the format). \<open>errors_Is\<close> walks the tree of wrapped errors.
\<close>

datatype error =
    ErrFileNotFound
  | ErrInvalidRange
  | ErrUnsafeKey
  | ErrSourceChanged
  | MissingObjectsError "string list"
  | ErrNoKey
  | ErrCorruptObject
  | errBackwardRead
  | ErrRootPathIsRequired
  | ErrPrefixNotExists
  | ErrStorageClosed
  | ErrNotExist
  | EOF
  | ErrUnexpectedEOF
  | Canceled
  | DeadlineExceeded
  | NoIdentityMatchError
  | APIError string nat
  | ErrorString string
  | Errorf string "error list"

fun Unwrap :: "error \<Rightarrow> error list" where
  "Unwrap (MissingObjectsError ps) = [ErrFileNotFound]"
| "Unwrap (Errorf m es) = es"
| "Unwrap _ = []"

function errors_Is :: "error \<Rightarrow> error \<Rightarrow> bool" where
  "errors_Is e target = (e = target \<or> (\<exists>x \<in> set (Unwrap e). errors_Is x target))"
  by pat_completeness auto
termination
proof (relation "measure (\<lambda>(e, t). 2 * size e + (case e of MissingObjectsError _ \<Rightarrow> 1 | _ \<Rightarrow> 0))")
  fix e target x :: error
  assume "x \<in> set (Unwrap e)"
  then consider ps where "e = MissingObjectsError ps" "x = ErrFileNotFound"
    | m es where "e = Errorf m es" "x \<in> set es"
    by (cases e) auto
  then show "((x, target), (e, target)) \<in>
      measure (\<lambda>(e, t). 2 * size e + (case e of MissingObjectsError _ \<Rightarrow> 1 | _ \<Rightarrow> 0))"
  proof cases
    case 2
    then have "size x < size e"
      by (auto simp: less_Suc_eq_le intro: size_list_estimation')
    then show ?thesis by (auto split: error.splits)
  qed simp
qed simp

declare errors_Is.simps [simp del]

lemma errors_Is_refl [simp]: "errors_Is e e"
  by (subst errors_Is.simps) simp

lemma errors_Is_Missing [simp]:
  "errors_Is (MissingObjectsError ps) t \<longleftrightarrow> t = MissingObjectsError ps \<or> t = ErrFileNotFound"
  by (subst errors_Is.simps) (auto simp: errors_Is.simps [of ErrFileNotFound])

lemma errors_Is_Errorf [simp]:
  "errors_Is (Errorf m es) t \<longleftrightarrow> Errorf m es = t \<or> (\<exists>e \<in> set es. errors_Is e t)"
  by (subst errors_Is.simps) simp

lemma errors_Is_leaf: "Unwrap e = [] \<Longrightarrow> errors_Is e t \<longleftrightarrow> e = t"
  by (subst errors_Is.simps) simp

lemma errors_Is_leaves [simp]:
  "errors_Is ErrFileNotFound t \<longleftrightarrow> t = ErrFileNotFound"
  "errors_Is ErrInvalidRange t \<longleftrightarrow> t = ErrInvalidRange"
  "errors_Is ErrUnsafeKey t \<longleftrightarrow> t = ErrUnsafeKey"
  "errors_Is ErrSourceChanged t \<longleftrightarrow> t = ErrSourceChanged"
  "errors_Is ErrNoKey t \<longleftrightarrow> t = ErrNoKey"
  "errors_Is ErrCorruptObject t \<longleftrightarrow> t = ErrCorruptObject"
  "errors_Is errBackwardRead t \<longleftrightarrow> t = errBackwardRead"
  "errors_Is ErrRootPathIsRequired t \<longleftrightarrow> t = ErrRootPathIsRequired"
  "errors_Is ErrPrefixNotExists t \<longleftrightarrow> t = ErrPrefixNotExists"
  "errors_Is ErrStorageClosed t \<longleftrightarrow> t = ErrStorageClosed"
  "errors_Is ErrNotExist t \<longleftrightarrow> t = ErrNotExist"
  "errors_Is EOF t \<longleftrightarrow> t = EOF"
  "errors_Is ErrUnexpectedEOF t \<longleftrightarrow> t = ErrUnexpectedEOF"
  "errors_Is Canceled t \<longleftrightarrow> t = Canceled"
  "errors_Is DeadlineExceeded t \<longleftrightarrow> t = DeadlineExceeded"
  "errors_Is NoIdentityMatchError t \<longleftrightarrow> t = NoIdentityMatchError"
  "errors_Is (APIError c n) t \<longleftrightarrow> t = APIError c n"
  "errors_Is (ErrorString m) t \<longleftrightarrow> t = ErrorString m"
  by (auto simp: errors_Is_leaf)

text \<open>The first service error in the tree of wrapped errors, as \<^verbatim>\<open>errors.As\<close> finds it: its code and the
  HTTP status of the response.\<close>

fun first_Some :: "'a option list \<Rightarrow> 'a option" where
  "first_Some [] = None"
| "first_Some (None # xs) = first_Some xs"
| "first_Some (Some x # xs) = Some x"

fun api_error :: "error \<Rightarrow> (string \<times> nat) option" where
  "api_error (APIError code status) = Some (code, status)"
| "api_error (Errorf m es) = first_Some (map api_error es)"
| "api_error _ = None"

text \<open>\<^verbatim>\<open>errors.Join\<close> of errors that may be nil.\<close>

definition errors_Join :: "error option list \<Rightarrow> error option" where
  "errors_Join es = (let xs = map the (filter (\<lambda>e. e \<noteq> None) es) in if xs = [] then None else Some (Errorf '''' xs))"

section \<open>World-passing computations\<close>

text \<open>
  An operation with an effect takes the world (file system, remote service, clock, runtime) and
  returns an error or a value, and the world it leaves. \<open>'w ctx\<close> is a
  \<^verbatim>\<open>context.Context\<close>: what \<^verbatim>\<open>ctx.Err()\<close> answers in a world.
\<close>

type_synonym ('w, 'a) io = "'w \<Rightarrow> (error + 'a) \<times> 'w"

type_synonym 'w ctx = "'w \<Rightarrow> error option"

definition ret :: "'a \<Rightarrow> ('w, 'a) io" where
  "ret x w = (Inr x, w)"

definition throw :: "error \<Rightarrow> ('w, 'a) io" where
  "throw e w = (Inl e, w)"

definition tryIO :: "('w, 'a) io \<Rightarrow> (error + 'a \<Rightarrow> ('w, 'b) io) \<Rightarrow> ('w, 'b) io" where
  "tryIO m f w = (case m w of (r, w') \<Rightarrow> f r w')"

definition bindIO :: "('w, 'a) io \<Rightarrow> ('a \<Rightarrow> ('w, 'b) io) \<Rightarrow> ('w, 'b) io" where
  "bindIO m f = tryIO m (\<lambda>r. case r of Inl e \<Rightarrow> throw e | Inr x \<Rightarrow> f x)"

definition wrapIO :: "(error \<Rightarrow> error) \<Rightarrow> ('w, 'a) io \<Rightarrow> ('w, 'a) io" where
  "wrapIO g m = tryIO m (\<lambda>r. case r of Inl e \<Rightarrow> throw (g e) | Inr x \<Rightarrow> ret x)"

lemma ret_apply [io_defs, simp]: "ret x w = (Inr x, w)"
  by (simp add: ret_def)

lemma throw_apply [io_defs, simp]: "throw e w = (Inl e, w)"
  by (simp add: throw_def)

lemma tryIO_apply [io_defs]: "tryIO m f w = (case m w of (r, w') \<Rightarrow> f r w')"
  by (simp add: tryIO_def)

lemma bindIO_apply [io_defs]:
  "bindIO m f w = (case m w of (Inl e, w') \<Rightarrow> (Inl e, w') | (Inr x, w') \<Rightarrow> f x w')"
  by (simp add: bindIO_def tryIO_def split: prod.split sum.split)

lemma wrapIO_apply [io_defs]:
  "wrapIO g m w = (case m w of (Inl e, w') \<Rightarrow> (Inl (g e), w') | (Inr x, w') \<Rightarrow> (Inr x, w'))"
  by (simp add: wrapIO_def tryIO_def split: prod.split sum.split)

lemma bindIO_Inr:
  "bindIO m f w = (Inr y, w2) \<longleftrightarrow> (\<exists>x w1. m w = (Inr x, w1) \<and> f x w1 = (Inr y, w2))"
  by (auto simp: bindIO_apply split: prod.splits sum.splits)

lemma io_succeeds: "case fst r of Inr x \<Rightarrow> True | Inl e \<Rightarrow> False \<Longrightarrow> \<exists>x w. r = (Inr x, w)"
  by (cases r) (auto split: sum.splits)

text \<open>
  A method whose loop or recursion has fuel, as a computation: running out of fuel is an error of its
  own, which a call with enough fuel does not meet.
\<close>

definition fueled :: "('w \<Rightarrow> ((error + 'a) \<times> 'w) option) \<Rightarrow> ('w, 'a) io" where
  "fueled m w = (case m w of None \<Rightarrow> (Inl (ErrorString ''does not return''), w) | Some r \<Rightarrow> r)"

section \<open>Readers\<close>

text \<open>
  What an \<^verbatim>\<open>io.ReadCloser\<close> delivers: the bytes of each \<^verbatim>\<open>Read\<close> in turn, how the stream
  ends (\<open>None\<close> for \<^verbatim>\<open>io.EOF\<close>), and what \<^verbatim>\<open>Close\<close> returns. A reader is a
  snapshot of the object at the time it was opened.
\<close>

type_synonym byte = "8 word"

type_synonym bytes = "byte list"

record reader =
  rd_chunks :: "bytes list"
  rd_end :: "error option"
  rd_close :: "error option"

definition rd_bytes :: "reader \<Rightarrow> bytes" where
  "rd_bytes r = concat (rd_chunks r)"

definition bytes_reader :: "bytes \<Rightarrow> reader" where
  "bytes_reader b = \<lparr>rd_chunks = [b], rd_end = None, rd_close = None\<rparr>"

lemma rd_bytes_bytes_reader [simp]: "rd_bytes (bytes_reader b) = b"
  by (simp add: rd_bytes_def bytes_reader_def)

lemma bytes_reader_end [simp]: "rd_end (bytes_reader b) = None" "rd_close (bytes_reader b) = None"
  by (simp_all add: bytes_reader_def)

end
