(* ===== verification/Layout.thy ===== *)
theory Layout
  imports Prelude
begin

text \<open>
  \<^verbatim>\<open>encrypted/layout.go\<close>: where the bytes of a plaintext lie in an age file. The arithmetic is
  Go's \<^verbatim>\<open>int64\<close>, wrap-around included. \<open>enc_size\<close> is the reference: the size of the file age
  writes for a plaintext of \<open>n\<close> bytes. Shown: the size formula is inverted exactly, the span of
  a range covers every chunk it touches and stays inside the object, and the final chunk is found.
\<close>

section \<open>The source\<close>

definition chunkSize :: int64 where "chunkSize = 65536"

definition tagSize :: int64 where "tagSize = 16"

definition encChunkSize :: int64 where "encChunkSize = 65552"

record layout =
  payloadOffset :: int64

definition plaintextSize :: "layout \<Rightarrow> int64 \<Rightarrow> int64 option" where
  "plaintextSize l encrypted =
     (let payload = sub64 encrypted (payloadOffset l) in
      if payload < tagSize then None
      else
        let chunks = quot64 (sub64 (add64 payload encChunkSize) 1) encChunkSize;
            plain = sub64 payload (mul64 chunks tagSize);
            want = max (quot64 (sub64 (add64 plain chunkSize) 1) chunkSize) 1
        in if want \<noteq> chunks then None else Some plain)"

definition reportedSize :: "layout \<Rightarrow> int64 \<Rightarrow> int64" where
  "reportedSize l encrypted = (case plaintextSize l encrypted of Some plain \<Rightarrow> plain | None \<Rightarrow> encrypted)"

definition chunkSpan :: "layout \<Rightarrow> int64 \<Rightarrow> int64 \<Rightarrow> int64 \<Rightarrow> int64 \<times> int64" where
  "chunkSpan l off end encrypted =
     (let first = quot64 off chunkSize; last = quot64 (sub64 end 1) chunkSize in
      (add64 (payloadOffset l) (mul64 first encChunkSize),
       min (add64 (payloadOffset l) (mul64 (add64 last 1) encChunkSize)) encrypted))"

definition finalChunkOffset :: "layout \<Rightarrow> int64 \<Rightarrow> int64" where
  "finalChunkOffset l encrypted =
     (let payload = sub64 encrypted (payloadOffset l);
          chunks = quot64 (sub64 (add64 payload encChunkSize) 1) encChunkSize
      in add64 (payloadOffset l) (mul64 (sub64 chunks 1) encChunkSize))"

section \<open>The reference\<close>

text \<open>The number of chunks of a plaintext, and the size of its age file.\<close>

definition n_chunks :: "int \<Rightarrow> int" where
  "n_chunks n = max 1 ((n + 65535) div 65536)"

definition enc_size :: "layout \<Rightarrow> int \<Rightarrow> int" where
  "enc_size l n = payloadOffset l + n + 16 * n_chunks n"

text \<open>Where the chunk holding plaintext byte \<open>i\<close> starts.\<close>

definition chunk_at :: "layout \<Rightarrow> int \<Rightarrow> int" where
  "chunk_at l i = payloadOffset l + (i div 65536) * 65552"

text \<open>Objects whose arithmetic stays in range; the header has at most 4 KiB.\<close>

definition sane_layout :: "layout \<Rightarrow> bool" where
  "sane_layout l \<longleftrightarrow> 0 \<le> payloadOffset l \<and> payloadOffset l \<le> 4096"

lemmas layout_consts = chunkSize_def tagSize_def encChunkSize_def

lemma n_chunks_bounds:
  assumes "0 \<le> n"
  shows "1 \<le> n_chunks n" "n \<le> 65536 * n_chunks n" "n_chunks n \<le> n + 1"
    "n_chunks n = 1 \<or> 65536 * (n_chunks n - 1) < n"
proof -
  have d: "65536 * ((n + 65535) div 65536) \<le> n + 65535" "n + 65535 < 65536 * ((n + 65535) div 65536) + 65536"
    using div_mult_mod_eq [of "n + 65535" 65536] pos_mod_bound [of 65536 "n + 65535"]
      pos_mod_sign [of 65536 "n + 65535"] by linarith+
  show "1 \<le> n_chunks n" by (simp add: n_chunks_def)
  show "n \<le> 65536 * n_chunks n" "n_chunks n \<le> n + 1" "n_chunks n = 1 \<or> 65536 * (n_chunks n - 1) < n"
    using d assms by (auto simp: n_chunks_def max_def)
qed

text \<open>The chunk count of a payload of \<open>n\<close> plaintext bytes, read off its encrypted size.\<close>

lemma payload_chunks:
  assumes "0 \<le> n"
  shows "(n + 16 * n_chunks n + 65551) div 65552 = n_chunks n"
proof -
  note b = n_chunks_bounds [OF assms]
  have "n + 16 * n_chunks n + 65551 = 65552 * n_chunks n + (n + 65551 - 65536 * n_chunks n)" by simp
  moreover have "0 \<le> n + 65551 - 65536 * n_chunks n" "n + 65551 - 65536 * n_chunks n < 65552"
    using b assms by auto
  ultimately show ?thesis by (simp add: div_pos_pos_trivial)
qed

text \<open>Division of a chunk count in range.\<close>

lemma in64_small: "0 \<le> x \<Longrightarrow> x \<le> 9223372036854775807 \<Longrightarrow> in64 x"
  by (simp add: in64_iff)

lemma plaintextSize_unfold:
  assumes l: "sane_layout l" and e: "0 \<le> e" "e \<le> MaxInt64 - encChunkSize"
  shows "plaintextSize l e =
    (let payload = e - payloadOffset l; chunks = (payload + 65551) div 65552; plain = payload - chunks * 16 in
     if payload < 16 then None
     else if max ((plain + 65535) div 65536) 1 \<noteq> chunks then None else Some plain)"
proof -
  let ?p = "e - payloadOffset l"
  have e': "e \<le> 9223372036854710255" using e by (simp add: MaxInt64_def encChunkSize_def)
  have p: "sub64 e (payloadOffset l) = ?p"
    using l e(1) e' by (intro sub64_id) (simp add: sane_layout_def in64_iff)
  show ?thesis
  proof (cases "?p < 16")
    case True
    then show ?thesis by (simp add: plaintextSize_def p tagSize_def)
  next
    case False
    let ?c = "(?p + 65551) div 65552"
    have big: "?p \<le> 9223372036854710255" using l e' by (simp add: sane_layout_def)
    have a: "add64 ?p encChunkSize = ?p + 65552" "sub64 (?p + 65552) 1 = ?p + 65551"
      using False big by (simp_all add: add64_id sub64_id in64_iff encChunkSize_def)
    have q: "quot64 (?p + 65551) encChunkSize = ?c"
      unfolding encChunkSize_def by (rule quot64_id) (use False big in \<open>simp_all add: in64_iff\<close>)
    have c: "0 \<le> ?c" "65552 * ?c \<le> ?p + 65551"
      using False div_mult_mod_eq [of "?p + 65551" 65552] pos_mod_sign [of 65552 "?p + 65551"]
      by (simp add: pos_imp_zdiv_nonneg_iff, linarith)
    have m: "mul64 ?c tagSize = ?c * 16"
      unfolding tagSize_def by (rule mul64_id) (use c big in \<open>simp add: in64_iff\<close>)
    have plain: "sub64 ?p (?c * 16) = ?p - ?c * 16" "0 \<le> ?p - ?c * 16 + 65535"
      using c False big by (simp_all add: sub64_id in64_iff)
    have a2: "add64 (?p - ?c * 16) chunkSize = ?p - ?c * 16 + 65536"
      "sub64 (?p - ?c * 16 + 65536) 1 = ?p - ?c * 16 + 65535"
      using c plain(2) big by (simp_all add: add64_id sub64_id in64_iff chunkSize_def)
    have q2: "quot64 (?p - ?c * 16 + 65535) chunkSize = (?p - ?c * 16 + 65535) div 65536"
      unfolding chunkSize_def by (rule quot64_id) (use c plain(2) big in \<open>simp_all add: in64_iff\<close>)
    show ?thesis
      unfolding plaintextSize_def Let_def p a q m plain(1) a2 q2 using False by (simp add: tagSize_def)
  qed
qed

section \<open>Sizes\<close>

lemma plaintextSize_iff:
  assumes "sane_layout l" "0 \<le> e" "e \<le> MaxInt64 - encChunkSize"
  shows "plaintextSize l e = Some n \<longleftrightarrow> 0 \<le> n \<and> e = enc_size l n"
proof -
  let ?p = "e - payloadOffset l"
  let ?c = "(?p + 65551) div 65552"
  let ?n = "?p - ?c * 16"
  have c: "65552 * ?c \<le> ?p + 65551" "?p + 65551 < 65552 * ?c + 65552"
    using div_mult_mod_eq [of "?p + 65551" 65552] pos_mod_sign [of 65552 "?p + 65551"]
      pos_mod_bound [of 65552 "?p + 65551"] by linarith+
  show ?thesis
  proof
    assume "plaintextSize l e = Some n"
    then have h: "16 \<le> ?p" "max ((?n + 65535) div 65536) 1 = ?c" "n = ?n"
      unfolding plaintextSize_unfold [OF assms] Let_def by (auto split: if_splits)
    have "n_chunks n = ?c" using h(2,3) by (simp add: n_chunks_def max.commute)
    moreover have "0 \<le> n"
    proof (cases "?c = 1")
      case False
      then have "?c = (?n + 65535) div 65536" "2 \<le> ?c" using h(2) by (auto simp: max_def split: if_splits)
      then have "65536 * ?c \<le> ?n + 65535" by (metis mult.commute minus_mod_eq_mult_div diff_left_mono
          diff_zero pos_mod_sign zero_less_numeral)
      with \<open>2 \<le> ?c\<close> h(3) show ?thesis by linarith
    qed (use h in simp)
    ultimately show "0 \<le> n \<and> e = enc_size l n" using h(3) by (simp add: enc_size_def)
  next
    assume h: "0 \<le> n \<and> e = enc_size l n"
    then have p: "?p = n + 16 * n_chunks n" by (simp add: enc_size_def)
    then have "?c = n_chunks n" using payload_chunks [of n] h by simp
    moreover have "16 \<le> ?p" using p h n_chunks_bounds(1) [of n] by simp
    ultimately show "plaintextSize l e = Some n"
      unfolding plaintextSize_unfold [OF assms] Let_def using p
      by (simp add: n_chunks_def max.commute)
  qed
qed

text \<open>
  C32. The plaintext size is computed from the stored size exactly: a stored size is one age can
  write for \<open>n\<close> plaintext bytes if and only if the formula answers \<open>n\<close>, with no overflow on the
  way for any object below \<open>2 ^ 63 - 65552\<close> bytes.
\<close>

theorem plaintextSize_exact:
  assumes "sane_layout l" "0 \<le> e" "e \<le> MaxInt64 - encChunkSize"
  shows "plaintextSize l e = Some n \<longleftrightarrow> 0 \<le> n \<and> e = enc_size l n"
  using assms by (rule plaintextSize_iff)

theorem plaintextSize_exact_witness: "plaintextSize \<lparr>payloadOffset = 200\<rparr> 65769 = Some 65537"
proof -
  have "sane_layout \<lparr>payloadOffset = 200\<rparr>" "(0::int) \<le> 65769" "65769 \<le> MaxInt64 - encChunkSize"
    by (simp_all add: sane_layout_def MaxInt64_def encChunkSize_def)
  from plaintextSize_exact [OF this, of 65537] show ?thesis
    by (simp add: enc_size_def n_chunks_def)
qed

text \<open>
  What \<open>Stat\<close> and \<open>List\<close> report of an object age wrote is its plaintext size.
\<close>

theorem reportedSize_roundtrip:
  assumes "sane_layout l" "0 \<le> n" "enc_size l n \<le> MaxInt64 - encChunkSize"
  shows "reportedSize l (enc_size l n) = n"
proof -
  have "0 \<le> enc_size l n"
    using assms(1,2) n_chunks_bounds(1) [OF assms(2)] by (simp add: enc_size_def sane_layout_def)
  with assms have "plaintextSize l (enc_size l n) = Some n"
    using plaintextSize_iff [of l "enc_size l n" n] by simp
  then show ?thesis by (simp add: reportedSize_def)
qed

theorem reportedSize_roundtrip_witness: "reportedSize \<lparr>payloadOffset = 200\<rparr> (200 + 65537 + 32) = 65537"
  using reportedSize_roundtrip [of "\<lparr>payloadOffset = 200\<rparr>" 65537]
  by (simp add: sane_layout_def enc_size_def n_chunks_def MaxInt64_def encChunkSize_def)

section \<open>Chunks\<close>

text \<open>The bounds every range of an object in range obeys.\<close>

lemma enc_size_bounds:
  assumes "sane_layout l" "0 \<le> n" "enc_size l n \<le> MaxInt64 - encChunkSize"
  shows "n \<le> 9223372036854710255" "65552 * (n_chunks n - 1) \<le> 9223372036854710255"
    "enc_size l n \<le> 9223372036854710255" "payloadOffset l + 16 \<le> enc_size l n"
    "payloadOffset l + 65552 * n_chunks n \<le> 9223372036854775807"
  using assms n_chunks_bounds [OF assms(2)]
  by (auto simp: enc_size_def sane_layout_def MaxInt64_def encChunkSize_def)

lemma chunk_index: "i < 65536 * c \<Longrightarrow> i div 65536 \<le> c - (1 :: int)"
  by linarith

lemma chunkSpan_eq:
  assumes l: "sane_layout l" and n: "0 \<le> off" "off < end" "end \<le> n"
    and e: "enc_size l n \<le> MaxInt64 - encChunkSize"
  shows "chunkSpan l off end (enc_size l n) =
    (chunk_at l off, min (chunk_at l (end - 1) + 65552) (enc_size l n))"
proof -
  have n0: "0 \<le> n" using n by simp
  note b = enc_size_bounds [OF l n0 e]
  have div: "quot64 off chunkSize = off div 65536" "quot64 (sub64 end 1) chunkSize = (end - 1) div 65536"
    using n b(1) unfolding chunkSize_def
    by (simp_all add: sub64_id quot64_id in64_iff)
  have small: "0 \<le> off div 65536" "off div 65536 \<le> (end - 1) div 65536" "(end - 1) div 65536 \<le> n_chunks n - 1"
  proof -
    show "0 \<le> off div 65536" using n by (simp add: pos_imp_zdiv_nonneg_iff)
    show "off div 65536 \<le> (end - 1) div 65536" using n by (intro zdiv_mono1) simp_all
    have "end - 1 < 65536 * n_chunks n" using n n_chunks_bounds(2) [OF n0] by simp
    then show "(end - 1) div 65536 \<le> n_chunks n - 1" by (rule chunk_index)
  qed
  have m: "mul64 (off div 65536) encChunkSize = off div 65536 * 65552"
    "add64 ((end - 1) div 65536) 1 = (end - 1) div 65536 + 1"
    "mul64 ((end - 1) div 65536 + 1) encChunkSize = ((end - 1) div 65536 + 1) * 65552"
    using small b(2) unfolding encChunkSize_def by (simp_all add: add64_id mul64_id in64_iff)
  have a: "add64 (payloadOffset l) (off div 65536 * 65552) = payloadOffset l + off div 65536 * 65552"
    "add64 (payloadOffset l) (((end - 1) div 65536 + 1) * 65552) = payloadOffset l + ((end - 1) div 65536 + 1) * 65552"
    using small b(5) l by (simp_all add: add64_id in64_iff sane_layout_def)
  show ?thesis
    unfolding chunkSpan_def Let_def div m a by (simp add: chunk_at_def algebra_simps)
qed

lemma chunk_at_mono: "i \<le> j \<Longrightarrow> chunk_at l i \<le> chunk_at l j"
  by (simp add: chunk_at_def zdiv_mono1)

lemma chunk_at_last:
  assumes "0 \<le> n" "i < n"
  shows "chunk_at l i < enc_size l n"
proof -
  have "i div 65536 \<le> n_chunks n - 1"
    using assms(2) n_chunks_bounds(2) [OF assms(1)] by (intro chunk_index) simp
  then have "i div 65536 * 65552 \<le> (n_chunks n - 1) * 65552" by (rule mult_right_mono) simp
  moreover have "(n_chunks n - 1) * 65552 < n + 16 * n_chunks n"
    using n_chunks_bounds(1,4) [OF assms(1)] assms(1) by auto
  ultimately show ?thesis by (simp add: chunk_at_def enc_size_def)
qed

text \<open>
  The encrypted span of a plaintext range lies in the object, is not empty, starts and ends at
  chunk boundaries (or at the end of the object) and holds the whole chunk of every byte asked for.
\<close>

theorem chunkSpan_covers:
  assumes "sane_layout l" "0 \<le> off" "off < end" "end \<le> n" "enc_size l n \<le> MaxInt64 - encChunkSize"
    and "chunkSpan l off end (enc_size l n) = (start, stop)"
  shows "payloadOffset l \<le> start \<and> start < stop \<and> stop \<le> enc_size l n \<and>
    (\<forall>i. off \<le> i \<and> i < end \<longrightarrow>
       start \<le> chunk_at l i \<and> min (chunk_at l i + encChunkSize) (enc_size l n) \<le> stop)"
proof -
  have eq: "start = chunk_at l off" "stop = min (chunk_at l (end - 1) + 65552) (enc_size l n)"
    using chunkSpan_eq [OF assms(1-5)] assms(6) by simp_all
  have "payloadOffset l \<le> chunk_at l off"
    using assms(2) by (simp add: chunk_at_def pos_imp_zdiv_nonneg_iff)
  moreover have "chunk_at l off < enc_size l n" using assms(2-4) by (intro chunk_at_last) simp_all
  moreover have "chunk_at l off \<le> chunk_at l (end - 1)" using assms(3) by (intro chunk_at_mono) simp
  moreover have "start \<le> chunk_at l i \<and> min (chunk_at l i + encChunkSize) (enc_size l n) \<le> stop"
    if "off \<le> i" "i < end" for i
    using chunk_at_mono [of off i l] chunk_at_mono [of i "end - 1" l] that
    by (auto simp: eq encChunkSize_def)
  ultimately show ?thesis by (auto simp: eq)
qed

theorem chunkSpan_covers_witness:
  "chunkSpan \<lparr>payloadOffset = 200\<rparr> 70000 70001 (enc_size \<lparr>payloadOffset = 200\<rparr> 200000) = (65752, 131304) \<and>
   200 \<le> (65752 :: int)"
proof -
  let ?l = "\<lparr>payloadOffset = 200\<rparr>"
  have l: "sane_layout ?l" by (simp add: sane_layout_def)
  have e: "enc_size ?l 200000 \<le> MaxInt64 - encChunkSize"
    by (simp add: enc_size_def n_chunks_def MaxInt64_def encChunkSize_def)
  have span: "chunkSpan ?l 70000 70001 (enc_size ?l 200000) = (65752, 131304)"
    by code_simp
  from chunkSpan_covers [OF l _ _ _ e span] span show ?thesis by simp
qed

lemma finalChunkOffset_eq:
  assumes "sane_layout l" "0 \<le> n" "enc_size l n \<le> MaxInt64 - encChunkSize"
  shows "finalChunkOffset l (enc_size l n) = chunk_at l (max 0 (n - 1)) \<and>
    tagSize \<le> enc_size l n - finalChunkOffset l (enc_size l n) \<and>
    enc_size l n - finalChunkOffset l (enc_size l n) \<le> encChunkSize"
proof -
  note b = enc_size_bounds [OF assms] and nb = n_chunks_bounds [OF assms(2)]
  let ?p = "n + 16 * n_chunks n"
  have p: "sub64 (enc_size l n) (payloadOffset l) = ?p"
    using b nb assms(1,2) by (subst sub64_id) (auto simp: enc_size_def in64_iff sane_layout_def)
  have pb: "0 \<le> ?p" "?p \<le> 9223372036854710255" using b(3) nb(1) assms(1,2) by (simp_all add: enc_size_def sane_layout_def)
  have c: "quot64 (sub64 (add64 ?p encChunkSize) 1) encChunkSize = n_chunks n"
    using pb payload_chunks [OF assms(2)] unfolding encChunkSize_def
    by (simp add: add64_id sub64_id quot64_id in64_iff add.assoc)
  have k: "sub64 (n_chunks n) 1 = n_chunks n - 1"
    "mul64 (n_chunks n - 1) encChunkSize = (n_chunks n - 1) * 65552"
    using nb b(2) unfolding encChunkSize_def by (simp_all add: sub64_id mul64_id in64_iff)
  have a: "add64 (payloadOffset l) ((n_chunks n - 1) * 65552) = payloadOffset l + (n_chunks n - 1) * 65552"
    using nb b(2) assms(1) by (simp add: add64_id in64_iff sane_layout_def)
  have fin: "finalChunkOffset l (enc_size l n) = payloadOffset l + (n_chunks n - 1) * 65552"
    unfolding finalChunkOffset_def Let_def p c k a ..
  have "max 0 (n - 1) div 65536 = n_chunks n - 1"
  proof (cases "n = 0")
    case False
    then have "(n + 65535) div 65536 = (n - 1) div 65536 + 1"
      using div_add_self2 [of 65536 "n - 1"] by (simp add: algebra_simps)
    moreover have "0 \<le> (n - 1) div 65536" using False assms(2) by (simp add: pos_imp_zdiv_nonneg_iff)
    ultimately show ?thesis using False assms(2) by (simp add: n_chunks_def)
  qed (simp add: n_chunks_def)
  then have "finalChunkOffset l (enc_size l n) = chunk_at l (max 0 (n - 1))"
    by (simp add: fin chunk_at_def)
  moreover have "tagSize \<le> enc_size l n - finalChunkOffset l (enc_size l n)"
    "enc_size l n - finalChunkOffset l (enc_size l n) \<le> encChunkSize"
    unfolding fin using nb assms(2) by (auto simp: enc_size_def tagSize_def encChunkSize_def)
  ultimately show ?thesis by blast
qed

text \<open>
  The final chunk is where the last plaintext byte lies (chunk 0 of an empty object): it
  starts at a chunk boundary and holds at least a tag and at most one chunk, up to the end.
\<close>

theorem finalChunkOffset_last:
  assumes "sane_layout l" "0 \<le> n" "enc_size l n \<le> MaxInt64 - encChunkSize"
  shows "finalChunkOffset l (enc_size l n) = chunk_at l (max 0 (n - 1)) \<and>
    tagSize \<le> enc_size l n - finalChunkOffset l (enc_size l n) \<and>
    enc_size l n - finalChunkOffset l (enc_size l n) \<le> encChunkSize"
  using assms by (rule finalChunkOffset_eq)

theorem finalChunkOffset_last_witness:
  "finalChunkOffset \<lparr>payloadOffset = 200\<rparr> (enc_size \<lparr>payloadOffset = 200\<rparr> 65536) = 200"
proof -
  let ?l = "\<lparr>payloadOffset = 200\<rparr>"
  have "sane_layout ?l" "(0 :: int) \<le> 65536" "enc_size ?l 65536 \<le> MaxInt64 - encChunkSize"
    by (simp_all add: sane_layout_def enc_size_def n_chunks_def MaxInt64_def encChunkSize_def)
  from finalChunkOffset_last [OF this] show ?thesis by (simp add: chunk_at_def)
qed

end
