(* ===== verification/Go_Path.thy ===== *)
theory Go_Path
  imports Prelude
begin

text \<open>
  Package \<^verbatim>\<open>path\<close> of the Go standard library, as far as the program uses it: \<open>path_Clean\<close>,
  \<open>path_Join\<close>, \<open>path_Base\<close>, \<open>path_Dir\<close> and \<open>path_IsAbs\<close>. A path is processed segment by
  segment onto a stack, as \<^verbatim>\<open>path.Clean\<close> documents. The lemmas give the normal form of a cleaned
  path, idempotence, and how a join composes: the facts on which the confinement of keys rests.
  The platform is Unix, where \<^verbatim>\<open>filepath\<close> and \<^verbatim>\<open>path\<close> agree and \<^verbatim>\<open>filepath.ToSlash\<close> and
  \<^verbatim>\<open>filepath.FromSlash\<close> are the identity.
\<close>

section \<open>Definitions\<close>

definition path_IsAbs :: "string \<Rightarrow> bool" where
  "path_IsAbs p = (p \<noteq> '''' \<and> hd p = CHR ''/'')"

text \<open>One segment on the stack of kept segments, the last one on top; a leading \<open>..\<close> is kept
  only in a relative path.\<close>

definition cstep :: "bool \<Rightarrow> string list \<Rightarrow> string \<Rightarrow> string list" where
  "cstep rooted st seg =
     (if seg = '''' \<or> seg = ''.'' then st
      else if seg = ''..'' then
        (case st of
           [] \<Rightarrow> (if rooted then [] else [''..''])
         | t # st' \<Rightarrow> (if t = ''..'' then ''..'' # st else st'))
      else seg # st)"

definition path_segs :: "string \<Rightarrow> string list" where
  "path_segs p = rev (foldl (cstep (path_IsAbs p)) [] (Split (CHR ''/'') p))"

definition render :: "bool \<Rightarrow> string list \<Rightarrow> string" where
  "render rooted segs =
     (if rooted then CHR ''/'' # Join_str ''/'' segs
      else if segs = [] then ''.'' else Join_str ''/'' segs)"

definition path_Clean :: "string \<Rightarrow> string" where
  "path_Clean p = (if p = '''' then ''.'' else render (path_IsAbs p) (path_segs p))"

definition path_Join :: "string \<Rightarrow> string \<Rightarrow> string" where
  "path_Join a b =
     (if a = '''' \<and> b = '''' then ''''
      else if a = '''' then path_Clean b
      else path_Clean (a @ CHR ''/'' # b))"

definition path_Base :: "string \<Rightarrow> string" where
  "path_Base p =
     (if p = '''' then ''.''
      else let q = dropWhile (\<lambda>c. c = CHR ''/'') (rev p);
               b = rev (takeWhile (\<lambda>c. c \<noteq> CHR ''/'') q)
           in if b = '''' then ''/'' else b)"

definition path_Dir :: "string \<Rightarrow> string" where
  "path_Dir p = path_Clean (rev (dropWhile (\<lambda>c. c \<noteq> CHR ''/'') (rev p)))"

definition filepath_ToSlash :: "string \<Rightarrow> string" where
  "filepath_ToSlash p = p"

definition filepath_FromSlash :: "string \<Rightarrow> string" where
  "filepath_FromSlash p = p"

declare filepath_ToSlash_def [simp] filepath_FromSlash_def [simp]

lemmas path_eval [path_simps] =
  path_Clean_def path_Join_def path_segs_def path_IsAbs_def cstep_def render_def
  path_Base_def path_Dir_def

section \<open>Normal form of the segments\<close>

definition real_seg :: "string \<Rightarrow> bool" where
  "real_seg s \<longleftrightarrow> s \<noteq> '''' \<and> s \<noteq> ''.'' \<and> s \<noteq> ''..'' \<and> CHR ''/'' \<notin> set s"

definition norm_segs :: "bool \<Rightarrow> string list \<Rightarrow> bool" where
  "norm_segs rooted segs \<longleftrightarrow>
     (\<exists>n rs. segs = replicate n ''..'' @ rs \<and> (\<forall>s \<in> set rs. real_seg s) \<and> (rooted \<longrightarrow> n = 0))"

lemma norm_segsI:
  "(\<forall>s \<in> set rs. real_seg s) \<Longrightarrow> (rooted \<longrightarrow> n = 0) \<Longrightarrow> norm_segs rooted (replicate n ''..'' @ rs)"
  by (auto simp: norm_segs_def)

lemma cstep_norm:
  assumes "norm_segs r (rev st)" and "CHR ''/'' \<notin> set seg"
  shows "norm_segs r (rev (cstep r st seg))"
proof -
  from assms(1) obtain n rs where st: "rev st = replicate n ''..'' @ rs"
    and rs: "\<forall>s \<in> set rs. real_seg s" and n: "r \<longrightarrow> n = 0"
    by (auto simp: norm_segs_def)
  consider "seg = '''' \<or> seg = ''.''" | "seg = ''..''" | "real_seg seg"
    using assms(2) by (auto simp: real_seg_def)
  then show ?thesis
  proof cases
    case 1
    with assms(1) show ?thesis by (auto simp: cstep_def)
  next
    case 2
    show ?thesis
    proof (cases rs rule: rev_cases)
      case Nil
      with st have st': "st = replicate n ''..''"
        by (simp add: rev_swap)
      have "cstep r st seg = replicate (if r then 0 else Suc n) ''..''"
        using 2 n by (cases n) (auto simp: cstep_def st')
      then show ?thesis
        using norm_segsI [of "[]" r "if r then 0 else Suc n"] by simp
    next
      case (snoc rs' t)
      with st have "st = t # rev (replicate n ''..'' @ rs')"
        by (simp add: rev_swap)
      moreover have "t \<noteq> ''..''" using rs snoc by (simp add: real_seg_def)
      ultimately have "rev (cstep r st seg) = replicate n ''..'' @ rs'"
        using 2 by (simp add: cstep_def)
      then show ?thesis using rs snoc n norm_segsI by auto
    qed
  next
    case 3
    then have "rev (cstep r st seg) = replicate n ''..'' @ (rs @ [seg])"
      using st by (simp add: cstep_def real_seg_def)
    then show ?thesis using 3 rs n norm_segsI [of "rs @ [seg]" r n] by simp
  qed
qed

lemma foldl_cstep_norm:
  "norm_segs r (rev st) \<Longrightarrow> \<forall>s \<in> set segs. CHR ''/'' \<notin> set s \<Longrightarrow>
     norm_segs r (rev (foldl (cstep r) st segs))"
  by (induction segs arbitrary: st) (auto intro: cstep_norm)

lemma norm_path_segs: "norm_segs (path_IsAbs p) (path_segs p)"
proof -
  have "norm_segs (path_IsAbs p) (rev [])"
    using norm_segsI [of "[]" "path_IsAbs p" 0] by simp
  then show ?thesis
    unfolding path_segs_def by (rule foldl_cstep_norm) (auto dest: Split_elems)
qed

lemma norm_segs_no_slash: "norm_segs r segs \<Longrightarrow> \<forall>s \<in> set segs. CHR ''/'' \<notin> set s \<and> s \<noteq> ''''"
proof
  fix s
  assume "norm_segs r segs" "s \<in> set segs"
  then consider "s = ''..''" | "real_seg s"
    by (auto simp: norm_segs_def)
  then show "CHR ''/'' \<notin> set s \<and> s \<noteq> ''''"
    by cases (simp_all add: real_seg_def)
qed

lemma cstep_real: "real_seg s \<Longrightarrow> cstep r st s = s # st"
  by (simp add: cstep_def real_seg_def)

lemma cstep_Nil [simp]: "cstep r st '''' = st"
  by (simp add: cstep_def)

lemma foldl_cstep_reals:
  "\<forall>s \<in> set rs. real_seg s \<Longrightarrow> foldl (cstep r) st rs = rev rs @ st"
  by (induction rs arbitrary: st) (simp_all add: cstep_real)

lemma foldl_cstep_dotdots:
  "foldl (cstep False) (replicate m ''..'') (replicate n ''..'') = replicate (m + n) ''..''"
proof (induction n arbitrary: m)
  case (Suc n)
  have "cstep False (replicate m ''..'') ''..'' = replicate (Suc m) ''..''"
    by (cases m) (auto simp: cstep_def)
  with Suc [of "Suc m"] show ?case by simp
qed simp

lemma foldl_cstep_normal:
  assumes "norm_segs r segs"
  shows "foldl (cstep r) [] segs = rev segs"
proof -
  from assms obtain n rs where segs: "segs = replicate n ''..'' @ rs"
    and rs: "\<forall>s \<in> set rs. real_seg s" and n: "r \<longrightarrow> n = 0"
    by (auto simp: norm_segs_def)
  have "foldl (cstep r) [] (replicate n ''..'') = replicate n ''..''"
    using n foldl_cstep_dotdots [of 0 n] by (cases r) auto
  with rs show ?thesis
    by (simp add: segs foldl_cstep_reals)
qed

section \<open>Cleaned paths\<close>

lemma Split_slash_render:
  "norm_segs r segs \<Longrightarrow> segs \<noteq> [] \<Longrightarrow> Split (CHR ''/'') (Join_str ''/'' segs) = segs"
  by (rule Split_Join) (auto dest: norm_segs_no_slash)

lemma Join_str_hd:
  "segs \<noteq> [] \<Longrightarrow> hd segs \<noteq> '''' \<Longrightarrow>
     Join_str sep segs \<noteq> '''' \<and> hd (Join_str sep segs) = hd (hd segs)"
  by (cases segs rule: remdups_adj.cases) auto

lemma path_IsAbs_render:
  assumes "norm_segs r segs"
  shows "path_IsAbs (render r segs) = r"
proof (cases "r \<or> segs = []")
  case True
  then show ?thesis by (auto simp: render_def path_IsAbs_def)
next
  case False
  then have ne: "segs \<noteq> []" by simp
  then have "hd segs \<in> set segs" by simp
  with assms have "hd segs \<noteq> ''''" "CHR ''/'' \<notin> set (hd segs)"
    by (auto dest: norm_segs_no_slash)
  moreover from this have "hd (hd segs) \<noteq> CHR ''/''"
    by (metis list.set_sel(1))
  ultimately show ?thesis
    using False ne Join_str_hd [OF ne, of "''/''"] by (simp add: render_def path_IsAbs_def)
qed

lemma render_not_Nil: "norm_segs r segs \<Longrightarrow> render r segs \<noteq> ''''"
proof (cases "r \<or> segs = []")
  case False
  assume "norm_segs r segs"
  moreover from False have ne: "segs \<noteq> []" by simp
  ultimately have "hd segs \<noteq> ''''"
    using list.set_sel(1) [OF ne] by (auto dest: norm_segs_no_slash)
  with False ne show ?thesis
    using Join_str_hd [OF ne, of "''/''"] by (simp add: render_def)
qed (auto simp: render_def)

lemma path_segs_render:
  assumes "norm_segs r segs"
  shows "path_segs (render r segs) = segs"
proof -
  have abs: "path_IsAbs (render r segs) = r"
    by (rule path_IsAbs_render) fact
  show ?thesis
  proof (cases "segs = []")
    case True
    then show ?thesis
      unfolding path_segs_def abs by (simp add: render_def cstep_def)
  next
    case False
    with assms have "foldl (cstep r) [] (Split (CHR ''/'') (render r segs)) = foldl (cstep r) [] segs"
      by (simp add: render_def Split_slash_render)
    then show ?thesis
      unfolding path_segs_def abs using assms by (simp add: foldl_cstep_normal)
  qed
qed

lemma path_segs_Nil [simp]: "path_segs '''' = []"
  by (simp add: path_segs_def cstep_def)

lemma path_segs_Clean [simp]: "path_segs (path_Clean p) = path_segs p"
proof (cases "p = ''''")
  case False
  then show ?thesis
    by (simp add: path_Clean_def path_segs_render [OF norm_path_segs])
qed (simp add: path_Clean_def, simp add: path_segs_def cstep_def)

lemma path_IsAbs_Clean [simp]: "path_IsAbs (path_Clean p) = path_IsAbs p"
proof (cases "p = ''''")
  case False
  then show ?thesis
    by (simp add: path_Clean_def path_IsAbs_render [OF norm_path_segs])
qed (simp add: path_Clean_def path_IsAbs_def)

lemma path_Clean_not_Nil [simp]: "path_Clean p \<noteq> ''''"
  using norm_path_segs [of p] by (auto simp: path_Clean_def render_not_Nil)

lemma path_Clean_render: "path_Clean p = render (path_IsAbs p) (path_segs p)"
  by (simp add: path_Clean_def render_def path_IsAbs_def)

text \<open>Two paths clean to the same text exactly when they agree on rootedness and segments.\<close>

lemma path_Clean_eq_iff:
  "path_Clean p = path_Clean q \<longleftrightarrow> path_IsAbs p = path_IsAbs q \<and> path_segs p = path_segs q"
proof
  assume eq: "path_Clean p = path_Clean q"
  show "path_IsAbs p = path_IsAbs q \<and> path_segs p = path_segs q"
    using arg_cong [OF eq, of path_IsAbs] arg_cong [OF eq, of path_segs] by simp
qed (simp add: path_Clean_render)

lemma path_Clean_idem [simp]: "path_Clean (path_Clean p) = path_Clean p"
  by (simp add: path_Clean_eq_iff)

section \<open>Joining\<close>

lemma path_IsAbs_append: "a \<noteq> '''' \<Longrightarrow> path_IsAbs (a @ b) = path_IsAbs a"
  by (simp add: path_IsAbs_def)

lemma path_segs_slash:
  assumes "a \<noteq> ''''"
  shows "path_segs (a @ CHR ''/'' # b) =
    rev (foldl (cstep (path_IsAbs a)) (rev (path_segs a)) (Split (CHR ''/'') b))"
  using assms by (simp add: path_segs_def path_IsAbs_append Split_append_sep)

lemma dotdot_stays: "''..'' \<in> set st \<Longrightarrow> ''..'' \<in> set (foldl (cstep r) st segs)"
proof (induction segs arbitrary: st)
  case (Cons s segs)
  have "''..'' \<in> set (cstep r st s)"
    using Cons.prems by (cases st) (auto simp: cstep_def)
  then show ?case by (simp add: Cons.IH)
qed simp

text \<open>A relative path that never climbs above its start does the same on top of any stack.\<close>

lemma foldl_cstep_on_top:
  "''..'' \<notin> set (foldl (cstep False) hi segs) \<Longrightarrow>
     foldl (cstep r) (hi @ base) segs = foldl (cstep False) hi segs @ base"
proof (induction segs arbitrary: hi)
  case (Cons s segs)
  have hi: "''..'' \<notin> set hi"
    using Cons.prems dotdot_stays by blast
  have "cstep r (hi @ base) s = cstep False hi s @ base"
  proof (cases "s = ''..'' \<and> hi = []")
    case True
    then have "''..'' \<in> set (foldl (cstep False) (cstep False hi s) segs)"
      by (intro dotdot_stays) (simp add: cstep_def)
    with Cons.prems show ?thesis by simp
  next
    case False
    with hi show ?thesis by (cases hi) (auto simp: cstep_def)
  qed
  with Cons show ?case by simp
qed simp

definition stays_inside :: "string \<Rightarrow> bool" where
  "stays_inside k \<longleftrightarrow> \<not> path_IsAbs k \<and> ''..'' \<notin> set (path_segs k)"

lemma path_segs_Join_raw:
  "path_segs (path_Join a b) =
     (if a = '''' then path_segs b else path_segs (a @ CHR ''/'' # b))"
  by (simp add: path_Join_def)

lemma path_segs_Join:
  assumes "stays_inside k"
  shows "path_segs (path_Join base k) = path_segs base @ path_segs k"
proof (cases "base = ''''")
  case True
  then show ?thesis by (simp add: path_segs_Join_raw)
next
  case False
  let ?k = "foldl (cstep False) [] (Split (CHR ''/'') k)"
  from assms have k: "path_segs k = rev ?k" "''..'' \<notin> set ?k"
    by (auto simp: stays_inside_def path_segs_def)
  have "foldl (cstep (path_IsAbs base)) ([] @ rev (path_segs base)) (Split (CHR ''/'') k)
      = ?k @ rev (path_segs base)"
    by (rule foldl_cstep_on_top) (rule k)
  then show ?thesis
    using False by (simp add: path_segs_Join_raw path_segs_slash k)
qed

lemma path_IsAbs_Join: "base \<noteq> '''' \<Longrightarrow> path_IsAbs (path_Join base k) = path_IsAbs base"
  by (simp add: path_Join_def path_IsAbs_append)

lemma path_Clean_Join [simp]: "a \<noteq> '''' \<or> b \<noteq> '''' \<Longrightarrow> path_Clean (path_Join a b) = path_Join a b"
  by (auto simp: path_Join_def)

lemma path_Join_Nil_right: "a \<noteq> '''' \<Longrightarrow> path_Join a '''' = path_Clean a"
  by (simp add: path_Join_def path_Clean_eq_iff path_IsAbs_append path_segs_slash cstep_def)

lemma path_Join_Nil_left: "b \<noteq> '''' \<Longrightarrow> path_Join '''' b = path_Clean b"
  by (simp add: path_Join_def)

lemma path_Join_render:
  assumes "base \<noteq> ''''" and "stays_inside k"
  shows "path_Join base k = render (path_IsAbs base) (path_segs base @ path_segs k)"
proof -
  have "path_Join base k = path_Clean (path_Join base k)"
    using assms(1) by simp
  also have "\<dots> = render (path_IsAbs base) (path_segs base @ path_segs k)"
    unfolding path_Clean_render using assms by (simp add: path_IsAbs_Join path_segs_Join)
  finally show ?thesis .
qed

end
