(* ===== verification/Storager.thy ===== *)
theory Storager
  imports Go_Path
begin

text \<open>
  The \<^verbatim>\<open>Storager\<close> interface of \<^verbatim>\<open>storager.go\<close> and the data it exchanges. A storage is a method
  table (record \<open>storager\<close>) over handles \<open>'h\<close>, the receivers of the methods, and worlds \<open>'w\<close>.
  The locale \<open>storager_contract\<close> is the abstract specification every backend promises: a
  storage is a finite map from clean relative keys to contents, and each operation acts on that map.
  Backends discharge it by interpretation or sublocale; the helpers that work on any
  \<^verbatim>\<open>Storager\<close> are proved correct inside it.
\<close>

section \<open>Data\<close>

record ObjectStat =
  Name :: string
  LastModified :: int
  Exist :: bool
  Size :: int64
  ETag :: string

record CopyStat =
  Bytes :: int64
  Streamed :: bool
  Objects :: int64

definition zeroCopyStat :: CopyStat where
  "zeroCopyStat = \<lparr>Bytes = 0, Streamed = False, Objects = 0\<rparr>"

record CopyOptions =
  Concurrency :: int64
  PartSize :: int64
  ClientSideFallback :: bool
  PollInterval :: int64
  PollMaxInterval :: int64

record CopyAllOptions =
  ObjectConcurrency :: int64
  PartConcurrency :: int64
  AllPartSize :: int64
  AllClientSideFallback :: bool
  AllPollInterval :: int64
  AllPollMaxInterval :: int64

text \<open>A functional option mutates the options it is given; \<open>None\<close> is a nil option.\<close>

type_synonym CopyOption = "(CopyOptions \<Rightarrow> CopyOptions) option"

type_synonym CopyAllOption = "(CopyAllOptions \<Rightarrow> CopyAllOptions) option"

section \<open>The method table\<close>

text \<open>
  \<open>PutObject\<close> also reports how many bytes it read from its body, which a caller that
  counts the reads observes. \<open>CopyAll\<close> returns its statistics together with an error, if any.
\<close>

record ('h, 'w) storager =
  GetObject :: "'h \<Rightarrow> 'w ctx \<Rightarrow> string \<Rightarrow> ('w, reader) io"
  GetObjectRange :: "'h \<Rightarrow> 'w ctx \<Rightarrow> string \<Rightarrow> int64 \<Rightarrow> int64 \<Rightarrow> ('w, reader) io"
  PutObject :: "'h \<Rightarrow> 'w ctx \<Rightarrow> string \<Rightarrow> reader \<Rightarrow> ('w, nat) io"
  Delete :: "'h \<Rightarrow> 'w ctx \<Rightarrow> string list \<Rightarrow> ('w, unit) io"
  DeleteAll :: "'h \<Rightarrow> 'w ctx \<Rightarrow> string \<Rightarrow> ('w, unit) io"
  List_op :: "'h \<Rightarrow> 'w ctx \<Rightarrow> string \<Rightarrow> ('w, ObjectStat list) io"
  Stat :: "'h \<Rightarrow> string \<Rightarrow> ('w, ObjectStat) io"
  Exists :: "'h \<Rightarrow> 'w ctx \<Rightarrow> string \<Rightarrow> ('w, bool) io"
  GetCwd :: "'h \<Rightarrow> string"
  Dirname :: "'h \<Rightarrow> string"
  ListDir :: "'h \<Rightarrow> 'w ctx \<Rightarrow> ('w, string list \<times> 'h list) io"
  SubStorage :: "'h \<Rightarrow> string \<Rightarrow> bool \<Rightarrow> error + 'h"
  Copy :: "'h \<Rightarrow> 'w ctx \<Rightarrow> string \<Rightarrow> string \<Rightarrow> CopyOption list \<Rightarrow> ('w, CopyStat) io"
  CopyAll :: "'h \<Rightarrow> 'w ctx \<Rightarrow> string \<Rightarrow> string \<Rightarrow> CopyAllOption list \<Rightarrow>
    'w \<Rightarrow> (CopyStat \<times> error option) \<times> 'w"
  Ping :: "'h \<Rightarrow> 'w ctx \<Rightarrow> ('w, unit) io"
  Close :: "'h \<Rightarrow> ('w, unit) io"

section \<open>Clean relative keys\<close>

text \<open>
  A key the guard hands to a backend: relative, already clean, and not climbing out
  (\<open>key_ok\<close> is decided on the text, \<open>key_ok_iff\<close> reads it off the segments).
\<close>

definition key_ok :: "string \<Rightarrow> bool" where
  "key_ok k \<longleftrightarrow> k \<noteq> '''' \<and> \<not> path_IsAbs k \<and> path_Clean k = k \<and> k \<noteq> ''.'' \<and> k \<noteq> ''..'' \<and> \<not> HasPrefix k ''../''"

text \<open>A cleaned relative path starts with \<open>..\<close> exactly when a \<open>..\<close> survived the cleaning.\<close>

lemma leading_dotdot_iff:
  assumes "norm_segs False segs"
  shows "render False segs = ''..'' \<or> HasPrefix (render False segs) ''../'' \<longleftrightarrow> ''..'' \<in> set segs"
proof -
  from assms obtain n rs where segs: "segs = replicate n ''..'' @ rs"
    and rs: "\<forall>s \<in> set rs. real_seg s"
    by (auto simp: norm_segs_def)
  show ?thesis
  proof (cases n)
    case 0
    then have no: "''..'' \<notin> set segs"
      using rs by (auto simp: segs real_seg_def)
    have "path_segs (render False segs) = segs"
      using assms by (rule path_segs_render)
    moreover have "''..'' \<in> set (path_segs (''..'' @ CHR ''/'' # t))" for t
      by (subst path_segs_slash) (simp_all add: dotdot_stays path_segs_def cstep_def path_IsAbs_def)
    moreover have "path_segs ''..'' = [''..'']"
      by (simp add: path_segs_def cstep_def path_IsAbs_def)
    ultimately show ?thesis
      using no by (auto simp: HasPrefix_iff)
  next
    case (Suc m)
    then have "segs = ''..'' # (replicate m ''..'' @ rs)" (is "_ = _ # ?ss")
      by (simp add: segs)
    then show ?thesis
      by (cases ?ss) (simp_all add: render_def)
  qed
qed

lemma escapes_Clean_iff:
  assumes "\<not> path_IsAbs k"
  shows "path_Clean k = ''..'' \<or> HasPrefix (path_Clean k) ''../'' \<longleftrightarrow> ''..'' \<in> set (path_segs k)"
  using leading_dotdot_iff [of "path_segs k"] norm_path_segs [of k] assms
  by (simp add: path_Clean_render)

lemma path_Clean_dot_iff: "path_Clean k = ''.'' \<longleftrightarrow> \<not> path_IsAbs k \<and> path_segs k = []"
proof
  assume eq: "path_Clean k = ''.''"
  show "\<not> path_IsAbs k \<and> path_segs k = []"
    using arg_cong [OF eq, of path_IsAbs] arg_cong [OF eq, of path_segs]
    by (simp add: path_segs_def [of "''.''"] cstep_def path_IsAbs_def [of "''.''"])
qed (simp add: path_Clean_render render_def)

lemma key_ok_iff:
  "key_ok k \<longleftrightarrow> path_Clean k = k \<and> stays_inside k \<and> path_segs k \<noteq> []"
  using escapes_Clean_iff [of k] path_Clean_dot_iff [of k] path_Clean_not_Nil [of k]
  unfolding key_ok_def stays_inside_def by auto

lemma key_okD:
  assumes "key_ok k"
  shows "stays_inside k" "path_Clean k = k" "path_segs k \<noteq> []" "k \<noteq> ''''"
  using assms key_ok_iff [of k] by (simp_all add: key_ok_def)

lemma stays_inside_Nil [simp]: "stays_inside ''''"
  by (simp add: stays_inside_def path_IsAbs_def)

lemma key_ok_not_abs: "key_ok k \<Longrightarrow> \<not> path_IsAbs k"
  by (simp add: key_ok_def)

lemma key_ok_eqI:
  assumes "key_ok k" "key_ok l" and "path_segs k = path_segs l"
  shows "k = l"
proof -
  have "path_Clean k = path_Clean l"
    using assms by (simp add: path_Clean_eq_iff key_ok_not_abs)
  then show ?thesis using assms by (simp add: key_okD)
qed

lemma key_ok_real:
  assumes "key_ok k" and "s \<in> set (path_segs k)"
  shows "real_seg s"
proof -
  have "norm_segs False (path_segs k)" "''..'' \<notin> set (path_segs k)"
    using norm_path_segs [of k] key_okD(1) [OF assms(1)] by (auto simp: stays_inside_def)
  then show ?thesis using assms(2) by (auto simp: norm_segs_def)
qed

lemma key_of_segs:
  assumes "rest \<noteq> []" "\<forall>s \<in> set rest. real_seg s"
  shows "key_ok (render False rest)" "path_segs (render False rest) = rest"
proof -
  have norm: "norm_segs False rest" using assms norm_segsI [of rest False 0] by simp
  show segs: "path_segs (render False rest) = rest" using norm by (rule path_segs_render)
  have "\<not> path_IsAbs (render False rest)" using path_IsAbs_render [OF norm] by simp
  then show "key_ok (render False rest)"
    using assms segs path_Clean_render [of "render False rest"]
    by (auto simp: key_ok_iff stays_inside_def real_seg_def)
qed

text \<open>Joining a clean key onto a base is a concatenation of segments, so it is injective.\<close>

lemma path_Join_inj:
  assumes "key_ok k" "key_ok l" and "path_Join base k = path_Join base l"
  shows "k = l"
proof -
  have "path_segs base @ path_segs k = path_segs base @ path_segs l"
    using arg_cong [OF assms(3), of path_segs] assms(1,2) by (simp only: path_segs_Join key_okD)
  then have "path_segs k = path_segs l" by simp
  with assms show ?thesis by (simp add: key_ok_eqI)
qed

lemma path_Join_key_ok:
  assumes "stays_inside p" and "key_ok k"
  shows "key_ok (path_Join p k)"
proof -
  have clean: "path_Clean (path_Join p k) = path_Join p k"
    using assms by (simp add: key_okD)
  have abs: "\<not> path_IsAbs (path_Join p k)"
    using assms by (cases "p = ''''")
      (simp_all add: path_IsAbs_Join path_Join_Nil_left stays_inside_def key_ok_not_abs key_okD)
  have "path_segs (path_Join p k) = path_segs p @ path_segs k"
    using assms by (simp add: path_segs_Join key_okD)
  moreover have "''..'' \<notin> set (path_segs p)" "''..'' \<notin> set (path_segs k)"
    using assms key_okD(1) [OF assms(2)] by (simp_all add: stays_inside_def)
  ultimately show ?thesis
    using abs key_okD(3) [OF assms(2)] by (simp add: key_ok_iff [of "path_Join p k"] stays_inside_def clean)
qed

lemma path_Join_assoc:
  assumes "key_ok k" "stays_inside p"
  shows "path_Join base (path_Join p k) = path_Join (path_Join base p) k"
proof -
  have pk: "key_ok (path_Join p k)" using assms by (rule path_Join_key_ok [rotated])
  show ?thesis
  proof (cases "base = '''' \<and> p = ''''")
    case True
    moreover have "path_Join '''' '''' = ''''" by (simp add: path_Join_def)
    ultimately show ?thesis using assms by (simp add: path_Join_Nil_left key_okD)
  next
    case False
    then have ne: "path_Join base p \<noteq> ''''" by (auto simp: path_Join_def)
    have abs: "path_IsAbs (path_Join base (path_Join p k)) = path_IsAbs (path_Join (path_Join base p) k)"
    proof (cases "base = ''''")
      case True
      with False have "path_Join base p = path_Clean p" by (simp add: path_Join_Nil_left)
      with True False pk ne show ?thesis
        by (simp add: path_Join_Nil_left [OF key_okD(4) [OF pk]] path_IsAbs_Join)
    qed (use ne in \<open>simp add: path_IsAbs_Join\<close>)
    have "path_segs (path_Join base (path_Join p k)) = path_segs (path_Join (path_Join base p) k)"
      using pk assms by (simp add: path_segs_Join key_okD)
    with abs have "path_Clean (path_Join base (path_Join p k)) = path_Clean (path_Join (path_Join base p) k)"
      by (simp only: path_Clean_eq_iff)
    then show ?thesis
      using key_okD(4) [OF pk] key_okD(4) [OF assms(1)] by simp
  qed
qed

section \<open>The contract\<close>

text \<open>
  \<open>objs h w\<close> is the content of the storage as seen from handle \<open>h\<close>: clean relative keys to
  bytes. A failed write may leave other keys' contents only as they were; it may add keys (a
  leftover temporary file), never change or remove one it was not asked to write.
\<close>

locale storager_contract =
  fixes st :: "('h, 'w) storager"
    and objs :: "'h \<Rightarrow> 'w \<Rightarrow> string \<rightharpoonup> bytes"
    and wf :: "'h \<Rightarrow> 'w \<Rightarrow> bool"
  assumes get_frame: "wf h w \<Longrightarrow> key_ok k \<Longrightarrow> GetObject st h ctx k w = (res, w') \<Longrightarrow>
      objs h' w' = objs h' w \<and> wf h w'"
    and get_content: "wf h w \<Longrightarrow> key_ok k \<Longrightarrow> objs h w k = Some b \<Longrightarrow>
      GetObject st h ctx k w = (Inr r, w') \<Longrightarrow> rd_end r = None \<Longrightarrow> rd_bytes r = b"
    and exists_frame: "wf h w \<Longrightarrow> key_ok k \<Longrightarrow> Exists st h ctx k w = (found, w') \<Longrightarrow>
      objs h' w' = objs h' w \<and> wf h w'"
    and exists_object: "wf h w \<Longrightarrow> key_ok k \<Longrightarrow> Exists st h ctx k w = (Inr False, w') \<Longrightarrow>
      objs h w k = None"
    and put_ok: "wf h w \<Longrightarrow> key_ok k \<Longrightarrow> PutObject st h ctx k body w = (Inr n, w') \<Longrightarrow>
      rd_end body = None \<and> n = length (rd_bytes body) \<and>
      objs h w' = (objs h w)(k \<mapsto> rd_bytes body) \<and> wf h w'"
    and put_err: "wf h w \<Longrightarrow> key_ok k \<Longrightarrow> PutObject st h ctx k body w = (Inl e, w') \<Longrightarrow>
      (objs h w)(k := None) \<subseteq>\<^sub>m objs h w' \<and> wf h w'"
    and copy_ok: "wf h w \<Longrightarrow> key_ok s \<Longrightarrow> key_ok d \<Longrightarrow> Copy st h ctx s d opts w = (Inr c, w') \<Longrightarrow>
      \<exists>b. objs h w s = Some b \<and> objs h w' = (objs h w)(d \<mapsto> b) \<and> wf h w'"
    and copy_err: "wf h w \<Longrightarrow> key_ok s \<Longrightarrow> key_ok d \<Longrightarrow> Copy st h ctx s d opts w = (Inl e, w') \<Longrightarrow>
      (objs h w)(d := None) \<subseteq>\<^sub>m objs h w' \<and> wf h w'"
    and list_frame: "wf h w \<Longrightarrow> stays_inside p \<Longrightarrow> List_op st h ctx p w = (listing, w') \<Longrightarrow>
      objs h' w' = objs h' w \<and> wf h w'"
    and list_content: "wf h w \<Longrightarrow> stays_inside p \<Longrightarrow> List_op st h ctx p w = (Inr os, w') \<Longrightarrow>
      sorted_wrt (<) (map Name os) \<and>
      (\<forall>k. key_ok k \<longrightarrow> (objs h w (path_Join p k) \<noteq> None \<longleftrightarrow> k \<in> Name ` set os)) \<and>
      (\<forall>x \<in> set os. Exist x \<and> key_ok (Name x))"

text \<open>
  What a storage that knows the sizes of its objects promises beyond: sizes and copied bytes are
  those of the contents (a copy that counts none left a destination that already held them), and a
  range is the slice, clamped to the end.
\<close>

definition clamped :: "int64 \<Rightarrow> int64 \<Rightarrow> bytes \<Rightarrow> bytes" where
  "clamped off len b = (if len < 0 then drop (nat off) b else take (nat len) (drop (nat off) b))"

locale sized_contract = storager_contract +
  assumes copy_bytes: "wf h w \<Longrightarrow> key_ok s \<Longrightarrow> key_ok d \<Longrightarrow> Copy st h ctx s d opts w = (Inr c, w') \<Longrightarrow>
      objs h w s = Some b \<Longrightarrow> Bytes c = wrap64 (int (length b)) \<or> Bytes c = 0 \<and> objs h w d = Some b"
    and list_size: "wf h w \<Longrightarrow> stays_inside p \<Longrightarrow> List_op st h ctx p w = (Inr os, w') \<Longrightarrow> x \<in> set os \<Longrightarrow>
      objs h w (path_Join p (Name x)) = Some b \<Longrightarrow> Size x = int (length b)"
    and stat_frame: "wf h w \<Longrightarrow> key_ok k \<Longrightarrow> Stat st h k w = (info, w') \<Longrightarrow>
      objs h' w' = objs h' w \<and> wf h w'"
    and stat_object: "wf h w \<Longrightarrow> key_ok k \<Longrightarrow> objs h w k = Some b \<Longrightarrow> Stat st h k w = (Inr si, w') \<Longrightarrow>
      Exist si \<and> Size si = int (length b)"
    and range_frame: "wf h w \<Longrightarrow> key_ok k \<Longrightarrow> GetObjectRange st h ctx k off len w = (res, w') \<Longrightarrow>
      objs h' w' = objs h' w \<and> wf h w'"
    and range_content: "wf h w \<Longrightarrow> key_ok k \<Longrightarrow> in64 len \<Longrightarrow> objs h w k = Some b \<Longrightarrow>
      GetObjectRange st h ctx k off len w = (Inr r, w') \<Longrightarrow>
      0 \<le> off \<and> len \<noteq> 0 \<and> off < int (length b) \<and> (rd_end r = None \<longrightarrow> rd_bytes r = clamped off len b)"

end
