(* ===== verification/Range_Source.thy ===== *)
theory Range_Source
  imports Layout Storager
begin

text \<open>
  \<^verbatim>\<open>encrypted/range.go\<close>: the ciphertext source of a range read. A small object is read whole; of
  a large one the header and the final chunk are fetched and the chunks of the range are one forward
  stream. The read loop is a \<open>partial_function\<close> (\<open>None\<close> is a loop that never returns).
  Shown: a source opened on an object serves every read of age's order (the header, the final chunk,
  then the chunks forward) exactly as the whole ciphertext would, in as many steps as it takes, and
  its memory and requests are bounded.
\<close>

section \<open>The forward stream\<close>

text \<open>
  \<open>rb_left\<close> is what the response body still delivers and \<open>rb_end\<close> how it then ends
  (\<open>None\<close> is \<^verbatim>\<open>io.EOF\<close>); \<open>rb_err\<close> is the failure \<^verbatim>\<open>rangeBody\<close> remembers.
\<close>

record rangeBody =
  rb_left :: bytes
  rb_end :: "error option"
  rb_err :: "error option"
  rb_close :: "error option"

definition open_body :: "reader \<Rightarrow> rangeBody" where
  "open_body r = \<lparr>rb_left = rd_bytes r, rb_end = rd_end r, rb_err = None, rb_close = rd_close r\<rparr>"

text \<open>Reading \<open>n\<close> bytes in full; a body that ends first is short and its own failure is kept.\<close>

definition rb_read :: "nat \<Rightarrow> rangeBody \<Rightarrow> bytes \<times> bool \<times> rangeBody" where
  "rb_read n b =
     (if n \<le> length (rb_left b) then (take n (rb_left b), True, b\<lparr>rb_left := drop n (rb_left b)\<rparr>)
      else (rb_left b, False,
        b\<lparr>rb_left := [],
          rb_err := (case rb_end b of
             None \<Rightarrow> rb_err b
           | Some e \<Rightarrow> if errors_Is e EOF then rb_err b else Some e)\<rparr>))"

section \<open>The chunk source\<close>

record chunkSource =
  cs_size :: int64
  cs_payloadOffset :: int64
  cs_tailStart :: int64
  cs_streamEnd :: int64
  cs_head :: bytes
  cs_tail :: bytes
  cs_stream :: "rangeBody option"
  cs_pos :: int64
  cs_err :: "error option"

definition wholeObjectSize :: int64 where "wholeObjectSize = 1048576"

definition headerReadSize :: int64 where "headerReadSize = 4096"

definition cs_fail :: "error \<Rightarrow> chunkSource \<Rightarrow> error \<times> chunkSource" where
  "cs_fail err c = (err, c\<lparr>cs_err := Some err\<rparr>)"

definition failRead :: "rangeBody \<Rightarrow> chunkSource \<Rightarrow> error \<times> chunkSource" where
  "failRead b c =
     (case rb_err b of
        Some e \<Rightarrow> cs_fail e c
      | None \<Rightarrow> (Errorf ''read'' [ErrUnexpectedEOF], c))"

definition readStream :: "nat \<Rightarrow> int64 \<Rightarrow> chunkSource \<Rightarrow> bytes \<times> error option \<times> chunkSource" where
  "readStream len at c =
     (case cs_stream c of
        None \<Rightarrow> (let (e, c') = cs_fail (Errorf ''read outside the stream'' [errBackwardRead]) c in ([], Some e, c'))
      | Some b \<Rightarrow>
          if at < cs_pos c \<or> at \<ge> cs_streamEnd c then
            (let (e, c') = cs_fail (Errorf ''read outside the stream'' [errBackwardRead]) c in ([], Some e, c'))
          else
            let skip = sub64 at (cs_pos c);
                (dropped, ok1, b1) = (if skip > 0 then rb_read (nat skip) b else ([], True, b));
                c1 = c\<lparr>cs_stream := Some b1\<rparr>
            in if \<not> ok1 then (let (e, c') = failRead b1 c1 in ([], Some e, c'))
               else
                 let want = min len (nat (sub64 (cs_streamEnd c) at));
                     (data, ok2, b2) = rb_read want b1;
                     c2 = c1\<lparr>cs_stream := Some b2, cs_pos := add64 at (int (length data))\<rparr>
                 in if \<not> ok2 then (let (e, c') = failRead b2 c2 in (data, Some e, c'))
                    else (data, None, c2))"

text \<open>
  \<^verbatim>\<open>copy(p[n:], buf[i:])\<close> out of a buffer; slicing past its end panics.
\<close>

definition copy_from :: "nat \<Rightarrow> bytes \<Rightarrow> int64 \<Rightarrow> bytes \<times> error option" where
  "copy_from len buf i =
     (if i < 0 \<or> int (length buf) < i then ([], Some (ErrorString ''slice bounds out of range''))
      else (take len (drop (nat i) buf), None))"

partial_function (option) ReadAt_loop ::
  "nat \<Rightarrow> int64 \<Rightarrow> bytes \<Rightarrow> chunkSource \<Rightarrow> (bytes \<times> error option \<times> chunkSource) option" where
  "ReadAt_loop len off got c =
     (if len \<le> length got then Some (got, None, c)
      else
        let at = add64 off (int (length got)); room = len - length got in
        if at \<ge> cs_size c then Some (got, Some EOF, c)
        else
          let step = (if at \<ge> cs_tailStart c then
                        (case copy_from room (cs_tail c) (sub64 at (cs_tailStart c)) of (d, e) \<Rightarrow> (d, e, c))
                      else if at < cs_payloadOffset c then
                        (case copy_from room (cs_head c) at of (d, e) \<Rightarrow> (d, e, c))
                      else readStream room at c)
          in case fst (snd step) of
               Some e \<Rightarrow> Some (got @ fst step, Some e, snd (snd step))
             | None \<Rightarrow> ReadAt_loop len off (got @ fst step) (snd (snd step)))"

definition chunk_ReadAt :: "chunkSource \<Rightarrow> nat \<Rightarrow> int64 \<Rightarrow> (bytes \<times> error option \<times> chunkSource) option" where
  "chunk_ReadAt c len off = ReadAt_loop len off [] c"

definition chunk_Close :: "chunkSource \<Rightarrow> error option" where
  "chunk_Close c = (case cs_stream c of None \<Rightarrow> None | Some b \<Rightarrow> rb_close b)"

section \<open>Sources\<close>

datatype rangeSource = Whole bytes | Chunks chunkSource

text \<open>\<^verbatim>\<open>bytes.Reader.ReadAt\<close>.\<close>

definition whole_ReadAt :: "bytes \<Rightarrow> nat \<Rightarrow> int64 \<Rightarrow> bytes \<times> error option" where
  "whole_ReadAt b len off =
     (if off < 0 then ([], Some (ErrorString ''bytes.Reader.ReadAt: negative offset''))
      else if int (length b) \<le> off then ([], Some EOF)
      else let d = take len (drop (nat off) b) in
        (d, if length d < len then Some EOF else None))"

primrec ReadAt :: "rangeSource \<Rightarrow> nat \<Rightarrow> int64 \<Rightarrow> (bytes \<times> error option \<times> rangeSource) option" where
  "ReadAt (Whole b) len off = (case whole_ReadAt b len off of (d, e) \<Rightarrow> Some (d, e, Whole b))"
| "ReadAt (Chunks c) len off =
     (case chunk_ReadAt c len off of None \<Rightarrow> None | Some (d, e, c') \<Rightarrow> Some (d, e, Chunks c'))"

primrec sourceErr :: "rangeSource \<Rightarrow> error option" where
  "sourceErr (Whole b) = None"
| "sourceErr (Chunks c) = cs_err c"

primrec source_Close :: "rangeSource \<Rightarrow> error option" where
  "source_Close (Whole b) = None"
| "source_Close (Chunks c) = chunk_Close c"

text \<open>\<^verbatim>\<open>io.ReadAll\<close>; a failing close is only logged.\<close>

definition readAll :: "reader \<Rightarrow> error + bytes" where
  "readAll r = (case rd_end r of None \<Rightarrow> Inr (rd_bytes r) | Some e \<Rightarrow> Inl e)"

definition readWholeSource :: "('h, 'w) storager \<Rightarrow> 'h \<Rightarrow> 'w ctx \<Rightarrow> string \<Rightarrow> ('w, rangeSource) io" where
  "readWholeSource st h ctx key =
     bindIO (GetObject st h ctx key) (\<lambda>body.
       case readAll body of
         Inl err \<Rightarrow> throw (Errorf ''read'' [err])
       | Inr data \<Rightarrow> ret (Whole data))"

definition fetch :: "('h, 'w) storager \<Rightarrow> 'h \<Rightarrow> 'w ctx \<Rightarrow> string \<Rightarrow> int64 \<Rightarrow> int64 \<Rightarrow> ('w, bytes) io" where
  "fetch st h ctx key off len =
     tryIO (GetObjectRange st h ctx key off len) (\<lambda>r. case r of
         Inl err \<Rightarrow>
           if errors_Is err ErrInvalidRange then throw (Errorf ''read'' [ErrCorruptObject, err])
           else throw (Errorf ''read'' [err])
       | Inr body \<Rightarrow>
           (case readAll body of
              Inl err \<Rightarrow> throw (Errorf ''read'' [err])
            | Inr data \<Rightarrow>
                if int (length data) \<noteq> len then throw (Errorf ''read'' [ErrCorruptObject])
                else ret data))"

definition openChunkSource ::
  "('h, 'w) storager \<Rightarrow> 'h \<Rightarrow> layout \<Rightarrow> 'w ctx \<Rightarrow> string \<Rightarrow> int64 \<Rightarrow> int64 \<Rightarrow> int64 \<Rightarrow> ('w, rangeSource) io" where
  "openChunkSource st h l ctx key encrypted off end =
     (let (bodyStart, bodyEnd) = chunkSpan l off end encrypted;
          tailStart = finalChunkOffset l encrypted in
      bindIO (fetch st h ctx key 0 headerReadSize) (\<lambda>head.
      bindIO (fetch st h ctx key tailStart (sub64 encrypted tailStart)) (\<lambda>tail.
        let c = \<lparr>cs_size = encrypted, cs_payloadOffset = payloadOffset l, cs_tailStart = tailStart,
                 cs_streamEnd = min bodyEnd tailStart, cs_head = head, cs_tail = tail,
                 cs_stream = None, cs_pos = bodyStart, cs_err = None\<rparr>
        in if bodyStart < cs_streamEnd c then
             bindIO (GetObjectRange st h ctx key bodyStart (sub64 (cs_streamEnd c) bodyStart)) (\<lambda>stream.
               ret (Chunks (c\<lparr>cs_stream := Some (open_body stream)\<rparr>)))
           else ret (Chunks c))))"

definition openRangeSource ::
  "('h, 'w) storager \<Rightarrow> 'h \<Rightarrow> layout \<Rightarrow> 'w ctx \<Rightarrow> string \<Rightarrow> int64 \<Rightarrow> int64 \<Rightarrow> int64 \<Rightarrow> ('w, rangeSource) io" where
  "openRangeSource st h l ctx key encrypted off end =
     (if encrypted \<le> wholeObjectSize then readWholeSource st h ctx key
      else openChunkSource st h l ctx key encrypted off end)"

section \<open>Reads in age's order\<close>

declare ReadAt_loop.simps [code]

definition ct_slice :: "bytes \<Rightarrow> int \<Rightarrow> nat \<Rightarrow> bytes" where
  "ct_slice ct off len = take len (drop (nat off) ct)"

text \<open>A source that holds what an object of ciphertext \<open>ct\<close> has where the source says it is.\<close>

definition chunk_ok :: "bytes \<Rightarrow> chunkSource \<Rightarrow> bool" where
  "chunk_ok ct c \<longleftrightarrow>
     cs_size c = int (length ct) \<and> int (length ct) \<le> MaxInt64 \<and> 4096 \<le> length ct \<and>
     0 \<le> cs_payloadOffset c \<and> cs_payloadOffset c \<le> 4096 \<and> cs_head c = take 4096 ct \<and>
     cs_payloadOffset c \<le> cs_tailStart c \<and> cs_tailStart c < cs_size c \<and>
     cs_tail c = drop (nat (cs_tailStart c)) ct \<and> cs_streamEnd c \<le> cs_tailStart c \<and>
     (cs_stream c = None \<longrightarrow> cs_streamEnd c \<le> cs_pos c) \<and>
     (\<forall>b. cs_stream c = Some b \<longrightarrow> cs_payloadOffset c \<le> cs_pos c \<and> cs_pos c \<le> cs_streamEnd c \<and>
        rb_left b = ct_slice ct (cs_pos c) (nat (cs_streamEnd c - cs_pos c)))"

text \<open>
  The reads age makes: of the header, of the final chunk, or forward in the stream (and out of it
  only into the final chunk), given where the stream stands.
\<close>

definition in_order :: "chunkSource \<Rightarrow> int64 \<Rightarrow> nat \<Rightarrow> int64 \<Rightarrow> bool" where
  "in_order c pos len off \<longleftrightarrow>
     0 < len \<and> 0 \<le> off \<and> off + int len \<le> MaxInt64 \<and>
     (cs_tailStart c \<le> off \<or>
      off < cs_payloadOffset c \<and> off + int len \<le> headerReadSize \<or>
      cs_payloadOffset c \<le> off \<and> pos \<le> off \<and> off < cs_streamEnd c \<and>
        (off + int len \<le> cs_streamEnd c \<or> cs_streamEnd c = cs_tailStart c))"

definition next_pos :: "chunkSource \<Rightarrow> int64 \<Rightarrow> nat \<Rightarrow> int64 \<Rightarrow> int64" where
  "next_pos c pos len off =
     (if cs_payloadOffset c \<le> off \<and> off < cs_tailStart c then min (off + int len) (cs_streamEnd c) else pos)"

lemma length_slice: "0 \<le> off \<Longrightarrow> length (ct_slice ct off len) = min len (length ct - nat off)"
  by (simp add: ct_slice_def)

lemma slice_append:
  assumes "0 \<le> off" "k \<le> len"
  shows "ct_slice ct off k @ ct_slice ct (off + int k) (len - k) = ct_slice ct off len"
proof -
  have "take len (drop (nat off) ct) = take k (drop (nat off) ct) @ take (len - k) (drop k (drop (nat off) ct))"
    using assms(2) by (metis le_add_diff_inverse take_add)
  moreover have "drop k (drop (nat off) ct) = drop (nat (off + int k)) ct"
    using assms(1) by (simp add: nat_add_distrib add.commute)
  ultimately show ?thesis by (simp add: ct_slice_def)
qed

lemma whole_ReadAt_slice:
  assumes "0 \<le> off" "0 < len"
  shows "whole_ReadAt ct len off = (ct_slice ct off len, if int (length ct) < off + int len then Some EOF else None)"
proof (cases "int (length ct) \<le> off")
  case True
  then have "ct_slice ct off len = []" by (simp add: ct_slice_def)
  with True assms show ?thesis by (simp add: whole_ReadAt_def)
next
  case False
  then have "length (ct_slice ct off len) < len \<longleftrightarrow> int (length ct) < off + int len"
    using assms by (auto simp: length_slice)
  with False assms show ?thesis by (simp add: whole_ReadAt_def ct_slice_def Let_def)
qed

lemma tail_loop:
  assumes c: "chunk_ok ct c" and off: "0 \<le> off" "off + int len \<le> MaxInt64"
    and at: "cs_tailStart c \<le> off + int (length got)" and got: "length got < len"
  shows "ReadAt_loop len off got c =
    Some (got @ ct_slice ct (off + int (length got)) (len - length got),
      if int (length ct) < off + int len then Some EOF else None, c)"
proof -
  let ?at = "off + int (length got)" and ?room = "len - length got"
  from c have size: "cs_size c = int (length ct)" "int (length ct) \<le> 9223372036854775807"
    and tail: "cs_tail c = drop (nat (cs_tailStart c)) ct" "0 \<le> cs_tailStart c" "cs_tailStart c < cs_size c"
    by (auto simp: chunk_ok_def MaxInt64_def)
  have at64: "add64 off (int (length got)) = ?at"
    using off got by (intro add64_id) (simp add: in64_iff MaxInt64_def)
  show ?thesis
  proof (cases "cs_size c \<le> ?at")
    case True
    then have "ct_slice ct ?at ?room = []" using size by (simp add: ct_slice_def)
    moreover have "int (length ct) < off + int len" using True size got by simp
    ultimately show ?thesis
      using got True by (subst ReadAt_loop.simps) (simp add: at64 Let_def)
  next
    case False
    have sub: "sub64 ?at (cs_tailStart c) = ?at - cs_tailStart c"
      using False size tail at by (intro sub64_id) (simp add: in64_iff)
    have idx: "nat (?at - cs_tailStart c) + nat (cs_tailStart c) = nat ?at"
      using at tail(2) by simp
    have data: "copy_from ?room (cs_tail c) (?at - cs_tailStart c) = (ct_slice ct ?at ?room, None)"
      using at False size tail by (simp add: copy_from_def ct_slice_def idx)
    let ?got = "got @ ct_slice ct ?at ?room"
    have step: "ReadAt_loop len off got c = ReadAt_loop len off ?got c"
      using got False at by (subst ReadAt_loop.simps) (simp add: at64 Let_def sub data)
    have len: "length (ct_slice ct ?at ?room) = min ?room (length ct - nat ?at)"
      using off by (intro length_slice) simp
    show ?thesis
    proof (cases "int (length ct) < off + int len")
      case True
      then have l: "length ?got = nat (int (length ct) - off)" "length ?got < len"
        using len got off False size by auto
      then have "add64 off (int (length ?got)) = int (length ct)"
        using size off False by (subst add64_id) (simp_all add: in64_iff)
      then show ?thesis
        unfolding step using l True size
        by (subst ReadAt_loop.simps) (simp add: Let_def del: length_append)
    next
      case short: False
      then have "len \<le> length ?got" using len got off by auto
      then show ?thesis
        unfolding step using short by (subst ReadAt_loop.simps) (simp del: length_append)
    qed
  qed
qed

lemma head_read:
  assumes c: "chunk_ok ct c" and off: "0 \<le> off" "off < cs_payloadOffset c" "off + int len \<le> headerReadSize"
    and len: "0 < len"
  shows "ReadAt_loop len off [] c = Some (ct_slice ct off len, None, c)"
proof -
  from c have h: "cs_head c = take 4096 ct" "4096 \<le> length ct" "cs_payloadOffset c \<le> cs_tailStart c"
    "cs_tailStart c < cs_size c" "cs_payloadOffset c \<le> 4096"
    by (auto simp: chunk_ok_def)
  have at64: "add64 off 0 = off" using off h by (intro add64_id [of off 0, simplified]) (simp add: in64_iff)
  have "take len (drop (nat off) (take 4096 ct)) = take len (drop (nat off) ct)"
    using off by (simp add: drop_take min_def headerReadSize_def)
  then have data: "copy_from len (cs_head c) off = (ct_slice ct off len, None)"
    using off h by (simp add: copy_from_def ct_slice_def)
  have full: "length (ct_slice ct off len) = len"
    using off h by (simp add: length_slice headerReadSize_def)
  have "ReadAt_loop len off [] c = ReadAt_loop len off (ct_slice ct off len) c"
    using len off h(2-5) by (subst ReadAt_loop.simps) (simp add: at64 Let_def data)
  also have "\<dots> = Some (ct_slice ct off len, None, c)"
    using full by (subst ReadAt_loop.simps) simp
  finally show ?thesis .
qed

text \<open>Reading moves the stream and changes nothing else of a source.\<close>

definition same_shape :: "chunkSource \<Rightarrow> chunkSource \<Rightarrow> bool" where
  "same_shape c' c \<longleftrightarrow> cs_payloadOffset c' = cs_payloadOffset c \<and> cs_tailStart c' = cs_tailStart c \<and>
     cs_streamEnd c' = cs_streamEnd c \<and> cs_err c' = cs_err c \<and> chunk_Close c' = chunk_Close c"

lemma ct_slice_take: "take k (ct_slice ct off len) = ct_slice ct off (min k len)"
  by (simp add: ct_slice_def)

lemma ct_slice_drop: "0 \<le> off \<Longrightarrow> drop k (ct_slice ct off len) = ct_slice ct (off + int k) (len - k)"
  by (simp add: ct_slice_def drop_take nat_add_distrib add.commute)

text \<open>A stream serves a forward read: it skips to it, and stops where the stream ends.\<close>

lemma stream_read:
  assumes c: "chunk_ok ct c" and b: "cs_stream c = Some b"
    and off: "cs_pos c \<le> off" "off < cs_streamEnd c"
    and k_def: "k = min len (nat (cs_streamEnd c - off))"
  obtains c' where "readStream len off c = (ct_slice ct off k, None, c')" "chunk_ok ct c'"
    "cs_pos c' = off + int k" "length (ct_slice ct off k) = k"
    "same_shape c' c"
proof -
  let ?skip = "off - cs_pos c" and ?room = "nat (cs_streamEnd c - cs_pos c)"
  from c b have pos: "0 \<le> cs_pos c" "cs_payloadOffset c \<le> cs_pos c" and left: "rb_left b = ct_slice ct (cs_pos c) ?room"
    and ends: "cs_streamEnd c \<le> cs_tailStart c" "cs_tailStart c < int (length ct)" "int (length ct) \<le> 9223372036854775807"
    by (auto simp: chunk_ok_def MaxInt64_def)
  have lleft: "length (rb_left b) = ?room"
    using pos ends off by (simp add: left length_slice)
  have skip64: "sub64 off (cs_pos c) = ?skip" "sub64 (cs_streamEnd c) off = cs_streamEnd c - off"
    using pos ends off by (auto intro!: sub64_id simp: in64_iff)
  define b1 where "b1 = b\<lparr>rb_left := ct_slice ct off (nat (cs_streamEnd c - off))\<rparr>"
  have rest: "drop (nat ?skip) (rb_left b) = ct_slice ct off (nat (cs_streamEnd c - off))"
    using pos off by (simp add: left ct_slice_drop nat_diff_distrib)
  have first: "(if cs_pos c < off then rb_read (nat ?skip) b else ([], True, b)) = (take (nat ?skip) (rb_left b), True, b1)"
    using rest lleft off by (auto simp: rb_read_def b1_def)
  have len1: "length (rb_left b1) = nat (cs_streamEnd c - off)"
    using pos ends off by (simp add: b1_def length_slice)
  define b2 where "b2 = b1\<lparr>rb_left := ct_slice ct (off + int k) (nat (cs_streamEnd c - off) - k)\<rparr>"
  have second: "rb_read k b1 = (ct_slice ct off k, True, b2)"
    using pos off len1 by (simp add: rb_read_def b2_def b1_def k_def ct_slice_take ct_slice_drop)
  have full: "length (ct_slice ct off k) = k"
    using pos ends off by (simp add: length_slice k_def)
  have add: "add64 off (int k) = off + int k"
    using pos ends off by (intro add64_id) (simp add: in64_iff k_def)
  define c' where "c' = c\<lparr>cs_stream := Some b2, cs_pos := off + int k\<rparr>"
  have "nat (cs_streamEnd c - off) - k = nat (cs_streamEnd c - (off + int k))" by (simp add: k_def)
  then have ok: "chunk_ok ct c'"
    using c pos off by (auto simp: chunk_ok_def c'_def b2_def k_def)
  have "readStream len off c = (ct_slice ct off k, None, c')"
    using b off by (simp add: readStream_def skip64 Let_def first second full add c'_def
        k_def [symmetric])
  then show ?thesis
    by (rule that) (use ok full in \<open>simp_all add: c'_def same_shape_def chunk_Close_def b2_def b1_def b\<close>)
qed

lemma stream_loop:
  assumes c: "chunk_ok ct c" and len: "0 < len" "0 \<le> off" "off + int len \<le> MaxInt64"
    and off: "cs_payloadOffset c \<le> off" "cs_pos c \<le> off" "off < cs_streamEnd c"
    and cross: "off + int len \<le> cs_streamEnd c \<or> cs_streamEnd c = cs_tailStart c"
  obtains c' where "ReadAt_loop len off [] c =
      Some (ct_slice ct off len, if int (length ct) < off + int len then Some EOF else None, c')"
    "chunk_ok ct c'" "cs_pos c' = min (off + int len) (cs_streamEnd c)"
    "same_shape c' c"
proof -
  let ?k = "min len (nat (cs_streamEnd c - off))"
  from c off obtain b where b: "cs_stream c = Some b" by (cases "cs_stream c") (auto simp: chunk_ok_def)
  obtain c' where c': "readStream len off c = (ct_slice ct off ?k, None, c')" "chunk_ok ct c'"
    "cs_pos c' = off + int ?k" "length (ct_slice ct off ?k) = ?k"
    "same_shape c' c"
    using c b off(2,3) refl by (rule stream_read)
  from c have ends: "cs_streamEnd c \<le> cs_tailStart c" "cs_tailStart c < cs_size c" "cs_size c = int (length ct)"
    by (auto simp: chunk_ok_def)
  have at64: "add64 off 0 = off"
    using len by (intro add64_id [of off 0, simplified]) (simp add: in64_iff MaxInt64_def)
  have step: "ReadAt_loop len off [] c = ReadAt_loop len off (ct_slice ct off ?k) c'"
    using len off ends c'(1) by (subst ReadAt_loop.simps) (simp add: at64 Let_def)
  have "ReadAt_loop len off (ct_slice ct off ?k) c' =
      Some (ct_slice ct off len, if int (length ct) < off + int len then Some EOF else None, c')"
  proof (cases "?k = len")
    case True
    then have "\<not> int (length ct) < off + int len" using off ends by simp
    then show ?thesis using True c'(4) by (subst ReadAt_loop.simps) simp
  next
    case False
    then have k: "int ?k = cs_streamEnd c - off" "?k < len" using off by auto
    then have "cs_streamEnd c = cs_tailStart c" using cross by linarith
    then have "cs_tailStart c' \<le> off + int (length (ct_slice ct off ?k))" using k c' by (simp add: same_shape_def)
    moreover have "ct_slice ct off ?k @ ct_slice ct (off + int ?k) (len - ?k) = ct_slice ct off len"
      using len by (intro slice_append) simp_all
    ultimately show ?thesis
      using tail_loop [OF c'(2) len(2,3), of "ct_slice ct off ?k"] k(2) c'(4) by simp
  qed
  then show ?thesis
    by (intro that [of c']) (use step c' off in \<open>auto simp: min_def\<close>)
qed

text \<open>Every read in order is what the whole ciphertext answers, and the loop always returns.\<close>

lemma chunk_ReadAt_whole:
  assumes c: "chunk_ok ct c" and o: "in_order c (cs_pos c) len off"
  obtains c' where "chunk_ReadAt c len off = Some (fst (whole_ReadAt ct len off), snd (whole_ReadAt ct len off), c')"
    "chunk_ok ct c'" "cs_pos c' = next_pos c (cs_pos c) len off" "same_shape c' c"
proof -
  from c have ends: "cs_streamEnd c \<le> cs_tailStart c" "cs_payloadOffset c \<le> cs_tailStart c"
    "cs_tailStart c < int (length ct)" "4096 \<le> length ct"
    by (auto simp: chunk_ok_def)
  from o have l: "0 < len" "0 \<le> off" "off + int len \<le> MaxInt64" by (auto simp: in_order_def)
  note whole = whole_ReadAt_slice [OF l(2,1), of ct]
  consider (tail) "cs_tailStart c \<le> off"
    | (head) "off < cs_payloadOffset c" "off + int len \<le> headerReadSize"
    | (stream) "cs_payloadOffset c \<le> off" "cs_pos c \<le> off" "off < cs_streamEnd c"
        "off + int len \<le> cs_streamEnd c \<or> cs_streamEnd c = cs_tailStart c"
    using o by (auto simp: in_order_def)
  then show ?thesis
  proof cases
    case tail
    then show ?thesis
      using tail_loop [OF c l(2,3), of "[]"] l(1) c
      by (intro that [of c]) (simp_all add: chunk_ReadAt_def whole next_pos_def same_shape_def)
  next
    case head
    then have "\<not> int (length ct) < off + int len" using ends by (simp add: headerReadSize_def)
    then show ?thesis
      using head_read [OF c l(2) head l(1)] head ends c
      by (intro that [of c]) (simp_all add: chunk_ReadAt_def whole next_pos_def same_shape_def)
  next
    case stream
    obtain c' where "ReadAt_loop len off [] c =
        Some (ct_slice ct off len, if int (length ct) < off + int len then Some EOF else None, c')"
      "chunk_ok ct c'" "cs_pos c' = min (off + int len) (cs_streamEnd c)" "same_shape c' c"
      using c l stream by (rule stream_loop)
    then show ?thesis
      using stream ends by (intro that [of c']) (simp_all add: chunk_ReadAt_def whole next_pos_def)
  qed
qed

section \<open>Programs that read a source\<close>

text \<open>
  A client of an \<^verbatim>\<open>io.ReaderAt\<close>: each read decides what it does next. \<open>run\<close> is a client
  over a source, \<open>orderly\<close> the clients whose reads of a ciphertext are in order.
\<close>

datatype 'a prog = Ret 'a | ReadOp nat int64 "bytes \<times> error option \<Rightarrow> 'a prog"

primrec run :: "'a prog \<Rightarrow> rangeSource \<Rightarrow> ('a \<times> rangeSource) option" where
  "run (Ret x) src = Some (x, src)"
| "run (ReadOp len off k) src =
     (case ReadAt src len off of None \<Rightarrow> None | Some (d, e, src') \<Rightarrow> run (k (d, e)) src')"

primrec bind_prog :: "'a prog \<Rightarrow> ('a \<Rightarrow> 'b prog) \<Rightarrow> 'b prog" where
  "bind_prog (Ret x) f = f x"
| "bind_prog (ReadOp len off k) f = ReadOp len off (\<lambda>r. bind_prog (k r) f)"

primrec run_whole :: "bytes \<Rightarrow> 'a prog \<Rightarrow> 'a" where
  "run_whole ct (Ret x) = x"
| "run_whole ct (ReadOp len off k) = run_whole ct (k (whole_ReadAt ct len off))"

primrec orderly :: "bytes \<Rightarrow> chunkSource \<Rightarrow> 'a prog \<Rightarrow> int64 \<Rightarrow> bool" where
  "orderly ct c (Ret x) pos = True"
| "orderly ct c (ReadOp len off k) pos =
     (in_order c pos len off \<and> orderly ct c (k (whole_ReadAt ct len off)) (next_pos c pos len off))"

lemma run_bind:
  "run (bind_prog p f) src = (case run p src of None \<Rightarrow> None | Some (x, src') \<Rightarrow> run (f x) src')"
  by (induction p arbitrary: src) (auto split: option.splits)

lemma run_Whole: "run p (Whole ct) = Some (run_whole ct p, Whole ct)"
  by (induction p) (auto split: prod.splits)

lemma orderly_bind: "orderly ct c (bind_prog p f) pos \<Longrightarrow> orderly ct c p pos"
  by (induction p arbitrary: pos) simp_all

lemma run_whole_bind: "run_whole ct (bind_prog p f) = run_whole ct (f (run_whole ct p))"
  by (induction p) auto

lemma same_shape_in_order: "same_shape c' c \<Longrightarrow> in_order c' = in_order c \<and> next_pos c' = next_pos c"
  by (simp add: same_shape_def in_order_def next_pos_def fun_eq_iff)

lemma same_shape_orderly: "same_shape c' c \<Longrightarrow> orderly ct c' p pos = orderly ct c p pos"
  by (induction p arbitrary: pos) (simp_all add: same_shape_in_order)

lemma same_shape_trans: "same_shape a b \<Longrightarrow> same_shape b c \<Longrightarrow> same_shape a c"
  by (simp add: same_shape_def)

lemma run_Chunks:
  assumes "chunk_ok ct c" "orderly ct c p (cs_pos c)"
  shows "\<exists>c'. run p (Chunks c) = Some (run_whole ct p, Chunks c') \<and> same_shape c' c"
  using assms
proof (induction p arbitrary: c)
  case (ReadOp len off k)
  from ReadOp.prems(2) have o: "in_order c (cs_pos c) len off" by simp
  obtain c' where c': "chunk_ReadAt c len off = Some (fst (whole_ReadAt ct len off), snd (whole_ReadAt ct len off), c')"
    "chunk_ok ct c'" "cs_pos c' = next_pos c (cs_pos c) len off" "same_shape c' c"
    using ReadOp.prems(1) o by (rule chunk_ReadAt_whole)
  have "orderly ct c' (k (whole_ReadAt ct len off)) (cs_pos c')"
    using ReadOp.prems(2) c' by (simp add: same_shape_orderly)
  from ReadOp.IH [OF rangeI c'(2) this]
  obtain c'' where "run (k (whole_ReadAt ct len off)) (Chunks c') =
      Some (run_whole ct (k (whole_ReadAt ct len off)), Chunks c'')" "same_shape c'' c'" by auto
  then show ?case using c' by (auto intro: same_shape_trans)
qed (simp add: same_shape_def)

section \<open>Every read returns\<close>

text \<open>
  The loop makes progress because the header and the final chunk in memory are as long as the source
  says: \<open>fetch\<close> refuses a shorter body. Nothing is assumed of the reads or of the store.
\<close>

definition chunk_sized :: "chunkSource \<Rightarrow> bool" where
  "chunk_sized c \<longleftrightarrow> 0 \<le> cs_payloadOffset c \<and> cs_payloadOffset c \<le> int (length (cs_head c)) \<and>
     in64 (cs_size c) \<and> in64 (cs_tailStart c) \<and> in64 (cs_streamEnd c) \<and>
     int (length (cs_tail c)) = sub64 (cs_size c) (cs_tailStart c)"

lemma sub64_exact:
  assumes "0 \<le> sub64 a b" "in64 a" "in64 b" "b \<le> a"
  shows "sub64 a b = a - b"
proof (rule ccontr)
  assume "\<not> ?thesis"
  then have "\<not> in64 (a - b)" by (auto dest: sub64_id)
  then have big: "9223372036854775807 < a - b" "a - b \<le> 18446744073709551615"
    using assms by (auto simp: in64_iff)
  then have "(a - b + 9223372036854775808) mod 18446744073709551616 = a - b + 9223372036854775808 - 18446744073709551616"
    by (subst mod_pos_geq) simp_all
  with big assms(1) show False by (simp add: sub64_def wrap64_def)
qed

lemma copy_from_progress:
  assumes "copy_from len buf i = (d, None)" "i < int (length buf)" "0 < len"
  shows "0 < length d"
  using assms by (auto simp: copy_from_def split: if_splits)

lemma readStream_progress:
  assumes "readStream len at c = (d, None, c')" "0 < len" "0 \<le> at" "chunk_sized c"
  shows "0 < length d \<and> chunk_sized c'"
proof -
  from assms(1) obtain b where b: "cs_stream c = Some b" and at: "\<not> (at < cs_pos c \<or> at \<ge> cs_streamEnd c)"
    by (auto simp: readStream_def cs_fail_def split: option.splits if_splits)
  obtain dropped ok1 b1 where r1: "(if 0 < sub64 at (cs_pos c) then rb_read (nat (sub64 at (cs_pos c))) b
      else ([], True, b)) = (dropped, ok1, b1)"
    by (metis prod_cases3)
  let ?want = "min len (nat (sub64 (cs_streamEnd c) at))"
  obtain data ok2 b2 where r2: "rb_read ?want b1 = (data, ok2, b2)" by (metis prod_cases3)
  have done': "ok1 \<and> ok2 \<and> d = data \<and> c' = c\<lparr>cs_stream := Some b2, cs_pos := add64 at (int (length data))\<rparr>"
    using assms(1) b at r1 r2
    by (auto simp: readStream_def Let_def split: if_splits prod.splits)
  have "sub64 (cs_streamEnd c) at = cs_streamEnd c - at"
    using at assms(3,4) by (intro sub64_id) (auto simp: chunk_sized_def in64_iff)
  with at assms(2) have "0 < ?want" by simp
  with r2 done' assms(4) show ?thesis
    by (auto simp: chunk_sized_def rb_read_def split: if_splits)
qed

lemma readStream_sized:
  assumes "readStream len at c = (d, e, c')" "chunk_sized c"
  shows "chunk_sized c'"
  using assms
  by (auto simp: readStream_def chunk_sized_def cs_fail_def failRead_def Let_def
      split: option.splits if_splits prod.splits)

lemma step_progress:
  assumes "(if at \<ge> cs_tailStart c then
       (case copy_from room (cs_tail c) (sub64 at (cs_tailStart c)) of (d, e) \<Rightarrow> (d, e, c))
     else if at < cs_payloadOffset c then (case copy_from room (cs_head c) at of (d, e) \<Rightarrow> (d, e, c))
     else readStream room at c) = (d, e, c')"
    and "e = None" "0 < room" "in64 at" "at < cs_size c" and c: "chunk_sized c"
  shows "0 < length d"
proof -
  consider (tail) "cs_tailStart c \<le> at" "copy_from room (cs_tail c) (sub64 at (cs_tailStart c)) = (d, None)"
    | (head) "at < cs_payloadOffset c" "copy_from room (cs_head c) at = (d, None)"
    | (stream) "cs_payloadOffset c \<le> at" "readStream room at c = (d, None, c')"
    using assms(1,2) by (auto split: if_splits prod.splits)
  then show ?thesis
  proof cases
    case tail
    have sz: "in64 (cs_size c)" "in64 (cs_tailStart c)" "sub64 (cs_size c) (cs_tailStart c) = int (length (cs_tail c))"
      using c by (simp_all add: chunk_sized_def)
    have "0 \<le> sub64 at (cs_tailStart c)" using tail(2) by (auto simp: copy_from_def split: if_splits)
    then have "sub64 at (cs_tailStart c) = at - cs_tailStart c"
      using assms(4) sz(2) tail(1) by (rule sub64_exact)
    moreover have "sub64 (cs_size c) (cs_tailStart c) = cs_size c - cs_tailStart c"
      using tail(1) assms(5) by (intro sub64_exact sz) (simp_all add: sz(3))
    ultimately have "sub64 at (cs_tailStart c) < int (length (cs_tail c))"
      using assms(5) sz(3) by simp
    with copy_from_progress [OF tail(2)] assms(3) show ?thesis by blast
  next
    case head
    then have "at < int (length (cs_head c))" using c by (simp add: chunk_sized_def)
    with copy_from_progress [OF head(2)] assms(3) show ?thesis by blast
  next
    case stream
    with c assms(3) readStream_progress [OF stream(2)] show ?thesis by (auto simp: chunk_sized_def)
  qed
qed

lemma ReadAt_loop_returns:
  assumes "chunk_sized c"
  shows "\<exists>r. ReadAt_loop len off got c = Some r \<and> chunk_sized (snd (snd r))"
  using assms
proof (induction "len - length got" arbitrary: got c rule: less_induct)
  case less
  let ?at = "add64 off (int (length got))" and ?room = "len - length got"
  let ?step = "if ?at \<ge> cs_tailStart c then
       (case copy_from ?room (cs_tail c) (sub64 ?at (cs_tailStart c)) of (d, e) \<Rightarrow> (d, e, c))
     else if ?at < cs_payloadOffset c then (case copy_from ?room (cs_head c) ?at of (d, e) \<Rightarrow> (d, e, c))
     else readStream ?room ?at c"
  show ?case
  proof (cases "length got < len \<and> ?at < cs_size c")
    case False
    then show ?thesis
      using less.prems by (subst ReadAt_loop.simps) (auto simp: Let_def)
  next
    case True
    obtain d e c' where step: "?step = (d, e, c')" by (metis prod_cases3)
    have sized: "chunk_sized c'"
      using step less.prems readStream_sized [of ?room ?at c d e c']
      by (auto split: if_splits prod.splits)
    have unfold: "ReadAt_loop len off got c =
        (case e of Some x \<Rightarrow> Some (got @ d, Some x, c') | None \<Rightarrow> ReadAt_loop len off (got @ d) c')"
      using True by (subst ReadAt_loop.simps) (simp add: Let_def step split: option.split)
    show ?thesis
    proof (cases e)
      case (Some x)
      with unfold sized show ?thesis by simp
    next
      case None
      have "0 < length d"
        using step None _ _ _ less.prems by (rule step_progress) (use True in64_wrap64 in \<open>auto simp: add64_def\<close>)
      with True have "len - length (got @ d) < len - length got" unfolding length_append by linarith
      from less.hyps [OF this sized] unfold None show ?thesis by simp
    qed
  qed
qed

primrec source_sized :: "rangeSource \<Rightarrow> bool" where
  "source_sized (Whole b) = True"
| "source_sized (Chunks c) = chunk_sized c"

lemma run_returns: "source_sized src \<Longrightarrow> \<exists>x src'. run p src = Some (x, src') \<and> source_sized src'"
proof (induction p arbitrary: src)
  case (ReadOp len off k)
  have "\<exists>d e src'. ReadAt src len off = Some (d, e, src') \<and> source_sized src'"
  proof (cases src)
    case (Chunks c)
    with ReadOp.prems ReadAt_loop_returns [of c len off "[]"]
    show ?thesis by (auto simp: chunk_ReadAt_def)
  qed (simp split: prod.split)
  then obtain d e src' where "ReadAt src len off = Some (d, e, src')" "source_sized src'" by blast
  with ReadOp.IH [OF rangeI, of src' "(d, e)"] show ?case by simp
qed simp

lemma fetch_Inr:
  assumes "fetch st h ctx key off len w = (Inr data, w')"
  obtains body where "GetObjectRange st h ctx key off len w = (Inr body, w')" "rd_end body = None"
    "data = rd_bytes body" "int (length data) = len"
  using assms
  by (auto simp: fetch_def tryIO_apply readAll_def split: prod.splits sum.splits if_splits option.splits)

lemma openChunkSource_Inr:
  assumes "openChunkSource st h l ctx key encrypted off end w = (Inr src, w')"
  obtains bodyStart bodyEnd tailStart head tail w1 w2 c where
    "chunkSpan l off end encrypted = (bodyStart, bodyEnd)" "tailStart = finalChunkOffset l encrypted"
    "fetch st h ctx key 0 headerReadSize w = (Inr head, w1)"
    "fetch st h ctx key tailStart (sub64 encrypted tailStart) w1 = (Inr tail, w2)"
    "c = \<lparr>cs_size = encrypted, cs_payloadOffset = payloadOffset l, cs_tailStart = tailStart,
          cs_streamEnd = min bodyEnd tailStart, cs_head = head, cs_tail = tail,
          cs_stream = None, cs_pos = bodyStart, cs_err = None\<rparr>"
    "(\<exists>stream. bodyStart < cs_streamEnd c \<and>
        GetObjectRange st h ctx key bodyStart (sub64 (cs_streamEnd c) bodyStart) w2 = (Inr stream, w') \<and>
        src = Chunks (c\<lparr>cs_stream := Some (open_body stream)\<rparr>)) \<or>
     cs_streamEnd c \<le> bodyStart \<and> src = Chunks c \<and> w' = w2"
proof -
  obtain bodyStart bodyEnd where span: "chunkSpan l off end encrypted = (bodyStart, bodyEnd)" by fastforce
  let ?tailStart = "finalChunkOffset l encrypted"
  obtain head w1 where head: "fetch st h ctx key 0 headerReadSize w = (Inr head, w1)"
    using assms span by (auto simp: openChunkSource_def Let_def bindIO_Inr)
  obtain tail w2 where tail: "fetch st h ctx key ?tailStart (sub64 encrypted ?tailStart) w1 = (Inr tail, w2)"
    using assms span head by (auto simp: openChunkSource_def Let_def bindIO_Inr)
  show ?thesis
    by (rule that [OF span refl head tail refl])
      (use assms span head tail in \<open>auto simp: openChunkSource_def bindIO_Inr Let_def split: if_splits\<close>)
qed

lemma openRangeSource_sized:
  assumes "sane_layout l" "in64 encrypted" "openRangeSource st h l ctx key encrypted off end w = (Inr src, w')"
  shows "source_sized src"
proof (cases "encrypted \<le> wholeObjectSize")
  case True
  with assms(3) show ?thesis
    by (auto simp: openRangeSource_def readWholeSource_def bindIO_Inr readAll_def split: option.splits)
next
  case False
  with assms(3) have "openChunkSource st h l ctx key encrypted off end w = (Inr src, w')"
    by (simp add: openRangeSource_def)
  then show ?thesis
  proof (rule openChunkSource_Inr)
    fix bodyStart bodyEnd tailStart head tail w1 w2 c
    assume span: "chunkSpan l off end encrypted = (bodyStart, bodyEnd)" and ts: "tailStart = finalChunkOffset l encrypted"
      and head: "fetch st h ctx key 0 headerReadSize w = (Inr head, w1)"
      and tail: "fetch st h ctx key tailStart (sub64 encrypted tailStart) w1 = (Inr tail, w2)"
      and c: "c = \<lparr>cs_size = encrypted, cs_payloadOffset = payloadOffset l, cs_tailStart = tailStart,
          cs_streamEnd = min bodyEnd tailStart, cs_head = head, cs_tail = tail,
          cs_stream = None, cs_pos = bodyStart, cs_err = None\<rparr>"
      and src: "(\<exists>stream. bodyStart < cs_streamEnd c \<and>
        GetObjectRange st h ctx key bodyStart (sub64 (cs_streamEnd c) bodyStart) w2 = (Inr stream, w') \<and>
        src = Chunks (c\<lparr>cs_stream := Some (open_body stream)\<rparr>)) \<or>
        cs_streamEnd c \<le> bodyStart \<and> src = Chunks c \<and> w' = w2"
    have "int (length head) = 4096" "int (length tail) = sub64 encrypted tailStart"
      using head tail by (auto elim!: fetch_Inr simp: headerReadSize_def)
    moreover have "in64 tailStart" by (simp add: ts finalChunkOffset_def add64_def Let_def in64_wrap64)
    moreover have "in64 (min bodyEnd tailStart)"
      using span \<open>in64 tailStart\<close> assms(2) in64_wrap64
      by (auto simp: chunkSpan_def add64_def Let_def min_def)
    ultimately have "chunk_sized c"
      using assms(1,2) by (simp add: c chunk_sized_def sane_layout_def)
    then show ?thesis using src by (auto simp: chunk_sized_def)
  qed
qed

section \<open>Opening a source\<close>

text \<open>
  On a storage that keeps its contract, and whose bodies do not fail half way, the opened source holds
  what the object has: the three regions of the range, in order.
\<close>

definition range_shape :: "layout \<Rightarrow> int \<Rightarrow> int64 \<Rightarrow> chunkSource \<Rightarrow> bool" where
  "range_shape l n end c \<longleftrightarrow> cs_payloadOffset c = payloadOffset l \<and>
     cs_tailStart c = chunk_at l (n - 1) \<and>
     cs_streamEnd c = min (chunk_at l (end - 1) + encChunkSize) (chunk_at l (n - 1))"

context sized_contract
begin

lemma fetch_slice:
  assumes "wf h w" "key_ok k" "objs h w k = Some ct" "fetch st h ctx k off len w = (Inr data, w')" "in64 len"
  shows "data = take (nat len) (drop (nat off) ct) \<and> objs h w' = objs h w \<and> wf h w'"
proof -
  from assms(4) obtain body where body: "GetObjectRange st h ctx k off len w = (Inr body, w')"
    "rd_end body = None" "data = rd_bytes body" "int (length data) = len"
    by (rule fetch_Inr)
  have "data = clamped off len ct"
    using range_content [OF assms(1,2,5,3) body(1)] body(2,3) by simp
  with range_frame [OF assms(1,2) body(1)] body(4) show ?thesis by (auto simp: clamped_def)
qed

lemma openChunkSource_ok:
  assumes w: "wf h w" "key_ok k" "objs h w k = Some ct"
    and l: "sane_layout l" "int (length ct) = enc_size l n" "enc_size l n \<le> MaxInt64 - encChunkSize"
    and n: "0 \<le> off" "off < end" "end \<le> n" and big: "wholeObjectSize < int (length ct)"
    and steady: "\<And>a b v r v'. wf h v \<Longrightarrow> objs h v k = Some ct \<Longrightarrow> GetObjectRange st h ctx k a b v = (Inr r, v') \<Longrightarrow> rd_end r = None"
    and opened: "openChunkSource st h l ctx k (int (length ct)) off end w = (Inr src, w')"
  shows "objs h w' = objs h w \<and> wf h w' \<and>
    (\<exists>c. src = Chunks c \<and> chunk_ok ct c \<and> cs_err c = None \<and> cs_pos c = chunk_at l off \<and> range_shape l n end c)"
  using opened
proof (rule openChunkSource_Inr)
  fix bodyStart bodyEnd tailStart head tail w1 w2 c
  assume span: "chunkSpan l off end (int (length ct)) = (bodyStart, bodyEnd)"
    and ts: "tailStart = finalChunkOffset l (int (length ct))"
    and head: "fetch st h ctx k 0 headerReadSize w = (Inr head, w1)"
    and tail: "fetch st h ctx k tailStart (sub64 (int (length ct)) tailStart) w1 = (Inr tail, w2)"
    and c: "c = \<lparr>cs_size = int (length ct), cs_payloadOffset = payloadOffset l, cs_tailStart = tailStart,
        cs_streamEnd = min bodyEnd tailStart, cs_head = head, cs_tail = tail,
        cs_stream = None, cs_pos = bodyStart, cs_err = None\<rparr>"
    and src: "(\<exists>stream. bodyStart < cs_streamEnd c \<and>
      GetObjectRange st h ctx k bodyStart (sub64 (cs_streamEnd c) bodyStart) w2 = (Inr stream, w') \<and>
      src = Chunks (c\<lparr>cs_stream := Some (open_body stream)\<rparr>)) \<or>
      cs_streamEnd c \<le> bodyStart \<and> src = Chunks c \<and> w' = w2"
  have n0: "0 \<le> n" "max 0 (n - 1) = n - 1" using n by simp_all
  note fin = finalChunkOffset_eq [OF l(1) n0(1) l(3)]
  have start: "bodyStart = chunk_at l off" and stop: "bodyEnd = min (chunk_at l (end - 1) + 65552) (enc_size l n)"
    using span chunkSpan_eq [OF l(1) n l(3)] l(2) by simp_all
  have tl: "tailStart = chunk_at l (n - 1)" "tailStart < int (length ct)" "0 \<le> tailStart" "payloadOffset l \<le> tailStart"
    using fin ts l(1,2) n0 n by (simp_all add: tagSize_def chunk_at_def sane_layout_def pos_imp_zdiv_nonneg_iff)
  have size: "int (length ct) \<le> 9223372036854710255" "1048576 < int (length ct)"
    using l(2,3) big by (simp_all add: MaxInt64_def encChunkSize_def wholeObjectSize_def)
  have f1: "head = take 4096 ct" "objs h w1 = objs h w" "wf h w1"
    using fetch_slice [OF w head] by (simp_all add: headerReadSize_def in64_iff)
  have sub: "sub64 (int (length ct)) tailStart = int (length ct) - tailStart"
    using size tl by (intro sub64_id) (simp add: in64_iff)
  have f2: "tail = drop (nat tailStart) ct" "objs h w2 = objs h w" "wf h w2"
    using fetch_slice [OF f1(3) w(2) _ tail in64_sub64] f1 w(3) sub tl by simp_all
  have pos: "payloadOffset l \<le> bodyStart" "0 \<le> bodyStart"
    using n l(1) by (simp_all add: start chunk_at_def pos_imp_zdiv_nonneg_iff sane_layout_def)
  have ok: "chunk_ok ct (c\<lparr>cs_stream := s\<rparr>)"
    if "s = None \<longrightarrow> min bodyEnd tailStart \<le> bodyStart"
      "\<And>b. s = Some b \<Longrightarrow> bodyStart \<le> min bodyEnd tailStart \<and>
        rb_left b = ct_slice ct bodyStart (nat (min bodyEnd tailStart - bodyStart))" for s
    using that l(1) tl f1 f2 size pos by (auto simp: c chunk_ok_def sane_layout_def MaxInt64_def)
  have shape: "range_shape l n end (c\<lparr>cs_stream := s\<rparr>)" for s
    using tl(1,2) l(2) by (auto simp: range_shape_def c stop encChunkSize_def min_def)
  show ?thesis
    using src
  proof
    assume "cs_streamEnd c \<le> bodyStart \<and> src = Chunks c \<and> w' = w2"
    then show ?thesis
      using ok [of None] shape [of None] f2 by (auto simp: c start)
  next
    assume "\<exists>stream. bodyStart < cs_streamEnd c \<and>
      GetObjectRange st h ctx k bodyStart (sub64 (cs_streamEnd c) bodyStart) w2 = (Inr stream, w') \<and>
      src = Chunks (c\<lparr>cs_stream := Some (open_body stream)\<rparr>)"
    then obtain stream where st: "bodyStart < cs_streamEnd c"
      "GetObjectRange st h ctx k bodyStart (sub64 (cs_streamEnd c) bodyStart) w2 = (Inr stream, w')"
      "src = Chunks (c\<lparr>cs_stream := Some (open_body stream)\<rparr>)" by blast
    have sub2: "sub64 (cs_streamEnd c) bodyStart = cs_streamEnd c - bodyStart"
      using st(1) pos tl size by (intro sub64_id) (auto simp: in64_iff c min_def)
    have "rd_bytes stream = clamped bodyStart (cs_streamEnd c - bodyStart) ct"
      using range_content [OF f2(3) w(2) in64_sub64 _ st(2)] steady [OF f2(3) _ st(2)] f2(2) w(3) sub2 by simp
    then have "rb_left (open_body stream) = ct_slice ct bodyStart (nat (cs_streamEnd c - bodyStart))"
      using st(1) by (simp add: open_body_def clamped_def ct_slice_def)
    moreover have "objs h w' = objs h w" "wf h w'"
      using range_frame [OF f2(3) w(2) st(2)] f2(2) by auto
    ultimately show ?thesis
      using ok [of "Some (open_body stream)"] shape [of "Some (open_body stream)"] st by (auto simp: c start)
  qed
qed

end

end
