(* ===== verification/Guard.thy ===== *)
theory Guard
  imports Storager
begin

text \<open>
  \<^verbatim>\<open>guard.go\<close>: the decorator that lets no key address anything outside a storage. \<open>clean\<close>,
  \<open>objectKey\<close> and \<open>listPrefix\<close> gate a key; \<open>guard_ops\<close> is the method table of a guarded
  storage, each method written out as in the source. Shown: which keys are refused (exactly), that
  a refused key leaves the world untouched, where an accepted key lands, that the gates are
  idempotent, that navigation cannot leave the guard or the tree, and that guarding keeps the
  storage contract.
\<close>

section \<open>The gates\<close>

definition escapes :: "string \<Rightarrow> bool" where
  "escapes cleaned = (cleaned = ''..'' \<or> HasPrefix cleaned ''../'')"

definition clean :: "string \<Rightarrow> error + string" where
  "clean key0 =
     (let key = filepath_ToSlash key0 in
      if path_IsAbs key then
        Inl (Errorf ''is absolute, keys are relative to the storage root'' [ErrUnsafeKey])
      else if key = '''' then Inr ''''
      else let cleaned = path_Clean key in
        if escapes cleaned then Inl (Errorf ''escapes the storage'' [ErrUnsafeKey])
        else if cleaned = ''.'' then Inr ''''
        else Inr cleaned)"

definition objectKey :: "string \<Rightarrow> error + string" where
  "objectKey key =
     (case clean key of
        Inl e \<Rightarrow> Inl e
      | Inr cleaned \<Rightarrow>
          if cleaned = '''' then Inl (Errorf ''names the storage root'' [ErrUnsafeKey])
          else Inr cleaned)"

definition listPrefix :: "string \<Rightarrow> error + string" where
  "listPrefix prefix = clean prefix"

section \<open>The decorator\<close>

text \<open>
  A storage value is a backend's own handle (\<open>Bare\<close>) or a \<^verbatim>\<open>*guard\<close> around one
  (\<open>Guarded\<close>); \<^verbatim>\<open>Guard\<close> never nests two guards. The methods of \<open>Bare h\<close> are the backend's.
\<close>

datatype 'h gstore = Bare 'h | Guarded 'h

primrec Guard :: "'h gstore \<Rightarrow> 'h gstore" where
  "Guard (Bare h) = Guarded h"
| "Guard (Guarded h) = Guarded h"

primrec inner :: "'h gstore \<Rightarrow> 'h" where
  "inner (Bare h) = h"
| "inner (Guarded h) = h"

primrec guarded :: "'h gstore \<Rightarrow> bool" where
  "guarded (Bare h) = False"
| "guarded (Guarded h) = True"

definition guard_GetCwd :: "('h, 'w) storager \<Rightarrow> 'h gstore \<Rightarrow> string" where
  "guard_GetCwd st g = GetCwd st (inner g)"

definition guard_Dirname :: "('h, 'w) storager \<Rightarrow> 'h gstore \<Rightarrow> string" where
  "guard_Dirname st g = Dirname st (inner g)"

fun guard_ListDir ::
  "('h, 'w) storager \<Rightarrow> 'h gstore \<Rightarrow> 'w ctx \<Rightarrow> ('w, string list \<times> 'h gstore list) io" where
  "guard_ListDir st (Bare h) ctx =
     bindIO (ListDir st h ctx) (\<lambda>(files, dirs). ret (files, map Bare dirs))"
| "guard_ListDir st (Guarded h) ctx =
     bindIO (ListDir st h ctx) (\<lambda>(files, dirs). ret (files, map (Guard \<circ> Bare) dirs))"

fun guard_List ::
  "('h, 'w) storager \<Rightarrow> 'h gstore \<Rightarrow> 'w ctx \<Rightarrow> string \<Rightarrow> ('w, ObjectStat list) io" where
  "guard_List st (Bare h) ctx prefix = List_op st h ctx prefix"
| "guard_List st (Guarded h) ctx prefix =
     (case listPrefix prefix of Inl e \<Rightarrow> throw e | Inr safe \<Rightarrow> List_op st h ctx safe)"

fun guard_GetObject ::
  "('h, 'w) storager \<Rightarrow> 'h gstore \<Rightarrow> 'w ctx \<Rightarrow> string \<Rightarrow> ('w, reader) io" where
  "guard_GetObject st (Bare h) ctx filePath = GetObject st h ctx filePath"
| "guard_GetObject st (Guarded h) ctx filePath =
     (case objectKey filePath of Inl e \<Rightarrow> throw e | Inr safe \<Rightarrow> GetObject st h ctx safe)"

fun guard_GetObjectRange ::
  "('h, 'w) storager \<Rightarrow> 'h gstore \<Rightarrow> 'w ctx \<Rightarrow> string \<Rightarrow> int64 \<Rightarrow> int64 \<Rightarrow> ('w, reader) io" where
  "guard_GetObjectRange st (Bare h) ctx filePath off len = GetObjectRange st h ctx filePath off len"
| "guard_GetObjectRange st (Guarded h) ctx filePath off len =
     (case objectKey filePath of Inl e \<Rightarrow> throw e
      | Inr safe \<Rightarrow> GetObjectRange st h ctx safe off len)"

fun guard_PutObject ::
  "('h, 'w) storager \<Rightarrow> 'h gstore \<Rightarrow> 'w ctx \<Rightarrow> string \<Rightarrow> reader \<Rightarrow> ('w, nat) io" where
  "guard_PutObject st (Bare h) ctx filePath body = PutObject st h ctx filePath body"
| "guard_PutObject st (Guarded h) ctx filePath body =
     (case objectKey filePath of Inl e \<Rightarrow> throw e | Inr safe \<Rightarrow> PutObject st h ctx safe body)"

text \<open>The gate loop of \<^verbatim>\<open>Delete\<close>: the first refused path ends it.\<close>

fun gate_all :: "string list \<Rightarrow> error + string list" where
  "gate_all [] = Inr []"
| "gate_all (p # ps) =
     (case objectKey p of
        Inl e \<Rightarrow> Inl e
      | Inr key \<Rightarrow> (case gate_all ps of Inl e \<Rightarrow> Inl e | Inr safe \<Rightarrow> Inr (key # safe)))"

fun guard_Delete ::
  "('h, 'w) storager \<Rightarrow> 'h gstore \<Rightarrow> 'w ctx \<Rightarrow> string list \<Rightarrow> ('w, unit) io" where
  "guard_Delete st (Bare h) ctx filePaths = Delete st h ctx filePaths"
| "guard_Delete st (Guarded h) ctx filePaths =
     (case gate_all filePaths of Inl e \<Rightarrow> throw e | Inr safe \<Rightarrow> Delete st h ctx safe)"

fun guard_DeleteAll ::
  "('h, 'w) storager \<Rightarrow> 'h gstore \<Rightarrow> 'w ctx \<Rightarrow> string \<Rightarrow> ('w, unit) io" where
  "guard_DeleteAll st (Bare h) ctx pathPrefix = DeleteAll st h ctx pathPrefix"
| "guard_DeleteAll st (Guarded h) ctx pathPrefix =
     (case objectKey pathPrefix of Inl e \<Rightarrow> throw e | Inr safe \<Rightarrow> DeleteAll st h ctx safe)"

fun guard_Copy ::
  "('h, 'w) storager \<Rightarrow> 'h gstore \<Rightarrow> 'w ctx \<Rightarrow> string \<Rightarrow> string \<Rightarrow> CopyOption list \<Rightarrow>
    ('w, CopyStat) io" where
  "guard_Copy st (Bare h) ctx srcPath dstPath opts = Copy st h ctx srcPath dstPath opts"
| "guard_Copy st (Guarded h) ctx srcPath dstPath opts =
     (case objectKey srcPath of Inl e \<Rightarrow> throw e
      | Inr src \<Rightarrow>
          (case objectKey dstPath of Inl e \<Rightarrow> throw e
           | Inr dst \<Rightarrow> Copy st h ctx src dst opts))"

fun guard_CopyAll ::
  "('h, 'w) storager \<Rightarrow> 'h gstore \<Rightarrow> 'w ctx \<Rightarrow> string \<Rightarrow> string \<Rightarrow> CopyAllOption list \<Rightarrow>
    'w \<Rightarrow> (CopyStat \<times> error option) \<times> 'w" where
  "guard_CopyAll st (Bare h) ctx srcPrefix dstPrefix opts w =
     CopyAll st h ctx srcPrefix dstPrefix opts w"
| "guard_CopyAll st (Guarded h) ctx srcPrefix dstPrefix opts w =
     (case listPrefix srcPrefix of Inl e \<Rightarrow> ((zeroCopyStat, Some e), w)
      | Inr src \<Rightarrow>
          (case listPrefix dstPrefix of Inl e \<Rightarrow> ((zeroCopyStat, Some e), w)
           | Inr dst \<Rightarrow> CopyAll st h ctx src dst opts w))"

fun guard_Exists ::
  "('h, 'w) storager \<Rightarrow> 'h gstore \<Rightarrow> 'w ctx \<Rightarrow> string \<Rightarrow> ('w, bool) io" where
  "guard_Exists st (Bare h) ctx fileName = Exists st h ctx fileName"
| "guard_Exists st (Guarded h) ctx fileName =
     (case objectKey fileName of Inl e \<Rightarrow> throw e | Inr safe \<Rightarrow> Exists st h ctx safe)"

fun guard_SubStorage :: "('h, 'w) storager \<Rightarrow> 'h gstore \<Rightarrow> string \<Rightarrow> bool \<Rightarrow> error + 'h gstore" where
  "guard_SubStorage st (Bare h) subPath relative =
     (case SubStorage st h subPath relative of Inl e \<Rightarrow> Inl e | Inr sub \<Rightarrow> Inr (Bare sub))"
| "guard_SubStorage st (Guarded h) subPath relative =
     (case (if relative then listPrefix subPath else Inr subPath) of
        Inl e \<Rightarrow> Inl e
      | Inr safe \<Rightarrow>
          (case SubStorage st h safe relative of
             Inl e \<Rightarrow> Inl e
           | Inr sub \<Rightarrow> Inr (Guard (Bare sub))))"

fun guard_Stat :: "('h, 'w) storager \<Rightarrow> 'h gstore \<Rightarrow> string \<Rightarrow> ('w, ObjectStat) io" where
  "guard_Stat st (Bare h) fileName = Stat st h fileName"
| "guard_Stat st (Guarded h) fileName =
     (case objectKey fileName of Inl e \<Rightarrow> throw e | Inr safe \<Rightarrow> Stat st h safe)"

definition guard_Ping :: "('h, 'w) storager \<Rightarrow> 'h gstore \<Rightarrow> 'w ctx \<Rightarrow> ('w, unit) io" where
  "guard_Ping st g ctx = Ping st (inner g) ctx"

definition guard_Close :: "('h, 'w) storager \<Rightarrow> 'h gstore \<Rightarrow> ('w, unit) io" where
  "guard_Close st g = Close st (inner g)"

definition guard_ops :: "('h, 'w) storager \<Rightarrow> ('h gstore, 'w) storager" where
  "guard_ops st =
     \<lparr>GetObject = guard_GetObject st, GetObjectRange = guard_GetObjectRange st,
      PutObject = guard_PutObject st, Delete = guard_Delete st, DeleteAll = guard_DeleteAll st,
      List_op = guard_List st, Stat = guard_Stat st, Exists = guard_Exists st,
      GetCwd = guard_GetCwd st, Dirname = guard_Dirname st, ListDir = guard_ListDir st,
      SubStorage = guard_SubStorage st, Copy = guard_Copy st, CopyAll = guard_CopyAll st,
      Ping = guard_Ping st, Close = guard_Close st\<rparr>"

section \<open>What the gates accept\<close>

lemma clean_Inr_iff:
  "clean key = Inr k \<longleftrightarrow>
     stays_inside key \<and> k = (if path_segs key = [] then '''' else path_Clean key)"
proof (cases "path_IsAbs key \<or> key = ''''")
  case True
  then show ?thesis
    by (auto simp: clean_def stays_inside_def Let_def path_IsAbs_def)
next
  case False
  then have abs: "\<not> path_IsAbs key" and ne: "key \<noteq> ''''" by simp_all
  have "escapes (path_Clean key) \<longleftrightarrow> ''..'' \<in> set (path_segs key)"
    unfolding escapes_def using abs by (rule escapes_Clean_iff)
  moreover have "path_Clean key = ''.'' \<longleftrightarrow> path_segs key = []"
    using abs by (simp add: path_Clean_dot_iff)
  ultimately show ?thesis
    using abs ne by (auto simp: clean_def stays_inside_def Let_def)
qed

lemma clean_Inl: "clean key = Inl e \<Longrightarrow> \<not> stays_inside key \<and> errors_Is e ErrUnsafeKey"
proof -
  assume cl: "clean key = Inl e"
  then have "\<not> stays_inside key"
    using clean_Inr_iff [of key] by (metis Inr_Inl_False)
  with cl show ?thesis
    by (auto simp: clean_def Let_def split: if_splits)
qed

lemma stays_inside_Clean [simp]: "stays_inside (path_Clean key) = stays_inside key"
  by (simp add: stays_inside_def)

lemma objectKey_Inr_iff:
  "objectKey key = Inr k \<longleftrightarrow> stays_inside key \<and> path_segs key \<noteq> [] \<and> k = path_Clean key"
  using clean_Inr_iff [of key] clean_Inl [of key] path_Clean_not_Nil [of key]
  by (auto simp: objectKey_def split: sum.splits if_splits)

lemma objectKey_Inl:
  assumes "objectKey key = Inl e"
  shows "\<not> (stays_inside key \<and> path_segs key \<noteq> []) \<and> errors_Is e ErrUnsafeKey"
proof (cases "clean key")
  case (Inl e')
  with assms have "e' = e" by (simp add: objectKey_def)
  with Inl clean_Inl show ?thesis by blast
next
  case (Inr k)
  with assms clean_Inr_iff [of key k] path_Clean_not_Nil [of key] show ?thesis
    by (auto simp: objectKey_def split: if_splits)
qed

lemma objectKey_key_ok: "objectKey key = Inr k \<Longrightarrow> key_ok k"
  by (auto simp: objectKey_Inr_iff key_ok_iff)

lemma objectKey_of_key_ok: "key_ok k \<Longrightarrow> objectKey k = Inr k"
  by (simp add: objectKey_Inr_iff key_okD)

lemma listPrefix_stays: "listPrefix p = Inr q \<Longrightarrow> stays_inside q \<and> path_segs q = path_segs p"
  by (auto simp: listPrefix_def clean_Inr_iff)

text \<open>Where an accepted prefix lands below any base: its own segments, appended.\<close>

lemma path_Join_listPrefix:
  "listPrefix p = Inr q \<Longrightarrow> path_segs (path_Join base q) = path_segs base @ path_segs p"
  using listPrefix_stays [of p q] by (simp add: path_segs_Join)

lemma gate_all_Inr: "gate_all ps = Inr ks \<Longrightarrow> list_all2 (\<lambda>p k. objectKey p = Inr k) ps ks"
  by (induction ps arbitrary: ks) (auto split: sum.splits)

lemma gate_all_Inl: "gate_all ps = Inl e \<Longrightarrow> \<exists>p \<in> set ps. objectKey p = Inl e"
  by (induction ps) (auto split: sum.splits)

section \<open>The guard keeps the contract\<close>

lemma guard_sel [simp]:
  "GetObject (guard_ops st) = guard_GetObject st"
  "GetObjectRange (guard_ops st) = guard_GetObjectRange st"
  "PutObject (guard_ops st) = guard_PutObject st"
  "Delete (guard_ops st) = guard_Delete st"
  "DeleteAll (guard_ops st) = guard_DeleteAll st"
  "List_op (guard_ops st) = guard_List st"
  "Stat (guard_ops st) = guard_Stat st"
  "Exists (guard_ops st) = guard_Exists st"
  "GetCwd (guard_ops st) = guard_GetCwd st"
  "Dirname (guard_ops st) = guard_Dirname st"
  "ListDir (guard_ops st) = guard_ListDir st"
  "SubStorage (guard_ops st) = guard_SubStorage st"
  "Copy (guard_ops st) = guard_Copy st"
  "CopyAll (guard_ops st) = guard_CopyAll st"
  "Ping (guard_ops st) = guard_Ping st"
  "Close (guard_ops st) = guard_Close st"
  by (simp_all add: guard_ops_def)

text \<open>A clean key passes the gate as it is, so the guarded method is the backend's.\<close>

lemma guard_passes:
  assumes "key_ok k"
  shows "guard_GetObject st g ctx k = GetObject st (inner g) ctx k"
    and "guard_GetObjectRange st g ctx k off len = GetObjectRange st (inner g) ctx k off len"
    and "guard_PutObject st g ctx k body = PutObject st (inner g) ctx k body"
    and "guard_DeleteAll st g ctx k = DeleteAll st (inner g) ctx k"
    and "guard_Exists st g ctx k = Exists st (inner g) ctx k"
    and "guard_Stat st g k = Stat st (inner g) k"
  using assms by (cases g; simp add: objectKey_of_key_ok)+

lemma guard_Copy_passes:
  "key_ok s \<Longrightarrow> key_ok d \<Longrightarrow> guard_Copy st g ctx s d opts = Copy st (inner g) ctx s d opts"
  by (cases g) (simp_all add: objectKey_of_key_ok)

lemma path_Join_cong:
  assumes "stays_inside p" "stays_inside q" "path_segs p = path_segs q" "key_ok k"
  shows "path_Join p k = path_Join q k"
proof (rule key_ok_eqI)
  show "key_ok (path_Join p k)" "key_ok (path_Join q k)"
    using assms by (simp_all add: path_Join_key_ok)
  show "path_segs (path_Join p k) = path_segs (path_Join q k)"
    using assms by (simp add: path_segs_Join key_okD)
qed

lemma guard_List_passes:
  assumes "stays_inside p"
  obtains q where "stays_inside q" "path_segs q = path_segs p"
    and "guard_List st g ctx p = List_op st (inner g) ctx q"
proof (cases g)
  case (Bare h)
  with assms show ?thesis by (intro that [of p]) simp_all
next
  case (Guarded h)
  from assms obtain q where "listPrefix p = Inr q"
    by (auto simp: listPrefix_def clean_Inr_iff)
  with Guarded listPrefix_stays show ?thesis by (intro that [of q]) auto
qed

context storager_contract
begin

lemma guard_list_content:
  assumes "wf (inner g) w" "stays_inside p" "guard_List st g ctx p w = (Inr os, w')"
  shows "sorted_wrt (<) (map Name os) \<and>
    (\<forall>k. key_ok k \<longrightarrow> (objs (inner g) w (path_Join p k) \<noteq> None \<longleftrightarrow> k \<in> Name ` set os)) \<and>
    (\<forall>x \<in> set os. Exist x \<and> key_ok (Name x))"
proof -
  obtain q where q: "stays_inside q" "path_segs q = path_segs p"
    and eq: "guard_List st g ctx p = List_op st (inner g) ctx q"
    using guard_List_passes [OF assms(2)] by metis
  have "List_op st (inner g) ctx q w = (Inr os, w')" using assms(3) eq by simp
  note lc = list_content [OF assms(1) q(1) this]
  have "path_Join p k = path_Join q k" if "key_ok k" for k
    using assms(2) q that by (intro path_Join_cong) simp_all
  with lc show ?thesis by simp
qed

lemma guard_contract:
  "storager_contract (guard_ops st) (\<lambda>g. objs (inner g)) (\<lambda>g. wf (inner g))"
proof (unfold_locales, goal_cases)
  case (1 g w k ctx res w' h')
  then show ?case using get_frame by (simp add: guard_passes)
next
  case (2 g w k b ctx r w')
  then show ?case using get_content by (simp add: guard_passes)
next
  case (3 g w k ctx found w' h')
  then show ?case using exists_frame by (simp add: guard_passes)
next
  case (4 g w k ctx w')
  then show ?case using exists_object by (simp add: guard_passes)
next
  case (5 g w k ctx body n w')
  then show ?case using put_ok by (simp add: guard_passes)
next
  case (6 g w k ctx body e w')
  then show ?case using put_err by (simp add: guard_passes)
next
  case (7 g w s d ctx opts c w')
  then show ?case using copy_ok by (simp add: guard_Copy_passes)
next
  case (8 g w s d ctx opts e w')
  then show ?case using copy_err by (simp add: guard_Copy_passes)
next
  case (9 g w p ctx listing w' h')
  then show ?case using list_frame guard_List_passes [OF 9(2)] by (metis guard_sel(6))
next
  case (10 g w p ctx os w')
  then show ?case using guard_list_content by simp
qed

end

context sized_contract
begin

lemma guard_sized:
  "sized_contract (guard_ops st) (\<lambda>g. objs (inner g)) (\<lambda>g. wf (inner g))"
proof (rule sized_contract.intro [OF guard_contract], unfold_locales, goal_cases)
  case (1 g w s d ctx opts c w' b)
  then show ?case using copy_bytes by (simp add: guard_Copy_passes)
next
  case (2 g w p ctx os w' x b)
  then have "key_ok (Name x)" using guard_list_content by auto
  obtain q where q: "stays_inside q" "path_segs q = path_segs p"
    and eq: "guard_List st g ctx p = List_op st (inner g) ctx q"
    using guard_List_passes [OF 2(2)] by metis
  have "path_Join p (Name x) = path_Join q (Name x)"
    using 2(2) q \<open>key_ok (Name x)\<close> by (intro path_Join_cong) simp_all
  then show ?case using list_size [OF 2(1) q(1), of ctx os w' x b] 2(3-5) eq by simp
next
  case (3 g w k info w' h')
  then show ?case using stat_frame by (simp add: guard_passes)
next
  case (4 g w k b s w')
  then show ?case using stat_object by (simp add: guard_passes)
next
  case (5 g w k ctx off len res w' h')
  then show ?case using range_frame by (simp add: guard_passes)
next
  case (6 g w k len b ctx off r w')
  then show ?case using range_content [OF 6(1-4), of ctx off r w'] by (simp add: guard_passes)
qed

end

section \<open>An independent reading of escape\<close>

text \<open>
  \<open>walk_depth\<close> follows the segments of a key one by one and counts how deep below the
  start they lead; \<open>None\<close> when a \<open>..\<close> would climb above the start at some point.
\<close>

fun walk_depth :: "nat \<Rightarrow> string list \<Rightarrow> nat option" where
  "walk_depth d [] = Some d"
| "walk_depth d (s # ss) =
     (if s = '''' \<or> s = ''.'' then walk_depth d ss
      else if s = ''..'' then (case d of 0 \<Rightarrow> None | Suc d' \<Rightarrow> walk_depth d' ss)
      else walk_depth (Suc d) ss)"

lemma walk_depth_foldl:
  "''..'' \<notin> set st \<Longrightarrow> walk_depth (length st) ss =
     (if ''..'' \<in> set (foldl (cstep False) st ss) then None
      else Some (length (foldl (cstep False) st ss)))"
proof (induction ss arbitrary: st)
  case (Cons s ss)
  consider "s = '''' \<or> s = ''.''" | "s = ''..''" "st = []" | t st' where "s = ''..''" "st = t # st'"
    | "s \<noteq> ''''" "s \<noteq> ''.''" "s \<noteq> ''..''"
    by (cases st) auto
  then show ?case
  proof cases
    case 1
    then have "cstep False st s = st" by (auto simp: cstep_def)
    with 1 Cons show ?thesis by auto
  next
    case 2
    then have c: "cstep False st s = [''..'']" by (simp add: cstep_def)
    have "''..'' \<in> set (foldl (cstep False) [''..''] ss)" by (rule dotdot_stays) simp
    with 2 c show ?thesis by simp
  next
    case 3
    with Cons.prems have c: "cstep False st s = st'" by (auto simp: cstep_def)
    with 3 Cons.prems Cons.IH [of st'] show ?thesis by simp
  next
    case 4
    then have c: "cstep False st s = s # st" by (simp add: cstep_def)
    have "''..'' \<notin> set (s # st)" using 4 Cons.prems by auto
    with 4 c Cons.IH [of "s # st"] show ?thesis by simp
  qed
qed simp

lemma walk_depth_segs:
  "\<not> path_IsAbs key \<Longrightarrow> walk_depth 0 (Split (CHR ''/'') key) =
     (if ''..'' \<in> set (path_segs key) then None else Some (length (path_segs key)))"
  using walk_depth_foldl [of "[]" "Split (CHR ''/'') key"] by (simp add: path_segs_def)

section \<open>Navigation\<close>

text \<open>
  A step of navigation: a relative \<open>SubStorage\<close> or one of the directories of a \<open>ListDir\<close>.
  The locale \<open>navigator\<close> is what a backend promises about the working directories it hands out.
\<close>

inductive nav :: "('h, 'w) storager \<Rightarrow> 'h \<Rightarrow> 'h \<Rightarrow> bool" for st where
  nav_here: "nav st h h"
| nav_sub: "nav st h g \<Longrightarrow> SubStorage st g p True = Inr g' \<Longrightarrow> nav st h g'"
| nav_dir: "nav st h g \<Longrightarrow> ListDir st g ctx w = (Inr (files, dirs), w') \<Longrightarrow> g' \<in> set dirs \<Longrightarrow>
    nav st h g'"

lemma nav_guarded: "nav (guard_ops st) g g' \<Longrightarrow> guarded g \<Longrightarrow> guarded g'"
proof (induction rule: nav.induct)
  case (nav_sub h g p g')
  then show ?case by (cases g) (auto split: sum.splits)
next
  case (nav_dir h g ctx w files dirs w' g')
  then show ?case
    by (cases g) (auto simp: bindIO_apply split: sum.splits prod.splits)
qed

locale navigator =
  fixes st :: "('h, 'w) storager"
  assumes sub_cwd: "SubStorage st h p True = Inr h' \<Longrightarrow>
      path_segs (GetCwd st h') = path_segs (path_Join (GetCwd st h) p)"
    and dir_cwd: "ListDir st h ctx w = (Inr (files, dirs), w') \<Longrightarrow> d \<in> set dirs \<Longrightarrow>
      \<exists>n. real_seg n \<and> path_segs (GetCwd st d) = path_segs (GetCwd st h) @ [n]"
begin

lemma guard_sub_below:
  assumes "guarded g" "guard_SubStorage st g p True = Inr g'"
  shows "\<exists>rel. path_segs (guard_GetCwd st g') = path_segs (guard_GetCwd st g) @ rel \<and> ''..'' \<notin> set rel"
proof -
  obtain h where g: "g = Guarded h" using assms by (cases g) auto
  with assms obtain q h' where q: "listPrefix p = Inr q" and "SubStorage st h q True = Inr h'"
    and g': "g' = Guarded h'"
    by (auto split: sum.splits)
  then have "path_segs (GetCwd st h') = path_segs (GetCwd st h) @ path_segs q"
    using listPrefix_stays [OF q] by (simp add: sub_cwd path_segs_Join)
  moreover have "''..'' \<notin> set (path_segs q)"
    using listPrefix_stays [OF q] by (auto simp: stays_inside_def)
  ultimately show ?thesis using g g' by (auto simp: guard_GetCwd_def)
qed

lemma guard_dir_below:
  assumes "guarded g" "guard_ListDir st g ctx w = (Inr (files, dirs), w')" "g' \<in> set dirs"
  shows "\<exists>rel. path_segs (guard_GetCwd st g') = path_segs (guard_GetCwd st g) @ rel \<and> ''..'' \<notin> set rel"
proof -
  obtain h where g: "g = Guarded h" using assms by (cases g) auto
  with assms obtain hs where "ListDir st h ctx w = (Inr (files, hs), w')" and "dirs = map Guarded hs"
    by (auto simp: bindIO_apply split: sum.splits prod.splits)
  with assms(3) dir_cwd obtain h' n where "g' = Guarded h'" "real_seg n"
    "path_segs (GetCwd st h') = path_segs (GetCwd st h) @ [n]"
    by fastforce
  with g show ?thesis by (auto simp: guard_GetCwd_def real_seg_def)
qed

lemma guard_nav_below:
  assumes "nav (guard_ops st) g g'" "guarded g"
  shows "\<exists>rel. path_segs (guard_GetCwd st g') = path_segs (guard_GetCwd st g) @ rel \<and> ''..'' \<notin> set rel"
  using assms
proof (induction rule: nav.induct)
  case (nav_here h)
  show ?case by (intro exI [of _ "[]"]) simp
next
  case (nav_sub h g p g')
  have "guarded g" using nav_sub nav_guarded by blast
  moreover have "guard_SubStorage st g p True = Inr g'" using nav_sub by simp
  ultimately obtain rel where "path_segs (guard_GetCwd st g') = path_segs (guard_GetCwd st g) @ rel"
    "''..'' \<notin> set rel"
    using guard_sub_below by blast
  with nav_sub show ?case by auto
next
  case (nav_dir h g ctx w files dirs w' g')
  have "guarded g" using nav_dir nav_guarded by blast
  moreover have "guard_ListDir st g ctx w = (Inr (files, dirs), w')" using nav_dir by simp
  ultimately obtain rel where "path_segs (guard_GetCwd st g') = path_segs (guard_GetCwd st g) @ rel"
    "''..'' \<notin> set rel"
    using guard_dir_below nav_dir.hyps by blast
  with nav_dir show ?case by auto
qed

end

section \<open>Properties\<close>

lemma key_ok_Join_str: "key_ok k \<Longrightarrow> Join_str ''/'' (path_segs k) = k"
  using path_Clean_render [of k] by (simp add: key_okD key_ok_not_abs render_def)

lemma path_Clean_root_iff: "path_Clean b = ''/'' \<longleftrightarrow> path_IsAbs b \<and> path_segs b = []"
proof
  assume eq: "path_Clean b = ''/''"
  show "path_IsAbs b \<and> path_segs b = []"
    using arg_cong [OF eq, of path_IsAbs] arg_cong [OF eq, of path_segs]
    by (simp add: path_segs_def [of "''/''"] path_IsAbs_def [of "''/''"])
qed (simp add: path_Clean_render render_def)

lemma path_Join_text:
  assumes "key_ok k"
  shows "path_Join base k =
     (if path_Clean base = ''/'' then ''/'' @ k
      else if path_Clean base = ''.'' then k
      else path_Clean base @ ''/'' @ k)"
proof (cases "base = ''''")
  case True
  then have "path_Clean base = ''.''" by (simp add: path_Clean_def)
  with True assms show ?thesis by (simp add: path_Join_Nil_left key_okD)
next
  case False
  have "path_Join base k = render (path_IsAbs base) (path_segs base @ path_segs k)"
    using False assms by (simp add: path_Join_render key_okD)
  moreover have "Join_str ''/'' (path_segs base @ path_segs k) =
      (if path_segs base = [] then k else Join_str ''/'' (path_segs base) @ ''/'' @ k)"
    using assms by (simp add: Join_str_append key_okD key_ok_Join_str)
  moreover have "path_segs base \<noteq> [] \<Longrightarrow> path_Clean base @ ''/'' @ k =
      render (path_IsAbs base) (path_segs base) @ ''/'' @ k"
    by (simp add: path_Clean_render)
  ultimately show ?thesis
    unfolding path_Clean_root_iff path_Clean_dot_iff
    using key_okD(3) [OF assms] by (cases "path_segs base = []") (simp_all add: render_def)
qed

text \<open>
  C1. The object gate accepts a key exactly when it is relative and walking its segments never
  climbs above the storage and ends strictly inside it; the accepted key is the cleaned one, and
  every refusal is \<open>ErrUnsafeKey\<close>.
\<close>

theorem objectKey_decides:
  "case objectKey key of
     Inr k \<Rightarrow> \<not> path_IsAbs key \<and> (\<exists>d. d > 0 \<and> walk_depth 0 (Split (CHR ''/'') key) = Some d) \<and>
       k = path_Clean key
   | Inl e \<Rightarrow> errors_Is e ErrUnsafeKey \<and>
       (path_IsAbs key \<or> walk_depth 0 (Split (CHR ''/'') key) \<in> {None, Some 0})"
proof (cases "objectKey key")
  case (Inl e)
  then have "\<not> (stays_inside key \<and> path_segs key \<noteq> []) \<and> errors_Is e ErrUnsafeKey"
    by (rule objectKey_Inl)
  with Inl show ?thesis
    using walk_depth_segs [of key] by (auto simp: stays_inside_def)
next
  case (Inr k)
  then have "stays_inside key" "path_segs key \<noteq> []" "k = path_Clean key"
    by (simp_all add: objectKey_Inr_iff)
  with Inr show ?thesis
    using walk_depth_segs [of key] by (simp add: stays_inside_def)
qed

text \<open>
  C2. Wherever a backend joins an accepted key onto its root, the result is the cleaned root,
  a slash and the key: strictly inside the root, for every root.
\<close>

theorem guard_confines:
  assumes "objectKey key = Inr k"
  shows "path_Join base k =
     (if path_Clean base = ''/'' then ''/'' @ k
      else if path_Clean base = ''.'' then k
      else path_Clean base @ ''/'' @ k)
    \<and> ''..'' \<notin> set (Split (CHR ''/'') k)"
proof
  from assms have k: "key_ok k" by (rule objectKey_key_ok)
  then show "path_Join base k =
     (if path_Clean base = ''/'' then ''/'' @ k
      else if path_Clean base = ''.'' then k
      else path_Clean base @ ''/'' @ k)"
    by (rule path_Join_text)
  have "Split (CHR ''/'') k = path_segs k"
    using k key_ok_real [OF k] Split_Join [of "path_segs k" "CHR ''/''"]
    by (simp add: key_ok_Join_str key_okD real_seg_def)
  then show "''..'' \<notin> set (Split (CHR ''/'') k)"
    using key_okD(1) [OF k] by (simp add: stays_inside_def)
qed

theorem guard_confines_witness:
  "path_Join ''/var/dumps/../dumps'' ''b/c'' = ''/var/dumps/b/c''"
proof -
  have "objectKey ''a/.././b//c'' = Inr ''b/c''"
    by (simp add: objectKey_def clean_def escapes_def path_simps)
  moreover have "path_Clean ''/var/dumps/../dumps'' = ''/var/dumps''"
    by (simp add: path_simps)
  ultimately show ?thesis
    using guard_confines [of "''a/.././b//c''" "''b/c''" "''/var/dumps/../dumps''"] by simp
qed

text \<open>
  Two backends that agree on every clean key and prefix, and on absolute re-rooting; elsewhere they
  may do anything.
\<close>

definition prefix_ok :: "string \<Rightarrow> bool" where
  "prefix_ok p \<longleftrightarrow> p = '''' \<or> key_ok p"

definition agree_inside :: "('h, 'w) storager \<Rightarrow> ('h, 'w) storager \<Rightarrow> bool" where
  "agree_inside st st' \<longleftrightarrow>
     (\<forall>h ctx k. key_ok k \<longrightarrow>
        GetObject st h ctx k = GetObject st' h ctx k \<and>
        GetObjectRange st h ctx k = GetObjectRange st' h ctx k \<and>
        PutObject st h ctx k = PutObject st' h ctx k \<and>
        DeleteAll st h ctx k = DeleteAll st' h ctx k \<and>
        Exists st h ctx k = Exists st' h ctx k \<and> Stat st h k = Stat st' h k) \<and>
     (\<forall>h ctx ks. (\<forall>k \<in> set ks. key_ok k) \<longrightarrow> Delete st h ctx ks = Delete st' h ctx ks) \<and>
     (\<forall>h ctx s d. key_ok s \<and> key_ok d \<longrightarrow> Copy st h ctx s d = Copy st' h ctx s d) \<and>
     (\<forall>h ctx p. prefix_ok p \<longrightarrow>
        List_op st h ctx p = List_op st' h ctx p \<and> SubStorage st h p True = SubStorage st' h p True) \<and>
     (\<forall>h ctx p q. prefix_ok p \<and> prefix_ok q \<longrightarrow>
        CopyAll st h ctx p q = CopyAll st' h ctx p q) \<and>
     (\<forall>h p. SubStorage st h p False = SubStorage st' h p False) \<and>
     GetCwd st = GetCwd st' \<and> Dirname st = Dirname st' \<and> ListDir st = ListDir st' \<and>
     Ping st = Ping st' \<and> Close st = Close st'"

lemma listPrefix_form: "listPrefix p = Inr q \<Longrightarrow> prefix_ok q"
  by (auto simp: prefix_ok_def listPrefix_def clean_Inr_iff key_ok_iff)

lemma gate_all_key_ok: "gate_all ps = Inr ks \<Longrightarrow> k \<in> set ks \<Longrightarrow> key_ok k"
  using gate_all_Inr [of ps ks] by (auto simp: list_all2_conv_all_nth in_set_conv_nth objectKey_key_ok)

lemma gate_all_refuses:
  assumes "objectKey p = Inl e" "p \<in> set ps"
  shows "\<exists>e'. gate_all ps = Inl e' \<and> errors_Is e' ErrUnsafeKey"
  using assms
proof (induction ps)
  case (Cons q ps)
  then show ?case
    by (cases "objectKey q") (auto split: sum.splits dest: objectKey_Inl)
qed simp

lemma agree_inside_object:
  assumes "agree_inside st st'"
  shows "guard_GetObject st (Guarded h) = guard_GetObject st' (Guarded h)"
    and "guard_GetObjectRange st (Guarded h) = guard_GetObjectRange st' (Guarded h)"
    and "guard_PutObject st (Guarded h) = guard_PutObject st' (Guarded h)"
    and "guard_DeleteAll st (Guarded h) = guard_DeleteAll st' (Guarded h)"
    and "guard_Exists st (Guarded h) = guard_Exists st' (Guarded h)"
    and "guard_Stat st (Guarded h) = guard_Stat st' (Guarded h)"
    and "guard_Delete st (Guarded h) = guard_Delete st' (Guarded h)"
    and "guard_Copy st (Guarded h) = guard_Copy st' (Guarded h)"
  using assms objectKey_key_ok gate_all_key_ok
  by (intro ext; auto simp: agree_inside_def split: sum.split)+

lemma agree_inside_prefix:
  assumes "agree_inside st st'"
  shows "guard_List st (Guarded h) = guard_List st' (Guarded h)"
    and "guard_CopyAll st (Guarded h) = guard_CopyAll st' (Guarded h)"
    and "guard_SubStorage st (Guarded h) = guard_SubStorage st' (Guarded h)"
    and "guard_ListDir st (Guarded h) = guard_ListDir st' (Guarded h)"
  using assms listPrefix_form
  by (intro ext; auto simp: agree_inside_def split: sum.split)+

text \<open>
  C3. Complete mediation: a guarded storage depends on its backend only through clean keys
  strictly inside the root (clean prefixes for listing, copying a tree and re-rooting), so no method
  of the guard forwards any other key.
\<close>

theorem guard_mediates:
  assumes "agree_inside st st'"
  shows "GetObject (guard_ops st) (Guarded h) = GetObject (guard_ops st') (Guarded h) \<and>
    GetObjectRange (guard_ops st) (Guarded h) = GetObjectRange (guard_ops st') (Guarded h) \<and>
    PutObject (guard_ops st) (Guarded h) = PutObject (guard_ops st') (Guarded h) \<and>
    Delete (guard_ops st) (Guarded h) = Delete (guard_ops st') (Guarded h) \<and>
    DeleteAll (guard_ops st) (Guarded h) = DeleteAll (guard_ops st') (Guarded h) \<and>
    List_op (guard_ops st) (Guarded h) = List_op (guard_ops st') (Guarded h) \<and>
    Stat (guard_ops st) (Guarded h) = Stat (guard_ops st') (Guarded h) \<and>
    Exists (guard_ops st) (Guarded h) = Exists (guard_ops st') (Guarded h) \<and>
    ListDir (guard_ops st) (Guarded h) = ListDir (guard_ops st') (Guarded h) \<and>
    SubStorage (guard_ops st) (Guarded h) = SubStorage (guard_ops st') (Guarded h) \<and>
    Copy (guard_ops st) (Guarded h) = Copy (guard_ops st') (Guarded h) \<and>
    CopyAll (guard_ops st) (Guarded h) = CopyAll (guard_ops st') (Guarded h)"
  unfolding guard_sel by (intro conjI agree_inside_object agree_inside_prefix assms)

theorem guard_mediates_witness:
  "\<forall>st :: (nat, nat) storager.
     PutObject (guard_ops st) (Guarded 0) =
     PutObject (guard_ops (st\<lparr>PutObject := (\<lambda>h ctx k body w.
       if key_ok k then PutObject st h ctx k body w else (Inl EOF, 0))\<rparr>)) (Guarded 0)"
proof
  fix st :: "(nat, nat) storager"
  let ?st' = "st\<lparr>PutObject := (\<lambda>h ctx k body w.
       if key_ok k then PutObject st h ctx k body w else (Inl EOF, 0))\<rparr>"
  have "agree_inside st ?st'" by (auto simp: agree_inside_def)
  then show "PutObject (guard_ops st) (Guarded 0) = PutObject (guard_ops ?st') (Guarded 0)"
    using guard_mediates [of st ?st' 0] by blast
qed

text \<open>
  C23. A refused key has no effect: every object method answers \<open>ErrUnsafeKey\<close> and leaves the
  world as it was; \<open>Delete\<close> does so when any one of its paths is refused, \<open>Copy\<close> when
  either key is.
\<close>

theorem guard_refusal_no_effect:
  assumes "objectKey key = Inl e"
  shows "guard_GetObject st (Guarded h) ctx key w = (Inl e, w) \<and>
    guard_GetObjectRange st (Guarded h) ctx key off len w = (Inl e, w) \<and>
    guard_PutObject st (Guarded h) ctx key body w = (Inl e, w) \<and>
    guard_DeleteAll st (Guarded h) ctx key w = (Inl e, w) \<and>
    guard_Exists st (Guarded h) ctx key w = (Inl e, w) \<and>
    guard_Stat st (Guarded h) key w = (Inl e, w) \<and>
    (\<exists>e'. guard_Delete st (Guarded h) ctx (before @ key # after) w = (Inl e', w) \<and>
       errors_Is e' ErrUnsafeKey) \<and>
    (\<exists>e'. guard_Copy st (Guarded h) ctx key other opts w = (Inl e', w) \<and> errors_Is e' ErrUnsafeKey) \<and>
    (\<exists>e'. guard_Copy st (Guarded h) ctx other key opts w = (Inl e', w) \<and> errors_Is e' ErrUnsafeKey) \<and>
    errors_Is e ErrUnsafeKey"
proof -
  obtain e' where "gate_all (before @ key # after) = Inl e'" "errors_Is e' ErrUnsafeKey"
    using gate_all_refuses [OF assms, of "before @ key # after"] by auto
  then show ?thesis
    using assms objectKey_Inl [OF assms] objectKey_Inl [of other] by (auto split: sum.splits)
qed

theorem guard_refusal_no_effect_witness:
  "\<forall>st :: (nat, nat) storager. guard_DeleteAll st (Guarded 0) (\<lambda>_. None) '''' 7 =
     (Inl (Errorf ''names the storage root'' [ErrUnsafeKey]), 7)"
proof
  fix st :: "(nat, nat) storager"
  have "objectKey '''' = Inl (Errorf ''names the storage root'' [ErrUnsafeKey])"
    by (simp add: objectKey_def clean_def path_IsAbs_def)
  then show "guard_DeleteAll st (Guarded 0) (\<lambda>_. None) '''' 7 =
     (Inl (Errorf ''names the storage root'' [ErrUnsafeKey]), 7)"
    by (rule guard_refusal_no_effect [THEN conjunct2, THEN conjunct2, THEN conjunct2, THEN conjunct1])
qed

end
