(* ===== verification/Errgroup.thy ===== *)
theory Errgroup
  imports Prelude "HOL-Library.Multiset"
begin

text \<open>
  The error group (\<^verbatim>\<open>errgroup\<close> with a context and a limit) that \<^verbatim>\<open>CopyListed\<close> and the multipart
  copy of S3 run their tasks in, as a state machine: jobs wait in the loop that starts them, are
  launched up to the limit, check the group's context, and run; a scheduler argument picks the next
  action, so every statement about a run holds for every interleaving. A job's call and its update of
  what the jobs share is one step. Shown here: the limit is kept in every reachable state, every run
  finishes, and after the first error nothing more is started.
\<close>

section \<open>The machine\<close>

record ('j, 's, 'w) errgroup =
  g_queue :: "'j list"
  g_launched :: "'j list"
  g_inflight :: "'j list"
  g_shared :: 's
  g_err :: "error option"
  g_world :: 'w

datatype action = Launch | Begin nat | Finish nat

text \<open>A job returns an error, or the new value of what the jobs share.\<close>

record ('j, 's, 'w) group_env =
  e_ctx :: "'w ctx"
  e_task :: "'w ctx \<Rightarrow> 'j \<Rightarrow> 's \<Rightarrow> ('w, 's) io"
  e_limit :: nat

text \<open>The group's context: cancelled by the first error, or with its parent.\<close>

definition gctx :: "'w ctx \<Rightarrow> ('j, 's, 'w) errgroup \<Rightarrow> 'w ctx" where
  "gctx ctx g w = (if g_err g \<noteq> None then Some Canceled else ctx w)"

definition remove_nth :: "nat \<Rightarrow> 'a list \<Rightarrow> 'a list" where
  "remove_nth i xs = take i xs @ drop (Suc i) xs"

text \<open>A goroutine's error is kept if it is the first.\<close>

definition group_fail :: "error \<Rightarrow> ('j, 's, 'w) errgroup \<Rightarrow> ('j, 's, 'w) errgroup" where
  "group_fail e g = (case g_err g of None \<Rightarrow> g\<lparr>g_err := Some e\<rparr> | Some _ \<Rightarrow> g)"

fun perform :: "('j, 's, 'w) group_env \<Rightarrow> action \<Rightarrow> ('j, 's, 'w) errgroup \<Rightarrow> ('j, 's, 'w) errgroup" where
  "perform E Launch g =
     (case g_queue g of
        [] \<Rightarrow> g
      | job # rest \<Rightarrow> g\<lparr>g_queue := rest, g_launched := g_launched g @ [job]\<rparr>)"
| "perform E (Begin i) g =
     (let job = g_launched g ! i; g1 = g\<lparr>g_launched := remove_nth i (g_launched g)\<rparr> in
      case gctx (e_ctx E) g (g_world g) of
        Some err \<Rightarrow> group_fail err g1
      | None \<Rightarrow> g1\<lparr>g_inflight := g_inflight g @ [job]\<rparr>)"
| "perform E (Finish i) g =
     (let job = g_inflight g ! i; g1 = g\<lparr>g_inflight := remove_nth i (g_inflight g)\<rparr> in
      case e_task E (gctx (e_ctx E) g) job (g_shared g) (g_world g) of
        (Inl err, w) \<Rightarrow> group_fail err (g1\<lparr>g_world := w\<rparr>)
      | (Inr shared, w) \<Rightarrow> g1\<lparr>g_shared := shared, g_world := w\<rparr>)"

definition enabled :: "nat \<Rightarrow> ('j, 's, 'w) errgroup \<Rightarrow> action list" where
  "enabled limit g =
     (if g_queue g \<noteq> [] \<and> length (g_launched g) + length (g_inflight g) < limit then [Launch] else []) @
     map Begin [0..<length (g_launched g)] @ map Finish [0..<length (g_inflight g)]"

definition group_size :: "('j, 's, 'w) errgroup \<Rightarrow> nat" where
  "group_size g = 3 * length (g_queue g) + 2 * length (g_launched g) + length (g_inflight g)"

lemma length_remove_nth: "i < length xs \<Longrightarrow> length (remove_nth i xs) = length xs - 1"
  by (auto simp: remove_nth_def)

lemma group_fail_sel [simp]:
  "g_queue (group_fail e g) = g_queue g" "g_launched (group_fail e g) = g_launched g"
  "g_inflight (group_fail e g) = g_inflight g" "g_shared (group_fail e g) = g_shared g"
  "g_world (group_fail e g) = g_world g" "g_err (group_fail e g) \<noteq> None"
  by (auto simp: group_fail_def split: option.splits)

lemma enabled_cases:
  assumes "a \<in> set (enabled limit g)"
  obtains job rest where "a = Launch" "g_queue g = job # rest"
      "length (g_launched g) + length (g_inflight g) < limit"
  | i where "a = Begin i" "i < length (g_launched g)"
  | i where "a = Finish i" "i < length (g_inflight g)"
  using assms by (cases "g_queue g") (auto simp: enabled_def split: if_splits)

lemma perform_size:
  assumes "a \<in> set (enabled limit g)"
  shows "group_size (perform E a g) < group_size g"
  using assms
proof (cases rule: enabled_cases)
  case (2 i)
  then show ?thesis
    by (auto simp: group_size_def Let_def length_remove_nth split: option.split)
next
  case (3 i)
  then show ?thesis
    by (auto simp: group_size_def Let_def length_remove_nth split: prod.split sum.split)
qed (simp add: group_size_def)

text \<open>The group runs until no action is enabled; \<open>pick\<close> is the scheduler.\<close>

definition pick_action :: "(('j, 's, 'w) errgroup \<Rightarrow> nat) \<Rightarrow> nat \<Rightarrow> ('j, 's, 'w) errgroup \<Rightarrow> action" where
  "pick_action pick limit g = enabled limit g ! (pick g mod length (enabled limit g))"

lemma pick_action_enabled: "enabled limit g \<noteq> [] \<Longrightarrow> pick_action pick limit g \<in> set (enabled limit g)"
  by (simp add: pick_action_def)

function run_group :: "(('j, 's, 'w) errgroup \<Rightarrow> nat) \<Rightarrow> ('j, 's, 'w) group_env \<Rightarrow> ('j, 's, 'w) errgroup \<Rightarrow> ('j, 's, 'w) errgroup" where
  "run_group pick E g =
     (if enabled (e_limit E) g = [] then g
      else run_group pick E (perform E (pick_action pick (e_limit E) g) g))"
  by pat_completeness auto
termination
  by (relation "measure (\<lambda>(pick, E, g). group_size g)")
    (auto intro: perform_size [of _ "e_limit _"] pick_action_enabled)

declare run_group.simps [simp del]

section \<open>Runs of the group\<close>

inductive group_reach :: "('j, 's, 'w) group_env \<Rightarrow> ('j, 's, 'w) errgroup \<Rightarrow> ('j, 's, 'w) errgroup \<Rightarrow> bool" for E where
  reach_here: "group_reach E g g"
| reach_step: "group_reach E g0 g \<Longrightarrow> a \<in> set (enabled (e_limit E) g) \<Longrightarrow>
    group_reach E g0 (perform E a g)"

lemma group_reach_trans: "group_reach E g1 g2 \<Longrightarrow> group_reach E g0 g1 \<Longrightarrow> group_reach E g0 g2"
  by (induction rule: group_reach.induct) (auto intro: group_reach.intros)

lemma run_group_reach: "group_reach E g (run_group pick E g)"
proof (induction pick E g rule: run_group.induct)
  case (1 pick E g)
  show ?case
  proof (cases "enabled (e_limit E) g = []")
    case True
    then show ?thesis by (subst run_group.simps) (simp add: reach_here)
  next
    case False
    let ?g = "perform E (pick_action pick (e_limit E) g) g"
    have "group_reach E g ?g"
      using False by (intro reach_step [OF reach_here] pick_action_enabled)
    with 1 False show ?thesis
      by (subst run_group.simps) (simp add: group_reach_trans)
  qed
qed

lemma run_group_stops: "enabled (e_limit E) (run_group pick E g) = []"
proof (induction pick E g rule: run_group.induct)
  case (1 pick E g)
  then show ?case
    by (cases "enabled (e_limit E) g = []") (simp_all add: run_group.simps [of pick E g])
qed

lemma enabled_Nil_iff:
  "0 < limit \<Longrightarrow> enabled limit g = [] \<longleftrightarrow> g_queue g = [] \<and> g_launched g = [] \<and> g_inflight g = []"
  by (auto simp: enabled_def)

text \<open>An invariant kept by every enabled action holds when the group is done.\<close>

lemma group_invariant:
  assumes "group_reach E g0 g" "P g0"
    and "\<And>g a. P g \<Longrightarrow> a \<in> set (enabled (e_limit E) g) \<Longrightarrow> P (perform E a g)"
  shows "P g"
  using assms(1,2) by (induction rule: group_reach.induct) (auto intro: assms(3))

text \<open>The jobs a group still has to deal with, and what an action does to them.\<close>

definition pending :: "('j, 's, 'w) errgroup \<Rightarrow> 'j list" where
  "pending g = g_queue g @ g_launched g @ g_inflight g"

lemma mset_remove_nth: "i < length xs \<Longrightarrow> mset xs = add_mset (xs ! i) (mset (remove_nth i xs))"
  by (metis Cons_nth_drop_Suc append_take_drop_id mset.simps(2) mset_append remove_nth_def
      union_mset_add_mset_right)

lemma pending_perform:
  assumes "a \<in> set (enabled limit g)"
  shows "mset (pending (perform E a g)) = mset (pending g) \<or>
    (\<exists>x. mset (pending g) = add_mset x (mset (pending (perform E a g))))"
  using assms
proof (cases rule: enabled_cases)
  case (2 i)
  then show ?thesis
    using mset_remove_nth [OF 2(2)]
    by (cases "gctx (e_ctx E) g (g_world g)") (simp_all add: pending_def)
next
  case (3 i)
  then show ?thesis
    using mset_remove_nth [OF 3(2)]
    by (simp add: pending_def Let_def split: prod.split sum.split)
qed (simp add: pending_def)

lemma group_fail_err: "g_err (group_fail e g) = None \<longleftrightarrow> False"
  by simp

text \<open>An action that leaves the group without an error: bookkeeping, or one finished job.\<close>

lemma perform_ok_cases:
  assumes a: "a \<in> set (enabled limit g)" and ok: "g_err (perform E a g) = None"
  obtains (quiet) "g_err g = None" "mset (pending (perform E a g)) = mset (pending g)"
      "g_shared (perform E a g) = g_shared g" "g_world (perform E a g) = g_world g"
  | (ran) job shared w where "g_err g = None" "job \<in> set (pending g)"
      "e_task E (gctx (e_ctx E) g) job (g_shared g) (g_world g) = (Inr shared, w)"
      "mset (pending g) = add_mset job (mset (pending (perform E a g)))"
      "g_shared (perform E a g) = shared" "g_world (perform E a g) = w"
  using a
proof (cases rule: enabled_cases)
  case (1 job rest)
  with ok show ?thesis by (intro quiet) (simp_all add: pending_def)
next
  case (2 i)
  then have "gctx (e_ctx E) g (g_world g) = None"
    using ok by (cases "gctx (e_ctx E) g (g_world g)") (auto simp: Let_def)
  with 2 ok mset_remove_nth [OF 2(2)] show ?thesis
    by (intro quiet) (simp_all add: pending_def)
next
  case (3 i)
  let ?job = "g_inflight g ! i"
  obtain r w where call: "e_task E (gctx (e_ctx E) g) ?job (g_shared g) (g_world g) = (r, w)" by fastforce
  then obtain shared where r: "r = Inr shared"
    using ok 3 by (cases r) (auto simp: Let_def)
  have "?job \<in> set (pending g)" using 3 by (simp add: pending_def)
  moreover have "g_err g = None" using ok 3 call r by (simp add: Let_def)
  ultimately show ?thesis
    using 3 call r mset_remove_nth [OF 3(2)]
    by (intro ran [of ?job shared w]) (simp_all add: pending_def Let_def)
qed

section \<open>Properties\<close>

lemma group_fail_keeps: "g_err g \<noteq> None \<Longrightarrow> group_fail e g = g"
  by (auto simp: group_fail_def)

text \<open>An action leaves the world as it is or as one task leaves it.\<close>

lemma perform_world:
  obtains "g_world (perform E a g) = g_world g"
  | i r where "e_task E (gctx (e_ctx E) g) (g_inflight g ! i) (g_shared g) (g_world g) = (r, g_world (perform E a g))"
proof (cases a)
  case Launch
  then show ?thesis by (intro that(1)) (simp split: list.split)
next
  case (Begin i)
  then show ?thesis by (intro that(1)) (simp add: Let_def split: option.split)
next
  case (Finish i)
  then show ?thesis
    by (intro that(2) [of i "fst (e_task E (gctx (e_ctx E) g) (g_inflight g ! i) (g_shared g) (g_world g))"])
      (simp add: Let_def split: prod.split sum.split)
qed

lemma perform_after_error:
  assumes "a \<in> set (enabled limit g)" "g_err g \<noteq> None"
  shows "g_err (perform E a g) = g_err g \<and> mset (g_inflight (perform E a g)) \<subseteq># mset (g_inflight g)"
  using assms(1)
proof (cases rule: enabled_cases)
  case (2 i)
  then show ?thesis using assms(2) by (auto simp: Let_def gctx_def group_fail_keeps)
next
  case (3 i)
  have "mset (remove_nth i (g_inflight g)) \<subseteq># mset (g_inflight g)"
    using mset_remove_nth [OF 3(2)] by simp
  with 3 assms(2) show ?thesis
    by (auto simp: Let_def group_fail_keeps split: prod.split sum.split)
qed simp

text \<open>
  The number of jobs running at a time never exceeds the limit of the group, in any
  state any interleaving can reach, and every run stops with nothing left to do.
\<close>

theorem group_bounded_and_finishes:
  assumes "g_launched g0 = []" "g_inflight g0 = []" "0 < e_limit E"
  shows "(\<forall>g. group_reach E g0 g \<longrightarrow> length (g_launched g) + length (g_inflight g) \<le> e_limit E) \<and>
    pending (run_group pick E g0) = []"
proof
  show "\<forall>g. group_reach E g0 g \<longrightarrow> length (g_launched g) + length (g_inflight g) \<le> e_limit E"
  proof (intro allI impI)
    fix g assume "group_reach E g0 g"
    then show "length (g_launched g) + length (g_inflight g) \<le> e_limit E"
    proof (rule group_invariant)
      fix g :: "('a, 'b, 'c) errgroup" and a
      assume le: "length (g_launched g) + length (g_inflight g) \<le> e_limit E"
        and a: "a \<in> set (enabled (e_limit E) g)"
      from a show "length (g_launched (perform E a g)) + length (g_inflight (perform E a g)) \<le> e_limit E"
      proof (cases rule: enabled_cases)
        case (2 i)
        with le show ?thesis
          by (auto simp: Let_def length_remove_nth split: option.split)
      next
        case (3 i)
        with le show ?thesis
          by (auto simp: Let_def length_remove_nth split: prod.split sum.split)
      qed simp
    qed (simp add: assms)
  qed
  show "pending (run_group pick E g0) = []"
    using run_group_stops [of E pick g0] enabled_Nil_iff [OF assms(3), of "run_group pick E g0"]
    by (simp add: pending_def)
qed

theorem group_bounded_and_finishes_witness:
  "pending (run_group (\<lambda>_. 5)
     \<lparr>e_ctx = (\<lambda>_. None), e_task = (\<lambda>ctx job n w. (Inr (n + 1), w @ [job])), e_limit = 2\<rparr>
     \<lparr>g_queue = [''x'', ''y'', ''z''], g_launched = [], g_inflight = [], g_shared = 0 :: nat, g_err = None, g_world = []\<rparr>) = []"
  by (rule group_bounded_and_finishes [THEN conjunct2]) simp_all

text \<open>
  C18. After the first error no further job starts: the recorded error stays the first
  one, and the jobs still in flight are the only ones that can yet run.
\<close>

theorem group_cancels:
  assumes "group_reach E g g'" "g_err g \<noteq> None"
  shows "g_err g' = g_err g \<and> mset (g_inflight g') \<subseteq># mset (g_inflight g) \<and>
    (\<forall>w. gctx (e_ctx E) g' w = Some Canceled)"
proof -
  have "g_err g' = g_err g \<and> mset (g_inflight g') \<subseteq># mset (g_inflight g)"
    using assms(1)
  proof (rule group_invariant)
    fix h :: "('a, 'b, 'c) errgroup" and a
    assume "g_err h = g_err g \<and> mset (g_inflight h) \<subseteq># mset (g_inflight g)"
      "a \<in> set (enabled (e_limit E) h)"
    then show "g_err (perform E a h) = g_err g \<and> mset (g_inflight (perform E a h)) \<subseteq># mset (g_inflight g)"
      using perform_after_error [of a "e_limit E" h E] assms(2) by (auto intro: subset_mset.order_trans)
  qed simp_all
  with assms(2) show ?thesis by (auto simp: gctx_def)
qed

theorem group_cancels_witness:
  "g_inflight (run_group (\<lambda>_. 0)
     \<lparr>e_ctx = (\<lambda>_. None), e_task = (\<lambda>ctx job n w. (Inr (n + 1), w @ [job])), e_limit = 1\<rparr>
     \<lparr>g_queue = [''x''], g_launched = [], g_inflight = [], g_shared = 0 :: nat, g_err = Some EOF, g_world = []\<rparr>) = []"
  (is "g_inflight (run_group ?pick ?E ?g) = []")
proof -
  have "group_reach ?E ?g (run_group ?pick ?E ?g)" by (rule run_group_reach)
  from group_cancels [OF this] show ?thesis by simp
qed

end
