(* ===== verification/Copying.thy ===== *)
theory Copying
  imports Guard Errgroup
begin

text \<open>
  \<^verbatim>\<open>copy.go\<close>: the options of \<^verbatim>\<open>Copy\<close> and \<^verbatim>\<open>CopyAll\<close>, the streamed copy \<open>StreamCopy\<close> and
  the copy of a whole prefix (\<open>CopyEach\<close>, \<open>CopyListed\<close>). The object copies run in an error group
  (\<open>Errgroup\<close>) under a scheduler argument, so every statement about \<open>CopyListed\<close> holds for every
  interleaving. Each object's copy is one step.
\<close>

section \<open>Options\<close>

definition zeroCopyOptions :: CopyOptions where
  "zeroCopyOptions = \<lparr>Concurrency = 0, PartSize = 0, ClientSideFallback = False,
     PollInterval = 0, PollMaxInterval = 0\<rparr>"

definition WithCopyConcurrency :: "int64 \<Rightarrow> CopyOption" where
  "WithCopyConcurrency n = Some (\<lambda>o'. o'\<lparr>Concurrency := max n 0\<rparr>)"

definition WithCopyPartSize :: "int64 \<Rightarrow> CopyOption" where
  "WithCopyPartSize n = Some (\<lambda>o'. o'\<lparr>PartSize := max n 0\<rparr>)"

definition WithClientSideCopyFallback :: CopyOption where
  "WithClientSideCopyFallback = Some (\<lambda>o'. o'\<lparr>ClientSideFallback := True\<rparr>)"

definition WithCopyPollInterval :: "int64 \<Rightarrow> int64 \<Rightarrow> CopyOption" where
  "WithCopyPollInterval interval maxInterval =
     Some (\<lambda>o'. o'\<lparr>PollInterval := max interval 0, PollMaxInterval := max maxInterval 0\<rparr>)"

definition NewCopyOptions :: "CopyOption list \<Rightarrow> CopyOptions" where
  "NewCopyOptions opts =
     foldl (\<lambda>o' opt. case opt of None \<Rightarrow> o' | Some f \<Rightarrow> f o') zeroCopyOptions opts"

definition zeroCopyAllOptions :: CopyAllOptions where
  "zeroCopyAllOptions = \<lparr>ObjectConcurrency = 0, PartConcurrency = 0, AllPartSize = 0,
     AllClientSideFallback = False, AllPollInterval = 0, AllPollMaxInterval = 0\<rparr>"

definition WithCopyAllObjectConcurrency :: "int64 \<Rightarrow> CopyAllOption" where
  "WithCopyAllObjectConcurrency n = Some (\<lambda>o'. o'\<lparr>ObjectConcurrency := max n 0\<rparr>)"

definition WithCopyAllPartConcurrency :: "int64 \<Rightarrow> CopyAllOption" where
  "WithCopyAllPartConcurrency n = Some (\<lambda>o'. o'\<lparr>PartConcurrency := max n 0\<rparr>)"

definition WithCopyAllPartSize :: "int64 \<Rightarrow> CopyAllOption" where
  "WithCopyAllPartSize n = Some (\<lambda>o'. o'\<lparr>AllPartSize := max n 0\<rparr>)"

definition WithCopyAllClientSideFallback :: CopyAllOption where
  "WithCopyAllClientSideFallback = Some (\<lambda>o'. o'\<lparr>AllClientSideFallback := True\<rparr>)"

definition WithCopyAllPollInterval :: "int64 \<Rightarrow> int64 \<Rightarrow> CopyAllOption" where
  "WithCopyAllPollInterval interval maxInterval =
     Some (\<lambda>o'. o'\<lparr>AllPollInterval := max interval 0, AllPollMaxInterval := max maxInterval 0\<rparr>)"

definition NewCopyAllOptions :: "CopyAllOption list \<Rightarrow> CopyAllOptions" where
  "NewCopyAllOptions opts =
     foldl (\<lambda>o' opt. case opt of None \<Rightarrow> o' | Some f \<Rightarrow> f o') zeroCopyAllOptions opts"

definition copyOptions :: "CopyAllOptions \<Rightarrow> CopyOption list" where
  "copyOptions o' =
     [WithCopyConcurrency (PartConcurrency o'), WithCopyPartSize (AllPartSize o'),
      WithCopyPollInterval (AllPollInterval o') (AllPollMaxInterval o')] @
     (if AllClientSideFallback o' then [WithClientSideCopyFallback] else [])"

section \<open>The streamed copy\<close>

definition sameKey :: "string \<Rightarrow> string \<Rightarrow> bool" where
  "sameKey a b = (path_Clean (filepath_ToSlash a) = path_Clean (filepath_ToSlash b))"

definition StreamCopy ::
  "('h, 'w) storager \<Rightarrow> 'h \<Rightarrow> 'w ctx \<Rightarrow> string \<Rightarrow> string \<Rightarrow> ('w, CopyStat) io" where
  "StreamCopy st h ctx srcPath dstPath =
     (if sameKey srcPath dstPath then
        tryIO (Exists st h ctx srcPath) (\<lambda>r. case r of
            Inl err \<Rightarrow> throw (Errorf ''error checking'' [err])
          | Inr ok \<Rightarrow> if \<not> ok then throw ErrFileNotFound else ret zeroCopyStat)
      else
        bindIO (GetObject st h ctx srcPath) (\<lambda>src.
          tryIO (PutObject st h ctx dstPath src) (\<lambda>r. case r of
              Inl werr \<Rightarrow> throw (Errorf ''error writing copy'' [werr])
            | Inr n \<Rightarrow> (case rd_close src of
                Some cerr \<Rightarrow> throw (Errorf ''error closing copy source'' [cerr])
              | None \<Rightarrow> ret \<lparr>Bytes = wrap64 (int n), Streamed = True, Objects = 0\<rparr>))))"

section \<open>Prefixes\<close>

definition defaultCopyAllObjectConcurrency :: int64 where
  "defaultCopyAllObjectConcurrency = 8"

definition normPrefix :: "string \<Rightarrow> string" where
  "normPrefix p = TrimPrefix (path_Clean (''/'' @ filepath_ToSlash p)) ''/''"

text \<open>\<open>None\<close> stands for the result \<^verbatim>\<open>_, false\<close>.\<close>

definition nestedPrefix :: "string \<Rightarrow> string \<Rightarrow> string option" where
  "nestedPrefix srcPrefix dstPrefix =
     (let src = normPrefix srcPrefix; dst = normPrefix dstPrefix in
      if dst = src then None
      else if src = '''' then
        (if dst \<noteq> ''..'' \<and> \<not> HasPrefix dst ''../'' then Some dst else None)
      else if HasPrefix dst (src @ ''/'') then Some (TrimPrefix dst (src @ ''/''))
      else None)"

definition cleanRelative :: "string \<Rightarrow> bool" where
  "cleanRelative name =
     (name \<noteq> '''' \<and> \<not> path_IsAbs name \<and> path_Clean name = name \<and>
      name \<noteq> ''..'' \<and> \<not> HasPrefix name ''../'')"

section \<open>The object copies\<close>

type_synonym 'w ObjectCopyFunc =
  "'w ctx \<Rightarrow> ObjectStat \<Rightarrow> string \<Rightarrow> string \<Rightarrow> CopyOption list \<Rightarrow> ('w, CopyStat) io"

type_synonym 'w group = "(ObjectStat, CopyStat, 'w) errgroup"

definition add_total :: "CopyStat \<Rightarrow> CopyStat \<Rightarrow> CopyStat" where
  "add_total tot stat =
     \<lparr>Bytes = add64 (Bytes tot) (Bytes stat),
      Streamed = (Streamed tot \<or> Streamed stat),
      Objects = add64 (Objects tot) 1\<rparr>"

text \<open>The function each object's goroutine runs once it has seen the group's context alive.\<close>

definition copy_task ::
  "'w ObjectCopyFunc \<Rightarrow> string \<Rightarrow> string \<Rightarrow> CopyOption list \<Rightarrow> 'w ctx \<Rightarrow> ObjectStat \<Rightarrow> CopyStat \<Rightarrow> ('w, CopyStat) io" where
  "copy_task copyObject srcPrefix dstPrefix copyOpts ctx obj tot =
     (let src = path_Join srcPrefix (Name obj); dst = path_Join dstPrefix (Name obj) in
      tryIO (copyObject ctx obj src dst copyOpts) (\<lambda>r. case r of
          Inl err \<Rightarrow> throw (Errorf ''error copying'' [err])
        | Inr stat \<Rightarrow> ret (add_total tot stat)))"

section \<open>Copying a prefix\<close>

definition CopyListed ::
  "('w group \<Rightarrow> nat) \<Rightarrow> ('w ctx \<Rightarrow> string \<Rightarrow> ('w, ObjectStat list) io) \<Rightarrow> 'w ctx \<Rightarrow>
    string \<Rightarrow> string \<Rightarrow> 'w ObjectCopyFunc \<Rightarrow> CopyAllOption list \<Rightarrow>
    'w \<Rightarrow> (CopyStat \<times> error option) \<times> 'w" where
  "CopyListed pick listOp ctx srcPrefix dstPrefix copyObject opts w0 =
     (let o' = NewCopyAllOptions opts in
      case listOp ctx srcPrefix w0 of
        (Inl err, w) \<Rightarrow> ((zeroCopyStat, Some (Errorf ''error listing'' [err])), w)
      | (Inr listed, w) \<Rightarrow>
          let objects = filter (\<lambda>x. \<not> HasSuffix (Name x) ''/'') listed in
          if objects = [] then
            ((zeroCopyStat, Some (Errorf ''nothing to copy under'' [ErrFileNotFound])), w)
          else if \<not> list_all (\<lambda>x. cleanRelative (Name x)) objects then
            ((zeroCopyStat, Some (Errorf ''listed key'' [ErrUnsafeKey])), w)
          else
            let objects2 = (case nestedPrefix srcPrefix dstPrefix of
                  Some nested \<Rightarrow> filter (\<lambda>x. \<not> HasPrefix (Name x) (nested @ ''/'')) objects
                | None \<Rightarrow> objects) in
            if nestedPrefix srcPrefix dstPrefix \<noteq> None \<and> objects2 = [] then ((zeroCopyStat, None), w)
            else
              let concurrency = (if ObjectConcurrency o' < 1 then defaultCopyAllObjectConcurrency
                                 else ObjectConcurrency o');
                  g = run_group pick
                    \<lparr>e_ctx = ctx, e_task = copy_task copyObject srcPrefix dstPrefix (copyOptions o'),
                     e_limit = nat concurrency\<rparr>
                    \<lparr>g_queue = objects2, g_launched = [], g_inflight = [],
                     g_shared = zeroCopyStat, g_err = None, g_world = w\<rparr>
              in ((g_shared g, g_err g), g_world g))"

definition CopyEach ::
  "('w group \<Rightarrow> nat) \<Rightarrow> ('h, 'w) storager \<Rightarrow> 'h \<Rightarrow> 'w ctx \<Rightarrow> string \<Rightarrow> string \<Rightarrow>
    CopyAllOption list \<Rightarrow> 'w \<Rightarrow> (CopyStat \<times> error option) \<times> 'w" where
  "CopyEach pick st h ctx srcPrefix dstPrefix opts =
     CopyListed pick (List_op st h) ctx srcPrefix dstPrefix
       (\<lambda>ctx' _ srcPath dstPath o'. Copy st h ctx' srcPath dstPath o') opts"

section \<open>Counting\<close>

lemma wrap64_add_one: "add64 (wrap64 x) 1 = wrap64 (x + 1)"
  unfolding add64_def wrap64_def by (simp add: mod_simps algebra_simps)

lemma group_counts:
  fixes E :: "(ObjectStat, CopyStat, 'w) group_env"
  assumes "group_reach E g0 g" "g_shared g0 = zeroCopyStat" and task: "e_task E = copy_task f src dst opts"
  shows "g_err g = None \<Longrightarrow> length (pending g) \<le> length (pending g0) \<and>
    Objects (g_shared g) = wrap64 (int (length (pending g0)) - int (length (pending g)))"
proof -
  let ?P = "\<lambda>g :: 'w group. g_err g = None \<longrightarrow> length (pending g) \<le> length (pending g0) \<and>
    Objects (g_shared g) = wrap64 (int (length (pending g0)) - int (length (pending g)))"
  have "?P g"
  proof (rule group_invariant [OF assms(1)])
    show "?P g0" using assms(2) by (simp add: zeroCopyStat_def wrap64_def)
  next
    fix g :: "'w group" and a
    assume P: "?P g" and a: "a \<in> set (enabled (e_limit E) g)"
    show "?P (perform E a g)"
    proof
      assume "g_err (perform E a g) = None"
      with a show "length (pending (perform E a g)) \<le> length (pending g0) \<and>
        Objects (g_shared (perform E a g)) =
          wrap64 (int (length (pending g0)) - int (length (pending (perform E a g))))"
      proof (cases rule: perform_ok_cases)
        case quiet
        from quiet(2) have "length (pending (perform E a g)) = length (pending g)"
          by (metis size_mset)
        with P quiet show ?thesis by simp
      next
        case (ran obj shared w)
        from ran(3) obtain stat where "shared = add_total (g_shared g) stat"
          by (auto simp: task copy_task_def tryIO_apply Let_def split: prod.splits sum.splits)
        from ran(4) have "length (pending g) = Suc (length (pending (perform E a g)))"
          by (metis size_add_mset size_mset)
        with P ran \<open>shared = _\<close> show ?thesis
          by (simp add: add_total_def wrap64_add_one)
      qed
    qed
  qed
  then show "g_err g = None \<Longrightarrow> length (pending g) \<le> length (pending g0) \<and>
    Objects (g_shared g) = wrap64 (int (length (pending g0)) - int (length (pending g)))" by simp
qed

section \<open>Prefixes by their segments\<close>

abbreviation good_segs :: "string list \<Rightarrow> bool" where
  "good_segs ss \<equiv> \<forall>s \<in> set ss. CHR ''/'' \<notin> set s \<and> s \<noteq> ''''"

lemma good_path_segs: "good_segs (path_segs p)"
  by (rule norm_segs_no_slash [OF norm_path_segs])

lemma Join_str_inj:
  assumes "good_segs A" "good_segs B" "Join_str ''/'' A = Join_str ''/'' B"
  shows "A = B"
proof -
  have ne: "Join_str ''/'' C = '''' \<longleftrightarrow> C = []" if "good_segs C" for C
    using that by (cases C rule: remdups_adj.cases) auto
  show ?thesis
  proof (cases "A = []")
    case True
    with assms ne [of B] show ?thesis by simp
  next
    case False
    with assms ne [of A] ne [of B] have "B \<noteq> []" by auto
    have "Split (CHR ''/'') (Join_str ''/'' A) = A" "Split (CHR ''/'') (Join_str ''/'' B) = B"
      using False \<open>B \<noteq> []\<close> assms(1,2) by (simp_all add: Split_Join)
    then show ?thesis unfolding assms(3) by (rule subst)
  qed
qed

lemma Join_str_Nil_iff: "good_segs A \<Longrightarrow> Join_str ''/'' A = '''' \<longleftrightarrow> A = []"
  using Join_str_inj [of A "[]"] by auto

lemma HasPrefix_Join_iff:
  assumes "good_segs A" "good_segs X" "X \<noteq> []"
  shows "HasPrefix (Join_str ''/'' A) (Join_str ''/'' X @ ''/'') \<longleftrightarrow> (\<exists>Y. Y \<noteq> [] \<and> A = X @ Y)"
proof
  assume "HasPrefix (Join_str ''/'' A) (Join_str ''/'' X @ ''/'')"
  then obtain t where eq: "Join_str ''/'' A = Join_str ''/'' X @ CHR ''/'' # t"
    by (auto simp: HasPrefix_iff)
  then have "A \<noteq> []" by (metis Join_str.simps(1) append_is_Nil_conv list.distinct(1))
  then have "A = Split (CHR ''/'') (Join_str ''/'' X @ CHR ''/'' # t)"
    using assms Split_Join [of A "CHR ''/''"] eq by auto
  also have "\<dots> = X @ Split (CHR ''/'') t"
    using assms by (simp add: Split_append_sep Split_Join)
  finally show "\<exists>Y. Y \<noteq> [] \<and> A = X @ Y" by (metis Split_not_Nil)
next
  assume "\<exists>Y. Y \<noteq> [] \<and> A = X @ Y"
  then show "HasPrefix (Join_str ''/'' A) (Join_str ''/'' X @ ''/'')"
    using assms(3) by (auto simp: HasPrefix_iff Join_str_append)
qed

lemma path_segs_rooted:
  assumes "stays_inside p"
  shows "path_segs (CHR ''/'' # p) = path_segs p"
proof -
  have abs: "path_IsAbs (CHR ''/'' # p)" "\<not> path_IsAbs p"
    using assms by (simp_all add: path_IsAbs_def stays_inside_def)
  with assms have "''..'' \<notin> set (foldl (cstep False) [] (Split (CHR ''/'') p))"
    by (simp add: stays_inside_def path_segs_def)
  then have "foldl (cstep True) [] (Split (CHR ''/'') p) = foldl (cstep False) [] (Split (CHR ''/'') p)"
    using foldl_cstep_on_top [of "[]" "Split (CHR ''/'') p" True "[]"] by simp
  with abs show ?thesis by (simp add: path_segs_def)
qed

lemma normPrefix_segs: "stays_inside p \<Longrightarrow> normPrefix p = Join_str ''/'' (path_segs p)"
  using TrimPrefix_append [of "''/''"]
  by (simp add: normPrefix_def path_Clean_render path_segs_rooted path_IsAbs_def render_def)

text \<open>The destination lies strictly inside the source, at the segments \<open>X\<close> below it.\<close>

lemma nestedPrefix_segs:
  assumes src: "stays_inside src" and dst: "stays_inside dst"
  shows "nestedPrefix src dst = Some nested \<longleftrightarrow>
    (\<exists>X. X \<noteq> [] \<and> path_segs dst = path_segs src @ X \<and> nested = Join_str ''/'' X)"
proof -
  let ?S = "path_segs src" and ?D = "path_segs dst"
  have eq: "Join_str ''/'' ?D = Join_str ''/'' ?S \<longleftrightarrow> ?D = ?S"
    using Join_str_inj good_path_segs by metis
  consider "?D = ?S" | "?D \<noteq> ?S" "?S = []" | "?D \<noteq> ?S" "?S \<noteq> []" by blast
  then show ?thesis
  proof cases
    case 1
    then show ?thesis by (simp add: nestedPrefix_def normPrefix_segs src dst)
  next
    case 2
    have "norm_segs False ?D" "''..'' \<notin> set ?D"
      using norm_path_segs [of dst] dst by (auto simp: stays_inside_def)
    then have "\<not> (Join_str ''/'' ?D = ''..'' \<or> HasPrefix (Join_str ''/'' ?D) ''../'')"
      using 2 leading_dotdot_iff [of ?D] by (simp add: render_def)
    with 2 show ?thesis
      by (auto simp: nestedPrefix_def normPrefix_segs src dst Join_str_Nil_iff good_path_segs)
  next
    case 3
    have ne: "Join_str ''/'' ?S \<noteq> ''''" using 3 by (simp add: Join_str_Nil_iff good_path_segs)
    have trim: "TrimPrefix (Join_str ''/'' (?S @ X)) (Join_str ''/'' ?S @ ''/'') = Join_str ''/'' X"
      if "X \<noteq> []" for X
      using 3 that TrimPrefix_append [of "Join_str ''/'' ?S @ ''/''" "Join_str ''/'' X"]
      by (simp add: Join_str_append)
    have nested: "HasPrefix (Join_str ''/'' ?D) (Join_str ''/'' ?S @ ''/'') \<longleftrightarrow>
        (\<exists>Y. Y \<noteq> [] \<and> ?D = ?S @ Y)"
      using 3 by (intro HasPrefix_Join_iff good_path_segs)
    show ?thesis
    proof (cases "\<exists>Y. Y \<noteq> [] \<and> ?D = ?S @ Y")
      case True
      then obtain Y where Y: "Y \<noteq> []" "?D = ?S @ Y" by blast
      then have "nestedPrefix src dst = Some (Join_str ''/'' Y)"
        using True nested ne eq 3 trim [of Y]
        by (simp add: nestedPrefix_def normPrefix_segs src dst Let_def)
      with Y show ?thesis by auto
    next
      case False
      then have "nestedPrefix src dst = None"
        using nested ne eq 3 by (simp add: nestedPrefix_def normPrefix_segs src dst Let_def)
      with False show ?thesis by auto
    qed
  qed
qed

lemma cleanRelative_key_ok: "cleanRelative n \<longleftrightarrow> key_ok n \<or> n = ''.''"
proof -
  have "path_Clean ''.'' = ''.''" "\<not> path_IsAbs ''.''" by (simp_all add: path_simps)
  then show ?thesis by (auto simp: cleanRelative_def key_ok_def)
qed

lemma key_ok_no_slash_end: "key_ok n \<Longrightarrow> \<not> HasSuffix n ''/''"
proof
  assume k: "key_ok n" and "HasSuffix n ''/''"
  then obtain t where n: "n = t @ CHR ''/'' # []" by (auto simp: HasSuffix_iff)
  have "path_segs n = Split (CHR ''/'') n"
    using k key_ok_real [OF k] Split_Join [of "path_segs n" "CHR ''/''"]
    by (simp add: key_ok_Join_str key_okD real_seg_def)
  then have "'''' \<in> set (path_segs n)" by (simp add: n Split_append_sep)
  then show False using good_path_segs by blast
qed

text \<open>
  Unless the source lies strictly inside the destination, the destination of a copied name is
  never the source of another one.
\<close>

lemma no_clobber:
  assumes "stays_inside src" "stays_inside dst" "key_ok n" "key_ok m"
    and "\<not> (\<exists>X. X \<noteq> [] \<and> path_segs src = path_segs dst @ X)"
    and "\<And>nested. nestedPrefix src dst = Some nested \<Longrightarrow> \<not> HasPrefix n (nested @ ''/'')"
    and "path_Join src n = path_Join dst m"
  shows "path_Join src n = path_Join src m"
proof -
  let ?S = "path_segs src" and ?D = "path_segs dst"
  have eq: "?S @ path_segs n = ?D @ path_segs m"
    using arg_cong [OF assms(7), of path_segs] assms(3,4) by (simp only: path_segs_Join key_okD)
  then obtain X where X: "?S = ?D @ X \<and> X @ path_segs n = path_segs m \<or>
      ?S @ X = ?D \<and> path_segs n = X @ path_segs m"
    by (auto simp: append_eq_append_conv2)
  show ?thesis
  proof (cases "X = []")
    case True
    with X have "path_segs n = path_segs m" by auto
    with assms(3,4) show ?thesis by (metis key_ok_eqI)
  next
    case False
    with X assms(5) have D: "?D = ?S @ X" and n: "path_segs n = X @ path_segs m" by auto
    have "nestedPrefix src dst = Some (Join_str ''/'' X)"
      using assms(1,2) False D by (auto simp: nestedPrefix_segs)
    moreover have "HasPrefix n (Join_str ''/'' X @ ''/'')"
      using HasPrefix_Join_iff [of "path_segs n" X] good_path_segs [of n] False n
        key_okD(3) [OF assms(4)] key_ok_Join_str [OF assms(3)] by auto
    ultimately show ?thesis using assms(6) by blast
  qed
qed

section \<open>Copying under the contract\<close>

text \<open>What a group whose copies are a storage's \<open>Copy\<close> has done so far.\<close>

definition copied_so_far ::
  "(string \<rightharpoonup> bytes) \<Rightarrow> (string \<rightharpoonup> bytes) \<Rightarrow> string \<Rightarrow> string \<Rightarrow> string set \<Rightarrow> bool" where
  "copied_so_far before now src dst names \<longleftrightarrow>
     (\<forall>n \<in> names. now (path_Join dst n) = before (path_Join src n)) \<and>
     (\<forall>k. k \<notin> path_Join dst ` names \<longrightarrow> now k = before k)"

lemma copied_so_far_step:
  assumes so_far: "copied_so_far before now src dst names"
    and names: "\<forall>n \<in> insert x names. key_ok n" and fresh: "x \<notin> names"
    and apart: "\<And>m. m \<in> names \<Longrightarrow> path_Join src x = path_Join dst m \<Longrightarrow>
      path_Join src x = path_Join src m"
    and b: "now (path_Join src x) = Some b"
  shows "copied_so_far before (now(path_Join dst x \<mapsto> b)) src dst (insert x names)"
proof -
  have "now (path_Join src x) = before (path_Join src x)"
  proof (cases "path_Join src x \<in> path_Join dst ` names")
    case True
    then obtain m where "m \<in> names" "path_Join src x = path_Join dst m" by blast
    with so_far apart show ?thesis by (metis copied_so_far_def)
  qed (use so_far in \<open>simp add: copied_so_far_def\<close>)
  moreover have "path_Join dst n \<noteq> path_Join dst x" if "n \<in> names" for n
    using that names fresh path_Join_inj by blast
  ultimately show ?thesis
    using so_far b by (auto simp: copied_so_far_def)
qed

definition copy_env ::
  "('h, 'w) storager \<Rightarrow> 'h \<Rightarrow> 'w ctx \<Rightarrow> string \<Rightarrow> string \<Rightarrow> CopyOption list \<Rightarrow> nat \<Rightarrow>
    (ObjectStat, CopyStat, 'w) group_env" where
  "copy_env st h ctx src dst opts limit =
     \<lparr>e_ctx = ctx, e_task = copy_task (\<lambda>ctx' _ srcPath dstPath o'. Copy st h ctx' srcPath dstPath o') src dst opts,
      e_limit = limit\<rparr>"

lemma copy_env_task:
  "e_task (copy_env st h ctx src dst opts limit) =
     copy_task (\<lambda>ctx' _ srcPath dstPath o'. Copy st h ctx' srcPath dstPath o') src dst opts"
  by (simp add: copy_env_def)

abbreviation done_names :: "ObjectStat list \<Rightarrow> 'w group \<Rightarrow> string set" where
  "done_names os g \<equiv> Name ` set os - Name ` set (pending g)"

lemma done_names_cong: "mset (pending g) = mset (pending g') \<Longrightarrow> done_names os g = done_names os g'"
  by (metis mset_eq_setD)

lemma done_names_insert:
  assumes "mset (pending g) = add_mset x (mset (pending g'))" "distinct (map Name (pending g))"
    "set (pending g) \<subseteq> set os"
  shows "done_names os g' = insert (Name x) (done_names os g)" "distinct (map Name (pending g'))"
    "set (pending g') \<subseteq> set os" "Name x \<notin> done_names os g"
proof -
  have set: "set (pending g) = insert x (set (pending g'))"
    using arg_cong [OF assms(1), of set_mset] by simp
  have "mset (map Name (pending g)) = mset (Name x # map Name (pending g'))"
    using assms(1) by (simp add: mset_map [symmetric] del: mset_map) (simp add: mset_map)
  then have d: "distinct (Name x # map Name (pending g'))"
    using assms(2) by (metis mset_eq_imp_distinct_iff)
  then show "distinct (map Name (pending g'))" by simp
  show "set (pending g') \<subseteq> set os" "Name x \<notin> done_names os g" using set assms(3) by auto
  show "done_names os g' = insert (Name x) (done_names os g)"
    using set d assms(3) by auto
qed

text \<open>The invariant of a group of copies started in world \<open>w0\<close> on the objects \<open>os\<close>.\<close>

definition copy_inv ::
  "('w \<Rightarrow> string \<rightharpoonup> bytes) \<Rightarrow> ('w \<Rightarrow> bool) \<Rightarrow> 'w \<Rightarrow> string \<Rightarrow> string \<Rightarrow> ObjectStat list \<Rightarrow> 'w group \<Rightarrow> bool" where
  "copy_inv view wfw w0 src dst os g \<longleftrightarrow>
     distinct (map Name (pending g)) \<and> set (pending g) \<subseteq> set os \<and> wfw (g_world g) \<and>
     (\<forall>k \<in> dom (view w0) - path_Join dst ` Name ` set os. view (g_world g) k = view w0 k) \<and>
     (g_err g = None \<longrightarrow> copied_so_far (view w0) (view (g_world g)) src dst (done_names os g))"

lemma pending_perform_subset:
  fixes g :: "'w group"
  assumes "a \<in> set (enabled limit g)" "distinct (map Name (pending g))"
  shows "distinct (map Name (pending (perform E a g))) \<and> set (pending (perform E a g)) \<subseteq> set (pending g)"
proof -
  consider "mset (pending (perform E a g)) = mset (pending g)"
    | x where "mset (pending g) = add_mset x (mset (pending (perform E a g)))"
    using pending_perform [OF assms(1)] by blast
  then show ?thesis
  proof cases
    case 1
    then have "mset (map Name (pending (perform E a g))) = mset (map Name (pending g))" by simp
    with 1 assms(2) show ?thesis
      by (metis mset_eq_imp_distinct_iff mset_eq_setD order_refl)
  next
    case 2
    then show ?thesis
      using done_names_insert(2,3) [OF 2 assms(2), of "pending g"]
        arg_cong [OF 2, of set_mset] by auto
  qed
qed

lemma sameKey_key_ok: "key_ok a \<Longrightarrow> key_ok b \<Longrightarrow> sameKey a b \<longleftrightarrow> a = b"
  by (auto simp: sameKey_def key_okD)

context storager_contract
begin

text \<open>A streamed copy, on a storage that keeps the contract.\<close>

lemma StreamCopy_ok:
  assumes "wf h w" "key_ok s" "key_ok d" "objs h w s = Some b" "StreamCopy st h ctx s d w = (r, w')"
  shows "wf h w' \<and> (case r of
     Inr c \<Rightarrow> objs h w' = (objs h w)(d \<mapsto> b) \<and> (s \<noteq> d \<longrightarrow> Bytes c = wrap64 (int (length b)) \<and> Streamed c)
   | Inl e \<Rightarrow> (objs h w)(d := None) \<subseteq>\<^sub>m objs h w' \<or> objs h w' = (objs h w)(d \<mapsto> b))"
proof (cases "s = d")
  case True
  obtain ex w1 where X: "Exists st h ctx s w = (ex, w1)" by fastforce
  note fr = exists_frame [OF assms(1,2) X, of h]
  have "w' = w1" using assms(5) X True
    by (auto simp: StreamCopy_def sameKey_def tryIO_apply split: sum.splits if_splits)
  then have "objs h w' = (objs h w)(d \<mapsto> b)" using fr True assms(4) by auto
  then show ?thesis using True fr \<open>w' = w1\<close> by (auto split: sum.splits)
next
  case False
  then have ns: "\<not> sameKey s d" using assms(2,3) sameKey_key_ok by blast
  obtain gr w1 where G: "GetObject st h ctx s w = (gr, w1)" by fastforce
  have g1: "objs h w1 = objs h w" "wf h w1"
    using get_frame [OF assms(1,2) G] by blast+
  show ?thesis
  proof (cases gr)
    case (Inl e)
    then have "r = Inl e" "w' = w1" using assms(5) G ns by (simp_all add: StreamCopy_def bindIO_apply)
    then show ?thesis using g1 by (simp add: map_le_def)
  next
    case (Inr src)
    obtain pr w2 where P: "PutObject st h ctx d src w1 = (pr, w2)" by fastforce
    have w': "w' = w2" using assms(5) G ns Inr P
      by (auto simp: StreamCopy_def bindIO_apply tryIO_apply split: sum.splits option.splits)
    show ?thesis
    proof (cases pr)
      case (Inl e)
      with P put_err [OF g1(2) assms(3), of ctx src e w2] g1 w'
      have "(objs h w)(d := None) \<subseteq>\<^sub>m objs h w'" "wf h w'" by simp_all
      moreover have "\<exists>e. r = Inl e" using assms(5) G ns Inr P Inl \<open>gr = Inr src\<close>
        by (auto simp: StreamCopy_def bindIO_apply tryIO_apply)
      ultimately show ?thesis by (auto split: sum.splits)
    next
      case (Inr n)
      with P put_ok [OF g1(2) assms(3), of ctx src n w2]
      have put: "rd_end src = None" "n = length (rd_bytes src)"
        "objs h w2 = (objs h w)(d \<mapsto> rd_bytes src)" "wf h w2" using g1 by simp_all
      have "rd_bytes src = b"
        using get_content [OF assms(1,2,4)] G \<open>gr = Inr src\<close> put(1) by blast
      moreover have "r = Inr \<lparr>Bytes = wrap64 (int n), Streamed = True, Objects = 0\<rparr> \<or> (\<exists>e. r = Inl e)"
        using assms(5) G ns \<open>gr = Inr src\<close> P Inr
        by (auto simp: StreamCopy_def bindIO_apply tryIO_apply split: option.splits)
      ultimately show ?thesis using put w' by auto
    qed
  qed
qed


lemma perform_copy_world:
  assumes a: "a \<in> set (enabled limit g)" and wf: "wf h (g_world g)"
    and inside: "stays_inside src" "stays_inside dst" and ok: "\<forall>x \<in> set (pending g). key_ok (Name x)"
    and E: "E = copy_env st h ctx src dst opts limit"
  shows "wf h (g_world (perform E a g)) \<and>
    (\<forall>k \<in> dom (objs h (g_world g)) - path_Join dst ` Name ` set (pending g).
       objs h (g_world (perform E a g)) k = objs h (g_world g) k)"
  using a
proof (cases rule: enabled_cases)
  case (2 i)
  then show ?thesis using wf by (simp add: Let_def split: option.split)
next
  case (3 i)
  let ?x = "g_inflight g ! i" and ?gc = "gctx ctx g"
  let ?s = "path_Join src (Name ?x)" and ?d = "path_Join dst (Name ?x)"
  have x: "?x \<in> set (pending g)" using 3 by (simp add: pending_def)
  then have keys: "key_ok ?s" "key_ok ?d" using ok inside by (simp_all add: path_Join_key_ok)
  obtain r w where call: "Copy st h ?gc ?s ?d opts (g_world g) = (r, w)" by fastforce
  have world: "g_world (perform E a g) = w"
    using 3 call by (simp add: E copy_env_def copy_task_def tryIO_apply Let_def split: sum.split)
  have "wf h w \<and> (objs h (g_world g))(?d := None) \<subseteq>\<^sub>m objs h w"
  proof (cases r)
    case (Inl e)
    with copy_err [OF wf keys] call show ?thesis by simp
  next
    case (Inr c)
    with copy_ok [OF wf keys] call show ?thesis by (fastforce simp: map_le_def)
  qed
  then have "wf h w" and le: "\<And>k. k \<noteq> ?d \<Longrightarrow> k \<in> dom (objs h (g_world g)) \<Longrightarrow>
      objs h w k = objs h (g_world g) k"
    by (auto simp: map_le_def)
  then show ?thesis using world x by auto
qed (use wf in simp)

lemma copy_inv_step:
  assumes inv: "copy_inv (objs h) (wf h) w0 src dst os g"
    and a: "a \<in> set (enabled limit g)" and E: "E = copy_env st h ctx src dst opts limit"
    and inside: "stays_inside src" "stays_inside dst" and ok: "\<forall>x \<in> set os. key_ok (Name x)"
    and apart: "\<And>n m. n \<in> Name ` set os \<Longrightarrow> m \<in> Name ` set os \<Longrightarrow>
      path_Join src n = path_Join dst m \<Longrightarrow> path_Join src n = path_Join src m"
  shows "copy_inv (objs h) (wf h) w0 src dst os (perform E a g)"
proof -
  let ?g = "perform E a g"
  from inv have d: "distinct (map Name (pending g))" and sub: "set (pending g) \<subseteq> set os"
    and wfg: "wf h (g_world g)"
    and frame: "\<forall>k \<in> dom (objs h w0) - path_Join dst ` Name ` set os. objs h (g_world g) k = objs h w0 k"
    by (auto simp: copy_inv_def)
  have okp: "\<forall>x \<in> set (pending g). key_ok (Name x)" using ok sub by blast
  note world = perform_copy_world [OF a wfg inside okp E]
  have "objs h (g_world ?g) k = objs h w0 k"
    if "k \<in> dom (objs h w0) - path_Join dst ` Name ` set os" for k
  proof -
    have "k \<in> dom (objs h (g_world g)) - path_Join dst ` Name ` set (pending g)"
      using that frame sub by (auto simp: dom_def)
    with world that frame show ?thesis by simp
  qed
  moreover have "copied_so_far (objs h w0) (objs h (g_world ?g)) src dst (done_names os ?g)"
    if ok': "g_err ?g = None"
    using a ok'
  proof (cases rule: perform_ok_cases)
    case quiet
    with inv show ?thesis using done_names_cong [OF quiet(2)] by (simp add: copy_inv_def)
  next
    case copied: (ran x shared w)
    then obtain stat where call:
      "Copy st h (gctx ctx g) (path_Join src (Name x)) (path_Join dst (Name x)) opts (g_world g) = (Inr stat, w)"
      by (auto simp: E copy_env_def copy_task_def tryIO_apply Let_def split: prod.splits sum.splits)
    have keys: "key_ok (path_Join src (Name x))" "key_ok (path_Join dst (Name x))"
      using copied(2) okp inside by (simp_all add: path_Join_key_ok)
    from copy_ok [OF wfg keys call] obtain b where b: "objs h (g_world g) (path_Join src (Name x)) = Some b"
      "objs h w = (objs h (g_world g))(path_Join dst (Name x) \<mapsto> b)" by blast
    note dn = done_names_insert [OF copied(4) d sub]
    have "copied_so_far (objs h w0) ((objs h (g_world g))(path_Join dst (Name x) \<mapsto> b)) src dst
        (insert (Name x) (done_names os g))"
    proof (rule copied_so_far_step)
      show "objs h (g_world g) (path_Join src (Name x)) = Some b" by (rule b(1))
      show "Name x \<notin> done_names os g" by (rule dn(4))
      show "copied_so_far (objs h w0) (objs h (g_world g)) src dst (done_names os g)"
        using inv copied(1) by (simp add: copy_inv_def)
      show "\<forall>n \<in> insert (Name x) (done_names os g). key_ok n"
        using ok okp copied(2) by auto
      show "path_Join src (Name x) = path_Join src m"
        if "m \<in> done_names os g" "path_Join src (Name x) = path_Join dst m" for m
        using that copied(2) sub by (intro apart [of _ m]) auto
    qed
    then show ?thesis using b(2) dn(1) copied(6) by simp
  qed
  ultimately show ?thesis
    using pending_perform_subset [OF a d, of E] sub world by (auto simp: copy_inv_def)
qed

lemma run_copies:
  assumes inside: "stays_inside src" "stays_inside dst" and ok: "\<forall>x \<in> set os. key_ok (Name x)"
    and d: "distinct (map Name os)" and wf: "wf h w0" and limit: "0 < limit"
    and apart: "\<And>n m. n \<in> Name ` set os \<Longrightarrow> m \<in> Name ` set os \<Longrightarrow>
      path_Join src n = path_Join dst m \<Longrightarrow> path_Join src n = path_Join src m"
    and g: "g = run_group pick (copy_env st h ctx src dst opts limit)
      \<lparr>g_queue = os, g_launched = [], g_inflight = [], g_shared = zeroCopyStat, g_err = None, g_world = w0\<rparr>"
  shows "wf h (g_world g)"
    and "\<forall>k \<in> dom (objs h w0) - path_Join dst ` Name ` set os. objs h (g_world g) k = objs h w0 k"
    and "g_err g = None \<Longrightarrow>
      copied_so_far (objs h w0) (objs h (g_world g)) src dst (Name ` set os) \<and>
      Objects (g_shared g) = wrap64 (int (length os))"
proof -
  let ?E = "copy_env st h ctx src dst opts limit"
  let ?g0 = "\<lparr>g_queue = os, g_launched = [], g_inflight = [], g_shared = zeroCopyStat, g_err = None, g_world = w0\<rparr>"
  have lim: "e_limit ?E = limit" by (simp add: copy_env_def)
  have reach: "group_reach ?E ?g0 g" unfolding g by (rule run_group_reach)
  have "copy_inv (objs h) (wf h) w0 src dst os ?g0"
    using d wf by (simp add: copy_inv_def pending_def copied_so_far_def)
  then have inv: "copy_inv (objs h) (wf h) w0 src dst os g"
    by (rule group_invariant [OF reach])
      (rule copy_inv_step [OF _ _ refl inside ok apart], auto simp: lim)
  have empty: "pending g = []"
    using run_group_stops [of ?E pick ?g0] enabled_Nil_iff [OF limit, of g]
    by (simp add: lim g pending_def)
  from inv show "wf h (g_world g)"
    and "\<forall>k \<in> dom (objs h w0) - path_Join dst ` Name ` set os. objs h (g_world g) k = objs h w0 k"
    by (simp_all add: copy_inv_def)
  assume "g_err g = None"
  with inv empty group_counts [OF reach _ copy_env_task] show
    "copied_so_far (objs h w0) (objs h (g_world g)) src dst (Name ` set os) \<and>
      Objects (g_shared g) = wrap64 (int (length os))"
    by (simp add: copy_inv_def) (simp add: pending_def)
qed

end

text \<open>The objects \<^verbatim>\<open>CopyListed\<close> copies, and how a call that gets as far as copying runs.\<close>

definition copy_targets :: "string \<Rightarrow> string \<Rightarrow> ObjectStat list \<Rightarrow> ObjectStat list" where
  "copy_targets src dst listed =
     (let objects = filter (\<lambda>x. \<not> HasSuffix (Name x) ''/'') listed in
      case nestedPrefix src dst of
        Some nested \<Rightarrow> filter (\<lambda>x. \<not> HasPrefix (Name x) (nested @ ''/'')) objects
      | None \<Rightarrow> objects)"

definition copy_limit :: "CopyAllOption list \<Rightarrow> nat" where
  "copy_limit opts =
     (let n = ObjectConcurrency (NewCopyAllOptions opts)
      in nat (if n < 1 then defaultCopyAllObjectConcurrency else n))"

lemma copy_limit_pos: "0 < copy_limit opts"
  by (simp add: copy_limit_def defaultCopyAllObjectConcurrency_def Let_def)

lemma CopyEach_cases:
  assumes "CopyEach pick st h ctx src dst opts w = ((stat, err), w')"
  obtains (refused) listed e where "stat = zeroCopyStat" "err = Some e"
      "List_op st h ctx src w = (listed, w')"
  | (left_out) listed where "stat = zeroCopyStat" "err = None"
      "List_op st h ctx src w = (Inr listed, w')" "copy_targets src dst listed = []"
  | (copied) listed w1 g where "List_op st h ctx src w = (Inr listed, w1)"
      "\<forall>x \<in> set (copy_targets src dst listed). cleanRelative (Name x)"
      "g = run_group pick
         (copy_env st h ctx src dst (copyOptions (NewCopyAllOptions opts)) (copy_limit opts))
         \<lparr>g_queue = copy_targets src dst listed, g_launched = [], g_inflight = [],
          g_shared = zeroCopyStat, g_err = None, g_world = w1\<rparr>"
      "stat = g_shared g" "err = g_err g" "w' = g_world g"
proof -
  obtain r w1 where L: "List_op st h ctx src w = (r, w1)" by fastforce
  note D = CopyEach_def CopyListed_def L copy_targets_def copy_limit_def copy_env_def Let_def
  show ?thesis
  proof (cases r)
    case (Inl e)
    with assms L show ?thesis by (intro refused) (auto simp: D)
  next
    case (Inr listed)
    let ?objs = "filter (\<lambda>x. \<not> HasSuffix (Name x) ''/'') listed"
    let ?targets = "copy_targets src dst listed"
    consider "?objs = [] \<or> \<not> list_all (\<lambda>x. cleanRelative (Name x)) ?objs"
      | "?objs \<noteq> []" "list_all (\<lambda>x. cleanRelative (Name x)) ?objs"
        "nestedPrefix src dst \<noteq> None \<and> ?targets = []"
      | "?objs \<noteq> []" "list_all (\<lambda>x. cleanRelative (Name x)) ?objs"
        "\<not> (nestedPrefix src dst \<noteq> None \<and> ?targets = [])"
      by blast
    then show ?thesis
    proof cases
      case 1
      with assms Inr have "\<exists>e. stat = zeroCopyStat \<and> err = Some e \<and> w' = w1"
        by (cases "?objs = []") (auto simp: D)
      with L refused show ?thesis by blast
    next
      case 2
      with assms Inr have "stat = zeroCopyStat" "err = None" "w' = w1" by (auto simp: D)
      with 2 L Inr show ?thesis using left_out by blast
    next
      case 3
      have "\<forall>x \<in> set ?targets. cleanRelative (Name x)"
        using 3(2) by (auto simp: copy_targets_def list_all_iff Let_def split: option.splits)
      moreover let ?g = "run_group pick
         (copy_env st h ctx src dst (copyOptions (NewCopyAllOptions opts)) (copy_limit opts))
         \<lparr>g_queue = ?targets, g_launched = [], g_inflight = [],
          g_shared = zeroCopyStat, g_err = None, g_world = w1\<rparr>"
      have "stat = g_shared ?g" "err = g_err ?g" "w' = g_world ?g"
        using 3 assms Inr by (auto simp: D)
      ultimately show ?thesis
        using L Inr copied [OF _ _ refl] by blast
    qed
  qed
qed

section \<open>What a copy of a prefix writes\<close>

definition strictly_inside :: "string \<Rightarrow> string \<Rightarrow> bool" where
  "strictly_inside a b \<longleftrightarrow> (\<exists>X. X \<noteq> [] \<and> path_segs a = path_segs b @ X)"

text \<open>
  The names, relative to the source prefix, that a copy of \<open>src\<close> to \<open>dst\<close> should copy: every
  object under \<open>src\<close>, less what already lies under a destination nested inside the source.
\<close>

definition to_copy :: "(string \<rightharpoonup> bytes) \<Rightarrow> string \<Rightarrow> string \<Rightarrow> string set" where
  "to_copy m src dst =
     {k. key_ok k \<and> m (path_Join src k) \<noteq> None \<and>
         \<not> (strictly_inside dst src \<and> strictly_inside (path_Join src k) dst)}"

text \<open>
  A copy to an ancestor of its source can land on an object that is to be copied itself: copying
  \<open>a/b\<close> to \<open>a\<close> writes \<open>a/b/b/x\<close> onto \<open>a/b/x\<close>, the source of \<open>a/x\<close>.
\<close>

definition overwrites :: "(string \<rightharpoonup> bytes) \<Rightarrow> string \<Rightarrow> string \<Rightarrow> bool" where
  "overwrites m src dst \<longleftrightarrow>
     (\<exists>n k. n \<in> to_copy m src dst \<and> k \<in> to_copy m src dst \<and> n \<noteq> k \<and> path_Join dst k = path_Join src n)"

lemma nested_name_iff:
  assumes inside: "stays_inside src" "stays_inside dst" and k: "key_ok k"
  shows "(\<exists>nested. nestedPrefix src dst = Some nested \<and> HasPrefix k (nested @ ''/'')) \<longleftrightarrow>
    strictly_inside dst src \<and> strictly_inside (path_Join src k) dst"
proof -
  have segs: "path_segs (path_Join src k) = path_segs src @ path_segs k"
    using k by (simp add: path_segs_Join key_okD)
  have pre: "HasPrefix k (Join_str ''/'' X @ ''/'') \<longleftrightarrow> (\<exists>Y. Y \<noteq> [] \<and> path_segs k = X @ Y)"
    if "path_segs dst = path_segs src @ X" "X \<noteq> []" for X
  proof -
    have "good_segs X" using good_path_segs [of dst] that(1) by auto
    with that(2) HasPrefix_Join_iff [OF good_path_segs [of k]] show ?thesis
      by (simp add: key_ok_Join_str [OF k])
  qed
  show ?thesis
    using pre by (auto simp: nestedPrefix_segs [OF inside] strictly_inside_def segs)
qed

lemma copy_targets_names:
  assumes inside: "stays_inside src" "stays_inside dst"
    and listed: "\<forall>k. key_ok k \<longrightarrow> (m (path_Join src k) \<noteq> None \<longleftrightarrow> k \<in> Name ` set listed)"
      "\<forall>x \<in> set listed. key_ok (Name x)"
  shows "Name ` set (copy_targets src dst listed) = to_copy m src dst"
proof (rule set_eqI)
  fix k
  show "k \<in> Name ` set (copy_targets src dst listed) \<longleftrightarrow> k \<in> to_copy m src dst"
  proof (cases "key_ok k")
    case True
    have "k \<in> Name ` set (copy_targets src dst listed) \<longleftrightarrow> k \<in> Name ` set listed \<and>
        \<not> (\<exists>nested. nestedPrefix src dst = Some nested \<and> HasPrefix k (nested @ ''/''))"
      using key_ok_no_slash_end [OF True]
      by (cases "nestedPrefix src dst") (auto simp: copy_targets_def)
    with True listed(1) show ?thesis
      by (simp add: nested_name_iff [OF inside True] to_copy_def)
  next
    case False
    then have "k \<notin> Name ` set listed" using listed(2) by auto
    moreover have "set (copy_targets src dst listed) \<subseteq> set listed"
      by (auto simp: copy_targets_def Let_def split: option.splits)
    ultimately show ?thesis using False by (auto simp: to_copy_def)
  qed
qed

lemma copy_targets_distinct:
  "distinct (map Name listed) \<Longrightarrow> distinct (map Name (copy_targets src dst listed))"
  by (auto simp: copy_targets_def Let_def distinct_map_filter split: option.split)

text \<open>Only a copy to an ancestor does that.\<close>

lemma apart_no_overwrites:
  assumes inside: "stays_inside src" "stays_inside dst" and apart: "\<not> strictly_inside src dst"
  shows "\<not> overwrites m src dst"
proof
  assume "overwrites m src dst"
  then obtain n k where nk: "n \<in> to_copy m src dst" "k \<in> to_copy m src dst" "n \<noteq> k"
    and j: "path_Join src n = path_Join dst k" by (auto simp: overwrites_def)
  have keys: "key_ok n" "key_ok k" using nk by (simp_all add: to_copy_def)
  have "path_Join src n = path_Join src k"
  proof (rule no_clobber [OF inside keys _ _ j])
    show "\<not> (\<exists>X. X \<noteq> [] \<and> path_segs src = path_segs dst @ X)" using apart unfolding strictly_inside_def .
    show "\<not> HasPrefix n (nested @ ''/'')" if "nestedPrefix src dst = Some nested" for nested
      using nested_name_iff [OF inside keys(1)] nk(1) that by (auto simp: to_copy_def)
  qed
  from arg_cong [OF this, of path_segs] keys have "path_segs n = path_segs k"
    by (simp add: path_segs_Join key_okD)
  with keys nk(3) show False by (metis key_ok_eqI)
qed

lemma to_copy_lands: "k \<in> to_copy m src dst \<Longrightarrow> strictly_inside (path_Join dst k) dst"
  using key_okD(1,3) [of k] by (auto simp: to_copy_def strictly_inside_def path_segs_Join)

context storager_contract
begin

lemma list_names:
  assumes "wf h w" "stays_inside src" "stays_inside dst" "List_op st h ctx src w = (Inr listed, w1)"
  shows "Name ` set (copy_targets src dst listed) = to_copy (objs h w) src dst"
    and "distinct (map Name (copy_targets src dst listed))"
    and "\<forall>x \<in> set (copy_targets src dst listed). key_ok (Name x)"
    and "wf h w1" and "objs h w1 = objs h w"
proof -
  note lc = list_content [OF assms(1,2,4)] and lf = list_frame [OF assms(1,2,4)]
  show "Name ` set (copy_targets src dst listed) = to_copy (objs h w) src dst"
    using lc by (intro copy_targets_names assms(2,3)) blast+
  then show "\<forall>x \<in> set (copy_targets src dst listed). key_ok (Name x)"
    by (auto simp: to_copy_def)
  show "distinct (map Name (copy_targets src dst listed))"
    using lc by (intro copy_targets_distinct) (simp add: strict_sorted_iff)
  show "wf h w1" "objs h w1 = objs h w" using lf by blast+
qed

text \<open>A run that reports no error has copied every name, whatever the interleaving.\<close>

lemma CopyEach_ok:
  assumes wf: "wf h w" and inside: "stays_inside src" "stays_inside dst"
    and apart: "\<not> overwrites (objs h w) src dst"
    and C: "CopyEach pick st h ctx src dst opts w = ((stat, None), w')"
  shows "wf h w' \<and> copied_so_far (objs h w) (objs h w') src dst (to_copy (objs h w) src dst) \<and>
    Objects stat = wrap64 (int (card (to_copy (objs h w) src dst)))"
  using C
proof (cases rule: CopyEach_cases)
  case (left_out listed)
  note ln = list_names [OF wf inside left_out(3)]
  from left_out(1,4) ln show ?thesis
    by (simp add: copied_so_far_def zeroCopyStat_def wrap64_def)
next
  case (copied listed w1 g)
  note ln = list_names [OF wf inside copied(1)]
  have ap: "path_Join src n = path_Join src m"
    if "n \<in> Name ` set (copy_targets src dst listed)" "m \<in> Name ` set (copy_targets src dst listed)"
      "path_Join src n = path_Join dst m" for n m
    using apart that unfolding ln(1) overwrites_def by metis
  have run: "wf h (g_world g)"
    by (rule run_copies(1) [OF inside ln(3,2,4) copy_limit_pos [of opts] _ copied(3)])
      (rule ap; assumption)
  have copies: "copied_so_far (objs h w1) (objs h (g_world g)) src dst (Name ` set (copy_targets src dst listed)) \<and>
      Objects (g_shared g) = wrap64 (int (length (copy_targets src dst listed)))"
    by (rule run_copies(3) [OF inside ln(3,2,4) copy_limit_pos [of opts] _ copied(3)])
      (rule ap, assumption+, use copied(5) in simp)
  have "distinct (map Name (copy_targets src dst listed))" by (rule ln(2))
  then have "card (Name ` set (copy_targets src dst listed)) = length (copy_targets src dst listed)"
    using distinct_card [of "map Name (copy_targets src dst listed)"] by simp
  with run copies copied(4,6) ln(5) show ?thesis by (simp only: ln(1))
qed simp

text \<open>Whatever the outcome, nothing outside the destination prefix is lost or changed.\<close>

lemma run_copies_frame:
  assumes inside: "stays_inside src" "stays_inside dst" and ok: "\<forall>x \<in> set os. key_ok (Name x)"
    and d: "distinct (map Name os)" and wf: "wf h w0"
    and g: "g = run_group pick (copy_env st h ctx src dst opts limit)
      \<lparr>g_queue = os, g_launched = [], g_inflight = [], g_shared = zeroCopyStat, g_err = None, g_world = w0\<rparr>"
  shows "wf h (g_world g) \<and>
    (\<forall>k \<in> dom (objs h w0) - path_Join dst ` Name ` set os. objs h (g_world g) k = objs h w0 k)"
proof -
  let ?E = "copy_env st h ctx src dst opts limit"
  let ?g0 = "\<lparr>g_queue = os, g_launched = [], g_inflight = [], g_shared = zeroCopyStat, g_err = None, g_world = w0\<rparr>"
  let ?P = "\<lambda>g :: 'w group. distinct (map Name (pending g)) \<and> set (pending g) \<subseteq> set os \<and> wf h (g_world g) \<and>
    (\<forall>k \<in> dom (objs h w0) - path_Join dst ` Name ` set os. objs h (g_world g) k = objs h w0 k)"
  have lim: "e_limit ?E = limit" by (simp add: copy_env_def)
  have "?P g"
  proof (rule group_invariant)
    show "group_reach ?E ?g0 g" unfolding g by (rule run_group_reach)
    show "?P ?g0" using d wf by (simp add: pending_def)
  next
    fix g :: "'w group" and a
    assume P: "?P g" and a: "a \<in> set (enabled (e_limit ?E) g)"
    then have a': "a \<in> set (enabled limit g)" by (simp add: lim)
    have okp: "\<forall>x \<in> set (pending g). key_ok (Name x)" using ok P by blast
    from P have wfg: "wf h (g_world g)" by blast
    note world = perform_copy_world [OF a' wfg inside okp refl]
    have "objs h (g_world (perform ?E a g)) k = objs h w0 k"
      if k: "k \<in> dom (objs h w0) - path_Join dst ` Name ` set os" for k
    proof -
      have "k \<in> dom (objs h (g_world g)) - path_Join dst ` Name ` set (pending g)"
        using k P by (auto simp: dom_def)
      with world k P show ?thesis by simp
    qed
    then show "?P (perform ?E a g)"
      using pending_perform_subset [OF a', of ?E] P world by blast
  qed
  then show ?thesis by blast
qed

lemma CopyEach_frame:
  assumes wf: "wf h w" and inside: "stays_inside src" "stays_inside dst"
    and C: "CopyEach pick st h ctx src dst opts w = ((stat, err), w')"
  shows "wf h w' \<and> (\<forall>k b. objs h w k = Some b \<longrightarrow> \<not> strictly_inside k dst \<longrightarrow> objs h w' k = Some b)"
  using C
proof (cases rule: CopyEach_cases)
  case (refused listed e)
  then show ?thesis using list_frame [OF wf inside(1)] by simp
next
  case (left_out listed)
  then show ?thesis using list_frame [OF wf inside(1)] by simp
next
  case (copied listed w1 g)
  note ln = list_names [OF wf inside copied(1)]
  note fr = run_copies_frame [OF inside ln(3,2,4) copied(3)]
  have "k \<notin> path_Join dst ` Name ` set (copy_targets src dst listed)" if "\<not> strictly_inside k dst" for k
    using that to_copy_lands [of _ "objs h w" src dst] unfolding ln(1) by blast
  with fr ln(5) copied(6) show ?thesis by (auto simp: dom_def)
qed

end

section \<open>Properties\<close>

text \<open>
  The options of one object's copy are those of the whole copy: the part settings and the
  polling intervals arrive unchanged (negative values as zero), and the fallback if it was set.
\<close>

theorem copyOptions_faithful:
  "NewCopyOptions (copyOptions a) =
     \<lparr>Concurrency = max (PartConcurrency a) 0, PartSize = max (AllPartSize a) 0,
      ClientSideFallback = AllClientSideFallback a,
      PollInterval = max (AllPollInterval a) 0, PollMaxInterval = max (AllPollMaxInterval a) 0\<rparr>"
  by (simp add: NewCopyOptions_def copyOptions_def zeroCopyOptions_def WithCopyConcurrency_def
      WithCopyPartSize_def WithCopyPollInterval_def WithClientSideCopyFallback_def)

end
