(* ===== verification/Encrypted.thy ===== *)
theory Encrypted
  imports Range_Source Copying
begin

text \<open>
  \<^verbatim>\<open>encrypted/storage.go\<close>: the storage that encrypts what it writes and decrypts what it reads,
  over any other storage. \<^verbatim>\<open>filippo.io/age\<close> is a parameter (record \<open>age\<close>), its documented
  behaviour the locale \<open>age_spec\<close>. Shown inside \<open>encrypted_store\<close>: the decorator keeps the
  storage contract over plaintexts, reports plaintext sizes, serves a range as the slice of the
  plaintext, and never takes a failure of the store for a damaged object.
\<close>

section \<open>The age library\<close>

text \<open>
  \<open>age_Encrypt\<close> is \<^verbatim>\<open>age.Encrypt\<close> into a buffer, closed after the given plaintext.
  \<open>age_Decrypt\<close> reports a failure together with whether the source had been read to its end;
  its success is the plaintext it delivers and how that ends. \<open>age_DecryptReaderAt\<close> and
  \<open>age_Section\<close> (reading a section of its result to the end) are programs reading the ciphertext.
\<close>

record ('i, 'r, 'pl, 'w) age =
  age_Recipient :: "'i \<Rightarrow> 'r"
  age_Encrypt :: "'r \<Rightarrow> bytes \<Rightarrow> ('w, bytes) io"
  age_EncryptReader :: "'r \<Rightarrow> reader \<Rightarrow> ('w, reader) io"
  age_Decrypt :: "'i \<Rightarrow> reader \<Rightarrow> (error \<times> bool) + (bytes list \<times> (error \<times> bool) option)"
  age_DecryptReaderAt :: "'i \<Rightarrow> int64 \<Rightarrow> (error + 'pl) prog"
  age_Section :: "'pl \<Rightarrow> int64 \<Rightarrow> int64 \<Rightarrow> (bytes \<times> error option) prog"

section \<open>The storage\<close>

record ('h, 'i, 'r) enc_storage =
  es_store :: 'h
  es_identity :: 'i
  es_recipient :: 'r
  es_layout :: layout

definition measurePayloadOffset :: "('i, 'r, 'pl, 'w) age \<Rightarrow> 'r \<Rightarrow> ('w, int64) io" where
  "measurePayloadOffset age recipient =
     tryIO (age_Encrypt age recipient []) (\<lambda>r. case r of
         Inl err \<Rightarrow> throw (Errorf ''measure the age header'' [err])
       | Inr buf \<Rightarrow> ret (sub64 (int (length buf)) tagSize))"

text \<open>\<open>None\<close> is a nil store or identity. The only option sets a logger.\<close>

definition enc_New :: "('i, 'r, 'pl, 'w) age \<Rightarrow> 'h option \<Rightarrow> 'i option \<Rightarrow> ('w, ('h, 'i, 'r) enc_storage) io" where
  "enc_New age store identity =
     (case store of
        None \<Rightarrow> throw (ErrorString ''encrypted storage needs a store'')
      | Some h \<Rightarrow>
          (case identity of
             None \<Rightarrow> throw (ErrorString ''encrypted storage needs an identity'')
           | Some i \<Rightarrow>
               let recipient = age_Recipient age i in
               bindIO (measurePayloadOffset age recipient) (\<lambda>offset.
                 if offset > headerReadSize then throw (Errorf ''age header exceeds what a range read holds'' [])
                 else ret \<lparr>es_store = h, es_identity = i, es_recipient = recipient,
                           es_layout = \<lparr>payloadOffset = offset\<rparr>\<rparr>)))"

definition rewrap :: "('h, 'i, 'r) enc_storage \<Rightarrow> 'h \<Rightarrow> ('h, 'i, 'r) enc_storage" where
  "rewrap s sub = s\<lparr>es_store := sub\<rparr>"

definition enc_GetCwd :: "('h, 'w) storager \<Rightarrow> ('h, 'i, 'r) enc_storage \<Rightarrow> string" where
  "enc_GetCwd st s = GetCwd st (es_store s)"

definition enc_Dirname :: "('h, 'w) storager \<Rightarrow> ('h, 'i, 'r) enc_storage \<Rightarrow> string" where
  "enc_Dirname st s = Dirname st (es_store s)"

definition enc_ListDir ::
  "('h, 'w) storager \<Rightarrow> ('h, 'i, 'r) enc_storage \<Rightarrow> 'w ctx \<Rightarrow>
    ('w, string list \<times> ('h, 'i, 'r) enc_storage list) io" where
  "enc_ListDir st s ctx =
     bindIO (ListDir st (es_store s) ctx) (\<lambda>(files, dirs). ret (files, map (rewrap s) dirs))"

definition enc_SubStorage ::
  "('h, 'w) storager \<Rightarrow> ('h, 'i, 'r) enc_storage \<Rightarrow> string \<Rightarrow> bool \<Rightarrow> error + ('h, 'i, 'r) enc_storage" where
  "enc_SubStorage st s subPath relative =
     (case SubStorage st (es_store s) subPath relative of
        Inl err \<Rightarrow> Inl err
      | Inr sub \<Rightarrow> Inr (rewrap s sub))"

definition enc_List ::
  "('h, 'w) storager \<Rightarrow> ('h, 'i, 'r) enc_storage \<Rightarrow> 'w ctx \<Rightarrow> string \<Rightarrow> ('w, ObjectStat list) io" where
  "enc_List st s ctx prefix =
     bindIO (List_op st (es_store s) ctx prefix) (\<lambda>objects.
       ret (map (\<lambda>x. x\<lparr>Size := reportedSize (es_layout s) (Size x)\<rparr>) objects))"

definition enc_Stat ::
  "('h, 'w) storager \<Rightarrow> ('h, 'i, 'r) enc_storage \<Rightarrow> string \<Rightarrow> ('w, ObjectStat) io" where
  "enc_Stat st s fileName =
     bindIO (Stat st (es_store s) fileName) (\<lambda>stat.
       if \<not> Exist stat then ret stat
       else ret (stat\<lparr>Size := reportedSize (es_layout s) (Size stat)\<rparr>))"

definition enc_Exists ::
  "('h, 'w) storager \<Rightarrow> ('h, 'i, 'r) enc_storage \<Rightarrow> 'w ctx \<Rightarrow> string \<Rightarrow> ('w, bool) io" where
  "enc_Exists st s ctx fileName = Exists st (es_store s) ctx fileName"

text \<open>A put that succeeded has read the ciphertext, and with it the body, to the end.\<close>

definition enc_PutObject ::
  "('i, 'r, 'pl, 'w) age \<Rightarrow> ('h, 'w) storager \<Rightarrow> ('h, 'i, 'r) enc_storage \<Rightarrow> 'w ctx \<Rightarrow> string \<Rightarrow> reader \<Rightarrow>
    ('w, nat) io" where
  "enc_PutObject age st s ctx filePath body =
     tryIO (age_EncryptReader age (es_recipient s) body) (\<lambda>r. case r of
         Inl err \<Rightarrow> throw (Errorf ''encrypt'' [err])
       | Inr ciphertext \<Rightarrow>
           bindIO (PutObject st (es_store s) ctx filePath ciphertext) (\<lambda>_. ret (length (rd_bytes body))))"

subsection \<open>Reading\<close>

definition newDecryptError :: "error option \<Rightarrow> error \<Rightarrow> error" where
  "newDecryptError source_err err =
     (case source_err of
        Some e \<Rightarrow> Errorf ''read'' [e]
      | None \<Rightarrow>
          if errors_Is err NoIdentityMatchError then Errorf ''decrypt'' [ErrNoKey]
          else Errorf ''decrypt'' [ErrCorruptObject, err])"

text \<open>
  \<open>src_err body reached\<close> is the \<^verbatim>\<open>err\<close> field of a \<^verbatim>\<open>sourceReader\<close>: the failure of the
  store's body, once it has been read that far. \<open>plain_end\<close> is how the wrapping readers end: a
  failure that is not the end is classified, anything else is passed on.
\<close>

definition src_err :: "reader \<Rightarrow> bool \<Rightarrow> error option" where
  "src_err body reached =
     (case rd_end body of
        None \<Rightarrow> None
      | Some e \<Rightarrow> if reached \<and> \<not> errors_Is e EOF then Some e else None)"

definition plain_end :: "error option \<Rightarrow> error option \<Rightarrow> error option" where
  "plain_end source_err outcome =
     (case outcome of
        None \<Rightarrow> None
      | Some err \<Rightarrow> if errors_Is err EOF then Some err else Some (newDecryptError source_err err))"

definition enc_GetObject ::
  "('i, 'r, 'pl, 'w) age \<Rightarrow> ('h, 'w) storager \<Rightarrow> ('h, 'i, 'r) enc_storage \<Rightarrow> 'w ctx \<Rightarrow> string \<Rightarrow> ('w, reader) io" where
  "enc_GetObject age st s ctx filePath =
     bindIO (GetObject st (es_store s) ctx filePath) (\<lambda>body.
       case age_Decrypt age (es_identity s) body of
         Inl (err, reached) \<Rightarrow> throw (newDecryptError (src_err body reached) err)
       | Inr (plain, outcome) \<Rightarrow>
           ret \<lparr>rd_chunks = plain,
                rd_end = (case outcome of
                    None \<Rightarrow> None
                  | Some (err, reached) \<Rightarrow> plain_end (src_err body reached) (Some err)),
                rd_close = rd_close body\<rparr>)"

text \<open>A source that does not return is a read that never ends.\<close>

definition decrypt_range ::
  "('i, 'r, 'pl, 'w) age \<Rightarrow> 'i \<Rightarrow> int64 \<Rightarrow> int64 \<Rightarrow> int64 \<Rightarrow> rangeSource \<Rightarrow> (error + reader) option" where
  "decrypt_range age i encrypted off n src =
     (case run (age_DecryptReaderAt age i encrypted) src of
        None \<Rightarrow> None
      | Some (Inl err, src') \<Rightarrow> Some (Inl (newDecryptError (sourceErr src') err))
      | Some (Inr plain, src') \<Rightarrow>
          (case run (age_Section age plain off n) src' of
             None \<Rightarrow> None
           | Some ((data, e), src'') \<Rightarrow>
               Some (Inr \<lparr>rd_chunks = [data], rd_end = plain_end (sourceErr src'') e,
                          rd_close = source_Close src''\<rparr>)))"

definition range_end :: "int64 \<Rightarrow> int64 \<Rightarrow> int64 \<Rightarrow> int64" where
  "range_end plainSize offset len =
     (if len > 0 \<and> len < sub64 plainSize offset then add64 offset len else plainSize)"

definition enc_GetObjectRange ::
  "('i, 'r, 'pl, 'w) age \<Rightarrow> ('h, 'w) storager \<Rightarrow> ('h, 'i, 'r) enc_storage \<Rightarrow> 'w ctx \<Rightarrow> string \<Rightarrow>
    int64 \<Rightarrow> int64 \<Rightarrow> ('w, reader option) io" where
  "enc_GetObjectRange age st s ctx filePath offset len =
     (if offset < 0 \<or> len = 0 then throw (Errorf ''range'' [ErrInvalidRange])
      else
        bindIO (Stat st (es_store s) filePath) (\<lambda>stat.
          if \<not> Exist stat then throw (Errorf ''object'' [ErrFileNotFound])
          else
            (case plaintextSize (es_layout s) (Size stat) of
               None \<Rightarrow> throw (Errorf ''object'' [ErrCorruptObject])
             | Some plainSize \<Rightarrow>
                 if offset \<ge> plainSize then throw (Errorf ''range'' [ErrInvalidRange])
                 else
                   let end = range_end plainSize offset len in
                   bindIO (openRangeSource st (es_store s) (es_layout s) ctx filePath (Size stat) offset end)
                     (\<lambda>src.
                        case decrypt_range age (es_identity s) (Size stat) offset (sub64 end offset) src of
                          None \<Rightarrow> ret None
                        | Some (Inl err) \<Rightarrow> throw err
                        | Some (Inr rd) \<Rightarrow> ret (Some rd)))))"

definition plainCopyStat :: "('h, 'i, 'r) enc_storage \<Rightarrow> CopyStat \<Rightarrow> CopyStat" where
  "plainCopyStat s stat =
     (if Bytes stat > 0 then stat\<lparr>Bytes := reportedSize (es_layout s) (Bytes stat)\<rparr> else stat)"

definition enc_Delete ::
  "('h, 'w) storager \<Rightarrow> ('h, 'i, 'r) enc_storage \<Rightarrow> 'w ctx \<Rightarrow> string list \<Rightarrow> ('w, unit) io" where
  "enc_Delete st s ctx filePaths = Delete st (es_store s) ctx filePaths"

definition enc_DeleteAll ::
  "('h, 'w) storager \<Rightarrow> ('h, 'i, 'r) enc_storage \<Rightarrow> 'w ctx \<Rightarrow> string \<Rightarrow> ('w, unit) io" where
  "enc_DeleteAll st s ctx pathPrefix = DeleteAll st (es_store s) ctx pathPrefix"

definition enc_Copy ::
  "('h, 'w) storager \<Rightarrow> ('h, 'i, 'r) enc_storage \<Rightarrow> 'w ctx \<Rightarrow> string \<Rightarrow> string \<Rightarrow> CopyOption list \<Rightarrow>
    ('w, CopyStat) io" where
  "enc_Copy st s ctx srcPath dstPath opts =
     bindIO (Copy st (es_store s) ctx srcPath dstPath opts) (\<lambda>stat. ret (plainCopyStat s stat))"

text \<open>\<^verbatim>\<open>storages.CopyEach(ctx, s, ...)\<close>: it uses the storage's own \<open>List\<close> and \<open>Copy\<close>.\<close>

definition enc_CopyAll ::
  "('w group \<Rightarrow> nat) \<Rightarrow> ('h, 'w) storager \<Rightarrow> ('h, 'i, 'r) enc_storage \<Rightarrow> 'w ctx \<Rightarrow> string \<Rightarrow> string \<Rightarrow>
    CopyAllOption list \<Rightarrow> 'w \<Rightarrow> (CopyStat \<times> error option) \<times> 'w" where
  "enc_CopyAll pick st s ctx srcPrefix dstPrefix opts =
     CopyListed pick (enc_List st s) ctx srcPrefix dstPrefix
       (\<lambda>ctx' _ srcPath dstPath o'. enc_Copy st s ctx' srcPath dstPath o') opts"

definition enc_Ping :: "('h, 'w) storager \<Rightarrow> ('h, 'i, 'r) enc_storage \<Rightarrow> 'w ctx \<Rightarrow> ('w, unit) io" where
  "enc_Ping st s ctx = Ping st (es_store s) ctx"

definition enc_Close :: "('h, 'w) storager \<Rightarrow> ('h, 'i, 'r) enc_storage \<Rightarrow> ('w, unit) io" where
  "enc_Close st s = Close st (es_store s)"

definition Recipient :: "('h, 'i, 'r) enc_storage \<Rightarrow> 'r" where
  "Recipient s = es_recipient s"

text \<open>
  The method table. A range read whose source never returned would have no entry; \<open>run_returns\<close>
  rules that out for every opened source, so the error standing for it never occurs.
\<close>

definition enc_ops ::
  "('w group \<Rightarrow> nat) \<Rightarrow> ('i, 'r, 'pl, 'w) age \<Rightarrow> ('h, 'w) storager \<Rightarrow> (('h, 'i, 'r) enc_storage, 'w) storager" where
  "enc_ops pick age st =
     \<lparr>GetObject = enc_GetObject age st,
      GetObjectRange = (\<lambda>s ctx k off len. bindIO (enc_GetObjectRange age st s ctx k off len) (\<lambda>r.
        case r of None \<Rightarrow> throw (ErrorString ''does not return'') | Some rd \<Rightarrow> ret rd)),
      PutObject = enc_PutObject age st, Delete = enc_Delete st, DeleteAll = enc_DeleteAll st,
      List_op = enc_List st, Stat = enc_Stat st, Exists = enc_Exists st, GetCwd = enc_GetCwd st,
      Dirname = enc_Dirname st, ListDir = enc_ListDir st, SubStorage = enc_SubStorage st,
      Copy = enc_Copy st, CopyAll = enc_CopyAll pick st, Ping = enc_Ping st, Close = enc_Close st\<rparr>"

lemma enc_sel [simp]:
  "GetObject (enc_ops pick age st) = enc_GetObject age st"
  "PutObject (enc_ops pick age st) = enc_PutObject age st"
  "List_op (enc_ops pick age st) = enc_List st"
  "Stat (enc_ops pick age st) = enc_Stat st"
  "Exists (enc_ops pick age st) = enc_Exists st"
  "Copy (enc_ops pick age st) = enc_Copy st"
  "CopyAll (enc_ops pick age st) = enc_CopyAll pick st"
  by (simp_all add: enc_ops_def)

section \<open>What age promises\<close>

text \<open>
  \<open>opens i ct\<close> is the plaintext identity \<open>i\<close> authenticates in the file \<open>ct\<close>;
  \<open>sealed i ct p\<close> says that \<open>ct\<close> is a file written for the recipient of \<open>i\<close> alone, with a
  header and nonce of \<open>hdr i\<close> bytes. The laws: a file opens to what was sealed and has the size of
  the payload format; encrypting a reader fails exactly when the reader does; a decrypting reader
  ends cleanly only on an authenticated file read to its end, and of an intact beginning of a file it
  only fails at the source's end; random access reads the header, the final chunk, and then the
  chunks of the section in increasing order.
\<close>

locale age_spec =
  fixes age :: "('i, 'r, 'pl, 'w) age"
    and opens :: "'i \<Rightarrow> bytes \<Rightarrow> bytes option"
    and sealed :: "'i \<Rightarrow> bytes \<Rightarrow> bytes \<Rightarrow> bool"
    and hdr :: "'i \<Rightarrow> int"
  assumes hdr_pos: "0 \<le> hdr i" and hdr_small: "hdr i \<le> MaxInt64 - tagSize"
    and sealed_opens: "sealed i ct p \<Longrightarrow> opens i ct = Some p"
    and sealed_size: "sealed i ct p \<Longrightarrow> int (length ct) = enc_size \<lparr>payloadOffset = hdr i\<rparr> (int (length p))"
    and encrypt_sealed: "age_Encrypt age (age_Recipient age i) p w = (Inr ct, w') \<Longrightarrow> sealed i ct p"
    and reader_end: "age_EncryptReader age (age_Recipient age i) body w = (Inr ctr, w') \<Longrightarrow>
      rd_end ctr = None \<longleftrightarrow> rd_end body = None"
    and reader_sealed: "age_EncryptReader age (age_Recipient age i) body w = (Inr ctr, w') \<Longrightarrow>
      rd_end body = None \<Longrightarrow> sealed i (rd_bytes ctr) (rd_bytes body)"
    and decrypt_clean: "age_Decrypt age i src = Inr (plain, None) \<Longrightarrow>
      rd_end src = None \<and> opens i (rd_bytes src) = Some (concat plain)"
    and decrypt_opens: "rd_end src = None \<Longrightarrow> opens i (rd_bytes src) = Some p \<Longrightarrow>
      \<exists>plain. age_Decrypt age i src = Inr (plain, None) \<and> concat plain = p"
    and decrypt_cut: "opens i (rd_bytes src @ rest) = Some p \<Longrightarrow> rd_end src = Some e \<Longrightarrow> \<not> errors_Is e EOF \<Longrightarrow>
      (\<exists>err. age_Decrypt age i src = Inl (err, True)) \<or>
      (\<exists>plain err. age_Decrypt age i src = Inr (plain, Some (err, True)) \<and> \<not> errors_Is err EOF)"
    and decrypt_damage: "age_Decrypt age i src = Inr (plain, Some (err, reached)) \<Longrightarrow>
      rd_end src = None \<Longrightarrow> \<not> errors_Is err EOF"
    and open_at: "opens i ct = Some p \<Longrightarrow>
      \<exists>plain. run_whole ct (age_DecryptReaderAt age i (int (length ct))) = Inr plain \<and>
        (\<forall>off n. 0 \<le> off \<longrightarrow> 0 < n \<longrightarrow> off + n \<le> int (length p) \<longrightarrow>
          run_whole ct (age_Section age plain off n) = (take (nat n) (drop (nat off) p), None))"
    and read_order: "sealed i ct p \<Longrightarrow> wholeObjectSize < int (length ct) \<Longrightarrow>
      int (length ct) \<le> MaxInt64 \<Longrightarrow> 0 \<le> off \<Longrightarrow> off < end \<Longrightarrow> end \<le> int (length p) \<Longrightarrow>
      range_shape \<lparr>payloadOffset = hdr i\<rparr> (int (length p)) end c \<Longrightarrow>
      orderly ct c (bind_prog (age_DecryptReaderAt age i (int (length ct))) (\<lambda>r.
        case r of Inl err \<Rightarrow> Ret ([], Some err) | Inr plain \<Rightarrow> age_Section age plain off (end - off)))
        (chunk_at \<lparr>payloadOffset = hdr i\<rparr> off)"

section \<open>The decorator keeps the contract\<close>

text \<open>
  The content of an encrypted storage: what the identity opens in each stored object. An object that
  does not open cannot be read, only listed, copied and deleted; it stands as its stored bytes.
\<close>

definition enc_plain :: "('i \<Rightarrow> bytes \<Rightarrow> bytes option) \<Rightarrow> 'i \<Rightarrow> bytes \<Rightarrow> bytes" where
  "enc_plain opens i ct = (case opens i ct of Some p \<Rightarrow> p | None \<Rightarrow> ct)"

definition enc_objs ::
  "('h \<Rightarrow> 'w \<Rightarrow> string \<rightharpoonup> bytes) \<Rightarrow> ('i \<Rightarrow> bytes \<Rightarrow> bytes option) \<Rightarrow> ('h, 'i, 'r) enc_storage \<Rightarrow>
    'w \<Rightarrow> string \<rightharpoonup> bytes" where
  "enc_objs objs opens s w k = map_option (enc_plain opens (es_identity s)) (objs (es_store s) w k)"

definition enc_wf ::
  "('i, 'r, 'pl, 'w) age \<Rightarrow> ('h \<Rightarrow> 'w \<Rightarrow> bool) \<Rightarrow> ('h, 'i, 'r) enc_storage \<Rightarrow> 'w \<Rightarrow> bool" where
  "enc_wf age good s w \<longleftrightarrow> good (es_store s) w \<and> es_recipient s = age_Recipient age (es_identity s)"

locale encrypted_store =
  storager_contract st objs good + age_spec age opens sealed hdr
  for st :: "('h, 'w) storager" and objs good and age :: "('i, 'r, 'pl, 'w) age"
    and opens sealed hdr +
  assumes entropy_frame: "age_EncryptReader age r body w = (res, w') \<Longrightarrow>
    objs h w' = objs h w \<and> (good h w \<longrightarrow> good h w')"
begin

lemma enc_objs_cong: "objs (es_store s) w' = objs (es_store s) w \<Longrightarrow> enc_objs objs opens s w' = enc_objs objs opens s w"
  by (simp add: enc_objs_def fun_eq_iff)

lemma enc_objs_le:
  "(objs (es_store s) w)(k := None) \<subseteq>\<^sub>m objs (es_store s) w' \<Longrightarrow>
    (enc_objs objs opens s w)(k := None) \<subseteq>\<^sub>m enc_objs objs opens s w'"
  by (auto simp: map_le_def enc_objs_def dom_def split: if_splits)

lemma enc_get_content:
  assumes "enc_wf age good s w" "key_ok k" "enc_objs objs opens s w k = Some p"
    and "enc_GetObject age st s ctx k w = (Inr r, w')" "rd_end r = None"
  shows "rd_bytes r = p \<and> (\<exists>ct. objs (es_store s) w k = Some ct \<and> opens (es_identity s) ct = Some p)"
proof -
  from assms(3) obtain ct where ct: "objs (es_store s) w k = Some ct" "p = enc_plain opens (es_identity s) ct"
    by (auto simp: enc_objs_def)
  obtain body where g1: "GetObject st (es_store s) ctx k w = (Inr body, w')"
    and dec: "\<exists>plain outcome. age_Decrypt age (es_identity s) body = Inr (plain, outcome)"
    using assms(4) by (cases "GetObject st (es_store s) ctx k w"; cases "fst (GetObject st (es_store s) ctx k w)")
      (auto simp: enc_GetObject_def bindIO_Inr split: sum.splits)
  from dec g1 assms(4) obtain plain outcome where g: "GetObject st (es_store s) ctx k w = (Inr body, w')"
    "age_Decrypt age (es_identity s) body = Inr (plain, outcome)"
    "r = \<lparr>rd_chunks = plain, rd_end = (case outcome of None \<Rightarrow> None
       | Some (err, reached) \<Rightarrow> plain_end (src_err body reached) (Some err)), rd_close = rd_close body\<rparr>"
    by (auto simp: enc_GetObject_def bindIO_Inr)
  have "outcome = None"
    using assms(5) g(3) by (cases outcome) (auto simp: plain_end_def split: if_splits)
  with g decrypt_clean have d: "rd_end body = None" "opens (es_identity s) (rd_bytes body) = Some (concat plain)"
    by simp_all
  have "rd_bytes body = ct"
    using get_content [OF _ assms(2) ct(1) g(1) d(1)] assms(1) by (simp add: enc_wf_def)
  with d ct g(3) show ?thesis by (simp add: enc_plain_def rd_bytes_def)
qed

lemma enc_put_ok:
  assumes wf: "enc_wf age good s w" and k: "key_ok k" and P: "enc_PutObject age st s ctx k body w = (Inr n, w')"
  shows "rd_end body = None \<and> n = length (rd_bytes body) \<and> enc_wf age good s w' \<and>
    (\<exists>ct. sealed (es_identity s) ct (rd_bytes body) \<and> objs (es_store s) w' = (objs (es_store s) w)(k \<mapsto> ct))"
proof -
  from P obtain ctr w1 m where E: "age_EncryptReader age (es_recipient s) body w = (Inr ctr, w1)"
    and put: "PutObject st (es_store s) ctx k ctr w1 = (Inr m, w')" and n: "n = length (rd_bytes body)"
    by (auto simp: enc_PutObject_def tryIO_apply bindIO_Inr split: prod.splits sum.splits)
  have r: "es_recipient s = age_Recipient age (es_identity s)" and w: "good (es_store s) w"
    using wf by (simp_all add: enc_wf_def)
  have w1: "good (es_store s) w1" "objs (es_store s) w1 = objs (es_store s) w"
    using entropy_frame [OF E] w by auto
  note ok = put_ok [OF w1(1) k put]
  have "rd_end body = None" using ok reader_end [of "es_identity s" body w ctr w1] E r by simp
  moreover from this have "sealed (es_identity s) (rd_bytes ctr) (rd_bytes body)"
    using reader_sealed [of "es_identity s" body w ctr w1] E r by simp
  ultimately show ?thesis using ok n w1 r by (auto simp: enc_wf_def)
qed

lemma enc_contract: "storager_contract (enc_ops pick age st) (enc_objs objs opens) (enc_wf age good)"
proof (unfold_locales, goal_cases)
  case (1 s w k ctx res w' s')
  obtain r where G: "GetObject st (es_store s) ctx k w = (r, w')"
    using 1(3) by (auto simp: enc_GetObject_def bindIO_apply split: prod.splits sum.splits)
  have "good (es_store s) w" using 1(1) by (simp add: enc_wf_def)
  from get_frame [OF this 1(2) G, of "es_store s'"] 1(1) enc_objs_cong [of s' w' w] show ?case
    by (simp add: enc_wf_def)
next
  case (2 s w k b ctx r w')
  then show ?case using enc_get_content [OF 2(1-3)] by simp
next
  case (3 s w k ctx found w' s')
  then show ?case
    using exists_frame [OF _ 3(2), of "es_store s" w ctx found w' "es_store s'"] enc_objs_cong [of s' w' w]
    by (simp add: enc_wf_def enc_Exists_def)
next
  case (4 s w k ctx w')
  then show ?case using exists_object by (simp add: enc_wf_def enc_Exists_def enc_objs_def)
next
  case (5 s w k ctx body n w')
  then obtain ct where p: "rd_end body = None" "n = length (rd_bytes body)" "enc_wf age good s w'"
    "sealed (es_identity s) ct (rd_bytes body)" "objs (es_store s) w' = (objs (es_store s) w)(k \<mapsto> ct)"
    using enc_put_ok [OF 5(1,2)] by fastforce
  moreover have "enc_objs objs opens s w' = (enc_objs objs opens s w)(k \<mapsto> rd_bytes body)"
    using p(5) sealed_opens [OF p(4)] by (auto simp: enc_objs_def enc_plain_def fun_eq_iff)
  ultimately show ?case by blast
next
  case (6 s w k ctx body e w')
  then obtain er w1 where E: "age_EncryptReader age (es_recipient s) body w = (er, w1)" by fastforce
  have w1: "good (es_store s) w1" "objs (es_store s) w1 = objs (es_store s) w"
    using entropy_frame [OF E] 6(1) by (auto simp: enc_wf_def)
  show ?case
  proof (cases er)
    case (Inl x)
    with E 6 have "w' = w1" by (auto simp: enc_PutObject_def tryIO_apply)
    with w1 6(1) enc_objs_cong [of s w1 w] show ?thesis by (auto simp: enc_wf_def map_le_def)
  next
    case (Inr ctr)
    with E 6 have "PutObject st (es_store s) ctx k ctr w1 = (Inl e, w')"
      by (auto simp: enc_PutObject_def tryIO_apply bindIO_apply split: prod.splits sum.splits)
    from put_err [OF w1(1) 6(2) this] w1(2) enc_objs_le [of s w k w'] 6(1) show ?thesis
      by (simp add: enc_wf_def)
  qed
next
  case (7 s w a d ctx opts c w')
  then obtain c0 where "Copy st (es_store s) ctx a d opts w = (Inr c0, w')"
    by (auto simp: enc_Copy_def bindIO_Inr)
  then obtain b where "objs (es_store s) w a = Some b" "objs (es_store s) w' = (objs (es_store s) w)(d \<mapsto> b)"
    "good (es_store s) w'"
    using copy_ok [of "es_store s" w a d ctx opts c0 w'] 7 by (auto simp: enc_wf_def)
  with 7(1) show ?case
    by (intro exI [of _ "enc_plain opens (es_identity s) b"]) (auto simp: enc_objs_def enc_wf_def fun_eq_iff)
next
  case (8 s w a d ctx opts e w')
  then have "Copy st (es_store s) ctx a d opts w = (Inl e, w')"
    by (auto simp: enc_Copy_def bindIO_apply split: prod.splits sum.splits)
  from copy_err [OF _ 8(2,3) this] 8(1) enc_objs_le [of s w d w'] show ?case by (simp add: enc_wf_def)
next
  case (9 s w p ctx listing w' s')
  obtain r where L: "List_op st (es_store s) ctx p w = (r, w')"
    using 9(3) by (auto simp: enc_List_def bindIO_apply split: prod.splits sum.splits)
  have "good (es_store s) w" using 9(1) by (simp add: enc_wf_def)
  from list_frame [OF this 9(2) L, of "es_store s'"] 9(1) enc_objs_cong [of s' w' w] show ?case
    by (simp add: enc_wf_def)
next
  case (10 s w p ctx os w')
  then obtain os0 where L: "List_op st (es_store s) ctx p w = (Inr os0, w')"
    and os: "os = map (\<lambda>x. x\<lparr>Size := reportedSize (es_layout s) (Size x)\<rparr>) os0"
    by (auto simp: enc_List_def bindIO_Inr)
  have "map Name os = map Name os0" by (simp add: os comp_def)
  moreover have "Name ` set os = Name ` set os0" by (auto simp: os image_iff)
  moreover have "\<forall>x \<in> set os. \<exists>y \<in> set os0. Exist x = Exist y \<and> Name x = Name y" by (auto simp: os)
  ultimately show ?case
    using list_content [OF _ 10(2) L] 10(1) by (fastforce simp: enc_wf_def enc_objs_def)
qed

end

section \<open>Sizes and ranges\<close>

text \<open>An object the storage's own layout fits: sealed, with sizes below the wrap-around.\<close>

definition fits :: "('i \<Rightarrow> int) \<Rightarrow> ('i \<Rightarrow> bytes \<Rightarrow> bytes \<Rightarrow> bool) \<Rightarrow> ('h, 'i, 'r) enc_storage \<Rightarrow> bytes \<Rightarrow> bytes \<Rightarrow> bool" where
  "fits hdr sealed s ct p \<longleftrightarrow> sealed (es_identity s) ct p \<and> es_layout s = \<lparr>payloadOffset = hdr (es_identity s)\<rparr> \<and>
     hdr (es_identity s) \<le> headerReadSize \<and> int (length ct) \<le> MaxInt64 - encChunkSize"

locale encrypted_sized =
  sized_contract st objs good + encrypted_store st objs good age opens sealed hdr
  for st :: "('h, 'w) storager" and objs good and age :: "('i, 'r, 'pl, 'w) age"
    and opens sealed hdr
begin

lemma fitsD:
  assumes "fits hdr sealed s ct p"
  shows "sane_layout (es_layout s)" "plaintextSize (es_layout s) (int (length ct)) = Some (int (length p))"
    "int (length ct) = enc_size (es_layout s) (int (length p))" "int (length p) \<le> int (length ct)"
    "opens (es_identity s) ct = Some p"
proof -
  show l: "sane_layout (es_layout s)"
    using assms hdr_pos by (simp add: fits_def sane_layout_def headerReadSize_def)
  show e: "int (length ct) = enc_size (es_layout s) (int (length p))"
    using assms sealed_size by (auto simp: fits_def)
  have b: "int (length ct) \<le> MaxInt64 - encChunkSize" using assms by (simp add: fits_def)
  show "plaintextSize (es_layout s) (int (length ct)) = Some (int (length p))"
    using plaintextSize_iff [OF l _ b, of "int (length p)"] e by simp
  show "int (length p) \<le> int (length ct)"
    unfolding e using l n_chunks_bounds(1) [of "int (length p)"] by (simp add: enc_size_def sane_layout_def)
  show "opens (es_identity s) ct = Some p" using assms sealed_opens by (simp add: fits_def)
qed

lemma enc_sizes:
  assumes wf: "enc_wf age good s w" and ct: "fits hdr sealed s ct p"
  shows "key_ok k \<Longrightarrow> objs (es_store s) w k = Some ct \<Longrightarrow> enc_Stat st s k w = (Inr si, w') \<Longrightarrow>
      Exist si \<and> Size si = int (length p)"
    and "stays_inside q \<Longrightarrow> enc_List st s ctx q w = (Inr os, w') \<Longrightarrow> x \<in> set os \<Longrightarrow>
      objs (es_store s) w (path_Join q (Name x)) = Some ct \<Longrightarrow> Size x = int (length p)"
    and "key_ok k \<Longrightarrow> key_ok d \<Longrightarrow> objs (es_store s) w k = Some ct \<Longrightarrow>
      enc_Copy st s ctx k d opts w = (Inr c, w') \<Longrightarrow>
      Bytes c = int (length p) \<or> Bytes c = 0 \<and> objs (es_store s) w d = Some ct"
proof -
  have g: "good (es_store s) w" using wf by (simp add: enc_wf_def)
  have rep: "reportedSize (es_layout s) (int (length ct)) = int (length p)"
    using fitsD(2) [OF ct] by (simp add: reportedSize_def)
  show "Exist si \<and> Size si = int (length p)"
    if h: "key_ok k" "objs (es_store s) w k = Some ct" "enc_Stat st s k w = (Inr si, w')"
  proof -
    from h(3) obtain s0 where S: "Stat st (es_store s) k w = (Inr s0, w')"
      by (auto simp: enc_Stat_def bindIO_Inr split: if_splits)
    from stat_object [OF g h(1,2) S] S h(3) rep show ?thesis by (auto simp: enc_Stat_def bindIO_Inr)
  qed
  show "Size x = int (length p)"
    if h: "stays_inside q" "enc_List st s ctx q w = (Inr os, w')" "x \<in> set os"
      "objs (es_store s) w (path_Join q (Name x)) = Some ct"
  proof -
    from h(2) obtain os0 where L: "List_op st (es_store s) ctx q w = (Inr os0, w')"
      and os: "os = map (\<lambda>x. x\<lparr>Size := reportedSize (es_layout s) (Size x)\<rparr>) os0"
      by (auto simp: enc_List_def bindIO_Inr)
    from h(3) os obtain y where y: "y \<in> set os0" "x = y\<lparr>Size := reportedSize (es_layout s) (Size y)\<rparr>" by auto
    with list_size [OF g h(1) L y(1), of ct] h(4) rep show ?thesis by simp
  qed
  show "Bytes c = int (length p) \<or> Bytes c = 0 \<and> objs (es_store s) w d = Some ct"
    if h: "key_ok k" "key_ok d" "objs (es_store s) w k = Some ct" "enc_Copy st s ctx k d opts w = (Inr c, w')"
  proof -
    from h(4) obtain c0 where C: "Copy st (es_store s) ctx k d opts w = (Inr c0, w')" and c: "c = plainCopyStat s c0"
      by (auto simp: enc_Copy_def bindIO_Inr)
    have "wrap64 (int (length ct)) = int (length ct)"
      using ct by (intro wrap64_id) (simp add: fits_def in64_iff MaxInt64_def encChunkSize_def)
    with copy_bytes [OF g h(1,2) C h(3)] c rep fitsD(4) [OF ct] show ?thesis
      by (auto simp: plainCopyStat_def)
  qed
qed

lemma range_end_eq:
  assumes "0 \<le> off" "off < n" "len \<noteq> 0" "n \<le> MaxInt64"
  shows "range_end n off len = (if len < 0 \<or> n < off + len then n else off + len)"
  using assms by (auto simp: range_end_def sub64_id add64_id in64_iff MaxInt64_def)

lemma decrypt_whole:
  assumes "opens i ct = Some p" "0 \<le> off" "0 < n" "off + n \<le> int (length p)"
  shows "\<exists>rd. decrypt_range age i (int (length ct)) off n (Whole ct) = Some (Inr rd) \<and>
    rd_end rd = None \<and> rd_bytes rd = take (nat n) (drop (nat off) p)"
  using open_at [OF assms(1)] assms(2-4)
  by (auto simp: decrypt_range_def run_Whole plain_end_def rd_bytes_def)

lemma decrypt_chunks:
  assumes s: "sealed i ct p" "wholeObjectSize < int (length ct)"
    and n: "0 \<le> off" "off < end" "end \<le> int (length p)"
    and c: "chunk_ok ct c" "cs_err c = None" "cs_pos c = chunk_at \<lparr>payloadOffset = hdr i\<rparr> off"
      "range_shape \<lparr>payloadOffset = hdr i\<rparr> (int (length p)) end c"
  shows "\<exists>rd. decrypt_range age i (int (length ct)) off (end - off) (Chunks c) = Some (Inr rd) \<and>
    rd_end rd = None \<and> rd_bytes rd = take (nat (end - off)) (drop (nat off) p)"
proof -
  let ?open = "age_DecryptReaderAt age i (int (length ct))"
  let ?rest = "\<lambda>r. case r of Inl err \<Rightarrow> Ret ([], Some err) | Inr plain \<Rightarrow> age_Section age plain off (end - off)"
  obtain plain where plain: "run_whole ct ?open = Inr plain"
    and part: "run_whole ct (age_Section age plain off (end - off)) = (take (nat (end - off)) (drop (nat off) p), None)"
    using open_at [OF sealed_opens [OF s(1)]] n by (metis diff_add_cancel add.commute zero_less_diff diff_gt_0_iff_gt)
  have o: "orderly ct c (bind_prog ?open ?rest) (cs_pos c)"
    using read_order [OF s _ n c(4)] c(1,3) by (simp add: chunk_ok_def)
  from run_Chunks [OF c(1) orderly_bind [OF o]] plain
  obtain c1 where r1: "run ?open (Chunks c) = Some (Inr plain, Chunks c1)" by auto
  from run_Chunks [OF c(1) o] obtain c2 where
    "run (bind_prog ?open ?rest) (Chunks c) = Some (run_whole ct (bind_prog ?open ?rest), Chunks c2)" "same_shape c2 c"
    by blast
  with r1 plain part have r2: "run (age_Section age plain off (end - off)) (Chunks c1) =
      Some ((take (nat (end - off)) (drop (nat off) p), None), Chunks c2)"
    by (simp add: run_bind run_whole_bind)
  show ?thesis
    by (simp add: decrypt_range_def r1 r2 plain_end_def rd_bytes_def)
qed

lemma enc_range:
  assumes wf: "enc_wf age good s w" and k: "key_ok k" and ct: "objs (es_store s) w k = Some ct" "fits hdr sealed s ct p"
    and steady: "\<And>a b v r v'. good (es_store s) v \<Longrightarrow> objs (es_store s) v k = Some ct \<Longrightarrow>
      GetObjectRange st (es_store s) ctx k a b v = (Inr r, v') \<Longrightarrow> rd_end r = None"
    and G: "enc_GetObjectRange age st s ctx k off len w = (Inr res, w')"
  shows "0 \<le> off \<and> off < int (length p) \<and> len \<noteq> 0 \<and> enc_objs objs opens s w' = enc_objs objs opens s w \<and>
    (\<exists>rd. res = Some rd \<and> rd_end rd = None \<and> rd_bytes rd = clamped off len p)"
proof -
  let ?h = "es_store s" and ?n = "int (length p)" and ?e = "int (length ct)"
  note ft = fitsD [OF ct(2)]
  have g: "good ?h w" using wf by (simp add: enc_wf_def)
  from ct(2) have sl: "sealed (es_identity s) ct p" and lay: "es_layout s = \<lparr>payloadOffset = hdr (es_identity s)\<rparr>"
    and big: "?e \<le> MaxInt64 - encChunkSize" by (simp_all add: fits_def)
  from G obtain si w1 where S: "Stat st ?h k w = (Inr si, w1)" and args: "0 \<le> off" "len \<noteq> 0"
    by (auto simp: enc_GetObjectRange_def bindIO_Inr split: if_splits)
  have si: "Exist si" "Size si = ?e" using stat_object [OF g k ct(1) S] by simp_all
  have w1: "good ?h w1" "objs ?h w1 = objs ?h w" using stat_frame [OF g k S] by auto
  define fin where "fin = range_end ?n off len"
  from G S si ft(2) args have off: "off < ?n"
    and G2: "bindIO (openRangeSource st ?h (es_layout s) ctx k ?e off fin) (\<lambda>src.
       case decrypt_range age (es_identity s) ?e off (sub64 fin off) src of
         None \<Rightarrow> ret None | Some (Inl err) \<Rightarrow> throw err | Some (Inr rd) \<Rightarrow> ret (Some rd)) w1 = (Inr res, w')"
    by (auto simp: enc_GetObjectRange_def fin_def bindIO_Inr Let_def split: if_splits)
  have nmax: "?n \<le> MaxInt64" using ft(4) big by (simp add: MaxInt64_def encChunkSize_def)
  have fin: "off < fin" "fin \<le> ?n" "fin = (if len < 0 \<or> ?n < off + len then ?n else off + len)"
    using range_end_eq [OF args(1) off args(2) nmax] args off by (auto simp: fin_def)
  have sub: "sub64 fin off = fin - off"
    using fin args(1) nmax by (intro sub64_id) (simp add: in64_iff MaxInt64_def)
  have slice: "take (nat (fin - off)) (drop (nat off) p) = clamped off len p"
    using fin(3) args off by (auto simp: clamped_def)
  from G2 obtain src where O: "openRangeSource st ?h (es_layout s) ctx k ?e off fin w1 = (Inr src, w')"
    and D: "(case decrypt_range age (es_identity s) ?e off (fin - off) src of
         None \<Rightarrow> ret None | Some (Inl err) \<Rightarrow> throw err | Some (Inr rd) \<Rightarrow> ret (Some rd)) w' = (Inr res, w')"
  proof -
    from G2 obtain src v where v: "openRangeSource st ?h (es_layout s) ctx k ?e off fin w1 = (Inr src, v)"
      "(case decrypt_range age (es_identity s) ?e off (fin - off) src of
         None \<Rightarrow> ret None | Some (Inl err) \<Rightarrow> throw err | Some (Inr rd) \<Rightarrow> ret (Some rd)) v = (Inr res, w')"
      unfolding bindIO_Inr sub by blast
    then have "v = w'" by (auto split: option.splits sum.splits)
    with v that show thesis by blast
  qed
  have read: "objs ?h w' = objs ?h w1 \<and> (\<exists>rd. decrypt_range age (es_identity s) ?e off (fin - off) src = Some (Inr rd) \<and>
      rd_end rd = None \<and> rd_bytes rd = take (nat (fin - off)) (drop (nat off) p))"
  proof (cases "?e \<le> wholeObjectSize")
    case True
    then obtain body where b: "GetObject st ?h ctx k w1 = (Inr body, w')" "rd_end body = None" "src = Whole (rd_bytes body)"
      using O by (auto simp: openRangeSource_def readWholeSource_def bindIO_Inr readAll_def split: option.splits)
    have "rd_bytes body = ct" using get_content [OF w1(1) k _ b(1,2)] w1(2) ct(1) by simp
    moreover have "objs ?h w' = objs ?h w1" using get_frame [OF w1(1) k b(1)] by blast
    ultimately show ?thesis using decrypt_whole [OF ft(5) args(1), of "fin - off"] fin b(3) by simp
  next
    case False
    then have O2: "openChunkSource st ?h (es_layout s) ctx k ?e off fin w1 = (Inr src, w')"
      using O by (simp add: openRangeSource_def)
    have ct1: "objs ?h w1 k = Some ct" and e: "enc_size (es_layout s) ?n \<le> MaxInt64 - encChunkSize"
      and bigger: "wholeObjectSize < ?e"
      using w1(2) ct(1) ft(3) big False by simp_all
    obtain c where c: "src = Chunks c" "chunk_ok ct c" "cs_err c = None" "cs_pos c = chunk_at (es_layout s) off"
      "range_shape (es_layout s) ?n fin c" "objs ?h w' = objs ?h w1"
    proof -
      note ok = openChunkSource_ok [OF w1(1) k ct1 ft(1,3) e args(1) fin(1,2) bigger _ O2]
      from ok steady that show thesis by blast
    qed
    show ?thesis
      using decrypt_chunks [OF sl bigger args(1) fin(1,2) c(2,3)] c lay by simp
  qed
  then obtain rd where rd: "decrypt_range age (es_identity s) ?e off (fin - off) src = Some (Inr rd)"
    "rd_end rd = None" "rd_bytes rd = clamped off len p" and w': "objs ?h w' = objs ?h w1"
    using slice by auto
  from D rd(1) have "res = Some rd" by simp
  with rd off args enc_objs_cong [of s w' w] w' w1(2) show ?thesis by auto
qed

end

section \<open>Opening the storage, and whom a failed read blames\<close>

context age_spec
begin

lemma enc_New_spec:
  assumes "enc_New age (Some h) (Some i) w = (Inr s, w')"
  shows "s = \<lparr>es_store = h, es_identity = i, es_recipient = age_Recipient age i,
    es_layout = \<lparr>payloadOffset = hdr i\<rparr>\<rparr> \<and> hdr i \<le> headerReadSize"
proof -
  from assms obtain buf where E: "age_Encrypt age (age_Recipient age i) [] w = (Inr buf, w')"
    and s: "sub64 (int (length buf)) tagSize \<le> headerReadSize"
      "s = \<lparr>es_store = h, es_identity = i, es_recipient = age_Recipient age i,
        es_layout = \<lparr>payloadOffset = sub64 (int (length buf)) tagSize\<rparr>\<rparr>"
    by (auto simp: enc_New_def Let_def bindIO_Inr measurePayloadOffset_def tryIO_apply
        split: prod.splits sum.splits if_splits)
  have "int (length buf) = hdr i + 16"
    using sealed_size [OF encrypt_sealed [OF E]] by (simp add: enc_size_def n_chunks_def)
  then have "sub64 (int (length buf)) tagSize = hdr i"
    using hdr_pos [of i] hdr_small [of i] by (subst sub64_id) (auto simp: in64_iff tagSize_def MaxInt64_def)
  with s show ?thesis by simp
qed

end

definition blames_store :: "error \<Rightarrow> error \<Rightarrow> bool" where
  "blames_store cause err \<longleftrightarrow> err = Errorf ''read'' [cause]"

context encrypted_store
begin

lemma guarded_encrypted:
  "encrypted_store (guard_ops st) (\<lambda>g. objs (inner g)) (\<lambda>g. good (inner g)) age opens sealed hdr"
  using guard_contract age_spec_axioms entropy_frame
  by (intro encrypted_store.intro encrypted_store_axioms.intro) auto

lemma enc_get_delivers:
  assumes "GetObject st (es_store s) ctx k w = (Inr body, w')" "rd_end body = None"
    and "opens (es_identity s) (rd_bytes body) = Some p"
  shows "\<exists>r. enc_GetObject age st s ctx k w = (Inr r, w') \<and> rd_end r = None \<and> rd_bytes r = p"
  using decrypt_opens [OF assms(2,3)] assms(1)
  by (auto simp: enc_GetObject_def bindIO_Inr rd_bytes_def)

lemma enc_get_blames_store:
  assumes "GetObject st (es_store s) ctx k w = (Inr body, w')" "rd_end body = Some e" "\<not> errors_Is e EOF"
    and "opens (es_identity s) (rd_bytes body @ rest) = Some p"
  shows "(\<exists>err. enc_GetObject age st s ctx k w = (Inl err, w') \<and> blames_store e err) \<or>
    (\<exists>r err. enc_GetObject age st s ctx k w = (Inr r, w') \<and> rd_end r = Some err \<and> blames_store e err)"
  using decrypt_cut [OF assms(4,2,3)] assms(1-3)
  by (auto simp: enc_GetObject_def bindIO_apply src_err_def newDecryptError_def plain_end_def blames_store_def)

text \<open>What is found while the body is read ends the plaintext, and only a whole file ends cleanly.\<close>

lemma enc_get_damage:
  assumes "GetObject st (es_store s) ctx k w = (Inr body, w')" "rd_end body = None"
    and "age_Decrypt age (es_identity s) body = Inr (plain, Some (err, reached))"
  shows "\<exists>r. enc_GetObject age st s ctx k w = (Inr r, w') \<and> rd_bytes r = concat plain \<and>
    rd_end r = Some (if errors_Is err NoIdentityMatchError then Errorf ''decrypt'' [ErrNoKey]
      else Errorf ''decrypt'' [ErrCorruptObject, err])"
  using assms decrypt_damage [OF assms(3,2)]
  by (simp add: enc_GetObject_def bindIO_apply src_err_def newDecryptError_def plain_end_def rd_bytes_def)

lemma enc_get_not_clean:
  assumes "GetObject st (es_store s) ctx k w = (Inr body, w')" "opens (es_identity s) (rd_bytes body) = None"
    and "enc_GetObject age st s ctx k w = (Inr r, w')"
  shows "rd_end r \<noteq> None"
  using assms decrypt_clean [of "es_identity s" body]
  by (auto simp: enc_GetObject_def bindIO_apply plain_end_def split: sum.splits option.splits if_splits)

lemma enc_get_other_key:
  assumes "GetObject st (es_store s) ctx k w = (Inr body, w')" "rd_end body = None"
    and "age_Decrypt age (es_identity s) body = Inl (err, reached)"
  shows "enc_GetObject age st s ctx k w =
    (Inl (if errors_Is err NoIdentityMatchError then Errorf ''decrypt'' [ErrNoKey]
          else Errorf ''decrypt'' [ErrCorruptObject, err]), w')"
  using assms by (simp add: enc_GetObject_def bindIO_apply src_err_def newDecryptError_def)

end

end
