(* ===== verification/Plain_Age.thy ===== *)
theory Plain_Age
  imports Encrypted
begin

text \<open>
  A concrete file format with the laws of \<open>age_spec\<close>: the payload layout of age (chunks of 64 KiB,
  each followed by 16 bytes) with an empty header and no secrecy. It shows that the laws can hold
  together, and the properties of the encrypted storage are evaluated on it.
\<close>

section \<open>The format\<close>

definition tag :: bytes where "tag = replicate 16 0"

fun seal :: "bytes \<Rightarrow> bytes" where
  "seal p = (if length p \<le> 65536 then p @ tag else take 65536 p @ tag @ seal (drop 65536 p))"

fun strip :: "bytes \<Rightarrow> bytes" where
  "strip ct = (if length ct \<le> 65552 then take (length ct - 16) ct else take 65536 ct @ strip (drop 65552 ct))"

declare seal.simps [simp del] strip.simps [simp del]

definition plain_layout :: layout where "plain_layout = \<lparr>payloadOffset = 0\<rparr>"

definition plain_opens :: "unit \<Rightarrow> bytes \<Rightarrow> bytes option" where
  "plain_opens i ct = (if int (length ct) = enc_size plain_layout (int (length (strip ct))) then Some (strip ct) else None)"

definition plain_sealed :: "unit \<Rightarrow> bytes \<Rightarrow> bytes \<Rightarrow> bool" where
  "plain_sealed i ct p \<longleftrightarrow> ct = seal p"

definition plain_Decrypt ::
  "unit \<Rightarrow> reader \<Rightarrow> (error \<times> bool) + (bytes list \<times> (error \<times> bool) option)" where
  "plain_Decrypt i src =
     (case rd_end src of
        Some e \<Rightarrow> Inl (e, True)
      | None \<Rightarrow> (case plain_opens i (rd_bytes src) of
          Some p \<Rightarrow> Inr ([p], None)
        | None \<Rightarrow>
            if rd_bytes src = [] then Inl (ErrorString ''not a file of this format'', False)
            else Inr ([], Some (ErrorString ''a chunk does not authenticate'', False))))"

text \<open>A section is one read: the chunks it touches, up to the end of the file.\<close>

definition first_chunk :: "int64 \<Rightarrow> int64" where "first_chunk off = off div 65536"

definition plain_Section :: "int64 \<Rightarrow> int64 \<Rightarrow> int64 \<Rightarrow> (bytes \<times> error option) prog" where
  "plain_Section e off n =
     (let a = first_chunk off; b = first_chunk (off + n - 1) + 1 in
      ReadOp (nat (min (65552 * b) e - 65552 * a)) (65552 * a) (\<lambda>(d, err).
        Ret (case err of
            Some x \<Rightarrow> ([], Some x)
          | None \<Rightarrow> (take (nat n) (drop (nat (off - 65536 * a)) (strip d)), None))))"

definition plain_age :: "(unit, unit, int64, 'w) age" where
  "plain_age =
     \<lparr>age_Recipient = (\<lambda>i. i),
      age_Encrypt = (\<lambda>r p. ret (seal p)),
      age_EncryptReader = (\<lambda>r body. ret \<lparr>rd_chunks = [seal (rd_bytes body)], rd_end = rd_end body, rd_close = None\<rparr>),
      age_Decrypt = plain_Decrypt,
      age_DecryptReaderAt = (\<lambda>i e. Ret (Inr e)),
      age_Section = plain_Section\<rparr>"

section \<open>Sealing\<close>

lemma length_seal: "int (length (seal p)) = enc_size plain_layout (int (length p))"
proof (induction p rule: seal.induct)
  case (1 p)
  show ?case
  proof (cases "length p \<le> 65536")
    case True
    then have "(int (length p) + 65535) div 65536 \<le> 1" by linarith
    with True show ?thesis by (subst seal.simps) (auto simp: enc_size_def n_chunks_def plain_layout_def tag_def)
  next
    case False
    let ?m = "int (length p) - 65536"
    have "(int (length p) + 65535) div 65536 = (?m + 65535) div 65536 + 1"
      using div_add_self2 [of 65536 "?m + 65535"] by (simp add: algebra_simps)
    moreover have "1 \<le> (?m + 65535) div 65536" using False by linarith
    ultimately have "n_chunks (int (length p)) = n_chunks ?m + 1" by (simp add: n_chunks_def)
    moreover have "int (length p - 65536) = ?m" using False by simp
    ultimately show ?thesis
      using False 1 by (subst seal.simps) (simp add: enc_size_def plain_layout_def tag_def)
  qed
qed

lemma length_seal_min: "16 \<le> length (seal p)"
  by (subst seal.simps) (simp add: tag_def)

lemma seal_not_Nil [simp]: "seal p \<noteq> []"
  using length_seal_min [of p] by auto

lemma take_min_drop: "take (min y (length xs) - x) (drop x xs) = drop x (take y xs)"
  by (cases "y \<le> length xs") (simp_all add: drop_take min_def)

lemma strip_short: "length ct \<le> 65552 \<Longrightarrow> strip ct = take (length ct - 16) ct"
  by (subst strip.simps) simp

lemma strip_long: "65552 < length ct \<Longrightarrow> strip ct = take 65536 ct @ strip (drop 65552 ct)"
  by (subst strip.simps) simp

lemma strip_seal: "strip (seal p) = p"
proof (induction p rule: seal.induct)
  case (1 p)
  show ?case
  proof (cases "length p \<le> 65536")
    case True
    then show ?thesis by (subst seal.simps) (simp add: strip_short tag_def)
  next
    case False
    let ?rest = "seal (drop 65536 p)"
    have s: "seal p = take 65536 p @ tag @ ?rest" using False by (subst seal.simps) simp
    have "drop 65552 (seal p) = ?rest" "take 65536 (seal p) = take 65536 p" "65552 < length (seal p)"
      using False length_seal_min [of "drop 65536 p"] by (simp_all add: s tag_def)
    then show ?thesis using 1 False by (subst strip_long) simp_all
  qed
qed

lemma seal_opens: "plain_opens i (seal p) = Some p"
  by (simp add: plain_opens_def strip_seal length_seal)

section \<open>Slices\<close>

lemma strip_drop: "65552 * a < length ct \<Longrightarrow> strip (drop (65552 * a) ct) = drop (65536 * a) (strip ct)"
proof (induction a arbitrary: ct)
  case (Suc a)
  then have "65552 < length ct" by simp
  then have "strip ct = take 65536 ct @ strip (drop 65552 ct)" by (rule strip_long)
  with \<open>65552 < length ct\<close> have "drop (65536 * Suc a) (strip ct) = drop (65536 * a) (strip (drop 65552 ct))" by simp
  also have "\<dots> = strip (drop (65552 * a) (drop 65552 ct))"
    using Suc.prems by (intro Suc.IH [symmetric]) simp
  finally show ?case by (simp add: add.commute)
qed simp

lemma strip_take: "strip (take (65552 * Suc b) ct) = take (65536 * Suc b) (strip ct)"
proof (induction b arbitrary: ct)
  case 0
  show ?case
  proof (cases "length ct \<le> 65552")
    case True
    then have "length ct - 16 \<le> 65536" by simp
    with True show ?thesis by (simp add: strip_short min_absorb1)
  next
    case False
    then show ?thesis by (simp add: strip_short strip_long [of ct])
  qed
next
  case (Suc b)
  show ?case
  proof (cases "length ct \<le> 65552")
    case True
    then have "length ct - 16 \<le> 65536 * Suc (Suc b)" "length ct \<le> 65552 * Suc (Suc b)" by simp_all
    with True show ?thesis by (simp add: strip_short min_absorb1 del: mult_Suc_right)
  next
    case False
    let ?t = "take (65552 * Suc (Suc b)) ct"
    have "drop 65552 ?t = take (65552 * Suc b) (drop 65552 ct)" by (simp add: drop_take)
    moreover have "strip ?t = take 65536 ct @ strip (drop 65552 ?t)"
      using False by (subst strip_long) (simp_all add: min_def)
    moreover have "strip ct = take 65536 ct @ strip (drop 65552 ct)"
      using False by (intro strip_long) simp
    ultimately show ?thesis using Suc.IH [of "drop 65552 ct"] False by simp
  qed
qed

lemma section_read:
  assumes "plain_opens i ct = Some p" and n: "0 \<le> off" "0 < n" "off + n \<le> int (length p)"
  shows "run_whole ct (plain_Section (int (length ct)) off n) = (take (nat n) (drop (nat off) p), None)"
proof -
  let ?a = "first_chunk off" and ?b = "first_chunk (off + n - 1)"
  let ?len = "nat (min (65552 * (?b + 1)) (int (length ct)) - 65552 * ?a)"
  have p: "p = strip ct" "int (length ct) = enc_size plain_layout (int (length p))"
    using assms(1) by (auto simp: plain_opens_def split: if_splits)
  have ab: "0 \<le> ?a" "?a \<le> ?b" using n by (simp_all add: first_chunk_def pos_imp_zdiv_nonneg_iff zdiv_mono1)
  have dv: "65536 * ?a \<le> off" "off + n - 1 < 65536 * ?b + 65536"
    unfolding first_chunk_def by (simp_all add: minus_mod_eq_mult_div [symmetric])
  have "chunk_at plain_layout off < enc_size plain_layout (int (length p))"
    using n by (intro chunk_at_last) simp_all
  then have a: "65552 * ?a < int (length ct)" by (simp add: p(2) chunk_at_def plain_layout_def first_chunk_def)
  have d: "take ?len (drop (nat (65552 * ?a)) ct) = drop (65552 * nat ?a) (take (65552 * Suc (nat ?b)) ct)"
  proof -
    have "nat (65552 * ?a) = 65552 * nat ?a" using ab by simp
    moreover have "min (65552 * Suc (nat ?b)) (length ct) - 65552 * nat ?a = ?len" using ab a by auto
    ultimately show ?thesis by (metis take_min_drop)
  qed
  have "65552 * nat ?a < length (take (65552 * Suc (nat ?b)) ct)" using ab a by auto
  from strip_drop [OF this] have s: "strip (take ?len (drop (nat (65552 * ?a)) ct)) =
      drop (65536 * nat ?a) (take (65536 * Suc (nat ?b)) p)"
    by (simp only: d strip_take p(1))
  have full: "whole_ReadAt ct ?len (65552 * ?a) = (take ?len (drop (nat (65552 * ?a)) ct), None)"
    using ab a by (auto simp: whole_ReadAt_def Let_def)
  have "take (nat n) (drop (nat (off - 65536 * ?a)) (drop (65536 * nat ?a) (take (65536 * Suc (nat ?b)) p))) =
      take (nat n) (drop (nat off) p)"
  proof -
    have e: "nat (off - 65536 * ?a) + 65536 * nat ?a = nat off"
      "65536 * nat ?a + nat (off - 65536 * ?a) = nat off" using ab dv n by simp_all
    have "nat n \<le> 65536 * Suc (nat ?b) - nat off" using ab dv n by auto
    then show ?thesis by (simp add: drop_take min_def e)
  qed
  with full s show ?thesis by (simp add: plain_Section_def Let_def)
qed

section \<open>The laws hold\<close>

lemma section_orderly:
  assumes "0 \<le> off" "off < end" "end \<le> int (length p)" "int (length (seal p)) \<le> MaxInt64"
    and c: "range_shape plain_layout (int (length p)) end c"
  shows "orderly (seal p) c (plain_Section (int (length (seal p))) off (end - off)) (chunk_at plain_layout off)"
proof -
  let ?n = "int (length p)" and ?e = "int (length (seal p))"
  let ?a = "first_chunk off" and ?b = "first_chunk (end - 1)"
  have ab: "0 \<le> ?a" "?a \<le> ?b" using assms by (simp_all add: first_chunk_def pos_imp_zdiv_nonneg_iff zdiv_mono1)
  have at: "chunk_at plain_layout i = 65552 * first_chunk i" for i
    by (simp add: chunk_at_def plain_layout_def first_chunk_def)
  have last: "65552 * first_chunk (?n - 1) < ?e" "?a \<le> first_chunk (?n - 1)" "?b \<le> first_chunk (?n - 1)"
    using chunk_at_last [of ?n "?n - 1" plain_layout] assms
    by (simp_all add: at length_seal first_chunk_def zdiv_mono1)
  have c: "cs_payloadOffset c = 0" "cs_tailStart c = 65552 * first_chunk (?n - 1)"
    "cs_streamEnd c = min (65552 * ?b + 65552) (65552 * first_chunk (?n - 1))"
    using c by (simp_all add: range_shape_def at encChunkSize_def, simp add: plain_layout_def)
  have "in_order c (65552 * ?a) (nat (min (65552 * (?b + 1)) ?e - 65552 * ?a)) (65552 * ?a)"
    using ab last assms(4) by (auto simp: in_order_def c min_def)
  then show ?thesis
    by (simp add: plain_Section_def Let_def at split: prod.split)
qed

lemma plain_sel [simp]:
  "age_Recipient plain_age i = i"
  "age_Encrypt plain_age r p = ret (seal p)"
  "age_EncryptReader plain_age r body = ret \<lparr>rd_chunks = [seal (rd_bytes body)], rd_end = rd_end body, rd_close = None\<rparr>"
  "age_Decrypt plain_age = plain_Decrypt"
  "age_DecryptReaderAt plain_age i e = Ret (Inr e)"
  "age_Section plain_age = plain_Section"
  by (simp_all add: plain_age_def)

interpretation plain: age_spec plain_age plain_opens plain_sealed "\<lambda>_. 0"
proof (unfold_locales, goal_cases)
  case (4 i ct p)
  then show ?case using length_seal [of p] by (simp add: plain_sealed_def plain_layout_def)
next
  case (13 i ct p off fin c)
  then show ?case
    using section_orderly [of off fin p c] by (simp add: plain_sealed_def plain_layout_def)
qed (auto simp: plain_sealed_def seal_opens plain_Decrypt_def rd_bytes_def section_read MaxInt64_def tagSize_def split: option.splits if_splits)

end
