(* ===== verification/Fsbackend.thy ===== *)
theory Fsbackend
  imports Copying
begin

text \<open>
  \<^verbatim>\<open>internal/fsbackend/backend.go\<close>: the storage over an \<^verbatim>\<open>afero.Fs\<close>, shared by the directory and
  the in-memory backend. The file system is a parameter (record \<open>afero\<close>: what each
  \<^verbatim>\<open>afero\<close> call does to a state \<open>'f\<close>); the definitions below are the methods of \<^verbatim>\<open>Storage\<close>, branch by
  branch. Log output is not modelled. The laws a file system obeys are the locale
  \<open>afero_fs\<close> of theory \<open>Fs_Laws\<close>.
\<close>

section \<open>The file system interface\<close>

record fileinfo =
  fi_name :: string
  fi_isdir :: bool
  fi_size :: int64
  fi_modtime :: int
  fi_id :: "nat option"

record afile =
  file_name :: string
  file_reader :: reader

record visit =
  v_path :: string
  v_info :: fileinfo
  v_err :: "error option"

text \<open>
  \<open>af_Walk\<close> gives the calls \<^verbatim>\<open>afero.Walk\<close> makes to a callback that never stops it.
  \<open>af_select\<close> is the runtime's choice in a \<^verbatim>\<open>select\<close> when both the finished copy and
  \<^verbatim>\<open>ctx.Done()\<close> are, or may become, ready.
\<close>

record 'f afero =
  af_Stat :: "string \<Rightarrow> ('f, fileinfo) io"
  af_Open :: "string \<Rightarrow> ('f, afile) io"
  af_FStat :: "afile \<Rightarrow> ('f, fileinfo) io"
  af_Seek :: "afile \<Rightarrow> int64 \<Rightarrow> ('f, unit) io"
  af_ReadDir :: "string \<Rightarrow> ('f, fileinfo list) io"
  af_Walk :: "string \<Rightarrow> 'f \<Rightarrow> visit list"
  af_MkdirAll :: "string \<Rightarrow> nat \<Rightarrow> ('f, unit) io"
  af_TempFile :: "string \<Rightarrow> string \<Rightarrow> ('f, string) io"
  af_Write :: "string \<Rightarrow> bytes \<Rightarrow> ('f, unit) io"
  af_CloseFile :: "string \<Rightarrow> ('f, unit) io"
  af_Chmod :: "string \<Rightarrow> nat \<Rightarrow> ('f, unit) io"
  af_Rename :: "string \<Rightarrow> string \<Rightarrow> ('f, unit) io"
  af_Remove :: "string \<Rightarrow> ('f, unit) io"
  af_RemoveAll :: "string \<Rightarrow> ('f, unit) io"
  af_select :: "'f \<Rightarrow> bool"

text \<open>\<^verbatim>\<open>os.SameFile\<close>: only the operating system's own infos carry an identity.\<close>

definition os_SameFile :: "fileinfo \<Rightarrow> fileinfo \<Rightarrow> bool" where
  "os_SameFile a b = (fi_id a \<noteq> None \<and> fi_id a = fi_id b)"

text \<open>\<^verbatim>\<open>filepath.Rel\<close>.\<close>

fun drop_common :: "string list \<Rightarrow> string list \<Rightarrow> string list \<times> string list" where
  "drop_common (a # as) (b # bs) = (if a = b then drop_common as bs else (a # as, b # bs))"
| "drop_common as bs = (as, bs)"

definition filepath_Rel :: "string \<Rightarrow> string \<Rightarrow> error + string" where
  "filepath_Rel base targ =
     (if path_IsAbs base \<noteq> path_IsAbs targ then Inl (ErrorString ''Rel: can't make relative'')
      else let (b, t) = drop_common (path_segs base) (path_segs targ) in
        if ''..'' \<in> set b then Inl (ErrorString ''Rel: can't make relative'')
        else Inr (render False (replicate (length b) ''..'' @ t)))"

text \<open>\<^verbatim>\<open>io.NewSectionReader\<close> and a file read from an offset on.\<close>

definition section_reader :: "reader \<Rightarrow> int64 \<Rightarrow> int64 \<Rightarrow> reader" where
  "section_reader r off n =
     \<lparr>rd_chunks = [take (nat n) (drop (nat off) (rd_bytes r))],
      rd_end = (if nat off + nat n \<le> length (rd_bytes r) then None else rd_end r),
      rd_close = rd_close r\<rparr>"

definition reader_from :: "reader \<Rightarrow> int64 \<Rightarrow> reader" where
  "reader_from r off =
     \<lparr>rd_chunks = [drop (nat off) (rd_bytes r)], rd_end = rd_end r, rd_close = rd_close r\<rparr>"

text \<open>
  The loop of \<^verbatim>\<open>io.Copy\<close> from a reader into an open file, \<open>chk\<close> being consulted before every
  read.
\<close>

fun io_Copy :: "'f afero \<Rightarrow> ('f \<Rightarrow> error option) \<Rightarrow> string \<Rightarrow> bytes list \<Rightarrow> error option \<Rightarrow> nat \<Rightarrow> ('f, nat) io" where
  "io_Copy af chk name [] fin n w =
     (case chk w of Some e \<Rightarrow> (Inl e, w)
      | None \<Rightarrow> (case fin of Some e \<Rightarrow> (Inl e, w) | None \<Rightarrow> (Inr n, w)))"
| "io_Copy af chk name (c # cs) fin n w =
     (case chk w of Some e \<Rightarrow> (Inl e, w)
      | None \<Rightarrow> (case af_Write af name c w of
           (Inl e, w') \<Rightarrow> (Inl e, w')
         | (Inr _, w') \<Rightarrow> io_Copy af chk name cs fin (n + length c) w'))"

section \<open>The storage\<close>

definition DirMode :: nat where "DirMode = 488"

definition FileMode :: nat where "FileMode = 416"

record fs_storage =
  fs_cwd :: string
  fs_dirMode :: nat
  fs_fileMode :: nat
  fs_unsafe :: bool
  fs_createPrefix :: bool

type_synonym fs_option = "fs_storage \<Rightarrow> fs_storage"

definition fs_WithUnsafe :: fs_option where
  "fs_WithUnsafe s = s\<lparr>fs_unsafe := True\<rparr>"

definition fs_WithCreatePrefix :: fs_option where
  "fs_WithCreatePrefix s = s\<lparr>fs_createPrefix := True\<rparr>"

definition fs_Guarded :: "fs_storage \<Rightarrow> fs_storage gstore" where
  "fs_Guarded s = (if fs_unsafe s then Bare s else Guard (Bare s))"

definition fs_CreatePrefixEnabled :: "fs_storage \<Rightarrow> bool" where
  "fs_CreatePrefixEnabled s = fs_createPrefix s"

definition toSlash :: "string \<Rightarrow> string" where
  "toSlash p = filepath_ToSlash p"

definition native :: "string \<Rightarrow> string" where
  "native p = filepath_FromSlash p"

declare toSlash_def [simp] native_def [simp]

definition fs_New :: "string \<Rightarrow> fs_option list \<Rightarrow> fs_storage" where
  "fs_New cwd opts =
     foldl (\<lambda>s opt. opt s)
       \<lparr>fs_cwd = toSlash cwd, fs_dirMode = DirMode, fs_fileMode = FileMode,
        fs_unsafe = False, fs_createPrefix = False\<rparr> opts"

definition fs_sub :: "fs_storage \<Rightarrow> string \<Rightarrow> fs_storage" where
  "fs_sub s cwd =
     \<lparr>fs_cwd = cwd, fs_dirMode = fs_dirMode s, fs_fileMode = fs_fileMode s,
      fs_unsafe = False, fs_createPrefix = False\<rparr>"

definition fs_GetCwd :: "fs_storage \<Rightarrow> string" where
  "fs_GetCwd s = fs_cwd s"

definition fs_Dirname :: "fs_storage \<Rightarrow> string" where
  "fs_Dirname s = path_Base (fs_cwd s)"

definition fs_SubStorage :: "fs_storage \<Rightarrow> string \<Rightarrow> bool \<Rightarrow> error + fs_storage" where
  "fs_SubStorage s subPath relative =
     Inr (fs_sub s (if relative then path_Join (fs_cwd s) (toSlash subPath) else toSlash subPath))"

definition fs_ListDir ::
  "'f afero \<Rightarrow> fs_storage \<Rightarrow> 'f ctx \<Rightarrow> ('f, string list \<times> fs_storage list) io" where
  "fs_ListDir af s ctx =
     tryIO (af_ReadDir af (native (fs_cwd s))) (\<lambda>r. case r of
         Inl err \<Rightarrow> if errors_Is err ErrNotExist then ret ([], []) else throw err
       | Inr entries \<Rightarrow> ret
           (map fi_name (filter (\<lambda>e. \<not> fi_isdir e) entries),
            map (\<lambda>e. fs_sub s (path_Join (fs_cwd s) (fi_name e))) (filter fi_isdir entries)))"

definition fs_GetObject :: "'f afero \<Rightarrow> fs_storage \<Rightarrow> 'f ctx \<Rightarrow> string \<Rightarrow> ('f, reader) io" where
  "fs_GetObject af s ctx filePath =
     tryIO (af_Open af (native (path_Join (fs_cwd s) (toSlash filePath)))) (\<lambda>r. case r of
         Inl err \<Rightarrow> if errors_Is err ErrNotExist then throw ErrFileNotFound else throw err
       | Inr f \<Rightarrow> ret (file_reader f))"

definition fs_GetObjectRange ::
  "'f afero \<Rightarrow> fs_storage \<Rightarrow> 'f ctx \<Rightarrow> string \<Rightarrow> int64 \<Rightarrow> int64 \<Rightarrow> ('f, reader) io" where
  "fs_GetObjectRange af s ctx filePath off len =
     (if off < 0 \<or> len = 0 then throw ErrInvalidRange
      else tryIO (af_Open af (native (path_Join (fs_cwd s) (toSlash filePath)))) (\<lambda>r. case r of
          Inl err \<Rightarrow> if errors_Is err ErrNotExist then throw ErrFileNotFound else throw err
        | Inr f \<Rightarrow>
            tryIO (af_FStat af f) (\<lambda>r. case r of
                Inl err \<Rightarrow> throw (Errorf ''error getting file stat'' [err])
              | Inr info \<Rightarrow>
                  if off \<ge> fi_size info then throw ErrInvalidRange
                  else if len < 0 then
                    tryIO (af_Seek af f off) (\<lambda>r. case r of
                        Inl err \<Rightarrow> throw (Errorf ''error seeking to offset'' [err])
                      | Inr _ \<Rightarrow> ret (reader_from (file_reader f) off))
                  else ret (section_reader (file_reader f) off len))))"

text \<open>The callback of \<open>List\<close> over the visits of the walk.\<close>

fun list_visits :: "error option \<Rightarrow> string \<Rightarrow> visit list \<Rightarrow> ObjectStat list \<Rightarrow> error + ObjectStat list" where
  "list_visits cerr root [] res = Inr res"
| "list_visits cerr root (v # vs) res =
     (case v_err v of
        Some err \<Rightarrow> if errors_Is err ErrNotExist then list_visits cerr root vs res else Inl err
      | None \<Rightarrow>
          (case cerr of
             Some e \<Rightarrow> Inl e
           | None \<Rightarrow>
               if fi_isdir (v_info v) then list_visits cerr root vs res
               else (case filepath_Rel (native root) (v_path v) of
                  Inl err \<Rightarrow> Inl (Errorf ''error relativizing'' [err])
                | Inr rel \<Rightarrow> list_visits cerr root vs
                    (res @ [\<lparr>Name = toSlash rel, LastModified = fi_modtime (v_info v),
                             Exist = True, Size = fi_size (v_info v), ETag = ''''\<rparr>]))))"

definition fs_List :: "'f afero \<Rightarrow> fs_storage \<Rightarrow> 'f ctx \<Rightarrow> string \<Rightarrow> ('f, ObjectStat list) io" where
  "fs_List af s ctx prefix =
     (let root = path_Join (fs_cwd s) (toSlash prefix) in
      tryIO (af_Stat af (native root)) (\<lambda>r. case r of
          Inl err \<Rightarrow> if errors_Is err ErrNotExist then ret []
            else throw (Errorf ''error checking'' [err])
        | Inr info \<Rightarrow>
            if \<not> fi_isdir info then ret []
            else (\<lambda>w. case list_visits (ctx w) root (af_Walk af (native root) w) [] of
                Inl err \<Rightarrow> (Inl (Errorf ''error walking'' [err]), w)
              | Inr res \<Rightarrow> (Inr (sort_key Name res), w))))"

definition removeQuietly :: "'f afero \<Rightarrow> string \<Rightarrow> 'f \<Rightarrow> 'f" where
  "removeQuietly af p w = snd (af_Remove af p w)"

definition renameIntoPlace :: "'f afero \<Rightarrow> fs_storage \<Rightarrow> string \<Rightarrow> string \<Rightarrow> ('f, unit) io" where
  "renameIntoPlace af s tmp dst =
     tryIO (af_Chmod af tmp (fs_fileMode s)) (\<lambda>r. case r of
         Inl err \<Rightarrow> throw (Errorf ''error setting file mode'' [err])
       | Inr _ \<Rightarrow> tryIO (af_Rename af tmp dst) (\<lambda>r. case r of
             Inl err \<Rightarrow> throw (Errorf ''error moving file into place'' [err])
           | Inr _ \<Rightarrow> ret ()))"

text \<open>Filling a temporary file and closing it; \<open>ctxReader\<close> is the check before each read.\<close>

definition fill_tmp :: "'f afero \<Rightarrow> 'f ctx \<Rightarrow> string \<Rightarrow> reader \<Rightarrow> ('f, nat) io" where
  "fill_tmp af ctx tmpName body w =
     (case io_Copy af ctx tmpName (rd_chunks body) (rd_end body) 0 w of (r, w1) \<Rightarrow>
      case af_CloseFile af tmpName w1 of (c, w2) \<Rightarrow>
      (case r of
         Inl err \<Rightarrow> (Inl err, w2)
       | Inr n \<Rightarrow> (case c of Inl cerr \<Rightarrow> (Inl cerr, w2) | Inr _ \<Rightarrow> (Inr n, w2))))"

definition fs_PutObject ::
  "'f afero \<Rightarrow> fs_storage \<Rightarrow> 'f ctx \<Rightarrow> string \<Rightarrow> reader \<Rightarrow> ('f, nat) io" where
  "fs_PutObject af s ctx filePath body =
     (let fullPath = path_Join (fs_cwd s) (toSlash filePath); dir = native (path_Dir fullPath) in
      tryIO (af_MkdirAll af dir (fs_dirMode s)) (\<lambda>r. case r of
          Inl err \<Rightarrow> throw (Errorf ''error creating directory'' [err])
        | Inr _ \<Rightarrow>
            tryIO (af_Stat af (native fullPath)) (\<lambda>r.
              if (case r of Inl _ \<Rightarrow> False | Inr info \<Rightarrow> fi_isdir info)
              then throw (ErrorString ''put destination is a directory'')
              else
                tryIO (af_TempFile af dir ''.copy-*'') (\<lambda>r. case r of
                    Inl err \<Rightarrow> throw (Errorf ''unable to create file'' [err])
                  | Inr tmpName \<Rightarrow>
                      tryIO (fill_tmp af ctx tmpName body) (\<lambda>r. case r of
                          Inl err \<Rightarrow> (\<lambda>w. (Inl (Errorf ''error writing data'' [err]), removeQuietly af tmpName w))
                        | Inr n \<Rightarrow>
                            tryIO (renameIntoPlace af s tmpName (native fullPath)) (\<lambda>r. case r of
                                Inl err \<Rightarrow> (\<lambda>w. (Inl err, removeQuietly af tmpName w))
                              | Inr _ \<Rightarrow> ret n))))))"

section \<open>Copy\<close>

definition sameFile :: "'f afero \<Rightarrow> string \<Rightarrow> string \<Rightarrow> fileinfo \<Rightarrow> ('f, bool) io" where
  "sameFile af srcFull dstFull srcInfo =
     (if srcFull = dstFull then ret True
      else tryIO (af_Stat af (native dstFull)) (\<lambda>r. case r of
          Inl err \<Rightarrow> if errors_Is err ErrNotExist then ret False
            else throw (Errorf ''error checking'' [err])
        | Inr dstInfo \<Rightarrow>
            if fi_isdir dstInfo then throw (ErrorString ''copy destination is a directory'')
            else ret (os_SameFile srcInfo dstInfo)))"

text \<open>
  \<open>writeAll\<close> runs \<^verbatim>\<open>io.Copy\<close> in a goroutine and selects on its result and \<^verbatim>\<open>ctx.Done()\<close>; when the
  context wins, the copy stops at its next read and its outcome is the context's error.
\<close>

definition done_wins :: "'f afero \<Rightarrow> 'f ctx \<Rightarrow> 'f \<Rightarrow> error option" where
  "done_wins af ctx w = (if af_select af w then ctx w else None)"

definition writeAll :: "'f afero \<Rightarrow> 'f ctx \<Rightarrow> string \<Rightarrow> reader \<Rightarrow> ('f, nat) io" where
  "writeAll af ctx dst src w =
     (case io_Copy af (done_wins af ctx) dst (rd_chunks src) (rd_end src) 0 w of (r, w1) \<Rightarrow>
      case af_CloseFile af dst w1 of (c, w2) \<Rightarrow>
      (case r of
         Inl err \<Rightarrow> (Inl (case done_wins af ctx w1 of Some e \<Rightarrow> e | None \<Rightarrow> err), w2)
       | Inr n \<Rightarrow> (case c of
             Inl cerr \<Rightarrow> (Inl (Errorf ''error closing copy'' [cerr]), w2)
           | Inr _ \<Rightarrow> (Inr n, w2))))"

definition fillAndRename ::
  "'f afero \<Rightarrow> fs_storage \<Rightarrow> 'f ctx \<Rightarrow> string \<Rightarrow> reader \<Rightarrow> string \<Rightarrow> ('f, nat) io" where
  "fillAndRename af s ctx tmp src dst =
     bindIO (writeAll af ctx tmp src) (\<lambda>n.
       bindIO (renameIntoPlace af s tmp dst) (\<lambda>_. ret n))"

definition fs_Copy ::
  "'f afero \<Rightarrow> fs_storage \<Rightarrow> 'f ctx \<Rightarrow> string \<Rightarrow> string \<Rightarrow> CopyOption list \<Rightarrow> ('f, CopyStat) io" where
  "fs_Copy af s ctx srcPath dstPath opts =
     (let srcFull = path_Join (fs_cwd s) (toSlash srcPath);
          dstFull = path_Join (fs_cwd s) (toSlash dstPath) in
      tryIO (af_Stat af (native srcFull)) (\<lambda>r. case r of
          Inl err \<Rightarrow> if errors_Is err ErrNotExist then throw ErrFileNotFound
            else throw (Errorf ''error checking'' [err])
        | Inr info \<Rightarrow>
            if fi_isdir info then throw ErrFileNotFound
            else bindIO (sameFile af srcFull dstFull info) (\<lambda>same.
              if same then ret zeroCopyStat
              else tryIO (af_Open af (native srcFull)) (\<lambda>r. case r of
                  Inl err \<Rightarrow> if errors_Is err ErrNotExist then throw ErrFileNotFound else throw err
                | Inr src \<Rightarrow>
                    let dir = native (path_Dir dstFull) in
                    tryIO (af_MkdirAll af dir (fs_dirMode s)) (\<lambda>r. case r of
                        Inl err \<Rightarrow> throw (Errorf ''error creating directory'' [err])
                      | Inr _ \<Rightarrow>
                          tryIO (af_TempFile af dir ''.copy-*'') (\<lambda>r. case r of
                              Inl err \<Rightarrow> throw (Errorf ''error creating temporary copy'' [err])
                            | Inr tmp \<Rightarrow>
                                tryIO (fillAndRename af s ctx tmp (file_reader src) (native dstFull))
                                  (\<lambda>r. case r of
                                      Inl err \<Rightarrow> (\<lambda>w. (Inl (Errorf ''error copying to'' [err]),
                                        removeQuietly af tmp w))
                                    | Inr n \<Rightarrow> ret \<lparr>Bytes = wrap64 (int n), Streamed = False, Objects = 0\<rparr>)))))))"

section \<open>Delete, Exists, Stat, Ping\<close>

text \<open>The verification loop of \<open>Delete\<close>: the full paths and the missing names, in order.\<close>

fun verify_all :: "'f afero \<Rightarrow> fs_storage \<Rightarrow> string list \<Rightarrow> ('f, string list \<times> string list) io" where
  "verify_all af s [] = ret ([], [])"
| "verify_all af s (fp # fps) =
     (let full = path_Join (fs_cwd s) (toSlash fp) in
      tryIO (af_Stat af (native full)) (\<lambda>r. case r of
          Inl err \<Rightarrow>
            if errors_Is err ErrNotExist then
              bindIO (verify_all af s fps) (\<lambda>(fulls, missing). ret (full # fulls, fp # missing))
            else throw (Errorf ''error checking'' [err])
        | Inr info \<Rightarrow>
            bindIO (verify_all af s fps) (\<lambda>(fulls, missing).
              ret (full # fulls, if fi_isdir info then fp # missing else missing))))"

fun remove_all :: "'f afero \<Rightarrow> string list \<Rightarrow> ('f, unit) io" where
  "remove_all af [] = ret ()"
| "remove_all af (p # ps) =
     tryIO (af_Remove af (native p)) (\<lambda>r. case r of
         Inl err \<Rightarrow> if errors_Is err ErrNotExist then remove_all af ps
           else throw (Errorf ''error deleting'' [err])
       | Inr _ \<Rightarrow> remove_all af ps)"

definition fs_Delete :: "'f afero \<Rightarrow> fs_storage \<Rightarrow> 'f ctx \<Rightarrow> string list \<Rightarrow> ('f, unit) io" where
  "fs_Delete af s ctx filePaths =
     bindIO (verify_all af s filePaths) (\<lambda>(fullPaths, missing).
       if missing \<noteq> [] then throw (MissingObjectsError missing)
       else remove_all af fullPaths)"

definition fs_DeleteAll :: "'f afero \<Rightarrow> fs_storage \<Rightarrow> 'f ctx \<Rightarrow> string \<Rightarrow> ('f, unit) io" where
  "fs_DeleteAll af s ctx pathPrefix =
     (let fullPath = path_Join (fs_cwd s) (toSlash pathPrefix) in
      tryIO (af_Stat af (native fullPath)) (\<lambda>r. case r of
          Inl err \<Rightarrow> if errors_Is err ErrNotExist then throw (MissingObjectsError [pathPrefix])
            else throw (Errorf ''error checking'' [err])
        | Inr _ \<Rightarrow> wrapIO (\<lambda>err. Errorf ''error deleting'' [err]) (af_RemoveAll af (native fullPath))))"

definition fs_Exists :: "'f afero \<Rightarrow> fs_storage \<Rightarrow> 'f ctx \<Rightarrow> string \<Rightarrow> ('f, bool) io" where
  "fs_Exists af s ctx fileName =
     tryIO (af_Stat af (native (path_Join (fs_cwd s) (toSlash fileName)))) (\<lambda>r. case r of
         Inl err \<Rightarrow> if errors_Is err ErrNotExist then ret False else throw err
       | Inr _ \<Rightarrow> ret True)"

definition fs_Stat :: "'f afero \<Rightarrow> fs_storage \<Rightarrow> string \<Rightarrow> ('f, ObjectStat) io" where
  "fs_Stat af s fileName =
     (let fullPath = path_Join (fs_cwd s) (toSlash fileName) in
      tryIO (af_Stat af (native fullPath)) (\<lambda>r. case r of
          Inl err \<Rightarrow>
            if errors_Is err ErrNotExist then
              ret \<lparr>Name = fullPath, LastModified = 0, Exist = False, Size = 0, ETag = ''''\<rparr>
            else throw (Errorf ''error getting file stat'' [err])
        | Inr info \<Rightarrow>
            ret \<lparr>Name = fullPath, LastModified = fi_modtime info, Exist = True,
                 Size = fi_size info, ETag = ''''\<rparr>))"

definition fs_Ping :: "'f afero \<Rightarrow> fs_storage \<Rightarrow> 'f ctx \<Rightarrow> ('f, unit) io" where
  "fs_Ping af s ctx =
     tryIO (af_ReadDir af (native (fs_cwd s))) (\<lambda>r. case r of
         Inl err \<Rightarrow> throw (Errorf ''error pinging storage'' [err])
       | Inr _ \<Rightarrow> ret ())"

definition fs_Close :: "fs_storage \<Rightarrow> ('f, unit) io" where
  "fs_Close s = ret ()"

text \<open>\<open>CopyAll\<close> calls \<open>List\<close> and \<open>Copy\<close> only, so they are the entries its table needs.\<close>

definition fs_CopyAll ::
  "('f group \<Rightarrow> nat) \<Rightarrow> 'f afero \<Rightarrow> fs_storage \<Rightarrow> 'f ctx \<Rightarrow> string \<Rightarrow> string \<Rightarrow> CopyAllOption list \<Rightarrow>
    'f \<Rightarrow> (CopyStat \<times> error option) \<times> 'f" where
  "fs_CopyAll pick af s ctx srcPrefix dstPrefix opts =
     CopyListed pick (fs_List af s) ctx srcPrefix dstPrefix
       (\<lambda>ctx' _ srcPath dstPath o'. fs_Copy af s ctx' srcPath dstPath o') opts"

definition fs_ops :: "('f group \<Rightarrow> nat) \<Rightarrow> 'f afero \<Rightarrow> (fs_storage, 'f) storager" where
  "fs_ops pick af =
     \<lparr>GetObject = fs_GetObject af, GetObjectRange = fs_GetObjectRange af,
      PutObject = fs_PutObject af, Delete = fs_Delete af, DeleteAll = fs_DeleteAll af,
      List_op = fs_List af, Stat = fs_Stat af, Exists = fs_Exists af,
      GetCwd = fs_GetCwd, Dirname = fs_Dirname, ListDir = fs_ListDir af,
      SubStorage = fs_SubStorage, Copy = fs_Copy af, CopyAll = fs_CopyAll pick af,
      Ping = fs_Ping af, Close = fs_Close\<rparr>"

lemma fs_sel [simp]:
  "GetObject (fs_ops pick af) = fs_GetObject af"
  "GetObjectRange (fs_ops pick af) = fs_GetObjectRange af"
  "PutObject (fs_ops pick af) = fs_PutObject af"
  "Delete (fs_ops pick af) = fs_Delete af"
  "DeleteAll (fs_ops pick af) = fs_DeleteAll af"
  "List_op (fs_ops pick af) = fs_List af"
  "Stat (fs_ops pick af) = fs_Stat af"
  "Exists (fs_ops pick af) = fs_Exists af"
  "GetCwd (fs_ops pick af) = fs_GetCwd"
  "Dirname (fs_ops pick af) = fs_Dirname"
  "ListDir (fs_ops pick af) = fs_ListDir af"
  "SubStorage (fs_ops pick af) = fs_SubStorage"
  "Copy (fs_ops pick af) = fs_Copy af"
  "CopyAll (fs_ops pick af) = fs_CopyAll pick af"
  "Ping (fs_ops pick af) = fs_Ping af"
  "Close (fs_ops pick af) = fs_Close"
  by (simp_all add: fs_ops_def)

text \<open>The table's \<open>CopyAll\<close> is \<^verbatim>\<open>storages.CopyEach\<close> on the storage itself.\<close>

lemma fs_CopyAll_CopyEach: "fs_CopyAll pick af s = CopyEach pick (fs_ops pick af) s"
  by (intro ext) (simp add: fs_CopyAll_def CopyEach_def)

end
