(* ===== verification/Fs_Laws.thy ===== *)
theory Fs_Laws
  imports Fsbackend
begin

text \<open>
  What the file system storage relies on and what it promises. The locale \<open>afero_fs\<close> is the
  interface to the file system: a state is seen as a map from paths to nodes, and each law is the
  documented effect of one \<^verbatim>\<open>afero\<close> call on that map. Inside it the methods of
  \<open>Fsbackend\<close> are proved to implement the storage contract (a sublocale), and the stronger
  promises of the source: a failed put or copy leaves every object, the destination included, as it
  was; \<open>Delete\<close> removes nothing unless every path is an object; a range is the clamped slice.
\<close>

section \<open>The laws\<close>

datatype node = DirNode | FileNode bytes

primrec info_matches :: "node \<Rightarrow> fileinfo \<Rightarrow> bool" where
  "info_matches DirNode i = fi_isdir i"
| "info_matches (FileNode b) i = (\<not> fi_isdir i \<and> fi_size i = int (length b))"

text \<open>\<open>q\<close> is \<open>p\<close> or lies in the tree below it.\<close>

definition below :: "string \<Rightarrow> string \<Rightarrow> bool" where
  "below p q \<longleftrightarrow> q = p \<or> (\<exists>k. key_ok k \<and> q = path_Join p k)"

definition ancestor :: "string \<Rightarrow> string \<Rightarrow> bool" where
  "ancestor q p \<longleftrightarrow> (\<exists>rest. path_segs p = path_segs q @ rest)"

definition visited :: "visit list \<Rightarrow> visit list" where
  "visited vs = filter (\<lambda>v. v_err v = None) vs"

definition walk_failed :: "visit list \<Rightarrow> bool" where
  "walk_failed vs \<longleftrightarrow> (\<exists>v \<in> set vs. \<exists>e. v_err v = Some e \<and> \<not> errors_Is e ErrNotExist)"

locale afero_fs =
  fixes af :: "'f afero"
    and view :: "'f \<Rightarrow> string \<rightharpoonup> node"
    and sane :: "'f \<Rightarrow> bool"
  assumes tree_closed: "sane f \<Longrightarrow> path_Clean p = p \<Longrightarrow> view f p \<noteq> Some DirNode \<Longrightarrow> key_ok k \<Longrightarrow>
      view f (path_Join p k) = None"
    and stat_frame: "sane f \<Longrightarrow> af_Stat af p f = (st, f') \<Longrightarrow> view f' = view f \<and> sane f'"
    and stat_info: "sane f \<Longrightarrow> af_Stat af p f = (Inr i, f') \<Longrightarrow> \<exists>nd. view f p = Some nd \<and> info_matches nd i"
    and stat_missing: "sane f \<Longrightarrow> af_Stat af p f = (Inl e, f') \<Longrightarrow> errors_Is e ErrNotExist \<Longrightarrow> view f p = None"
    and same_file: "sane f \<Longrightarrow> af_Stat af p f = (Inr i, f1) \<Longrightarrow> af_Stat af q f1 = (Inr j, f2) \<Longrightarrow>
      os_SameFile i j \<Longrightarrow> view f p = view f q"
    and open_frame: "sane f \<Longrightarrow> af_Open af p f = (op, f') \<Longrightarrow> view f' = view f \<and> sane f'"
    and open_prefix: "sane f \<Longrightarrow> af_Open af p f = (Inr fl, f') \<Longrightarrow> view f p = Some (FileNode b) \<Longrightarrow>
      \<exists>rest. b = rd_bytes (file_reader fl) @ rest \<and> (rd_end (file_reader fl) = None \<longrightarrow> rest = [])"
    and open_exists: "sane f \<Longrightarrow> af_Open af p f = (Inr fl, f') \<Longrightarrow> view f p \<noteq> None"
    and open_missing: "sane f \<Longrightarrow> af_Open af p f = (Inl e, f') \<Longrightarrow> errors_Is e ErrNotExist \<Longrightarrow> view f p = None"
    and fstat_frame: "sane f \<Longrightarrow> af_FStat af fl f = (st, f') \<Longrightarrow> view f' = view f \<and> sane f'"
    and fstat_info: "sane f \<Longrightarrow> af_Open af p f = (Inr fl, f1) \<Longrightarrow> af_FStat af fl f1 = (Inr i, f2) \<Longrightarrow>
      \<exists>nd. view f p = Some nd \<and> info_matches nd i"
    and seek_frame: "sane f \<Longrightarrow> af_Seek af fl off f = (sk, f') \<Longrightarrow> view f' = view f \<and> sane f'"
    and readdir_frame: "sane f \<Longrightarrow> af_ReadDir af p f = (rd, f') \<Longrightarrow> view f' = view f \<and> sane f'"
    and readdir_names: "af_ReadDir af p f = (Inr es, f') \<Longrightarrow> en \<in> set es \<Longrightarrow> real_seg (fi_name en)"
    and readdir_info: "sane f \<Longrightarrow> p \<noteq> '''' \<Longrightarrow> af_ReadDir af p f = (Inr es, f') \<Longrightarrow> en \<in> set es \<Longrightarrow>
      \<exists>nd. view f (path_Join p (fi_name en)) = Some nd \<and> info_matches nd en"
    and readdir_all: "sane f \<Longrightarrow> p \<noteq> '''' \<Longrightarrow> af_ReadDir af p f = (Inr es, f') \<Longrightarrow> real_seg n \<Longrightarrow>
      view f (path_Join p n) \<noteq> None \<Longrightarrow> n \<in> fi_name ` set es"
    and readdir_missing: "sane f \<Longrightarrow> af_ReadDir af p f = (Inl e, f') \<Longrightarrow> errors_Is e ErrNotExist \<Longrightarrow>
      view f p = None"
    and walk_sound: "sane f \<Longrightarrow> p \<noteq> '''' \<Longrightarrow> v \<in> set (visited (af_Walk af p f)) \<Longrightarrow>
      below p (v_path v) \<and> (\<exists>nd. view f (v_path v) = Some nd \<and> info_matches nd (v_info v))"
    and walk_complete: "sane f \<Longrightarrow> view f p = Some DirNode \<Longrightarrow> key_ok k \<Longrightarrow>
      view f (path_Join p k) \<noteq> None \<Longrightarrow> \<not> walk_failed (af_Walk af p f) \<Longrightarrow>
      path_Join p k \<in> v_path ` set (visited (af_Walk af p f))"
    and walk_distinct: "sane f \<Longrightarrow> distinct (map v_path (visited (af_Walk af p f)))"
    and mkdir_inv: "sane f \<Longrightarrow> af_MkdirAll af p m f = (mk, f') \<Longrightarrow> sane f'"
    and mkdir_effect: "sane f \<Longrightarrow> af_MkdirAll af p m f = (mk, f') \<Longrightarrow>
      view f' q = view f q \<or> view f q = None \<and> view f' q = Some DirNode \<and> ancestor q p"
    and temp_inv: "sane f \<Longrightarrow> af_TempFile af dir pat f = (tf, f') \<Longrightarrow> sane f'"
    and temp_err: "sane f \<Longrightarrow> af_TempFile af dir pat f = (Inl e, f') \<Longrightarrow> view f' = view f"
    and temp_fresh: "sane f \<Longrightarrow> af_TempFile af dir pat f = (Inr t, f') \<Longrightarrow>
      view f t = None \<and> view f' = (view f)(t \<mapsto> FileNode [])"
    and write_inv: "sane f \<Longrightarrow> view f t = Some (FileNode b) \<Longrightarrow> af_Write af t c f = (wr, f') \<Longrightarrow> sane f'"
    and write_ok: "sane f \<Longrightarrow> view f t = Some (FileNode b) \<Longrightarrow> af_Write af t c f = (Inr u, f') \<Longrightarrow>
      view f' = (view f)(t \<mapsto> FileNode (b @ c))"
    and write_err: "sane f \<Longrightarrow> view f t = Some (FileNode b) \<Longrightarrow> af_Write af t c f = (Inl e, f') \<Longrightarrow>
      \<exists>b'. view f' = (view f)(t \<mapsto> FileNode b')"
    and close_frame: "sane f \<Longrightarrow> af_CloseFile af t f = (cl, f') \<Longrightarrow> view f' = view f \<and> sane f'"
    and chmod_frame: "sane f \<Longrightarrow> af_Chmod af t m f = (ch, f') \<Longrightarrow> view f' = view f \<and> sane f'"
    and rename_inv: "sane f \<Longrightarrow> af_Rename af s d f = (rn, f') \<Longrightarrow> sane f'"
    and rename_err: "sane f \<Longrightarrow> af_Rename af s d f = (Inl e, f') \<Longrightarrow> view f' = view f"
    and rename_ok: "sane f \<Longrightarrow> view f s = Some (FileNode b) \<Longrightarrow> view f d \<noteq> Some DirNode \<Longrightarrow>
      af_Rename af s d f = (Inr u, f') \<Longrightarrow> view f' = (view f)(s := None, d \<mapsto> FileNode b)"
    and dirs_kept: "(\<forall>s d f. sane f \<longrightarrow> view f d = Some DirNode \<longrightarrow> (\<exists>e f'. af_Rename af s d f = (Inl e, f'))) \<or>
      (\<forall>p f. sane f \<longrightarrow> view f p = Some DirNode \<longrightarrow> (\<exists>i f'. af_Stat af p f = (Inr i, f')))"
    and remove_inv: "sane f \<Longrightarrow> af_Remove af p f = (rm, f') \<Longrightarrow> view f p \<noteq> Some DirNode \<Longrightarrow> sane f'"
    and remove_err: "sane f \<Longrightarrow> af_Remove af p f = (Inl e, f') \<Longrightarrow> view f' = view f"
    and remove_missing: "sane f \<Longrightarrow> af_Remove af p f = (Inl e, f') \<Longrightarrow> errors_Is e ErrNotExist \<Longrightarrow> view f p = None"
    and remove_ok: "sane f \<Longrightarrow> view f p \<noteq> Some DirNode \<Longrightarrow> af_Remove af p f = (Inr u, f') \<Longrightarrow>
      view f' = (view f)(p := None)"
    and removeall_inv: "sane f \<Longrightarrow> af_RemoveAll af p f = (rm, f') \<Longrightarrow> sane f'"
    and removeall_outside: "sane f \<Longrightarrow> p \<noteq> '''' \<Longrightarrow> af_RemoveAll af p f = (rm, f') \<Longrightarrow> \<not> below p q \<Longrightarrow>
      view f' q = view f q"
    and removeall_ok: "sane f \<Longrightarrow> p \<noteq> '''' \<Longrightarrow> af_RemoveAll af p f = (Inr u, f') \<Longrightarrow> below p q \<Longrightarrow>
      view f' q = None"
    and mkdir_ok: "sane f \<Longrightarrow> af_MkdirAll af p m f = (Inr u, f') \<Longrightarrow> view f' p = Some DirNode"

section \<open>Paths below a storage\<close>

lemma norm_segs_butlast: "norm_segs r (xs @ [s]) \<Longrightarrow> norm_segs r xs"
proof -
  assume "norm_segs r (xs @ [s])"
  then obtain n rs where eq: "xs @ [s] = replicate n ''..'' @ rs" and rs: "\<forall>s \<in> set rs. real_seg s"
    and n: "r \<longrightarrow> n = 0"
    by (auto simp: norm_segs_def)
  show ?thesis
  proof (cases rs rule: rev_cases)
    case Nil
    with eq have xs: "xs = butlast (replicate n ''..'')" by (metis append.right_neutral butlast_snoc)
    have "xs = replicate (n - 1) ''..'' @ []"
      unfolding xs by (simp add: butlast_conv_take take_replicate min_def)
    with n show ?thesis using norm_segsI [of "[]" r "n - 1"] by simp
  next
    case (snoc ys y)
    with eq have "xs = replicate n ''..'' @ ys" by simp
    with snoc rs n show ?thesis using norm_segsI [of ys r n] by simp
  qed
qed

lemma path_Dir_render:
  assumes "norm_segs r (xs @ [s])"
  shows "path_segs (path_Dir (render r (xs @ [s]))) = xs"
proof -
  have s: "CHR ''/'' \<notin> set s" using norm_segs_no_slash [OF assms] by simp
  have drop: "rev (dropWhile (\<lambda>c. c \<noteq> CHR ''/'') (rev (pre @ CHR ''/'' # s))) = pre @ ''/''" for pre
  proof -
    have "dropWhile (\<lambda>c. c \<noteq> CHR ''/'') (rev s @ CHR ''/'' # rev pre) = CHR ''/'' # rev pre"
      using s by (subst dropWhile_append2) auto
    then show ?thesis by simp
  qed
  have none: "rev (dropWhile (\<lambda>c. c \<noteq> CHR ''/'') (rev s)) = ''''"
    using s by (simp add: Ball_def) metis
  show ?thesis
  proof (cases xs)
    case Nil
    have "path_segs ''/'' = []" by (simp add: path_segs_def)
    moreover have "path_Dir s = path_Clean ''''"
      unfolding path_Dir_def by (simp only: none)
    moreover have "path_Dir (CHR ''/'' # s) = path_Clean ''/''"
      unfolding path_Dir_def using drop [of "''''"] by simp
    ultimately show ?thesis
      using Nil by (cases r) (simp_all add: render_def)
  next
    case (Cons x ys)
    have norm: "norm_segs r xs" using assms by (rule norm_segs_butlast)
    have "render r (xs @ [s]) = render r xs @ CHR ''/'' # s"
      using Cons Join_str_append [of xs "[s]" "''/''"] by (simp add: render_def)
    then have "path_Dir (render r (xs @ [s])) = path_Clean (render r xs @ ''/'')"
      using drop by (simp add: path_Dir_def)
    moreover have "path_segs (render r xs @ ''/'') = path_segs (render r xs)"
      using norm by (subst path_segs_slash [of _ "''''", simplified]) (simp_all add: render_not_Nil)
    ultimately show ?thesis
      using norm by (simp add: path_segs_render)
  qed
qed

lemma path_segs_Dir_Join:
  assumes "base \<noteq> ''''" "key_ok k"
  shows "path_segs (path_Dir (path_Join base k)) = path_segs base @ butlast (path_segs k)"
proof -
  let ?segs = "path_segs base @ path_segs k"
  have r: "path_Join base k = render (path_IsAbs base) ?segs"
    using assms by (simp add: path_Join_render key_okD)
  have "norm_segs (path_IsAbs base) ?segs"
    using norm_path_segs [of "path_Join base k"] assms
    by (simp add: path_IsAbs_Join path_segs_Join key_okD)
  moreover have "?segs = (path_segs base @ butlast (path_segs k)) @ [last (path_segs k)]"
    using key_okD(3) [OF assms(2)] by simp
  ultimately show ?thesis
    using path_Dir_render [of "path_IsAbs base" "path_segs base @ butlast (path_segs k)"
      "last (path_segs k)"] by (simp only: r)
qed

lemma not_ancestor_of_Dir:
  assumes "base \<noteq> ''''" "key_ok k"
  shows "\<not> ancestor (path_Join base k) (path_Dir (path_Join base k))"
proof
  assume "ancestor (path_Join base k) (path_Dir (path_Join base k))"
  with assms obtain rest where "butlast (path_segs k) = path_segs k @ rest"
    by (auto simp: ancestor_def path_segs_Dir_Join path_segs_Join key_okD(1))
  then have "length (path_segs k) - 1 = length (path_segs k) + length rest"
    by (metis length_append length_butlast)
  with key_okD(3) [OF assms(2)] show False by (cases "path_segs k") auto
qed

lemma drop_common_append: "drop_common as (as @ bs) = ([], bs)"
  by (induction as) (cases bs, simp_all)

lemma filepath_Rel_Join:
  assumes "root \<noteq> ''''" "key_ok k"
  shows "filepath_Rel root (path_Join root k) = Inr k"
proof -
  have "render False (path_segs k) = k"
    using assms(2) path_Clean_render [of k] by (simp add: key_okD key_ok_not_abs)
  with assms show ?thesis
    by (simp add: filepath_Rel_def path_IsAbs_Join path_segs_Join key_okD drop_common_append)
qed

section \<open>Objects of a storage\<close>

definition file_at :: "('f \<Rightarrow> string \<rightharpoonup> node) \<Rightarrow> 'f \<Rightarrow> string \<Rightarrow> bytes option" where
  "file_at view f p = (case view f p of Some (FileNode b) \<Rightarrow> Some b | _ \<Rightarrow> None)"

definition fs_objs :: "('f \<Rightarrow> string \<rightharpoonup> node) \<Rightarrow> fs_storage \<Rightarrow> 'f \<Rightarrow> string \<rightharpoonup> bytes" where
  "fs_objs view s f k = (if key_ok k then file_at view f (path_Join (fs_cwd s) k) else None)"

definition fs_wf :: "('f \<Rightarrow> bool) \<Rightarrow> fs_storage \<Rightarrow> 'f \<Rightarrow> bool" where
  "fs_wf sane s f \<longleftrightarrow> sane f \<and> fs_cwd s \<noteq> ''''"

text \<open>\<open>Rename\<close> never replaces a directory at \<open>d\<close>.\<close>

definition refuses_dir :: "'f afero \<Rightarrow> ('f \<Rightarrow> string \<rightharpoonup> node) \<Rightarrow> ('f \<Rightarrow> bool) \<Rightarrow> string \<Rightarrow> bool" where
  "refuses_dir af view sane d \<longleftrightarrow>
     (\<forall>s f. sane f \<longrightarrow> view f d = Some DirNode \<longrightarrow> (\<exists>e f'. af_Rename af s d f = (Inl e, f')))"

lemma file_at_Some [simp]: "file_at view f p = Some b \<longleftrightarrow> view f p = Some (FileNode b)"
  by (auto simp: file_at_def split: option.splits node.splits)

lemma file_at_cong: "view f' p = view f p \<Longrightarrow> file_at view f' p = file_at view f p"
  by (simp add: file_at_def)

lemma file_at_dir: "view f p = None \<or> view f p = Some DirNode \<Longrightarrow> file_at view f p = None"
  by (auto simp: file_at_def)

lemma fs_objs_cong: "view f' = view f \<Longrightarrow> fs_objs view s f' = fs_objs view s f"
  by (intro ext) (simp add: fs_objs_def file_at_def)

lemma fs_objs_kept:
  assumes "view f \<subseteq>\<^sub>m view f'"
  shows "fs_objs view s f \<subseteq>\<^sub>m fs_objs view s f'"
  using assms by (fastforce simp: map_le_def fs_objs_def dom_def file_at_def split: option.splits node.splits)

text \<open>A write seen from the storage: the file at the joined path, nothing else.\<close>

lemma fs_objs_update:
  assumes "key_ok k" "\<And>q. file_at view f' q = (if q = path_Join (fs_cwd s) k then Some b else file_at view f q)"
  shows "fs_objs view s f' = (fs_objs view s f)(k \<mapsto> b)"
proof (rule ext)
  fix l
  show "fs_objs view s f' l = ((fs_objs view s f)(k \<mapsto> b)) l"
    using assms path_Join_inj [of k l "fs_cwd s"] by (auto simp: fs_objs_def)
qed

section \<open>Writing through a temporary file\<close>

context afero_fs
begin

lemma open_file:
  assumes "sane f" "af_Open af p f = (Inr fl, f')" "view f p = Some (FileNode b)"
    "rd_end (file_reader fl) = None"
  shows "rd_bytes (file_reader fl) = b"
  using open_prefix [OF assms(1-3)] assms(4) by auto

lemma io_Copy_spec:
  assumes "sane f" "view f t = Some (FileNode b)" "io_Copy af chk t cs fin n f = (r, f')"
  shows "sane f' \<and> (\<exists>b'. view f' = (view f)(t \<mapsto> FileNode b')) \<and>
    (\<forall>m. r = Inr m \<longrightarrow> fin = None \<and> m = n + length (concat cs) \<and>
       view f' = (view f)(t \<mapsto> FileNode (b @ concat cs)))"
  using assms
proof (induction cs arbitrary: n f b)
  case Nil
  have same: "view f = (view f)(t \<mapsto> FileNode b)" using Nil.prems(2) by auto
  have "f' = f" "\<forall>m. r = Inr m \<longrightarrow> fin = None \<and> m = n"
    using Nil.prems(3) by (auto split: option.splits)
  then show ?case using Nil.prems(1) same by (intro conjI exI [of _ b]) simp_all
next
  case (Cons c cs)
  have same: "view f = (view f)(t \<mapsto> FileNode b)" using Cons.prems(2) by auto
  obtain wr f1 where W: "af_Write af t c f = (wr, f1)" by fastforce
  have inv1: "sane f1" using write_inv [OF Cons.prems(1,2) W] .
  show ?case
  proof (cases "chk f")
    case (Some e)
    with Cons.prems(3) have "f' = f" "r = Inl e" by simp_all
    then show ?thesis using Cons.prems(1) same by (intro conjI exI [of _ b]) simp_all
  next
    case None
    show ?thesis
    proof (cases wr)
      case (Inl e)
      with W obtain b' where "view f1 = (view f)(t \<mapsto> FileNode b')"
        using write_err [OF Cons.prems(1,2)] by blast
      moreover have "f' = f1" "r = Inl e" using None W Inl Cons.prems(3) by simp_all
      ultimately show ?thesis using inv1 by (intro conjI exI [of _ b']) simp_all
    next
      case (Inr u)
      with W have v1: "view f1 = (view f)(t \<mapsto> FileNode (b @ c))"
        using write_ok [OF Cons.prems(1,2)] by blast
      then have t1: "view f1 t = Some (FileNode (b @ c))" by simp
      have "io_Copy af chk t cs fin (n + length c) f1 = (r, f')"
        using None W Inr Cons.prems(3) by simp
      note IH = Cons.IH [OF inv1 t1 this]
      then obtain b' where "view f' = (view f)(t \<mapsto> FileNode b')"
        by (auto simp only: v1 fun_upd_upd)
      moreover have "view f' = (view f)(t \<mapsto> FileNode (b @ concat (c # cs)))" if "r = Inr m" for m
        using IH that by (simp only: v1 fun_upd_upd concat.simps append_assoc)
      ultimately show ?thesis using IH by (intro conjI exI [of _ b']) auto
    qed
  qed
qed

lemma fill_tmp_spec:
  assumes "sane f" "view f t = Some (FileNode [])" "fill_tmp af ctx t body f = (r, f')"
  shows "sane f' \<and> (\<exists>b'. view f' = (view f)(t \<mapsto> FileNode b')) \<and>
    (\<forall>n. r = Inr n \<longrightarrow> rd_end body = None \<and> n = length (rd_bytes body) \<and>
       view f' = (view f)(t \<mapsto> FileNode (rd_bytes body)))"
proof -
  obtain cp f1 where C: "io_Copy af ctx t (rd_chunks body) (rd_end body) 0 f = (cp, f1)" by fastforce
  obtain cl f2 where L: "af_CloseFile af t f1 = (cl, f2)" by fastforce
  note spec = io_Copy_spec [OF assms(1,2) C]
  with L have "view f2 = view f1 \<and> sane f2" using close_frame by blast
  moreover have "f' = f2" "\<forall>n. r = Inr n \<longrightarrow> cp = Inr n"
    using assms(3) C L by (auto simp: fill_tmp_def split: sum.splits)
  ultimately show ?thesis using spec by (auto simp: rd_bytes_def)
qed

lemma writeAll_spec:
  assumes "sane f" "view f t = Some (FileNode [])" "writeAll af ctx t src f = (r, f')"
  shows "sane f' \<and> (\<exists>b'. view f' = (view f)(t \<mapsto> FileNode b')) \<and>
    (\<forall>n. r = Inr n \<longrightarrow> rd_end src = None \<and> n = length (rd_bytes src) \<and>
       view f' = (view f)(t \<mapsto> FileNode (rd_bytes src)))"
proof -
  obtain cp f1 where
    C: "io_Copy af (done_wins af ctx) t (rd_chunks src) (rd_end src) 0 f = (cp, f1)" by fastforce
  obtain cl f2 where L: "af_CloseFile af t f1 = (cl, f2)" by fastforce
  note spec = io_Copy_spec [OF assms(1,2) C]
  with L have "view f2 = view f1 \<and> sane f2" using close_frame by blast
  moreover have "f' = f2" "\<forall>n. r = Inr n \<longrightarrow> cp = Inr n"
    using assms(3) C L by (auto simp: writeAll_def split: sum.splits)
  ultimately show ?thesis using spec by (auto simp: rd_bytes_def)
qed

lemma stat_nondir:
  assumes "sane f" "af_Stat af p f = (r, f')" "\<And>i. r = Inr i \<Longrightarrow> \<not> fi_isdir i"
  shows "view f p \<noteq> Some DirNode \<or> refuses_dir af view sane p"
proof (rule disjCI)
  assume "\<not> refuses_dir af view sane p"
  with dirs_kept have "\<forall>p f. sane f \<longrightarrow> view f p = Some DirNode \<longrightarrow> (\<exists>i f'. af_Stat af p f = (Inr i, f'))"
    unfolding refuses_dir_def by blast
  then show "view f p \<noteq> Some DirNode"
    using assms stat_info [OF assms(1), of p] by fastforce
qed

lemma rename_spec:
  assumes "sane f" "view f t = Some (FileNode b)" "renameIntoPlace af s t d f = (r, f')"
    and d: "view f d \<noteq> Some DirNode \<or> refuses_dir af view sane d"
  shows "sane f' \<and> (\<forall>e. r = Inl e \<longrightarrow> view f' = view f) \<and>
    (\<forall>u. r = Inr u \<longrightarrow> view f' = (view f)(t := None, d \<mapsto> FileNode b) \<and> view f d \<noteq> Some DirNode)"
proof -
  obtain ch f1 where C: "af_Chmod af t (fs_fileMode s) f = (ch, f1)" by fastforce
  with assms(1) have f1: "view f1 = view f" "sane f1" using chmod_frame by blast+
  obtain rn f2 where R: "af_Rename af t d f1 = (rn, f2)" by fastforce
  have i2: "sane f2" using rename_inv [OF f1(2) R] .
  show ?thesis
  proof (cases ch)
    case (Inl e)
    with assms(3) C f1 show ?thesis by (auto simp: renameIntoPlace_def tryIO_apply)
  next
    case (Inr u)
    note E = assms(3) [unfolded renameIntoPlace_def tryIO_apply C prod.case Inr sum.case]
    show ?thesis
    proof (cases rn)
      case (Inl e)
      then have "view f2 = view f1" using rename_err [OF f1(2)] R by blast
      with E R Inl f1 i2 show ?thesis by (auto simp: tryIO_apply)
    next
      case (Inr v)
      have nd: "view f d \<noteq> Some DirNode"
      proof
        assume dir: "view f d = Some DirNode"
        with d have "refuses_dir af view sane d" by simp
        with dir f1 obtain e f'' where "af_Rename af t d f1 = (Inl e, f'')"
          unfolding refuses_dir_def by metis
        with R Inr show False by simp
      qed
      have "view f2 = (view f1)(t := None, d \<mapsto> FileNode b)"
        by (rule rename_ok [OF f1(2)]) (use f1(1) assms(2) nd R Inr in simp_all)
      then have "view f2 = (view f)(t := None, d \<mapsto> FileNode b)" by (simp only: f1(1))
      with E R Inr nd i2 show ?thesis by (auto simp: tryIO_apply)
    qed
  qed
qed

lemma removeQuietly_spec:
  assumes "sane f" "view f t \<noteq> Some DirNode"
  shows "sane (removeQuietly af t f) \<and>
    (view (removeQuietly af t f) = view f \<or> view (removeQuietly af t f) = (view f)(t := None))"
proof -
  obtain rm f' where R: "af_Remove af t f = (rm, f')" by fastforce
  have "sane f'" using remove_inv [OF assms(1) R assms(2)] .
  moreover have "view f' = view f \<or> view f' = (view f)(t := None)"
    using remove_err [OF assms(1)] remove_ok [OF assms] R by (cases rm) blast+
  ultimately show ?thesis using R by (simp add: removeQuietly_def)
qed

text \<open>A temporary file that is removed again, or not, takes nothing away.\<close>

lemma discard_spec:
  assumes "sane f" "view f t = None" "sane f1" "view f1 = (view f)(t \<mapsto> FileNode b)"
  shows "sane (removeQuietly af t f1) \<and> view f \<subseteq>\<^sub>m view (removeQuietly af t f1)"
  using removeQuietly_spec [of f1 t] assms by (auto simp: map_le_def dom_def)

end

section \<open>Put and Copy\<close>

context afero_fs
begin

lemma mkdir_spec:
  assumes "sane f" "af_MkdirAll af p m f = (mk, f')"
  shows "sane f'" "view f \<subseteq>\<^sub>m view f'" "file_at view f' q = file_at view f q"
    and "\<not> ancestor q p \<Longrightarrow> view f' q = view f q"
proof -
  note eff = mkdir_effect [OF assms]
  show "sane f'" using mkdir_inv [OF assms] .
  show "view f \<subseteq>\<^sub>m view f'"
    unfolding map_le_def using eff by (metis domIff)
  show "file_at view f' q = file_at view f q"
    using eff [of q] by (auto simp: file_at_def)
  show "\<not> ancestor q p \<Longrightarrow> view f' q = view f q"
    using eff [of q] by blast
qed

text \<open>
  The tail put and copy share, after the directory exists: a fresh temporary file is filled and
  moved onto \<open>d\<close>, or removed again on either failure.
\<close>

lemma install_spec:
  assumes f1: "sane f1" and T: "af_TempFile af dir pat f1 = (Inr t, f2)"
    and fill: "sane f3 \<and> (\<exists>b'. view f3 = (view f2)(t \<mapsto> FileNode b')) \<and>
      (\<forall>n. rf = Inr n \<longrightarrow> rd_end body = None \<and> n = length (rd_bytes body) \<and>
         view f3 = (view f2)(t \<mapsto> FileNode (rd_bytes body)))"
    and d: "view f1 d \<noteq> Some DirNode \<or> refuses_dir af view sane d"
    and R: "renameIntoPlace af s t d f3 = (rr, f4)"
  shows "sane (removeQuietly af t f3) \<and> view f1 \<subseteq>\<^sub>m view (removeQuietly af t f3)"
    and "rf = Inr n \<Longrightarrow> rr = Inl e \<Longrightarrow>
      sane (removeQuietly af t f4) \<and> view f1 \<subseteq>\<^sub>m view (removeQuietly af t f4)"
    and "rf = Inr n \<Longrightarrow> rr = Inr u \<Longrightarrow>
      sane f4 \<and> rd_end body = None \<and> n = length (rd_bytes body) \<and>
      view f4 = (view f1)(d \<mapsto> FileNode (rd_bytes body)) \<and> view f1 d \<noteq> Some DirNode"
proof -
  have t: "view f1 t = None" "view f2 = (view f1)(t \<mapsto> FileNode [])"
    using temp_fresh [OF f1 T] by blast+
  have s3: "sane f3" using fill by blast
  obtain b' where b': "view f3 = (view f1)(t \<mapsto> FileNode b')"
    using fill by (auto simp only: t fun_upd_upd)
  show "sane (removeQuietly af t f3) \<and> view f1 \<subseteq>\<^sub>m view (removeQuietly af t f3)"
    using f1 t(1) s3 b' by (rule discard_spec)
  have t3: "view f3 t = Some (FileNode b')" using b' by simp
  have d3: "view f3 d \<noteq> Some DirNode \<or> refuses_dir af view sane d"
    using d b' by (cases "d = t") auto
  note ren = rename_spec [OF s3 t3 R d3]
  show "sane (removeQuietly af t f4) \<and> view f1 \<subseteq>\<^sub>m view (removeQuietly af t f4)"
    if "rr = Inl e"
  proof (rule discard_spec [OF f1 t(1)])
    show "sane f4" using ren by blast
    show "view f4 = (view f1)(t \<mapsto> FileNode b')" using ren that b' by (simp only:)
  qed
  assume ok: "rf = Inr n" "rr = Inr u"
  then have body: "rd_end body = None" "n = length (rd_bytes body)"
    "view f3 = (view f1)(t \<mapsto> FileNode (rd_bytes body))"
    using fill by (auto simp only: t fun_upd_upd)
  then have "b' = rd_bytes body" using t3 by simp
  moreover have "view f4 = (view f3)(t := None, d \<mapsto> FileNode b')" "view f3 d \<noteq> Some DirNode" "sane f4"
    using ren ok(2) by blast+
  ultimately have "view f4 = ((view f1)(t := None))(d \<mapsto> FileNode (rd_bytes body))"
    by (simp only: b' fun_upd_upd)
  moreover have "(view f1)(t := None) = view f1" using t(1) by auto
  moreover have "view f1 d \<noteq> Some DirNode"
    using \<open>view f3 d \<noteq> Some DirNode\<close> b' t(1) by (cases "d = t") auto
  ultimately show "sane f4 \<and> rd_end body = None \<and> n = length (rd_bytes body) \<and>
      view f4 = (view f1)(d \<mapsto> FileNode (rd_bytes body)) \<and> view f1 d \<noteq> Some DirNode"
    using \<open>sane f4\<close> body by simp
qed

lemma put_cases:
  assumes "fs_PutObject af s ctx k body f = (r, f')"
    and full: "full = path_Join (fs_cwd s) k"
  obtains (mkdir) e0 e where "r = Inl e" "af_MkdirAll af (path_Dir full) (fs_dirMode s) f = (Inl e0, f')"
  | (early) f1 st f2 e where "r = Inl e" "af_MkdirAll af (path_Dir full) (fs_dirMode s) f = (Inr (), f1)"
      "af_Stat af full f1 = (st, f2)"
      "f' = f2 \<or> (\<exists>e0. af_TempFile af (path_Dir full) ''.copy-*'' f2 = (Inl e0, f'))"
  | (filled) f1 st f2 t f3 rf f4 rr f5 where
      "af_MkdirAll af (path_Dir full) (fs_dirMode s) f = (Inr (), f1)"
      "af_Stat af full f1 = (st, f2)" "\<And>i. st = Inr i \<Longrightarrow> \<not> fi_isdir i"
      "af_TempFile af (path_Dir full) ''.copy-*'' f2 = (Inr t, f3)"
      "fill_tmp af ctx t body f3 = (rf, f4)" "renameIntoPlace af s t full f4 = (rr, f5)"
      "(\<exists>e e'. rf = Inl e' \<and> r = Inl e \<and> f' = removeQuietly af t f4) \<or>
       (\<exists>n e. rf = Inr n \<and> rr = Inl e \<and> r = Inl e \<and> f' = removeQuietly af t f5) \<or>
       (\<exists>n u. rf = Inr n \<and> rr = Inr u \<and> r = Inr n \<and> f' = f5)"
proof -
  obtain mk f1 where M: "af_MkdirAll af (path_Dir full) (fs_dirMode s) f = (mk, f1)" by fastforce
  obtain st f2 where S: "af_Stat af full f1 = (st, f2)" by fastforce
  obtain tf f3 where T: "af_TempFile af (path_Dir full) ''.copy-*'' f2 = (tf, f3)" by fastforce
  note U = assms(1) [unfolded fs_PutObject_def tryIO_apply Let_def toSlash_def native_def
      filepath_ToSlash_def filepath_FromSlash_def full [symmetric] M prod.case]
  show ?thesis
  proof (cases mk)
    case (Inl e0)
    with U M show ?thesis by (intro mkdir) auto
  next
    case (Inr u0)
    note U1 = U [unfolded Inr sum.case tryIO_apply S prod.case]
    show ?thesis
    proof (cases "(case st of Inl _ \<Rightarrow> False | Inr info \<Rightarrow> fi_isdir info)")
      case True
      with U1 have "r = Inl (ErrorString ''put destination is a directory'')" "f' = f2" by simp_all
      with Inr M S show ?thesis by (intro early) auto
    next
      case False
      then have nd: "\<And>i. st = Inr i \<Longrightarrow> \<not> fi_isdir i" by simp
      from False have U2: "(case tf of
            Inl err \<Rightarrow> throw (Errorf ''unable to create file'' [err])
          | Inr tmpName \<Rightarrow> tryIO (fill_tmp af ctx tmpName body) (\<lambda>r. case r of
                Inl err \<Rightarrow> (\<lambda>w. (Inl (Errorf ''error writing data'' [err]), removeQuietly af tmpName w))
              | Inr n \<Rightarrow> tryIO (renameIntoPlace af s tmpName full) (\<lambda>r. case r of
                    Inl err \<Rightarrow> (\<lambda>w. (Inl err, removeQuietly af tmpName w))
                  | Inr _ \<Rightarrow> ret n))) f3 = (r, f')"
        using U1 T unfolding tryIO_def [abs_def] by simp
      show ?thesis
      proof (cases tf)
        case (Inl e0)
        with U2 have "r = Inl (Errorf ''unable to create file'' [e0])" "f' = f3" by simp_all
        with Inl \<open>mk = Inr u0\<close> M S T show ?thesis by (intro early) auto
      next
        case (Inr t)
        obtain rf f4 where F: "fill_tmp af ctx t body f3 = (rf, f4)" by fastforce
        obtain rr f5 where R: "renameIntoPlace af s t full f4 = (rr, f5)" by fastforce
        have "(\<exists>e e'. rf = Inl e' \<and> r = Inl e \<and> f' = removeQuietly af t f4) \<or>
           (\<exists>n e. rf = Inr n \<and> rr = Inl e \<and> r = Inl e \<and> f' = removeQuietly af t f5) \<or>
           (\<exists>n u. rf = Inr n \<and> rr = Inr u \<and> r = Inr n \<and> f' = f5)"
          using U2 F R Inr by (auto simp: tryIO_apply split: sum.splits)
        then show ?thesis
          using filled M \<open>mk = Inr u0\<close> S nd T Inr F R by simp
      qed
    qed
  qed
qed

lemma put_spec:
  assumes f: "sane f" and cwd: "fs_cwd s \<noteq> ''''" and k: "key_ok k"
    and P: "fs_PutObject af s ctx k body f = (r, f')"
  shows "sane f'" and "r = Inl e \<Longrightarrow> view f \<subseteq>\<^sub>m view f'"
    and "r = Inr n \<Longrightarrow> rd_end body = None \<and> n = length (rd_bytes body) \<and>
      (\<forall>q. file_at view f' q =
        (if q = path_Join (fs_cwd s) k then Some (rd_bytes body) else file_at view f q))"
proof -
  have "sane f' \<and> (\<forall>e. r = Inl e \<longrightarrow> view f \<subseteq>\<^sub>m view f') \<and>
    (\<forall>n. r = Inr n \<longrightarrow> rd_end body = None \<and> n = length (rd_bytes body) \<and>
      (\<forall>q. file_at view f' q =
        (if q = path_Join (fs_cwd s) k then Some (rd_bytes body) else file_at view f q)))"
    using P refl
  proof (cases rule: put_cases)
    case (mkdir e0 e)
    then show ?thesis using mkdir_spec(1,2) [OF f mkdir(2)] by simp
  next
    case (early f1 st f2 e)
    note M = mkdir_spec [OF f early(2)]
    have S: "view f2 = view f1" "sane f2" using stat_frame [OF M(1) early(3)] by blast+
    then have "sane f' \<and> view f' = view f1"
      using early(4) temp_inv temp_err by (metis (no_types))
    then show ?thesis using M early(1) by simp
  next
    case (filled f1 st f2 t f3 rf f4 rr f5)
    note M = mkdir_spec [OF f filled(1)]
    have S: "view f2 = view f1" "sane f2" using stat_frame [OF M(1) filled(2)] by blast+
    have d: "view f2 (path_Join (fs_cwd s) k) \<noteq> Some DirNode \<or> refuses_dir af view sane (path_Join (fs_cwd s) k)"
      using stat_nondir [OF M(1) filled(2,3)] S(1) by simp
    have s3: "sane f3" using temp_inv [OF S(2) filled(4)] .
    have t3: "view f3 t = Some (FileNode [])" using temp_fresh [OF S(2) filled(4)] by simp
    note fin = install_spec [OF S(2) filled(4) fill_tmp_spec [OF s3 t3 filled(5)] d filled(6)]
    have kept: "view f \<subseteq>\<^sub>m v" if "view f2 \<subseteq>\<^sub>m v" for v
      using M(2) that unfolding S(1) by (rule map_le_trans)
    have files: "file_at view f2 q = file_at view f q" for q
      using M(3) S(1) by (simp add: file_at_def)
    from filled(7) show ?thesis
    proof (elim disjE exE conjE)
      fix n u assume h: "rf = Inr n" "rr = Inr u" "r = Inr n" "f' = f5"
      note ok = fin(3) [OF h(1,2)]
      then have v: "view f' = (view f2)(path_Join (fs_cwd s) k \<mapsto> FileNode (rd_bytes body))"
        by (simp only: h)
      have "file_at view f' q =
        (if q = path_Join (fs_cwd s) k then Some (rd_bytes body) else file_at view f q)" for q
        using files [of q] by (simp add: file_at_def v)
      with ok h show ?thesis by simp
    qed (use fin(1,2) kept in auto)
  qed
  then show "sane f'" and "r = Inl e \<Longrightarrow> view f \<subseteq>\<^sub>m view f'"
    and "r = Inr n \<Longrightarrow> rd_end body = None \<and> n = length (rd_bytes body) \<and>
      (\<forall>q. file_at view f' q =
        (if q = path_Join (fs_cwd s) k then Some (rd_bytes body) else file_at view f q))"
    by blast+
qed

end

context afero_fs
begin

lemma copy_cases:
  assumes "fs_Copy af s ctx k l opts f = (r, f')"
    and src: "src = path_Join (fs_cwd s) k" and dst: "dst = path_Join (fs_cwd s) l"
  obtains (early) st f1 f2 e where "r = Inl e" "af_Stat af src f = (st, f1)"
      "f2 = f1 \<or> (\<exists>ds. af_Stat af dst f1 = (ds, f2))"
      "f' = f2 \<or> (\<exists>op. af_Open af src f2 = (op, f'))"
  | (same) i f1 j where "r = Inr zeroCopyStat" "af_Stat af src f = (Inr i, f1)" "\<not> fi_isdir i"
      "src = dst \<and> f' = f1 \<or> af_Stat af dst f1 = (Inr j, f') \<and> os_SameFile i j"
  | (prepared) i f1 ds f2 fl f3 mk f4 e where "r = Inl e" "af_Stat af src f = (Inr i, f1)"
      "af_Stat af dst f1 = (ds, f2)" "af_Open af src f2 = (Inr fl, f3)"
      "af_MkdirAll af (path_Dir dst) (fs_dirMode s) f3 = (mk, f4)"
      "f' = f4 \<or> (\<exists>e0. af_TempFile af (path_Dir dst) ''.copy-*'' f4 = (Inl e0, f'))"
  | (filled) i f1 ds f2 fl f3 u f4 t f5 rf f6 rr f7 where
      "af_Stat af src f = (Inr i, f1)" "\<not> fi_isdir i"
      "af_Stat af dst f1 = (ds, f2)" "\<And>i. ds = Inr i \<Longrightarrow> \<not> fi_isdir i"
      "af_Open af src f2 = (Inr fl, f3)"
      "af_MkdirAll af (path_Dir dst) (fs_dirMode s) f3 = (Inr u, f4)"
      "af_TempFile af (path_Dir dst) ''.copy-*'' f4 = (Inr t, f5)"
      "writeAll af ctx t (file_reader fl) f5 = (rf, f6)" "renameIntoPlace af s t dst f6 = (rr, f7)"
      "(\<exists>e e'. rf = Inl e' \<and> r = Inl e \<and> f' = removeQuietly af t f6) \<or>
       (\<exists>n e e'. rf = Inr n \<and> rr = Inl e' \<and> r = Inl e \<and> f' = removeQuietly af t f7) \<or>
       (\<exists>n u. rf = Inr n \<and> rr = Inr u \<and>
          r = Inr \<lparr>Bytes = wrap64 (int n), Streamed = False, Objects = 0\<rparr> \<and> f' = f7)"
proof -
  obtain st f1 where S: "af_Stat af src f = (st, f1)" by fastforce
  obtain ds f2 where D: "af_Stat af dst f1 = (ds, f2)" by fastforce
  note U = assms(1) [unfolded fs_Copy_def tryIO_apply Let_def toSlash_def native_def
      filepath_ToSlash_def filepath_FromSlash_def src [symmetric] dst [symmetric] S prod.case]
  consider (bad) e where "r = Inl e" "f' = f1"
    | (plain) i where "st = Inr i" "\<not> fi_isdir i"
    using U by (cases st) (auto split: if_splits)
  then show ?thesis
  proof cases
    case bad
    with S early show ?thesis by blast
  next
    case (plain i)
    note U1 = U [unfolded plain(1) sum.case if_not_P [OF plain(2)] bindIO_apply sameFile_def]
    consider (equal) "src = dst" "r = Inr zeroCopyStat" "f' = f1"
      | (derr) e where "src \<noteq> dst" "r = Inl e" "f' = f2"
      | (linked) j where "ds = Inr j" "os_SameFile i j" "r = Inr zeroCopyStat" "f' = f2"
      | (apart) "src \<noteq> dst" "\<And>i. ds = Inr i \<Longrightarrow> \<not> fi_isdir i"
          "\<not> (\<exists>j. ds = Inr j \<and> os_SameFile i j)" "(\<exists>e. ds = Inl e \<and> errors_Is e ErrNotExist) \<or> (\<exists>j. ds = Inr j)"
      using U1 D by (cases "src = dst"; cases ds) (auto simp: tryIO_apply split: if_splits)
    then show ?thesis
    proof cases
      case equal
      with S plain same show ?thesis by blast
    next
      case derr
      with S D early show ?thesis by blast
    next
      case linked
      with S D plain same show ?thesis by blast
    next
      case apart
      obtain op f3 where O: "af_Open af src f2 = (op, f3)" by fastforce
      show ?thesis
      proof (cases op)
        case (Inl e0)
        then have "\<exists>e. r = Inl e \<and> f' = f3"
          using U1 D O apart by (cases ds) (auto simp: tryIO_apply split: if_splits)
        with S D O early show ?thesis by blast
      next
        case (Inr fl)
        obtain mk f4 where M: "af_MkdirAll af (path_Dir dst) (fs_dirMode s) f3 = (mk, f4)" by fastforce
        obtain tf f5 where T: "af_TempFile af (path_Dir dst) ''.copy-*'' f4 = (tf, f5)" by fastforce
        have U2: "(case mk of
              Inl err \<Rightarrow> throw (Errorf ''error creating directory'' [err])
            | Inr _ \<Rightarrow> tryIO (af_TempFile af (path_Dir dst) ''.copy-*'') (\<lambda>r. case r of
                  Inl err \<Rightarrow> throw (Errorf ''error creating temporary copy'' [err])
                | Inr tmp \<Rightarrow> tryIO (fillAndRename af s ctx tmp (file_reader fl) dst) (\<lambda>r. case r of
                      Inl err \<Rightarrow> (\<lambda>w. (Inl (Errorf ''error copying to'' [err]), removeQuietly af tmp w))
                    | Inr n \<Rightarrow> ret \<lparr>Bytes = wrap64 (int n), Streamed = False, Objects = 0\<rparr>)))
            f4 = (r, f')"
          using U1 D O M Inr apart unfolding tryIO_def [abs_def]
          by (cases ds) (auto split: if_splits)
        show ?thesis
        proof (cases "\<exists>u t. mk = Inr u \<and> tf = Inr t")
          case False
          then have "\<exists>e. r = Inl e" "f' = f4 \<or> (\<exists>e0. tf = Inl e0 \<and> f' = f5)"
            using U2 T by (cases mk; cases tf; auto simp: tryIO_apply)+
          with S plain D O Inr M T prepared show ?thesis by blast
        next
          case True
          then obtain u t where ut: "mk = Inr u" "tf = Inr t" by blast
          obtain rf f6 where W: "writeAll af ctx t (file_reader fl) f5 = (rf, f6)" by fastforce
          obtain rr f7 where R: "renameIntoPlace af s t dst f6 = (rr, f7)" by fastforce
          have "(\<exists>e e'. rf = Inl e' \<and> r = Inl e \<and> f' = removeQuietly af t f6) \<or>
             (\<exists>n e e'. rf = Inr n \<and> rr = Inl e' \<and> r = Inl e \<and> f' = removeQuietly af t f7) \<or>
             (\<exists>n u. rf = Inr n \<and> rr = Inr u \<and>
                r = Inr \<lparr>Bytes = wrap64 (int n), Streamed = False, Objects = 0\<rparr> \<and> f' = f7)"
            using U2 T W R ut
            by (cases rf; cases rr) (auto simp: tryIO_apply fillAndRename_def bindIO_apply)
          with S plain D apart O Inr M T ut W R show ?thesis
            by (intro filled) simp_all
        qed
      qed
    qed
  qed
qed

end

context afero_fs
begin

lemma stat_file:
  assumes "sane f" "af_Stat af p f = (Inr i, f')" "\<not> fi_isdir i"
  obtains b where "view f p = Some (FileNode b)" "fi_size i = int (length b)"
proof -
  from stat_info [OF assms(1,2)] obtain nd where "view f p = Some nd" "info_matches nd i" by blast
  with assms(3) that show ?thesis by (cases nd) simp_all
qed

lemma copy_filled_spec:
  assumes f: "sane f" and cwd: "fs_cwd s \<noteq> ''''" and l: "key_ok l" and dst: "dst = path_Join (fs_cwd s) l"
    and S: "af_Stat af src f = (Inr i, f1)" "\<not> fi_isdir i"
    and D: "af_Stat af dst f1 = (ds, f2)" "\<forall>i. ds = Inr i \<longrightarrow> \<not> fi_isdir i"
    and O: "af_Open af src f2 = (Inr fl, f3)"
    and M: "af_MkdirAll af (path_Dir dst) m f3 = (mk, f4)"
    and T: "af_TempFile af (path_Dir dst) pat f4 = (Inr t, f5)"
    and W: "writeAll af ctx t (file_reader fl) f5 = (rf, f6)"
    and R: "renameIntoPlace af s t dst f6 = (rr, f7)"
  shows "sane (removeQuietly af t f6) \<and> view f \<subseteq>\<^sub>m view (removeQuietly af t f6)"
    and "rf = Inr n \<Longrightarrow> rr = Inl e \<Longrightarrow>
      sane (removeQuietly af t f7) \<and> view f \<subseteq>\<^sub>m view (removeQuietly af t f7)"
    and "rf = Inr n \<Longrightarrow> rr = Inr u \<Longrightarrow>
      sane f7 \<and> (\<exists>b. view f src = Some (FileNode b) \<and> n = length b \<and>
        (\<forall>q. file_at view f7 q = (if q = dst then Some b else file_at view f q)))"
proof -
  obtain b where b: "view f src = Some (FileNode b)" using stat_file [OF f S] by blast
  have f1: "view f1 = view f" "sane f1" using stat_frame [OF f S(1)] by blast+
  have f2: "view f2 = view f" "sane f2" using stat_frame [OF f1(2) D(1)] f1 by simp_all
  have f3: "view f3 = view f" "sane f3" using open_frame [OF f2(2) O] f2 by simp_all
  note mk = mkdir_spec [OF f3(2) M]
  have s5: "sane f5" using temp_inv [OF mk(1) T] .
  have t5: "view f5 t = Some (FileNode [])" using temp_fresh [OF mk(1) T] by simp
  have "view f dst \<noteq> Some DirNode \<or> refuses_dir af view sane dst"
    using stat_nondir [OF f1(2) D(1)] D(2) f1 by simp
  moreover have "view f4 dst = view f dst"
    using mk(4) [OF not_ancestor_of_Dir [OF cwd l, folded dst]] f3 by simp
  ultimately have d: "view f4 dst \<noteq> Some DirNode \<or> refuses_dir af view sane dst" by simp
  note fin = install_spec [OF mk(1) T writeAll_spec [OF s5 t5 W] d R]
  have kept: "view f \<subseteq>\<^sub>m v" if "view f4 \<subseteq>\<^sub>m v" for v
    using mk(2) that unfolding f3(1) by (rule map_le_trans)
  show "sane (removeQuietly af t f6) \<and> view f \<subseteq>\<^sub>m view (removeQuietly af t f6)"
    using fin(1) kept by blast
  show "sane (removeQuietly af t f7) \<and> view f \<subseteq>\<^sub>m view (removeQuietly af t f7)"
    if "rf = Inr n" "rr = Inl e"
    using fin(2) [OF that] kept by blast
  assume h: "rf = Inr n" "rr = Inr u"
  note ok = fin(3) [OF h]
  have b2: "view f2 src = Some (FileNode b)" using b f2(1) by simp
  have bytes: "rd_bytes (file_reader fl) = b"
    by (rule open_file [OF f2(2) O b2]) (use ok in blast)
  have n: "n = length b" using ok unfolding bytes by blast
  have v: "view f7 = (view f4)(dst \<mapsto> FileNode b)"
    using ok unfolding bytes by blast
  have "file_at view f4 q = file_at view f q" for q
    using mk(3) [of q] f3(1) by (simp add: file_at_def)
  then have "file_at view f7 q = (if q = dst then Some b else file_at view f q)" for q
    using v by (simp add: file_at_def)
  then show "sane f7 \<and> (\<exists>b. view f src = Some (FileNode b) \<and> n = length b \<and>
        (\<forall>q. file_at view f7 q = (if q = dst then Some b else file_at view f q)))"
    using ok b n by blast
qed

lemma copy_spec:
  assumes f: "sane f" and cwd: "fs_cwd s \<noteq> ''''" and l: "key_ok l"
    and C: "fs_Copy af s ctx k l opts f = (r, f')"
  shows "sane f' \<and> (\<forall>e. r = Inl e \<longrightarrow> view f \<subseteq>\<^sub>m view f') \<and>
    (\<forall>c. r = Inr c \<longrightarrow> (\<exists>b. view f (path_Join (fs_cwd s) k) = Some (FileNode b) \<and>
      (Bytes c = wrap64 (int (length b)) \<or> Bytes c = 0 \<and> view f (path_Join (fs_cwd s) l) = Some (FileNode b)) \<and>
      (\<forall>q. file_at view f' q = (if q = path_Join (fs_cwd s) l then Some b else file_at view f q))))"
  using C refl refl
proof (cases rule: copy_cases)
  case (early st f1 f2 e)
  have f1: "view f1 = view f" "sane f1" using stat_frame [OF f early(2)] by blast+
  have f2: "view f2 = view f \<and> sane f2"
    using early(3) f1
  proof (elim disjE exE)
    fix ds assume "af_Stat af (path_Join (fs_cwd s) l) f1 = (ds, f2)"
    from stat_frame [OF f1(2) this] f1 show ?thesis by simp
  qed simp
  have "view f' = view f \<and> sane f'"
    using early(4)
  proof (elim disjE exE)
    fix op assume "af_Open af (path_Join (fs_cwd s) k) f2 = (op, f')"
    from open_frame [OF conjunct2 [OF f2] this] f2 show ?thesis by simp
  qed (use f2 in simp)
  then show ?thesis using early(1) by simp
next
  case (same i f1 j)
  obtain b where b: "view f (path_Join (fs_cwd s) k) = Some (FileNode b)"
    using stat_file [OF f same(2,3)] by blast
  have f1: "view f1 = view f" "sane f1" using stat_frame [OF f same(2)] by blast+
  have "view f' = view f" "sane f'" and d: "view f (path_Join (fs_cwd s) l) = Some (FileNode b)"
    using same(4) b f1 stat_frame [OF f1(2)] same_file [OF f same(2)] by auto
  moreover have "file_at view f (path_Join (fs_cwd s) l) = Some b" using d by simp
  ultimately show ?thesis using same(1) b by (simp add: zeroCopyStat_def file_at_def)
next
  case (prepared i f1 ds f2 fl f3 mk f4 e)
  have f1: "view f1 = view f" "sane f1" using stat_frame [OF f prepared(2)] by blast+
  have f2: "view f2 = view f" "sane f2" using stat_frame [OF f1(2) prepared(3)] f1 by simp_all
  have f3: "view f3 = view f" "sane f3" using open_frame [OF f2(2) prepared(4)] f2 by simp_all
  note mk = mkdir_spec [OF f3(2) prepared(5)]
  have "sane f'" "view f' = view f4"
    using prepared(6) mk(1) temp_inv temp_err by (metis (no_types))+
  then show ?thesis using mk(2) f3 prepared(1) by simp
next
  case (filled i f1 ds f2 fl f3 u f4 t f5 rf f6 rr f7)
  have nd: "\<forall>i. ds = Inr i \<longrightarrow> \<not> fi_isdir i" using filled(4) by blast
  note spec = copy_filled_spec [OF f cwd l refl filled(1-3) nd filled(5-9)]
  from filled(10) show ?thesis
  proof (elim disjE exE conjE)
    fix n u assume h: "rf = Inr n" "rr = Inr u" "f' = f7"
      "r = Inr \<lparr>Bytes = wrap64 (int n), Streamed = False, Objects = 0\<rparr>"
    with spec(3) [OF h(1,2)] show ?thesis by (auto simp del: file_at_Some)
  qed (use spec(1,2) in auto)
qed

end

section \<open>List\<close>

definition rel_name :: "string \<Rightarrow> string \<Rightarrow> string" where
  "rel_name root p = (case filepath_Rel root p of Inl _ \<Rightarrow> '''' | Inr n \<Rightarrow> n)"

definition visit_stat :: "string \<Rightarrow> visit \<Rightarrow> ObjectStat" where
  "visit_stat root v = \<lparr>Name = rel_name root (v_path v), LastModified = fi_modtime (v_info v),
     Exist = True, Size = fi_size (v_info v), ETag = ''''\<rparr>"

abbreviation file_visits :: "visit list \<Rightarrow> visit list" where
  "file_visits vs \<equiv> filter (\<lambda>v. \<not> fi_isdir (v_info v)) (visited vs)"

lemma list_visits_spec:
  "list_visits cerr root vs acc = Inr res \<Longrightarrow>
     \<not> walk_failed vs \<and> res = acc @ map (visit_stat root) (file_visits vs)"
proof (induction vs arbitrary: acc)
  case (Cons v vs)
  have wf: "walk_failed (v # vs) \<longleftrightarrow>
      (\<exists>e. v_err v = Some e \<and> \<not> errors_Is e ErrNotExist) \<or> walk_failed vs"
    by (auto simp: walk_failed_def)
  show ?case
  proof (cases "v_err v")
    case (Some err)
    with Cons show ?thesis by (auto simp: wf visited_def split: if_splits)
  next
    case None
    show ?thesis
    proof (cases "fi_isdir (v_info v)")
      case True
      with None Cons show ?thesis by (auto simp: wf visited_def split: option.splits)
    next
      case False
      with None Cons.prems obtain rel where rel: "filepath_Rel root (v_path v) = Inr rel"
        by (auto split: option.splits sum.splits)
      then have "list_visits cerr root vs (acc @ [visit_stat root v]) = Inr res"
        using None False Cons.prems by (simp add: visit_stat_def rel_name_def split: option.splits)
      with Cons.IH None False show ?thesis by (fastforce simp: wf visited_def)
    qed
  qed
qed (simp add: walk_failed_def visited_def)

context afero_fs
begin

lemma list_spec:
  assumes f: "sane f" and root: "root \<noteq> ''''" "view f root = Some DirNode"
    and L: "list_visits cerr root (af_Walk af root f) [] = Inr res"
  shows "distinct (map Name res)"
    and "key_ok k \<Longrightarrow> file_at view f (path_Join root k) \<noteq> None \<longleftrightarrow> k \<in> Name ` set res"
    and "x \<in> set res \<Longrightarrow> Exist x \<and> key_ok (Name x) \<and>
      (\<forall>b. file_at view f (path_Join root (Name x)) = Some b \<longrightarrow> Size x = int (length b))"
proof -
  let ?vs = "af_Walk af root f"
  from list_visits_spec [OF L] have ok: "\<not> walk_failed ?vs"
    and res: "res = map (visit_stat root) (file_visits ?vs)" by simp_all
  have visit: "\<exists>b. key_ok (rel_name root (v_path v)) \<and>
      v_path v = path_Join root (rel_name root (v_path v)) \<and>
      view f (v_path v) = Some (FileNode b) \<and> fi_size (v_info v) = int (length b)"
    if v: "v \<in> set (file_visits ?vs)" for v
  proof -
    from v have "v \<in> set (visited ?vs)" and nd: "\<not> fi_isdir (v_info v)" by simp_all
    then obtain node where b: "below root (v_path v)" and node: "view f (v_path v) = Some node"
      "info_matches node (v_info v)"
      using walk_sound [OF f root(1)] by blast
    then obtain c where c: "node = FileNode c" using nd by (cases node) simp_all
    with node root(2) have "v_path v \<noteq> root" by auto
    with b obtain l where "key_ok l" "v_path v = path_Join root l" by (auto simp: below_def)
    then show ?thesis
      using node c root(1) by (simp add: rel_name_def filepath_Rel_Join)
  qed
  have "map (path_Join root) (map Name res) = map v_path (file_visits ?vs)"
    using visit by (auto simp: res visit_stat_def)
  moreover have "distinct (map v_path (file_visits ?vs))"
    using walk_distinct [OF f, of root] by (rule distinct_map_filter)
  ultimately show "distinct (map Name res)" by (metis distinct_map)
  show "x \<in> set res \<Longrightarrow> Exist x \<and> key_ok (Name x) \<and>
      (\<forall>b. file_at view f (path_Join root (Name x)) = Some b \<longrightarrow> Size x = int (length b))"
    using visit by (force simp: res visit_stat_def)
  show "file_at view f (path_Join root k) \<noteq> None \<longleftrightarrow> k \<in> Name ` set res" if k: "key_ok k"
  proof
    assume "file_at view f (path_Join root k) \<noteq> None"
    then obtain b where b: "view f (path_Join root k) = Some (FileNode b)"
      by (auto simp: file_at_def split: option.splits node.splits)
    then obtain v where v: "v \<in> set (visited ?vs)" "v_path v = path_Join root k"
      using walk_complete [OF f root(2) k _ ok] by auto
    moreover have "\<not> fi_isdir (v_info v)"
      using walk_sound [OF f root(1) v(1)] v(2) b by auto
    ultimately have "visit_stat root v \<in> set res" by (simp add: res)
    moreover have "Name (visit_stat root v) = k"
      using v(2) k root(1) by (simp add: visit_stat_def rel_name_def filepath_Rel_Join)
    ultimately show "k \<in> Name ` set res" by force
  next
    assume "k \<in> Name ` set res"
    then show "file_at view f (path_Join root k) \<noteq> None"
      using visit by (force simp: res visit_stat_def file_at_def)
  qed
qed

end

section \<open>The storage contract\<close>

lemma real_seg_single: "real_seg n \<Longrightarrow> path_segs n = [n] \<and> stays_inside n"
proof -
  assume n: "real_seg n"
  then have "\<not> path_IsAbs n"
    unfolding path_IsAbs_def real_seg_def by (metis list.set_sel(1))
  with n show ?thesis
    by (auto simp: path_segs_def stays_inside_def real_seg_def Split_no_sep cstep_def)
qed

lemma real_seg_Join: "real_seg n \<Longrightarrow> path_segs (path_Join base n) = path_segs base @ [n]"
  using real_seg_single by (simp add: path_segs_Join)

lemma path_Join_not_Nil [simp]: "a \<noteq> '''' \<Longrightarrow> path_Join a b \<noteq> ''''"
  by (simp add: path_Join_def)

context afero_fs
begin

lemma get_spec:
  assumes "sane f" "fs_GetObject af s ctx k f = (r, f')"
  shows "view f' = view f \<and> sane f'"
    and "file_at view f (path_Join (fs_cwd s) k) = Some b \<Longrightarrow> r = Inr rd \<Longrightarrow> rd_end rd = None \<Longrightarrow>
      rd_bytes rd = b"
proof -
  obtain op f1 where O: "af_Open af (path_Join (fs_cwd s) k) f = (op, f1)" by fastforce
  have E: "f' = f1" "\<forall>rd. r = Inr rd \<longrightarrow> (\<exists>fl. op = Inr fl \<and> rd = file_reader fl)"
    using assms(2) O by (auto simp: fs_GetObject_def tryIO_apply split: sum.splits if_splits)
  show "view f' = view f \<and> sane f'" using open_frame [OF assms(1) O] E by simp
  show "rd_bytes rd = b" if h: "file_at view f (path_Join (fs_cwd s) k) = Some b" "r = Inr rd" "rd_end rd = None"
  proof -
    from E(2) h(2) obtain fl where fl: "op = Inr fl" "rd = file_reader fl" by blast
    have v: "view f (path_Join (fs_cwd s) k) = Some (FileNode b)" using h(1) by simp
    have "af_Open af (path_Join (fs_cwd s) k) f = (Inr fl, f1)" using O fl by simp
    from open_file [OF assms(1) this v] h(3) fl(2) show ?thesis by simp
  qed
qed

lemma exists_spec:
  assumes "sane f" "fs_Exists af s ctx k f = (r, f')"
  shows "view f' = view f \<and> sane f'" and "r = Inr b \<Longrightarrow> b \<longleftrightarrow> view f (path_Join (fs_cwd s) k) \<noteq> None"
proof -
  obtain st f1 where S: "af_Stat af (path_Join (fs_cwd s) k) f = (st, f1)" by fastforce
  have E: "f' = f1" using assms(2) S
    by (auto simp: fs_Exists_def tryIO_apply split: sum.splits if_splits)
  show "view f' = view f \<and> sane f'" using stat_frame [OF assms(1) S] E by simp
  show "b \<longleftrightarrow> view f (path_Join (fs_cwd s) k) \<noteq> None" if h: "r = Inr b"
  proof (cases st)
    case (Inl e)
    with S assms(2) h have "b = False" "errors_Is e ErrNotExist"
      by (auto simp: fs_Exists_def tryIO_apply split: if_splits)
    moreover from S Inl have "af_Stat af (path_Join (fs_cwd s) k) f = (Inl e, f1)" by simp
    ultimately show ?thesis using stat_missing [OF assms(1)] by auto
  next
    case (Inr i)
    with S assms(2) h have "b = True" by (auto simp: fs_Exists_def tryIO_apply)
    moreover from S Inr have "af_Stat af (path_Join (fs_cwd s) k) f = (Inr i, f1)" by simp
    ultimately show ?thesis using stat_info [OF assms(1), of _ i f1] by blast
  qed
qed

lemma fs_List_spec:
  assumes f: "sane f" and cwd: "fs_cwd s \<noteq> ''''" and L: "fs_List af s ctx p f = (r, f')"
  shows "view f' = view f \<and> sane f'"
    and "r = Inr os \<Longrightarrow> sorted_wrt (<) (map Name os)"
    and "r = Inr os \<Longrightarrow> key_ok k \<Longrightarrow>
      file_at view f (path_Join (path_Join (fs_cwd s) p) k) \<noteq> None \<longleftrightarrow> k \<in> Name ` set os"
    and "r = Inr os \<Longrightarrow> x \<in> set os \<Longrightarrow> Exist x \<and> key_ok (Name x) \<and>
      (\<forall>b. file_at view f (path_Join (path_Join (fs_cwd s) p) (Name x)) = Some b \<longrightarrow> Size x = int (length b))"
proof -
  let ?root = "path_Join (fs_cwd s) p"
  have ne: "?root \<noteq> ''''" using cwd by simp
  obtain st f1 where S: "af_Stat af ?root f = (st, f1)" by fastforce
  have f1: "view f1 = view f" "sane f1" using stat_frame [OF f S] by blast+
  have cases: "f' = f1 \<and> (\<forall>os. r = Inr os \<longrightarrow>
      os = [] \<and> view f ?root \<noteq> Some DirNode \<or>
      (\<exists>res. view f ?root = Some DirNode \<and> os = sort_key Name res \<and>
         list_visits (ctx f1) ?root (af_Walk af ?root f1) [] = Inr res))"
  proof (cases st)
    case (Inl e)
    with S L show ?thesis using stat_missing [OF f]
      by (auto simp: fs_List_def tryIO_apply Let_def split: if_splits)
  next
    case (Inr i)
    with stat_info [OF f] S obtain nd where "view f ?root = Some nd" "info_matches nd i" by blast
    with S L Inr show ?thesis
      by (cases nd) (auto simp: fs_List_def tryIO_apply Let_def split: sum.splits)
  qed
  then show "view f' = view f \<and> sane f'" using f1 by simp
  have conv: "file_at view f1 q = file_at view f q" for q by (simp add: file_at_def f1)
  have closed: "file_at view f (path_Join ?root k) = None" if "view f ?root \<noteq> Some DirNode" "key_ok k" for k
    using tree_closed [OF f _ that] cwd by (simp add: file_at_def)
  note spec = list_spec [OF f1(2) ne, unfolded f1(1) conv]
  show "sorted_wrt (<) (map Name os)" if "r = Inr os"
    using cases that spec(1) by (auto simp: strict_sorted_iff distinct_map inj_on_def)
  show "file_at view f (path_Join ?root k) \<noteq> None \<longleftrightarrow> k \<in> Name ` set os"
    if "r = Inr os" "key_ok k"
  proof (cases "view f ?root = Some DirNode")
    case True
    with cases that obtain res where "os = sort_key Name res"
      "list_visits (ctx f1) ?root (af_Walk af ?root f1) [] = Inr res" by blast
    with spec(2) [OF True _ that(2)] show ?thesis by simp
  next
    case False
    with cases that(1) closed [OF False that(2)] show ?thesis by auto
  qed
  show "Exist x \<and> key_ok (Name x) \<and>
      (\<forall>b. file_at view f (path_Join ?root (Name x)) = Some b \<longrightarrow> Size x = int (length b))"
    if "r = Inr os" "x \<in> set os"
  proof -
    from cases that obtain res where "view f ?root = Some DirNode" "os = sort_key Name res"
      "list_visits (ctx f1) ?root (af_Walk af ?root f1) [] = Inr res" by fastforce
    with spec(3) [of "ctx f1" res x] that(2) show ?thesis by simp
  qed
qed

end

sublocale afero_fs \<subseteq> contract: storager_contract "fs_ops pick af" "fs_objs view" "fs_wf sane"
proof (unfold_locales, goal_cases)
  case (1 h w k ctx res w' h')
  then show ?case using get_spec(1) [of w h ctx k res w'] fs_objs_cong [of view w' w h']
    by (simp add: fs_wf_def)
next
  case (2 h w k b ctx r w')
  then show ?case using get_spec(2) [of w h ctx k "Inr r" w' b r]
    by (simp add: fs_wf_def fs_objs_def del: file_at_Some)
next
  case (3 h w k ctx found w' h')
  then show ?case using exists_spec(1) [of w h ctx k found w'] fs_objs_cong [of view w' w h']
    by (simp add: fs_wf_def)
next
  case (4 h w k ctx w')
  then show ?case using exists_spec(2) [of w h ctx k "Inr False" w' False]
    by (simp add: fs_wf_def fs_objs_def file_at_def)
next
  case (5 h w k ctx body n w')
  then show ?case
    using put_spec(1,3) [of w h k ctx body "Inr n" w'] fs_objs_update [of k view w' h "rd_bytes body" w]
    by (simp add: fs_wf_def del: file_at_Some)
next
  case (6 h w k ctx body e w')
  then have "view w \<subseteq>\<^sub>m view w'" "sane w'"
    using put_spec(1,2) [of w h k ctx body "Inl e" w'] by (simp_all add: fs_wf_def)
  with 6 show ?case using fs_objs_kept [of view w w' h] by (auto simp: fs_wf_def map_le_def)
next
  case (7 h w s d ctx opts c w')
  then obtain b where "view w (path_Join (fs_cwd h) s) = Some (FileNode b)" "sane w'"
    "\<forall>q. file_at view w' q = (if q = path_Join (fs_cwd h) d then Some b else file_at view w q)"
    using copy_spec [of w h d ctx s opts "Inr c" w'] by (auto simp: fs_wf_def simp del: file_at_Some)
  with 7 fs_objs_update [of d view w' h b w] show ?case
    by (intro exI [of _ b]) (simp add: fs_wf_def, simp add: fs_objs_def)
next
  case (8 h w s d ctx opts e w')
  then have "view w \<subseteq>\<^sub>m view w'" "sane w'"
    using copy_spec [of w h d ctx s opts "Inl e" w'] by (simp_all add: fs_wf_def)
  with 8 show ?case using fs_objs_kept [of view w w' h] by (auto simp: fs_wf_def map_le_def)
next
  case (9 h w p ctx listing w' h')
  then show ?case using fs_List_spec(1) [of w h ctx p listing w'] fs_objs_cong [of view w' w h']
    by (simp add: fs_wf_def)
next
  case (10 h w p ctx os w')
  note spec = fs_List_spec [of w h ctx p "Inr os" w']
  have wf: "sane w" "fs_cwd h \<noteq> ''''" using 10 by (simp_all add: fs_wf_def)
  have L: "fs_List af h ctx p w = (Inr os, w')" using 10 by simp
  have at: "fs_objs view h w (path_Join p k) = file_at view w (path_Join (path_Join (fs_cwd h) p) k)"
    if "key_ok k" for k
    using that 10(2) by (simp add: fs_objs_def path_Join_key_ok path_Join_assoc)
  show ?case
    using spec(2-4) [OF wf L refl] at by (auto simp del: file_at_Some)
qed

sublocale afero_fs \<subseteq> nav: navigator "fs_ops pick af"
proof (unfold_locales, goal_cases)
  case (1 h p h')
  then show ?case by (auto simp: fs_SubStorage_def fs_GetCwd_def fs_sub_def)
next
  case (2 h ctx w files dirs w' d)
  then have "\<exists>es f' e. af_ReadDir af (fs_cwd h) w = (Inr es, f') \<and>
      e \<in> set es \<and> d = fs_sub h (path_Join (fs_cwd h) (fi_name e))"
    by (auto simp: fs_ListDir_def tryIO_apply split: prod.splits sum.splits if_splits)
  then obtain es f' e where R: "af_ReadDir af (fs_cwd h) w = (Inr es, f')" "e \<in> set es"
    and e: "d = fs_sub h (path_Join (fs_cwd h) (fi_name e))" by blast
  note e = readdir_names [OF R] e
  have "path_segs (path_Join (fs_cwd h) (fi_name e)) = path_segs (fs_cwd h) @ [fi_name e]"
    using real_seg_Join [OF e(1)] .
  with e show ?case by (auto simp: fs_GetCwd_def fs_sub_def)
qed

section \<open>Delete, DeleteAll and ranges\<close>

lemma verify_all_no_missing: "verify_all af s ks f \<noteq> (Inl (MissingObjectsError m), f')"
proof (induction ks arbitrary: f f')
  case (Cons k ks)
  obtain st f1 where "af_Stat af (path_Join (fs_cwd s) k) f = (st, f1)" by fastforce
  with Cons [of f1 f'] show ?case
    by (auto simp: Let_def tryIO_apply bindIO_apply split: sum.splits prod.splits if_splits)
qed simp

lemma file_at_None: "file_at view f p = None \<longleftrightarrow> (\<forall>b. view f p \<noteq> Some (FileNode b))"
  by (auto simp: file_at_def split: option.splits node.splits)

context afero_fs
begin

lemma verify_all_spec:
  assumes "sane f" "verify_all af s ks f = (r, f')"
  shows "view f' = view f \<and> sane f' \<and>
    (\<forall>fulls missing. r = Inr (fulls, missing) \<longrightarrow>
       fulls = map (path_Join (fs_cwd s)) ks \<and>
       missing = filter (\<lambda>k. file_at view f (path_Join (fs_cwd s) k) = None) ks)"
  using assms
proof (induction ks arbitrary: f r f')
  case (Cons k ks)
  let ?full = "path_Join (fs_cwd s) k"
  obtain st f1 where S: "af_Stat af ?full f = (st, f1)" by fastforce
  obtain rs f2 where V: "verify_all af s ks f1 = (rs, f2)" by fastforce
  have f1: "view f1 = view f" "sane f1" using stat_frame [OF Cons.prems(1) S] by blast+
  have conv: "file_at view f1 q = file_at view f q" for q by (simp add: file_at_def f1)
  note IH = Cons.IH [OF f1(2) V, unfolded conv f1(1)]
  show ?case
  proof (cases st)
    case (Inl e)
    show ?thesis
    proof (cases "errors_Is e ErrNotExist")
      case True
      with Inl S stat_missing [OF Cons.prems(1)] have "view f ?full = None" by blast
      with True Inl S V IH Cons.prems(2) show ?thesis
        by (cases rs) (auto simp: Let_def tryIO_apply bindIO_apply file_at_None)
    next
      case False
      with Inl S f1 Cons.prems(2) show ?thesis by (auto simp: Let_def tryIO_apply)
    qed
  next
    case (Inr i)
    with S stat_info [OF Cons.prems(1)] obtain nd where nd: "view f ?full = Some nd" "info_matches nd i"
      by blast
    then have "file_at view f ?full = None \<longleftrightarrow> fi_isdir i"
      by (cases nd) (auto simp: file_at_def)
    with Inr S V IH Cons.prems(2) show ?thesis
      by (cases rs) (auto simp: Let_def tryIO_apply bindIO_apply)
  qed
qed auto

lemma remove_all_spec:
  assumes "sane f" "\<forall>p \<in> set ps. view f p \<noteq> Some DirNode" "remove_all af ps f = (r, f')"
  shows "sane f' \<and> (\<forall>q. view f' q = view f q \<or> q \<in> set ps \<and> view f' q = None) \<and>
    (\<forall>u q. r = Inr u \<longrightarrow> q \<in> set ps \<longrightarrow> view f' q = None)"
  using assms
proof (induction ps arbitrary: f)
  case (Cons p ps)
  obtain rm f1 where R: "af_Remove af p f = (rm, f1)" by fastforce
  have nd: "view f p \<noteq> Some DirNode" using Cons.prems(2) by simp
  have s1: "sane f1" using remove_inv [OF Cons.prems(1) R nd] .
  consider (stop) e e' where "rm = Inl e" "r = Inl e'" "f' = f1" "view f1 = view f"
    | (on) "remove_all af ps f1 = (r, f')" "view f1 = (view f)(p := None)"
  proof (cases rm)
    case (Inl e)
    then have v: "view f1 = view f" using remove_err [OF Cons.prems(1)] R by blast
    show ?thesis
    proof (cases "errors_Is e ErrNotExist")
      case True
      then have "view f p = None" using remove_missing [OF Cons.prems(1)] R Inl by blast
      then have "view f1 = (view f)(p := None)" using v by auto
      with True R Inl Cons.prems(3) on show ?thesis by (simp add: tryIO_apply)
    next
      case False
      with R Inl v Cons.prems(3) stop show ?thesis by (auto simp: tryIO_apply)
    qed
  next
    case (Inr u)
    then have "view f1 = (view f)(p := None)" using remove_ok [OF Cons.prems(1) nd] R by blast
    with R Inr Cons.prems(3) on show ?thesis by (simp add: tryIO_apply)
  qed
  then show ?case
  proof cases
    case stop
    then show ?thesis using s1 by simp
  next
    case on
    have "\<forall>q \<in> set ps. view f1 q \<noteq> Some DirNode" using Cons.prems(2) on(2) by auto
    note IH = Cons.IH [OF s1 this on(1)]
    have "view f' q = view f q \<or> q \<in> set (p # ps) \<and> view f' q = None" for q
      using conjunct1 [OF conjunct2 [OF IH], THEN spec, of q] on(2) by (auto split: if_splits)
    moreover have "view f' q = None" if "r = Inr u" "q \<in> set (p # ps)" for u q
    proof (cases "q \<in> set ps")
      case False
      then have "view f1 q = None" using that(2) on(2) by simp
      with False IH show ?thesis by metis
    qed (use IH that(1) in blast)
    ultimately show ?thesis using IH by blast
  qed
qed auto

lemma delete_spec:
  assumes f: "sane f" and keys: "\<forall>k \<in> set ks. key_ok k"
    and D: "fs_Delete af s ctx ks f = (r, f')"
  shows "sane f'"
    and "\<exists>k \<in> set ks. fs_objs view s f k = None \<Longrightarrow> view f' = view f \<and> (\<exists>e. r = Inl e \<and>
      (\<forall>m. e = MissingObjectsError m \<longrightarrow> m = filter (\<lambda>k. fs_objs view s f k = None) ks))"
    and "r = Inr () \<Longrightarrow> (\<forall>k \<in> set ks. fs_objs view s f k \<noteq> None) \<and>
      fs_objs view s f' = fs_objs view s f |` (- set ks)"
proof -
  obtain rv f1 where V: "verify_all af s ks f = (rv, f1)" by fastforce
  note ver = verify_all_spec [OF f V]
  have conv: "file_at view f (path_Join (fs_cwd s) k) = fs_objs view s f k" if "k \<in> set ks" for k
    using that keys by (simp add: fs_objs_def)
  then have miss: "filter (\<lambda>k. file_at view f (path_Join (fs_cwd s) k) = None) ks =
      filter (\<lambda>k. fs_objs view s f k = None) ks"
    by (intro filter_cong) simp_all
  let ?missing = "filter (\<lambda>k. fs_objs view s f k = None) ks"
  consider (fail) e where "r = Inl e" "rv = Inl e" "f' = f1"
    | (missing) "rv = Inr (map (path_Join (fs_cwd s)) ks, ?missing)" "?missing \<noteq> []"
        "r = Inl (MissingObjectsError ?missing)" "f' = f1"
    | (remove) "?missing = []" "remove_all af (map (path_Join (fs_cwd s)) ks) f1 = (r, f')"
  proof (cases rv)
    case (Inl e)
    with D V show ?thesis by (intro fail) (auto simp: fs_Delete_def bindIO_apply)
  next
    case (Inr fm)
    then have fm: "fm = (map (path_Join (fs_cwd s)) ks, ?missing)"
      using ver miss by (cases fm) blast
    show ?thesis
    proof (cases "?missing = []")
      case True
      then have "remove_all af (map (path_Join (fs_cwd s)) ks) f1 = (r, f')"
        using D V Inr fm by (simp add: fs_Delete_def bindIO_apply)
      with True remove show ?thesis by blast
    next
      case False
      then have "r = Inl (MissingObjectsError ?missing)" "f' = f1"
        using D V Inr fm by (simp_all add: fs_Delete_def bindIO_apply)
      with False Inr fm missing show ?thesis by blast
    qed
  qed
  note three = this
  have all: "\<forall>p \<in> set (map (path_Join (fs_cwd s)) ks). view f1 p \<noteq> Some DirNode" if "?missing = []"
  proof
    fix p assume "p \<in> set (map (path_Join (fs_cwd s)) ks)"
    then obtain k where "k \<in> set ks" "p = path_Join (fs_cwd s) k" by auto
    with that conv have "file_at view f p \<noteq> None" by (auto simp: filter_empty_conv)
    then show "view f1 p \<noteq> Some DirNode" using ver by (auto simp: file_at_def)
  qed
  note rem = remove_all_spec [OF _ all]
  show "sane f'"
    using three
  proof cases
    case remove
    have "sane f1" using ver by blast
    from rem [OF this remove(1,2)] show ?thesis by blast
  qed (use ver in simp_all)
  show "view f' = view f \<and> (\<exists>e. r = Inl e \<and>
      (\<forall>m. e = MissingObjectsError m \<longrightarrow> m = filter (\<lambda>k. fs_objs view s f k = None) ks))"
    if some: "\<exists>k \<in> set ks. fs_objs view s f k = None"
    using three
  proof cases
    case fail
    moreover have "e \<noteq> MissingObjectsError m" for m
      using verify_all_no_missing [of af s ks f m f1] V fail(2) by auto
    ultimately show ?thesis using ver by simp
  qed (use ver some in \<open>auto simp: filter_empty_conv\<close>)
  show "(\<forall>k \<in> set ks. fs_objs view s f k \<noteq> None) \<and> fs_objs view s f' = fs_objs view s f |` (- set ks)"
    if ok: "r = Inr ()"
    using three
  proof cases
    case remove
    have f1: "view f1 = view f" "sane f1" using ver by blast+
    note R = rem [OF f1(2) remove(1,2), unfolded f1(1)]
    have "fs_objs view s f' k = (fs_objs view s f |` (- set ks)) k" for k
    proof (cases "k \<in> set ks")
      case True
      with R ok have "view f' (path_Join (fs_cwd s) k) = None" by auto
      with True show ?thesis by (simp add: fs_objs_def file_at_def)
    next
      case False
      then have "key_ok k \<Longrightarrow> path_Join (fs_cwd s) k \<notin> set (map (path_Join (fs_cwd s)) ks)"
        using keys path_Join_inj [of k _ "fs_cwd s"] by auto
      then have "key_ok k \<Longrightarrow> view f' (path_Join (fs_cwd s) k) = view f (path_Join (fs_cwd s) k)"
        using R by blast
      with False show ?thesis by (simp add: fs_objs_def file_at_def)
    qed
    with remove(1) show ?thesis by (auto simp: filter_empty_conv)
  qed (use ok in simp_all)
qed

end

text \<open>\<open>l\<close> is \<open>k\<close> or lies below it, for clean keys.\<close>

definition under :: "string \<Rightarrow> string \<Rightarrow> bool" where
  "under k l \<longleftrightarrow> take (length (path_segs k)) (path_segs l) = path_segs k"

lemma below_Join_iff:
  assumes "base \<noteq> ''''" "key_ok k" "key_ok l"
  shows "below (path_Join base k) (path_Join base l) \<longleftrightarrow> under k l"
proof
  assume "below (path_Join base k) (path_Join base l)"
  then consider "path_Join base l = path_Join base k"
    | m where "key_ok m" "path_Join base l = path_Join (path_Join base k) m"
    by (auto simp: below_def)
  then show "under k l"
  proof cases
    case 1
    then have "l = k" using assms path_Join_inj [of l k base] by simp
    then show ?thesis by (simp add: under_def)
  next
    case 2
    from arg_cong [OF 2(2), of path_segs]
    have "path_segs l = path_segs k @ path_segs m"
      using assms 2(1) by (simp add: path_segs_Join key_okD)
    then show ?thesis by (simp add: under_def)
  qed
next
  assume u: "under k l"
  let ?rest = "drop (length (path_segs k)) (path_segs l)"
  have l: "path_segs l = path_segs k @ ?rest"
    using u unfolding under_def by (metis append_take_drop_id)
  show "below (path_Join base k) (path_Join base l)"
  proof (cases "?rest = []")
    case True
    with l assms key_ok_eqI have "l = k" by fastforce
    then show ?thesis by (simp add: below_def)
  next
    case False
    have "\<forall>s \<in> set ?rest. real_seg s"
      using key_ok_real [OF assms(3)] by (auto dest: in_set_dropD)
    note m = key_of_segs [OF False this]
    let ?m = "render False ?rest"
    note segs = m(2)
    note m = m(1)
    have "path_Join base l = path_Join (path_Join base k) ?m"
    proof -
      have "path_Join (path_Join base k) ?m =
          render (path_IsAbs base) ((path_segs base @ path_segs k) @ ?rest)"
        using assms m segs path_Join_render [of "path_Join base k" ?m]
        by (simp add: path_Join_not_Nil key_okD(1) path_IsAbs_Join path_segs_Join)
      then show ?thesis using assms l by (simp add: path_Join_render key_okD(1))
    qed
    with m show ?thesis by (auto simp: below_def)
  qed
qed

context afero_fs
begin

lemma deleteall_spec:
  assumes f: "sane f" and cwd: "fs_cwd s \<noteq> ''''" and k: "key_ok k"
    and D: "fs_DeleteAll af s ctx k f = (r, f')"
  shows "sane f'"
    and "\<not> under k l \<Longrightarrow> fs_objs view s f' l = fs_objs view s f l"
    and "r = Inr u \<Longrightarrow> fs_objs view s f' = fs_objs view s f |` {l. \<not> under k l}"
    and "r = Inl (MissingObjectsError m) \<Longrightarrow>
      m = [k] \<and> view f' = view f \<and> (\<forall>l. under k l \<longrightarrow> fs_objs view s f l = None)"
proof -
  let ?full = "path_Join (fs_cwd s) k"
  have ne: "?full \<noteq> ''''" using cwd by simp
  obtain st f1 where S: "af_Stat af ?full f = (st, f1)" by fastforce
  have f1: "view f1 = view f" "sane f1" using stat_frame [OF f S] by blast+
  obtain rm f2 where R: "af_RemoveAll af ?full f1 = (rm, f2)" by fastforce
  have s2: "sane f2" using removeall_inv [OF f1(2) R] .
  have out: "view f2 q = view f q" if "\<not> below ?full q" for q
    using removeall_outside [OF f1(2) ne R that] f1(1) by simp
  consider (quiet) e where "r = Inl e" "f' = f1"
      "\<And>m. e = MissingObjectsError m \<Longrightarrow> m = [k] \<and> view f ?full = None"
    | (failed) e where "rm = Inl e" "r = Inl (Errorf ''error deleting'' [e])" "f' = f2"
    | (removed) "rm = Inr ()" "r = Inr ()" "f' = f2"
  proof (cases st)
    case (Inl e)
    with S D stat_missing [OF f] show ?thesis
      by (cases "errors_Is e ErrNotExist")
        (auto simp: fs_DeleteAll_def tryIO_apply Let_def intro!: quiet)
  next
    case (Inr i)
    with S D R show ?thesis
      by (cases rm) (auto simp: fs_DeleteAll_def tryIO_apply wrapIO_apply Let_def
          intro: failed removed)
  qed
  note three = this
  show "sane f'" using three f1(2) s2 by cases simp_all
  have none: "fs_objs view s f l = None" if "view f ?full = None" "under k l" for l
  proof (cases "key_ok l")
    case True
    then have "below ?full (path_Join (fs_cwd s) l)" using that(2) cwd k by (simp add: below_Join_iff)
    then show ?thesis using that(1) tree_closed [OF f, of ?full] cwd
      by (auto simp: below_def fs_objs_def file_at_def)
  qed (simp add: fs_objs_def)
  have same: "fs_objs view s f2 l = fs_objs view s f l" if "\<not> under k l" for l
    using out [of "path_Join (fs_cwd s) l"] that cwd k
    by (simp add: fs_objs_def file_at_def below_Join_iff)
  show "\<not> under k l \<Longrightarrow> fs_objs view s f' l = fs_objs view s f l"
    using three same f1(1) by cases (simp_all add: fs_objs_def file_at_def)
  show "m = [k] \<and> view f' = view f \<and> (\<forall>l. under k l \<longrightarrow> fs_objs view s f l = None)"
    if "r = Inl (MissingObjectsError m)"
    using three that f1(1) none by cases auto
  show "fs_objs view s f' = fs_objs view s f |` {l. \<not> under k l}" if "r = Inr u"
    using three
  proof cases
    case removed
    have gone: "fs_objs view s f2 l = None" if "under k l" for l
      using removeall_ok [OF f1(2) ne, of _ f2 "path_Join (fs_cwd s) l"] that R removed cwd k
      by (simp add: fs_objs_def file_at_def below_Join_iff)
    have "fs_objs view s f2 l = (fs_objs view s f |` {l. \<not> under k l}) l" for l
      using gone [of l] same [of l] by (cases "under k l") simp_all
    with removed show ?thesis by blast
  qed (use that in simp_all)
qed

end

lemma section_reader_prefix:
  assumes "b = rd_bytes r @ rest" "rd_end r = None \<longrightarrow> rest = []"
    and "rd_end (section_reader r off len) = None" "0 \<le> len"
  shows "rd_bytes (section_reader r off len) = clamped off len b"
proof (cases "nat off + nat len \<le> length (rd_bytes r)")
  case True
  with assms show ?thesis by (simp add: section_reader_def clamped_def rd_bytes_def)
next
  case False
  with assms show ?thesis by (simp add: section_reader_def clamped_def rd_bytes_def)
qed

context afero_fs
begin

lemma range_spec:
  assumes f: "sane f" and G: "fs_GetObjectRange af s ctx k off len f = (r, f')"
  shows "view f' = view f \<and> sane f'"
    and "off < 0 \<or> len = 0 \<Longrightarrow> r = Inl ErrInvalidRange"
    and "view f (path_Join (fs_cwd s) k) = Some (FileNode b) \<Longrightarrow> r = Inr rd \<Longrightarrow>
      0 \<le> off \<and> len \<noteq> 0 \<and> off < int (length b) \<and> (rd_end rd = None \<longrightarrow> rd_bytes rd = clamped off len b)"
proof -
  let ?full = "path_Join (fs_cwd s) k"
  show "off < 0 \<or> len = 0 \<Longrightarrow> r = Inl ErrInvalidRange"
    using G by (simp add: fs_GetObjectRange_def)
  obtain op f1 where O: "af_Open af ?full f = (op, f1)" by fastforce
  have f1: "view f1 = view f" "sane f1" using open_frame [OF f O] by blast+
  consider (none) e where "r = Inl e" "f' = f \<or> f' = f1"
    | (opened) fl where "op = Inr fl" "0 \<le> off" "len \<noteq> 0"
    using G O by (cases "off < 0 \<or> len = 0"; cases op)
      (auto simp: fs_GetObjectRange_def tryIO_apply split: if_splits)
  note two = this
  have main: "view f' = view f \<and> sane f' \<and> (\<forall>rd. r = Inr rd \<longrightarrow>
      view f ?full = Some (FileNode b) \<longrightarrow> off < int (length b) \<and>
      (rd_end rd = None \<longrightarrow> rd_bytes rd = clamped off len b))"
    if opened: "op = Inr fl" "0 \<le> off" "len \<noteq> 0" for fl b
  proof -
    have O': "af_Open af ?full f = (Inr fl, f1)" using O opened by simp
    obtain st f2 where S: "af_FStat af fl f1 = (st, f2)" by fastforce
    have f2: "view f2 = view f" "sane f2" using fstat_frame [OF f1(2) S] f1 by simp_all
    obtain sk f3 where K: "af_Seek af fl off f2 = (sk, f3)" by fastforce
    have f3: "view f3 = view f" "sane f3" using seek_frame [OF f2(2) K] f2 by simp_all
    have shape: "(f' = f2 \<or> f' = f3) \<and> (\<forall>rd. r = Inr rd \<longrightarrow>
        (\<exists>i. st = Inr i \<and> off < fi_size i) \<and>
        (len < 0 \<and> rd = reader_from (file_reader fl) off \<or>
         \<not> len < 0 \<and> rd = section_reader (file_reader fl) off len))"
      using G O' opened S K
      by (cases st; cases sk)
        (auto simp: fs_GetObjectRange_def tryIO_apply not_less split: if_splits)
    have whole: "rd_bytes (reader_from (file_reader fl) off) = clamped off len b"
      if "view f ?full = Some (FileNode b)" "len < 0" "rd_end (file_reader fl) = None"
      using open_file [OF f O' that(1,3)] that(2) by (simp add: reader_from_def clamped_def rd_bytes_def)
    have part: "rd_bytes (section_reader (file_reader fl) off len) = clamped off len b"
      if h: "view f ?full = Some (FileNode b)" "\<not> len < 0" "rd_end (section_reader (file_reader fl) off len) = None"
    proof -
      obtain rest where rest: "b = rd_bytes (file_reader fl) @ rest \<and>
          (rd_end (file_reader fl) = None \<longrightarrow> rest = [])"
        using open_prefix [OF f O' h(1)] ..
      show ?thesis
        using section_reader_prefix [OF conjunct1 [OF rest] conjunct2 [OF rest] h(3)] h(2) by simp
    qed
    have size: "off < int (length b)"
      if "view f ?full = Some (FileNode b)" "st = Inr i" "off < fi_size i" for i
    proof -
      have "af_FStat af fl f1 = (Inr i, f2)" using S that(2) by simp
      from fstat_info [OF f O' this] that(1) have "info_matches (FileNode b) i" by simp
      with that(3) show ?thesis by simp
    qed
    show ?thesis
    proof (intro conjI allI impI)
      show "view f' = view f" "sane f'" using shape f2 f3 by (elim conjE disjE; simp)+
      fix rd assume rd: "r = Inr rd" and b: "view f ?full = Some (FileNode b)"
      from shape rd obtain i where i: "st = Inr i" "off < fi_size i" by blast
      show "off < int (length b)" using b i by (rule size)
      assume e: "rd_end rd = None"
      from shape rd consider "len < 0" "rd = reader_from (file_reader fl) off"
        | "\<not> len < 0" "rd = section_reader (file_reader fl) off len" by blast
      then show "rd_bytes rd = clamped off len b"
        using whole part b e by cases (simp_all add: reader_from_def)
    qed
  qed
  show "view f' = view f \<and> sane f'"
    using two
  proof cases
    case none
    then show ?thesis using f f1 by auto
  next
    case opened
    from main [OF this] show ?thesis by blast
  qed
  show "0 \<le> off \<and> len \<noteq> 0 \<and> off < int (length b) \<and> (rd_end rd = None \<longrightarrow> rd_bytes rd = clamped off len b)"
    if h: "view f ?full = Some (FileNode b)" "r = Inr rd"
    using two
  proof cases
    case none
    with h show ?thesis by simp
  next
    case opened
    from main [OF this, of b] opened h show ?thesis by blast
  qed
qed

end

context afero_fs
begin

lemma fs_Stat_spec:
  assumes "sane f" "fs_Stat af s k f = (r, f')"
  shows "view f' = view f \<and> sane f'"
    and "r = Inr st \<Longrightarrow> view f (path_Join (fs_cwd s) k) = Some (FileNode b) \<Longrightarrow> Exist st \<and> Size st = int (length b)"
    and "r = Inr st \<Longrightarrow> Exist st \<longleftrightarrow> view f (path_Join (fs_cwd s) k) \<noteq> None"
proof -
  obtain a f1 where S: "af_Stat af (path_Join (fs_cwd s) k) f = (a, f1)" by fastforce
  have E: "f' = f1" using assms(2) S
    by (auto simp: fs_Stat_def Let_def tryIO_apply split: sum.splits if_splits)
  show "view f' = view f \<and> sane f'" using stat_frame [OF assms(1) S] E by simp
  show "Exist st \<and> Size st = int (length b)"
    if h: "r = Inr st" "view f (path_Join (fs_cwd s) k) = Some (FileNode b)"
  proof (cases a)
    case (Inl e)
    with S assms(2) h have "errors_Is e ErrNotExist"
      by (auto simp: fs_Stat_def Let_def tryIO_apply split: if_splits)
    with stat_missing [OF assms(1)] S Inl h show ?thesis by auto
  next
    case (Inr i)
    with S have i: "af_Stat af (path_Join (fs_cwd s) k) f = (Inr i, f1)" by simp
    with stat_info [OF assms(1) i] h have "info_matches (FileNode b) i" by auto
    with Inr S assms(2) h show ?thesis by (auto simp: fs_Stat_def Let_def tryIO_apply)
  qed
  show "Exist st \<longleftrightarrow> view f (path_Join (fs_cwd s) k) \<noteq> None" if h: "r = Inr st"
  proof (cases a)
    case (Inl e)
    with S assms(2) h have "errors_Is e ErrNotExist" "\<not> Exist st"
      by (auto simp: fs_Stat_def Let_def tryIO_apply split: if_splits)
    with stat_missing [OF assms(1)] S Inl show ?thesis by auto
  next
    case (Inr i)
    with S have i: "af_Stat af (path_Join (fs_cwd s) k) f = (Inr i, f1)" by simp
    with stat_info [OF assms(1) i] Inr S assms(2) h show ?thesis
      by (auto simp: fs_Stat_def Let_def tryIO_apply)
  qed
qed

end

sublocale afero_fs \<subseteq> sized: sized_contract "fs_ops pick af" "fs_objs view" "fs_wf sane"
proof (unfold_locales, goal_cases)
  case (1 h w s d ctx opts c w' b)
  then show ?case
    using copy_spec [of w h d ctx s opts "Inr c" w'] by (auto simp: fs_wf_def fs_objs_def)
next
  case (2 h w p ctx os w' x b)
  have wf: "sane w" "fs_cwd h \<noteq> ''''" using 2 by (simp_all add: fs_wf_def)
  have L: "fs_List af h ctx p w = (Inr os, w')" using 2 by simp
  note spec = fs_List_spec(4) [OF wf L refl 2(4)]
  then have "fs_objs view h w (path_Join p (Name x)) = file_at view w (path_Join (path_Join (fs_cwd h) p) (Name x))"
    using 2(2) by (simp add: fs_objs_def path_Join_key_ok path_Join_assoc)
  with spec 2(5) show ?case by simp
next
  case (3 h w k info w' h')
  then show ?case using fs_Stat_spec(1) [of w h k info w'] fs_objs_cong [of view w' w h']
    by (simp add: fs_wf_def)
next
  case (4 h w k b s w')
  then show ?case using fs_Stat_spec(2) [of w h k "Inr s" w' s b] by (simp add: fs_wf_def fs_objs_def)
next
  case (5 h w k ctx off len res w' h')
  then show ?case using range_spec(1) [of w h ctx k off len res w'] fs_objs_cong [of view w' w h']
    by (simp add: fs_wf_def)
next
  case (6 h w k len b ctx off r w')
  then show ?case using range_spec(3) [of w h ctx k off len "Inr r" w' b r] by (simp add: fs_wf_def fs_objs_def)
qed

context afero_fs
begin

lemma fs_sized: "sized_contract (fs_ops pick af) (fs_objs view) (fs_wf sane)"
  by (rule sized.sized_contract_axioms)

lemma fs_contract: "storager_contract (fs_ops pick af) (fs_objs view) (fs_wf sane)"
  by (rule contract.storager_contract_axioms)

lemma fs_navigator: "navigator (fs_ops pick af)"
  by (rule nav.navigator_axioms)

lemma fs_guarded_contract:
  "storager_contract (guard_ops (fs_ops pick af)) (\<lambda>g. fs_objs view (inner g)) (\<lambda>g. fs_wf sane (inner g))"
  by (rule contract.guard_contract)

end

end
