(* ===== verification/Memfs.thy ===== *)
theory Memfs
  imports Fs_Laws
begin

text \<open>
  A concrete file system for the interface of \<open>Fs_Laws\<close>: a tree kept as an association list from
  the segments of absolute clean paths to nodes. It stands where \<^verbatim>\<open>afero\<close> is a parameter of
  the model: the interpretation below shows that the laws can all hold together, and the theorems
  about the file system storage are evaluated on it.
\<close>

section \<open>The tree\<close>

type_synonym memfs = "(string list \<times> node) list"

definition abs_path :: "string \<Rightarrow> bool" where
  "abs_path p \<longleftrightarrow> path_IsAbs p \<and> path_Clean p = p"

definition mem_view :: "memfs \<Rightarrow> string \<rightharpoonup> node" where
  "mem_view f p = (if abs_path p then map_of f (path_segs p) else None)"

definition tree_ok :: "(string list \<rightharpoonup> node) \<Rightarrow> bool" where
  "tree_ok m \<longleftrightarrow> m [] = Some DirNode \<and>
     (\<forall>s nd. m s = Some nd \<longrightarrow> (\<forall>x \<in> set s. real_seg x) \<and> (s \<noteq> [] \<longrightarrow> m (butlast s) = Some DirNode))"

definition mem_sane :: "memfs \<Rightarrow> bool" where
  "mem_sane f \<longleftrightarrow> distinct (map fst f) \<and> tree_ok (map_of f)"

definition mem_set :: "string list \<Rightarrow> node \<Rightarrow> memfs \<Rightarrow> memfs" where
  "mem_set s nd f = (s, nd) # filter (\<lambda>e. fst e \<noteq> s) f"

definition mem_del :: "string list \<Rightarrow> memfs \<Rightarrow> memfs" where
  "mem_del s f = filter (\<lambda>e. fst e \<noteq> s) f"

definition mem_empty :: memfs where
  "mem_empty = [([], DirNode)]"

section \<open>The calls\<close>

definition mem_info :: "string list \<Rightarrow> node \<Rightarrow> fileinfo" where
  "mem_info s nd =
     \<lparr>fi_name = (if s = [] then ''/'' else last s), fi_isdir = (nd = DirNode),
      fi_size = (case nd of DirNode \<Rightarrow> 0 | FileNode b \<Rightarrow> int (length b)), fi_modtime = 0, fi_id = None\<rparr>"

definition mem_find :: "string \<Rightarrow> memfs \<Rightarrow> error + node" where
  "mem_find p f =
     (if \<not> abs_path p then Inl (ErrorString ''invalid argument'')
      else case map_of f (path_segs p) of None \<Rightarrow> Inl ErrNotExist | Some nd \<Rightarrow> Inr nd)"

definition mem_Stat :: "string \<Rightarrow> (memfs, fileinfo) io" where
  "mem_Stat p f = (case mem_find p f of Inl e \<Rightarrow> (Inl e, f) | Inr nd \<Rightarrow> (Inr (mem_info (path_segs p) nd), f))"

definition mem_Open :: "string \<Rightarrow> (memfs, afile) io" where
  "mem_Open p f =
     (case mem_find p f of
        Inl e \<Rightarrow> (Inl e, f)
      | Inr nd \<Rightarrow> (Inr \<lparr>file_name = p, file_reader =
          (case nd of
             FileNode b \<Rightarrow> bytes_reader b
           | DirNode \<Rightarrow> \<lparr>rd_chunks = [], rd_end = Some (ErrorString ''is a directory''), rd_close = None\<rparr>)\<rparr>, f))"

definition mem_entries :: "string list \<Rightarrow> memfs \<Rightarrow> fileinfo list" where
  "mem_entries d f =
     map (\<lambda>e. mem_info (fst e) (snd e))
       (filter (\<lambda>e. fst e \<noteq> [] \<and> butlast (fst e) = d \<and> real_seg (last (fst e))) f)"

definition mem_ReadDir :: "string \<Rightarrow> (memfs, fileinfo list) io" where
  "mem_ReadDir p f =
     (case mem_find p f of
        Inl e \<Rightarrow> (Inl e, f)
      | Inr (FileNode b) \<Rightarrow> (Inl (ErrorString ''not a directory''), f)
      | Inr DirNode \<Rightarrow> (Inr (mem_entries (path_segs p) f), f))"

definition in_tree :: "string list \<Rightarrow> string list \<Rightarrow> bool" where
  "in_tree d s = (take (length d) s = d)"

definition mem_Walk :: "string \<Rightarrow> memfs \<Rightarrow> visit list" where
  "mem_Walk p f =
     (if abs_path p then
        map (\<lambda>e. \<lparr>v_path = render True (fst e), v_info = mem_info (fst e) (snd e), v_err = None\<rparr>)
          (filter (\<lambda>e. in_tree (path_segs p) (fst e)) f)
      else [])"

fun mem_mkdirs :: "string list \<Rightarrow> string list \<Rightarrow> (memfs, unit) io" where
  "mem_mkdirs d [] f = (Inr (), f)"
| "mem_mkdirs d (x # xs) f =
     (case map_of f (d @ [x]) of
        None \<Rightarrow> mem_mkdirs (d @ [x]) xs (mem_set (d @ [x]) DirNode f)
      | Some DirNode \<Rightarrow> mem_mkdirs (d @ [x]) xs f
      | Some (FileNode b) \<Rightarrow> (Inl (ErrorString ''not a directory''), f))"

definition mem_MkdirAll :: "string \<Rightarrow> nat \<Rightarrow> (memfs, unit) io" where
  "mem_MkdirAll p m f =
     (if abs_path p then mem_mkdirs [] (path_segs p) f else (Inl (ErrorString ''invalid argument''), f))"

primrec largest :: "nat list \<Rightarrow> nat" where
  "largest [] = 0"
| "largest (n # ns) = max n (largest ns)"

definition longest_name :: "memfs \<Rightarrow> nat" where
  "longest_name f = largest (map length (concat (map fst f)))"

definition mem_fresh :: "memfs \<Rightarrow> string" where
  "mem_fresh f = ''.copy-'' @ replicate (longest_name f) CHR ''0''"

definition mem_TempFile :: "string \<Rightarrow> string \<Rightarrow> (memfs, string) io" where
  "mem_TempFile dir pat f =
     (case mem_find dir f of
        Inr DirNode \<Rightarrow>
          (let s = path_segs dir @ [mem_fresh f] in (Inr (render True s), mem_set s (FileNode []) f))
      | Inr (FileNode b) \<Rightarrow> (Inl (ErrorString ''not a directory''), f)
      | Inl e \<Rightarrow> (Inl e, f))"

definition mem_Write :: "string \<Rightarrow> bytes \<Rightarrow> (memfs, unit) io" where
  "mem_Write p c f =
     (case mem_find p f of
        Inr (FileNode b) \<Rightarrow> (Inr (), mem_set (path_segs p) (FileNode (b @ c)) f)
      | Inr DirNode \<Rightarrow> (Inl (ErrorString ''is a directory''), f)
      | Inl e \<Rightarrow> (Inl e, f))"

definition mem_Rename :: "string \<Rightarrow> string \<Rightarrow> (memfs, unit) io" where
  "mem_Rename s d f =
     (case (mem_find s f, mem_find d f) of
        (Inl e, _) \<Rightarrow> (Inl e, f)
      | (Inr DirNode, _) \<Rightarrow> (Inl (ErrorString ''is a directory''), f)
      | (Inr (FileNode b), Inr DirNode) \<Rightarrow> (Inl (ErrorString ''file exists''), f)
      | (Inr (FileNode b), r) \<Rightarrow>
          (let t = path_segs d in
           if abs_path d \<and> t \<noteq> [] \<and> map_of f (butlast t) = Some DirNode then
             (Inr (), mem_set t (FileNode b) (mem_del (path_segs s) f))
           else (Inl (ErrorString ''not a directory''), f)))"

definition mem_Remove :: "string \<Rightarrow> (memfs, unit) io" where
  "mem_Remove p f =
     (case mem_find p f of
        Inl e \<Rightarrow> (Inl e, f)
      | Inr (FileNode b) \<Rightarrow> (Inr (), mem_del (path_segs p) f)
      | Inr DirNode \<Rightarrow>
          (if path_segs p = [] \<or> mem_entries (path_segs p) f \<noteq> [] then
             (Inl (ErrorString ''directory not empty''), f)
           else (Inr (), mem_del (path_segs p) f)))"

definition mem_RemoveAll :: "string \<Rightarrow> (memfs, unit) io" where
  "mem_RemoveAll p f =
     (if \<not> abs_path p \<or> path_segs p = [] then (Inl (ErrorString ''invalid argument''), f)
      else (Inr (), filter (\<lambda>e. \<not> in_tree (path_segs p) (fst e)) f))"

definition mem_afero :: "memfs afero" where
  "mem_afero =
     \<lparr>af_Stat = mem_Stat, af_Open = mem_Open,
      af_FStat = (\<lambda>fl. mem_Stat (file_name fl)), af_Seek = (\<lambda>fl off. ret ()),
      af_ReadDir = mem_ReadDir, af_Walk = mem_Walk, af_MkdirAll = mem_MkdirAll,
      af_TempFile = mem_TempFile, af_Write = mem_Write, af_CloseFile = (\<lambda>t. ret ()),
      af_Chmod = (\<lambda>t m. ret ()), af_Rename = mem_Rename, af_Remove = mem_Remove,
      af_RemoveAll = mem_RemoveAll, af_select = (\<lambda>_. True)\<rparr>"

lemma mem_sel [simp]:
  "af_Stat mem_afero = mem_Stat" "af_Open mem_afero = mem_Open"
  "af_FStat mem_afero = (\<lambda>fl. mem_Stat (file_name fl))" "af_Seek mem_afero = (\<lambda>fl off. ret ())"
  "af_ReadDir mem_afero = mem_ReadDir" "af_Walk mem_afero = mem_Walk"
  "af_MkdirAll mem_afero = mem_MkdirAll" "af_TempFile mem_afero = mem_TempFile"
  "af_Write mem_afero = mem_Write" "af_CloseFile mem_afero = (\<lambda>t. ret ())"
  "af_Chmod mem_afero = (\<lambda>t m. ret ())" "af_Rename mem_afero = mem_Rename"
  "af_Remove mem_afero = mem_Remove" "af_RemoveAll mem_afero = mem_RemoveAll"
  "af_select mem_afero = (\<lambda>_. True)"
  by (simp_all add: mem_afero_def)

section \<open>Paths and updates\<close>

lemma abs_path_eqI: "abs_path p \<Longrightarrow> abs_path q \<Longrightarrow> path_segs p = path_segs q \<Longrightarrow> p = q"
  by (metis abs_path_def path_Clean_eq_iff)

lemma abs_path_render:
  assumes "\<forall>x \<in> set s. real_seg x"
  shows "abs_path (render True s)" "path_segs (render True s) = s"
proof -
  have norm: "norm_segs True s" using assms norm_segsI [of s True 0] by simp
  show "path_segs (render True s) = s" using norm by (rule path_segs_render)
  then show "abs_path (render True s)"
    using path_IsAbs_render [OF norm] by (simp add: abs_path_def path_Clean_render)
qed

lemma abs_path_Join:
  assumes "path_Clean p = p" "key_ok k"
  shows "abs_path (path_Join p k) = abs_path p"
proof -
  have "p \<noteq> ''''" using assms(1) path_Clean_not_Nil by metis
  then show ?thesis using assms by (simp add: abs_path_def path_IsAbs_Join)
qed

lemma map_of_filter_fst: "map_of (filter (\<lambda>e. P (fst e)) f) k = (if P k then map_of f k else None)"
  by (induction f) auto

lemma map_of_mem_set [simp]: "map_of (mem_set s nd f) = (map_of f)(s \<mapsto> nd)"
  using map_of_filter_fst [of "\<lambda>t. t \<noteq> s" f] by (intro ext) (simp add: mem_set_def)

lemma map_of_mem_del [simp]: "map_of (mem_del s f) = (map_of f)(s := None)"
  using map_of_filter_fst [of "\<lambda>t. t \<noteq> s" f] by (intro ext) (simp add: mem_del_def)

lemma distinct_mem_set: "distinct (map fst f) \<Longrightarrow> distinct (map fst (mem_set s nd f))"
  by (auto simp: mem_set_def distinct_map_filter)

lemma distinct_mem_del: "distinct (map fst f) \<Longrightarrow> distinct (map fst (mem_del s f))"
  by (simp add: mem_del_def distinct_map_filter)

lemma mem_view_set: "abs_path p \<Longrightarrow> map_of f' = (map_of f)(path_segs p \<mapsto> nd) \<Longrightarrow>
    mem_view f' = (mem_view f)(p \<mapsto> nd)"
  by (rule ext) (auto simp: mem_view_def dest: abs_path_eqI)

lemma mem_view_del: "abs_path p \<Longrightarrow> map_of f' = (map_of f)(path_segs p := None) \<Longrightarrow>
    mem_view f' = (mem_view f)(p := None)"
  by (rule ext) (auto simp: mem_view_def dest: abs_path_eqI)

lemma mem_find_view:
  "mem_find p f = Inr nd \<longleftrightarrow> mem_view f p = Some nd"
  "mem_find p f = Inl ErrNotExist \<Longrightarrow> mem_view f p = None"
  by (auto simp: mem_find_def mem_view_def split: option.splits)

lemma mem_find_Inl: "mem_find p f = Inl e \<Longrightarrow> mem_view f p = None"
  by (auto simp: mem_find_def mem_view_def split: if_splits option.splits)

lemma mem_view_abs: "mem_view f p = Some nd \<Longrightarrow> abs_path p \<and> map_of f (path_segs p) = Some nd"
  by (auto simp: mem_view_def split: if_splits)

section \<open>The tree stays well formed\<close>

lemma tree_ok_set:
  assumes "tree_ok m" "s \<noteq> []" "m (butlast s) = Some DirNode" "\<forall>x \<in> set s. real_seg x"
    and "m s = Some DirNode \<longrightarrow> nd = DirNode"
  shows "tree_ok (m(s \<mapsto> nd))"
proof -
  have "butlast s \<noteq> s" using assms(2) by (metis append_butlast_last_id not_Cons_self2 self_append_conv)
  moreover have "nd = DirNode" if "butlast t = s" "m t = Some x" "t \<noteq> []" for t x
    using assms(1,5) that by (auto simp: tree_ok_def)
  ultimately show ?thesis
    using assms by (auto simp: tree_ok_def)
qed

lemma tree_ok_del:
  assumes "tree_ok m" "s \<noteq> []" "\<And>t. t \<noteq> [] \<Longrightarrow> butlast t = s \<Longrightarrow> m t = None"
  shows "tree_ok (m(s := None))"
proof -
  have "butlast t \<noteq> s" if "m t = Some nd" "t \<noteq> []" for t nd
    using that assms(3) [of t] by auto
  then show ?thesis using assms(1,2) by (auto simp: tree_ok_def)
qed

lemma tree_ok_file_leaf:
  assumes "tree_ok m" "m s = Some (FileNode b)"
  shows "s \<noteq> []" "\<And>t. t \<noteq> [] \<Longrightarrow> butlast t = s \<Longrightarrow> m t = None"
proof -
  show "s \<noteq> []" using assms by (auto simp: tree_ok_def)
  show "m t = None" if "t \<noteq> []" "butlast t = s" for t
    using assms that by (cases "m t") (auto simp: tree_ok_def)
qed

lemma tree_ok_prefix:
  assumes "tree_ok m" "m (d @ rest) = Some nd" "rest \<noteq> []"
  shows "m d = Some DirNode"
  using assms(2,3)
proof (induction rest arbitrary: nd rule: rev_induct)
  case (snoc x rest)
  have "m (d @ rest) = Some DirNode"
    using assms(1) snoc.prems(1) by (auto simp: tree_ok_def butlast_append dest: spec [of _ "d @ rest @ [x]"])
  then show ?case using snoc.IH by (cases "rest = []") simp_all
qed simp

lemma tree_ok_cut:
  assumes "tree_ok m" "d \<noteq> []"
  shows "tree_ok (\<lambda>s. if in_tree d s then None else m s)"
proof -
  have "in_tree d s" if "s \<noteq> []" "in_tree d (butlast s)" for s
  proof -
    have "length d \<le> length (butlast s)"
      using that(2) unfolding in_tree_def by (metis length_take min.cobounded2 min_def nat_le_linear)
    then have "length d < length s" using that(1) length_butlast [of s]
      by (metis One_nat_def Suc_pred le_imp_less_Suc length_greater_0_conv)
    then show ?thesis using that(2) by (simp add: in_tree_def take_butlast)
  qed
  then show ?thesis using assms by (auto simp: tree_ok_def in_tree_def)
qed

lemma mem_mkdirs_spec:
  assumes "mem_sane f" "map_of f d = Some DirNode" "\<forall>x \<in> set (d @ xs). real_seg x"
    and "mem_mkdirs d xs f = (r, f')"
  shows "mem_sane f' \<and> (\<forall>s. map_of f' s = map_of f s \<or>
    map_of f s = None \<and> map_of f' s = Some DirNode \<and> (\<exists>rest. d @ xs = s @ rest))"
  using assms
proof (induction d xs f rule: mem_mkdirs.induct)
  case (2 d x xs f)
  let ?s = "d @ [x]"
  show ?case
  proof (cases "map_of f ?s")
    case None
    let ?f = "mem_set ?s DirNode f"
    have "tree_ok (map_of ?f)"
      unfolding map_of_mem_set using 2(3-5) None
      by (intro tree_ok_set) (auto simp: mem_sane_def)
    then have "mem_sane ?f" using 2(3) by (simp add: mem_sane_def distinct_mem_set)
    moreover have "mem_mkdirs ?s xs ?f = (r, f')" using 2(6) None by simp
    ultimately have IH: "mem_sane f' \<and> (\<forall>s. map_of f' s = map_of ?f s \<or>
        map_of ?f s = None \<and> map_of f' s = Some DirNode \<and> (\<exists>rest. ?s @ xs = s @ rest))"
      using 2(1) [OF None] 2(5) by simp
    have "map_of f' s = map_of f s \<or>
        map_of f s = None \<and> map_of f' s = Some DirNode \<and> (\<exists>rest. d @ x # xs = s @ rest)" for s
      using conjunct2 [OF IH, THEN spec, of s] None by (cases "s = ?s") auto
    with IH show ?thesis by blast
  next
    case (Some nd)
    then show ?thesis using 2(2) [of DirNode] 2(3-6) by (cases nd) auto
  qed
qed simp

lemma mem_mkdirs_ok:
  assumes "mem_mkdirs d xs f = (Inr u, f')" "map_of f d = Some DirNode"
  shows "map_of f' (d @ xs) = Some DirNode"
  using assms
proof (induction d xs f rule: mem_mkdirs.induct)
  case (2 d x xs f)
  show ?case
  proof (cases "map_of f (d @ [x])")
    case None
    with 2 show ?thesis by (simp add: map_of_mem_set)
  next
    case (Some nd)
    with 2 show ?thesis by (cases nd) auto
  qed
qed simp

lemma mem_fresh_new:
  assumes "map_of f (d @ [mem_fresh f]) = Some nd"
  shows False
proof -
  have le: "n \<in> set ns \<Longrightarrow> n \<le> largest ns" for n ns
    by (induction ns) auto
  from map_of_SomeD [OF assms] have "length (mem_fresh f) \<in> set (map length (concat (map fst f)))" by force
  from le [OF this] show False by (simp add: mem_fresh_def longest_name_def)
qed

lemma real_seg_fresh: "real_seg (mem_fresh f)"
  by (auto simp: real_seg_def mem_fresh_def)

section \<open>The laws hold\<close>

lemma mem_tree_closed:
  assumes "mem_sane f" "path_Clean p = p" "mem_view f p \<noteq> Some DirNode" "key_ok k"
  shows "mem_view f (path_Join p k) = None"
proof (cases "abs_path p")
  case True
  show ?thesis
  proof (cases "map_of f (path_segs p @ path_segs k)")
    case (Some nd)
    then have "map_of f (path_segs p) = Some DirNode"
      using assms(1) tree_ok_prefix [of "map_of f" "path_segs p" "path_segs k" nd] key_okD(3) [OF assms(4)]
      by (simp add: mem_sane_def)
    with True have "mem_view f p = Some DirNode" by (simp add: mem_view_def)
    with assms(3) show ?thesis by simp
  qed (use assms(4) in \<open>simp add: mem_view_def path_segs_Join key_okD\<close>)
qed (use assms in \<open>simp add: mem_view_def abs_path_Join\<close>)

lemma mem_info_matches [simp]: "info_matches nd (mem_info s nd)"
  by (cases nd) (simp_all add: mem_info_def)

lemma mem_info_name: "s \<noteq> [] \<Longrightarrow> fi_name (mem_info s nd) = last s"
  by (simp add: mem_info_def)

lemma abs_path_Join_seg:
  assumes "abs_path p" "real_seg n"
  shows "abs_path (path_Join p n)" "path_segs (path_Join p n) = path_segs p @ [n]"
proof -
  have "p \<noteq> ''''" using assms(1) by (auto simp: abs_path_def path_IsAbs_def)
  then show "abs_path (path_Join p n)" using assms by (simp add: abs_path_def path_IsAbs_Join)
  show "path_segs (path_Join p n) = path_segs p @ [n]" using assms(2) by (rule real_seg_Join)
qed

lemma mem_ReadDir_Inr:
  "mem_ReadDir p f = (Inr es, f') \<Longrightarrow>
     abs_path p \<and> es = mem_entries (path_segs p) f \<and> f' = f"
  by (auto simp: mem_ReadDir_def mem_find_view(1) dest: mem_view_abs split: sum.splits node.splits)

lemma mem_entries_info:
  assumes "distinct (map fst f)" "abs_path p" "e \<in> set (mem_entries (path_segs p) f)"
  shows "real_seg (fi_name e) \<and> (\<exists>nd. mem_view f (path_Join p (fi_name e)) = Some nd \<and> info_matches nd e)"
proof -
  from assms(3) obtain s nd where m: "(s, nd) \<in> set f" "s \<noteq> []" "butlast s = path_segs p"
    and real: "real_seg (last s)" and e: "e = mem_info s nd"
    by (auto simp: mem_entries_def)
  then have s: "path_segs p @ [last s] = s" by (metis append_butlast_last_id)
  have "map_of f s = Some nd" using assms(1) m(1) by simp
  with s real assms(2) m(2) show ?thesis
    by (auto simp: e mem_info_name mem_view_def abs_path_Join_seg)
qed

lemma mem_entries_all:
  assumes "abs_path p" "real_seg n" "mem_view f (path_Join p n) \<noteq> None"
  shows "n \<in> fi_name ` set (mem_entries (path_segs p) f)"
proof -
  from assms obtain nd where "map_of f (path_segs p @ [n]) = Some nd"
    by (auto simp: mem_view_def abs_path_Join_seg)
  then have "(path_segs p @ [n], nd) \<in> set f" by (rule map_of_SomeD)
  with assms(2) show ?thesis
    by (force simp: mem_entries_def mem_info_name)
qed

lemma visited_mem_Walk [simp]: "visited (mem_Walk p f) = mem_Walk p f"
  by (auto simp: visited_def mem_Walk_def filter_map comp_def)

lemma mem_sane_real: "mem_sane f \<Longrightarrow> e \<in> set f \<Longrightarrow> \<forall>x \<in> set (fst e). real_seg x"
  by (cases e) (auto simp: mem_sane_def tree_ok_def dest: map_of_is_SomeI)

lemma mem_walk_sound:
  assumes f: "mem_sane f" and v: "v \<in> set (mem_Walk p f)"
  shows "below p (v_path v) \<and> (\<exists>nd. mem_view f (v_path v) = Some nd \<and> info_matches nd (v_info v))"
proof -
  from v obtain s nd where p: "abs_path p" and m: "(s, nd) \<in> set f" and t: "in_tree (path_segs p) s"
    and v: "v_path v = render True s" "v_info v = mem_info s nd"
    by (auto simp: mem_Walk_def split: if_splits)
  have real: "\<forall>x \<in> set s. real_seg x" using mem_sane_real [OF f m] by simp
  note r = abs_path_render [OF real]
  have view: "mem_view f (v_path v) = Some nd"
    using f m r v by (simp add: mem_view_def mem_sane_def)
  have "below p (render True s)"
  proof (cases "drop (length (path_segs p)) s = []")
    case True
    then have "s = path_segs p" using t unfolding in_tree_def by simp
    then have "render True s = p" using p path_Clean_render [of p] by (auto simp: abs_path_def)
    then show ?thesis by (simp add: below_def)
  next
    case False
    let ?k = "render False (drop (length (path_segs p)) s)"
    have "\<forall>x \<in> set (drop (length (path_segs p)) s). real_seg x"
      using real by (auto dest: in_set_dropD)
    note k = key_of_segs [OF False this]
    have "path_segs (path_Join p ?k) = s"
      using k t unfolding in_tree_def by (simp add: path_segs_Join key_okD) (metis append_take_drop_id)
    moreover have "abs_path (path_Join p ?k)" using p k abs_path_Join [of p ?k] by (simp add: abs_path_def [of p])
    ultimately have "render True s = path_Join p ?k" using r by (intro abs_path_eqI) simp_all
    with k show ?thesis by (auto simp: below_def)
  qed
  with view v show ?thesis by simp
qed

lemma mem_walk_complete:
  assumes "mem_sane f" "mem_view f p = Some DirNode" "key_ok k" "mem_view f (path_Join p k) \<noteq> None"
  shows "path_Join p k \<in> v_path ` set (mem_Walk p f)"
proof -
  have p: "abs_path p" using mem_view_abs [OF assms(2)] by simp
  let ?s = "path_segs p @ path_segs k"
  from assms(3,4) obtain nd where "map_of f ?s = Some nd" and j: "abs_path (path_Join p k)"
    by (auto simp: mem_view_def path_segs_Join key_okD split: if_splits)
  then have m: "(?s, nd) \<in> set f" by (simp add: map_of_SomeD)
  have "render True ?s = path_Join p k"
    using j assms(3) abs_path_render [of ?s] mem_sane_real [OF assms(1) m]
    by (intro abs_path_eqI) (simp_all add: path_segs_Join key_okD)
  with m p show ?thesis
    by (force simp: mem_Walk_def in_tree_def)
qed

lemma mem_walk_distinct:
  assumes "mem_sane f"
  shows "distinct (map v_path (mem_Walk p f))"
proof -
  let ?es = "filter (\<lambda>e. in_tree (path_segs p) (fst e)) f"
  have "distinct (map fst ?es)" using assms by (simp add: mem_sane_def distinct_map_filter)
  moreover have "inj_on (render True) (set (map fst ?es))"
  proof (rule inj_onI)
    fix s t assume "s \<in> set (map fst ?es)" "t \<in> set (map fst ?es)" "render True s = render True t"
    then show "s = t"
      using mem_sane_real [OF assms] abs_path_render(2) [of s] abs_path_render(2) [of t] by force
  qed
  ultimately have "distinct (map (render True) (map fst ?es))" by (simp only: distinct_map)
  then show ?thesis by (simp add: mem_Walk_def comp_def)
qed

lemma abs_path_real: "abs_path p \<Longrightarrow> x \<in> set (path_segs p) \<Longrightarrow> real_seg x"
  using norm_path_segs [of p] by (auto simp: abs_path_def norm_segs_def)

lemma mem_mkdir_spec:
  assumes "mem_sane f" "mem_MkdirAll p m f = (r, f')"
  shows "mem_sane f'"
    and "mem_view f' q = mem_view f q \<or> mem_view f q = None \<and> mem_view f' q = Some DirNode \<and> ancestor q p"
proof -
  have spec: "mem_sane f' \<and> (\<forall>s. map_of f' s = map_of f s \<or>
      map_of f s = None \<and> map_of f' s = Some DirNode \<and> (\<exists>rest. path_segs p = s @ rest))"
  proof (cases "abs_path p")
    case True
    then have "mem_mkdirs [] (path_segs p) f = (r, f')" using assms(2) by (simp add: mem_MkdirAll_def)
    moreover have "map_of f [] = Some DirNode" using assms(1) unfolding mem_sane_def tree_ok_def by blast
    ultimately show ?thesis
      using mem_mkdirs_spec [of f "[]" "path_segs p" r f'] assms(1) True abs_path_real [of p] by simp
  qed (use assms in \<open>auto simp: mem_MkdirAll_def\<close>)
  then show "mem_sane f'" by simp
  show "mem_view f' q = mem_view f q \<or> mem_view f q = None \<and> mem_view f' q = Some DirNode \<and> ancestor q p"
    using spec by (auto simp: mem_view_def ancestor_def)
qed

lemma mem_sane_set_file:
  assumes "mem_sane f" "s \<noteq> []" "map_of f (butlast s) = Some DirNode" "\<forall>x \<in> set s. real_seg x"
    "map_of f s \<noteq> Some DirNode"
  shows "mem_sane (mem_set s (FileNode b) f)"
  using assms tree_ok_set [of "map_of f" s "FileNode b"]
  by (simp add: mem_sane_def distinct_mem_set)

lemma mem_temp_spec:
  assumes f: "mem_sane f" and T: "mem_TempFile dir pat f = (r, f')"
  shows "mem_sane f'" and "r = Inl e \<Longrightarrow> f' = f"
    and "r = Inr t \<Longrightarrow> mem_view f t = None \<and> mem_view f' = (mem_view f)(t \<mapsto> FileNode [])"
proof -
  let ?s = "path_segs dir @ [mem_fresh f]"
  consider (err) e where "r = Inl e" "f' = f"
    | (ok) "mem_view f dir = Some DirNode" "r = Inr (render True ?s)" "f' = mem_set ?s (FileNode []) f"
  proof (cases "mem_view f dir = Some DirNode")
    case True
    then have "mem_find dir f = Inr DirNode" by (simp only: mem_find_view(1))
    with T True show ?thesis by (intro ok) (auto simp: mem_TempFile_def Let_def)
  next
    case False
    then have "mem_find dir f \<noteq> Inr DirNode" by (simp only: mem_find_view(1) not_False_eq_True)
    with T show ?thesis by (auto simp: mem_TempFile_def split: sum.splits node.splits intro: err)
  qed
  note two = this
  have ok: "abs_path dir" "map_of f (path_segs dir) = Some DirNode" "\<forall>x \<in> set ?s. real_seg x"
    if "mem_view f dir = Some DirNode"
    using mem_view_abs [OF that] abs_path_real real_seg_fresh by auto
  have new: "map_of f ?s = None" using mem_fresh_new [of f "path_segs dir"] by (cases "map_of f ?s") auto
  show "mem_sane f'" using two
  proof cases
    case ok': ok
    then show ?thesis using f ok new by (simp add: mem_sane_set_file)
  qed (use f in simp)
  show "r = Inl e \<Longrightarrow> f' = f" using two by cases simp_all
  show "mem_view f t = None \<and> mem_view f' = (mem_view f)(t \<mapsto> FileNode [])" if "r = Inr t"
    using two
  proof cases
    case ok': ok
    note p = abs_path_render [OF ok(3) [OF ok'(1)]]
    have t: "t = render True ?s" using that ok' by simp
    have "mem_view f' = (mem_view f)(t \<mapsto> FileNode [])"
      unfolding t using p ok'(3) by (intro mem_view_set) simp_all
    moreover have "mem_view f t = None" using p new by (simp add: t mem_view_def)
    ultimately show ?thesis by simp
  qed (use that in simp)
qed

lemma mem_write_spec:
  assumes f: "mem_sane f" and v: "mem_view f t = Some (FileNode b)" and W: "mem_Write t c f = (r, f')"
  shows "mem_sane f' \<and> r = Inr () \<and> mem_view f' = (mem_view f)(t \<mapsto> FileNode (b @ c))"
proof -
  have t: "abs_path t" "map_of f (path_segs t) = Some (FileNode b)" using mem_view_abs [OF v] by simp_all
  have r: "r = Inr ()" "f' = mem_set (path_segs t) (FileNode (b @ c)) f"
    using W v by (simp_all add: mem_Write_def mem_find_view(1) [THEN iffD2])
  have "path_segs t \<noteq> []" "map_of f (butlast (path_segs t)) = Some DirNode"
    using f t unfolding mem_sane_def tree_ok_def by (metis node.distinct(1) option.inject)+
  then have "mem_sane f'"
    unfolding r using f t abs_path_real by (intro mem_sane_set_file) auto
  then show ?thesis using t r by (simp add: mem_view_set)
qed

lemma mem_rename_cases:
  assumes "mem_Rename s d f = (r, f')"
  obtains (err) e where "r = Inl e" "f' = f"
  | (ok) b where "r = Inr ()" "mem_view f s = Some (FileNode b)" "mem_view f d \<noteq> Some DirNode"
      "abs_path d" "path_segs d \<noteq> []" "map_of f (butlast (path_segs d)) = Some DirNode"
      "f' = mem_set (path_segs d) (FileNode b) (mem_del (path_segs s) f)"
proof (cases "\<exists>e. r = Inl e \<and> f' = f")
  case False
  then obtain b where b: "mem_find s f = Inr (FileNode b)" and d: "mem_find d f \<noteq> Inr DirNode"
    using assms by (auto simp: mem_Rename_def split: sum.splits node.splits)
  have "abs_path d \<and> path_segs d \<noteq> [] \<and> map_of f (butlast (path_segs d)) = Some DirNode \<and>
      r = Inr () \<and> f' = mem_set (path_segs d) (FileNode b) (mem_del (path_segs s) f)"
    using False assms b d by (auto simp: mem_Rename_def Let_def split: sum.splits node.splits if_splits)
  with b d ok show ?thesis by (simp add: mem_find_view(1))
qed (use err in blast)

lemma mem_rename_spec:
  assumes f: "mem_sane f" and R: "mem_Rename s d f = (r, f')"
  shows "mem_sane f'" and "r = Inl e \<Longrightarrow> f' = f"
    and "r = Inr u \<Longrightarrow> mem_view f s = Some (FileNode b) \<Longrightarrow>
      mem_view f' = (mem_view f)(s := None, d \<mapsto> FileNode b)"
proof -
  show "r = Inl e \<Longrightarrow> f' = f" using R by (cases rule: mem_rename_cases) simp_all
  show "mem_sane f'"
    using R
  proof (cases rule: mem_rename_cases)
    case (ok b)
    have s: "abs_path s" "map_of f (path_segs s) = Some (FileNode b)" using mem_view_abs [OF ok(2)] by simp_all
    have tree: "tree_ok (map_of f)" using f by (simp add: mem_sane_def)
    have "mem_sane (mem_del (path_segs s) f)"
      using f tree_ok_del [OF tree tree_ok_file_leaf [OF tree s(2)]]
      by (simp add: mem_sane_def distinct_mem_del)
    moreover have "map_of f (path_segs d) \<noteq> Some DirNode" using ok(3,4) by (simp add: mem_view_def)
    moreover have "butlast (path_segs d) \<noteq> path_segs s" using ok(6) s by auto
    ultimately show ?thesis
      unfolding ok(7) using ok(4-6) abs_path_real by (intro mem_sane_set_file) auto
  qed (use f in simp)
  show "mem_view f' = (mem_view f)(s := None, d \<mapsto> FileNode b)"
    if "r = Inr u" "mem_view f s = Some (FileNode b)"
    using R
  proof (cases rule: mem_rename_cases)
    case (ok b')
    have s: "abs_path s" using mem_view_abs [OF ok(2)] by simp
    have "mem_view f' = (mem_view (mem_del (path_segs s) f))(d \<mapsto> FileNode b')"
      unfolding ok(7) using ok(4) by (intro mem_view_set) simp_all
    moreover have "mem_view (mem_del (path_segs s) f) = (mem_view f)(s := None)"
      using s by (intro mem_view_del) simp_all
    ultimately show ?thesis using ok(2) that(2) by simp
  qed (use that in simp)
qed

lemma mem_remove_spec:
  assumes f: "mem_sane f" and R: "mem_Remove p f = (r, f')"
  shows "r = Inl e \<Longrightarrow> f' = f" and "r = Inl ErrNotExist \<Longrightarrow> mem_view f p = None"
    and "mem_view f p \<noteq> Some DirNode \<Longrightarrow> mem_sane f'"
    and "mem_view f p \<noteq> Some DirNode \<Longrightarrow> r = Inr u \<Longrightarrow> mem_view f' = (mem_view f)(p := None)"
proof -
  show "r = Inl e \<Longrightarrow> f' = f"
    using R by (auto simp: mem_Remove_def split: sum.splits node.splits if_splits)
  show "r = Inl ErrNotExist \<Longrightarrow> mem_view f p = None"
    using R by (auto simp: mem_Remove_def mem_find_Inl split: sum.splits node.splits if_splits)
  have nd: "r = Inl e \<and> f' = f \<and> mem_view f p = None \<or>
      (\<exists>b. r = Inr () \<and> f' = mem_del (path_segs p) f \<and> mem_view f p = Some (FileNode b))"
    if "mem_view f p \<noteq> Some DirNode" "mem_find p f = Inl e \<or> (\<exists>nd. mem_find p f = Inr nd)" for e
    using R that mem_find_view(1) [of p f] mem_find_Inl [of p f]
    by (cases "mem_find p f") (auto simp: mem_Remove_def split: node.splits)
  have plain: "mem_sane (mem_del (path_segs p) f) \<and> mem_view (mem_del (path_segs p) f) = (mem_view f)(p := None)"
    if "mem_view f p = Some (FileNode b)" for b
  proof -
    have s: "abs_path p" "map_of f (path_segs p) = Some (FileNode b)" using mem_view_abs [OF that] by simp_all
    have tree: "tree_ok (map_of f)" using f by (simp add: mem_sane_def)
    have "mem_sane (mem_del (path_segs p) f)"
      using f tree_ok_del [OF tree tree_ok_file_leaf [OF tree s(2)]]
      by (simp add: mem_sane_def distinct_mem_del)
    then show ?thesis using s by (simp add: mem_view_del)
  qed
  show "mem_sane f'" if "mem_view f p \<noteq> Some DirNode"
    using nd [OF that] f plain by (cases "mem_find p f") auto
  show "mem_view f' = (mem_view f)(p := None)" if "mem_view f p \<noteq> Some DirNode" "r = Inr u"
    using nd [OF that(1)] that(2) plain by (cases "mem_find p f") auto
qed

lemma below_in_tree:
  assumes "abs_path p" "abs_path q"
  shows "below p q \<longleftrightarrow> in_tree (path_segs p) (path_segs q)"
proof
  assume "below p q"
  then show "in_tree (path_segs p) (path_segs q)"
    by (auto simp: below_def in_tree_def path_segs_Join key_okD)
next
  assume t: "in_tree (path_segs p) (path_segs q)"
  let ?rest = "drop (length (path_segs p)) (path_segs q)"
  have q: "path_segs q = path_segs p @ ?rest"
    using t unfolding in_tree_def by (metis append_take_drop_id)
  show "below p q"
  proof (cases "?rest = []")
    case True
    then have "q = p" using q assms by (intro abs_path_eqI) simp_all
    then show ?thesis by (simp add: below_def)
  next
    case False
    have "\<forall>x \<in> set ?rest. real_seg x"
      using abs_path_real [OF assms(2)] by (auto dest: in_set_dropD)
    note k = key_of_segs [OF False this]
    have "abs_path (path_Join p (render False ?rest))"
      using assms(1) k abs_path_Join [of p "render False ?rest"] by (simp add: abs_path_def [of p])
    moreover have "path_segs (path_Join p (render False ?rest)) = path_segs q"
      using k q by (simp add: path_segs_Join key_okD)
    ultimately have "q = path_Join p (render False ?rest)" using assms(2) by (intro abs_path_eqI) simp_all
    then show ?thesis using k unfolding below_def by blast
  qed
qed

lemma mem_removeall_spec:
  assumes f: "mem_sane f" and R: "mem_RemoveAll p f = (r, f')"
  shows "mem_sane f'" and "\<not> below p q \<Longrightarrow> mem_view f' q = mem_view f q"
    and "r = Inr u \<Longrightarrow> below p q \<Longrightarrow> mem_view f' q = None"
proof -
  consider (err) e where "r = Inl e" "f' = f"
    | (ok) "abs_path p" "path_segs p \<noteq> []" "f' = filter (\<lambda>e. \<not> in_tree (path_segs p) (fst e)) f"
    using R by (auto simp: mem_RemoveAll_def split: if_splits)
  note two = this
  have m: "map_of f' = (\<lambda>s. if in_tree (path_segs p) s then None else map_of f s)"
    if "f' = filter (\<lambda>e. \<not> in_tree (path_segs p) (fst e)) f"
    unfolding that by (rule ext) (simp add: map_of_filter_fst [of "\<lambda>s. \<not> in_tree (path_segs p) s"])
  show "mem_sane f'" using two
  proof cases
    case ok
    have "tree_ok (map_of f')"
      unfolding m [OF ok(3)] using f ok(2) by (intro tree_ok_cut) (simp_all add: mem_sane_def)
    then show ?thesis using f ok(3) by (simp add: mem_sane_def distinct_map_filter)
  qed (use f in simp)
  show "mem_view f' q = mem_view f q" if "\<not> below p q" using two
  proof cases
    case ok
    then show ?thesis using that m [OF ok(3)] below_in_tree [OF ok(1), of q] by (auto simp: mem_view_def)
  qed simp
  show "mem_view f' q = None" if "r = Inr u" "below p q" using two
  proof cases
    case ok
    then show ?thesis using that(2) m [OF ok(3)] below_in_tree [OF ok(1), of q] by (auto simp: mem_view_def)
  qed (use that in simp)
qed

lemma mem_Stat_Inr: "mem_Stat p f = (Inr i, f') \<Longrightarrow>
    f' = f \<and> fi_id i = None \<and> (\<exists>nd. mem_view f p = Some nd \<and> info_matches nd i)"
  using mem_find_view(1) [of p f]
  by (cases "mem_find p f") (auto simp: mem_Stat_def, simp add: mem_info_def)

lemma mem_Stat_Inl: "mem_Stat p f = (Inl e, f') \<Longrightarrow> f' = f \<and> mem_view f p = None"
  by (cases "mem_find p f") (auto simp: mem_Stat_def mem_find_Inl)

lemma mem_Stat_world: "mem_Stat p f = (r, f') \<Longrightarrow> f' = f"
  by (cases r) (auto dest: mem_Stat_Inr mem_Stat_Inl)

lemma mem_Open_world: "mem_Open p f = (r, f') \<Longrightarrow> f' = f"
  by (auto simp: mem_Open_def split: sum.splits)

lemma mem_Open_Inr: "mem_Open p f = (Inr fl, f') \<Longrightarrow> file_name fl = p \<and> mem_view f p \<noteq> None \<and>
    (\<forall>b. mem_view f p = Some (FileNode b) \<longrightarrow> file_reader fl = bytes_reader b)"
proof -
  assume O: "mem_Open p f = (Inr fl, f')"
  then obtain nd where nd: "mem_find p f = Inr nd"
    by (cases "mem_find p f") (auto simp: mem_Open_def)
  then have "mem_view f p = Some nd" by (simp only: mem_find_view(1))
  with O nd show ?thesis by (auto simp: mem_Open_def)
qed

lemma mem_Open_Inl: "mem_Open p f = (Inl e, f') \<Longrightarrow> mem_view f p = None"
  by (cases "mem_find p f") (auto simp: mem_Open_def mem_find_Inl)

lemma mem_ReadDir_world: "mem_ReadDir p f = (r, f') \<Longrightarrow> f' = f"
  by (auto simp: mem_ReadDir_def split: sum.splits node.splits)

lemma mem_ReadDir_missing: "mem_ReadDir p f = (Inl e, f') \<Longrightarrow> errors_Is e ErrNotExist \<Longrightarrow> mem_view f p = None"
  by (cases "mem_find p f") (auto simp: mem_ReadDir_def mem_find_Inl split: node.splits)

lemma mem_ReadDir_real: "mem_ReadDir p f = (Inr es, f') \<Longrightarrow> e \<in> set es \<Longrightarrow> real_seg (fi_name e)"
  by (auto dest!: mem_ReadDir_Inr simp: mem_entries_def mem_info_name)

interpretation mem: afero_fs mem_afero mem_view mem_sane
proof (unfold_locales, goal_cases)
  case 1 then show ?case by (rule mem_tree_closed)
next case 2 then show ?case using mem_Stat_world by fastforce
next case 3 then show ?case using mem_Stat_Inr by fastforce
next case 4 then show ?case using mem_Stat_Inl by fastforce
next case 5 then show ?case using mem_Stat_Inr by (fastforce simp: os_SameFile_def)
next case 6 then show ?case using mem_Open_world by fastforce
next case (7 f p fl f' b) then show ?case using mem_Open_Inr [of p f fl f'] by simp
next case 8 then show ?case using mem_Open_Inr by fastforce
next case 9 then show ?case using mem_Open_Inl by fastforce
next case 10 then show ?case using mem_Stat_world by fastforce
next case (11 f p fl f1 i f2)
  then show ?case using mem_Open_Inr [of p f fl f1] mem_Open_world [of p f _ f1] mem_Stat_Inr [of p f i f2] by auto
next case 12 then show ?case by simp
next case 13 then show ?case using mem_ReadDir_world by fastforce
next case 14 then show ?case using mem_ReadDir_real by fastforce
next case (15 f p es f' en)
  then show ?case using mem_ReadDir_Inr [of p f es f'] mem_entries_info [of f p en] by (simp add: mem_sane_def)
next case (16 f p es f' n)
  then show ?case using mem_ReadDir_Inr [of p f es f'] mem_entries_all [of p n f] by simp
next case 17 then show ?case using mem_ReadDir_missing by fastforce
next case 18 then show ?case using mem_walk_sound by simp
next case 19 then show ?case using mem_walk_complete by simp
next case 20 then show ?case using mem_walk_distinct by simp
next case 21 then show ?case using mem_mkdir_spec(1) by simp
next case 22 then show ?case using mem_mkdir_spec(2) by simp
next case 23 then show ?case using mem_temp_spec(1) by simp
next case 24 then show ?case using mem_temp_spec(2) by (metis mem_sel(8))
next case 25 then show ?case using mem_temp_spec(3) by (metis mem_sel(8))
next case 26 then show ?case using mem_write_spec by (metis mem_sel(9))
next case 27 then show ?case using mem_write_spec by (metis mem_sel(9))
next case 28 then show ?case using mem_write_spec by (metis mem_sel(9))
next case 29 then show ?case by simp
next case 30 then show ?case by simp
next case 31 then show ?case using mem_rename_spec(1) by simp
next case 32 then show ?case using mem_rename_spec(2) by (metis mem_sel(12))
next case 33 then show ?case using mem_rename_spec(3) by (metis mem_sel(12))
next case 34
  have "\<exists>e f'. mem_Rename s d f = (Inl e, f')" if "mem_view f d = Some DirNode" for s d f
  proof -
    obtain r f' where R: "mem_Rename s d f = (r, f')" by fastforce
    from R have "\<exists>e. r = Inl e" by (cases rule: mem_rename_cases) (use that in auto)
    with R show ?thesis by blast
  qed
  then show ?case by simp
next case 35 then show ?case using mem_remove_spec(3) by simp
next case 36 then show ?case using mem_remove_spec(1) by (metis mem_sel(13))
next case (37 f p e f')
  then show ?case
    by (cases "mem_find p f") (auto simp: mem_Remove_def mem_find_Inl split: node.splits if_splits)
next case 38 then show ?case using mem_remove_spec(4) by (metis mem_sel(13))
next case 39 then show ?case using mem_removeall_spec(1) by simp
next case 40 then show ?case using mem_removeall_spec(2) by simp
next case 41 then show ?case using mem_removeall_spec(3) by (metis mem_sel(14))
next case (42 f p m u f')
  then have "map_of f [] = Some DirNode" "abs_path p" "mem_mkdirs [] (path_segs p) f = (Inr u, f')"
    by (auto simp: mem_sane_def tree_ok_def mem_MkdirAll_def split: if_splits)
  then show ?case using mem_mkdirs_ok [of "[]" "path_segs p" f u f'] by (simp add: mem_view_def)
qed

end
