(* ===== verification/Fs_Properties.thy ===== *)
theory Fs_Properties
  imports Memfs
begin

text \<open>
  What the file system storage promises, for every file system that obeys the laws of
  \<open>Fs_Laws\<close>: it implements the storage contract, a failed write loses nothing, \<open>Delete\<close> is all
  or nothing, \<open>DeleteAll\<close> removes exactly a subtree, a range is a clamped slice, a listing is
  sorted and exact, and a guarded storage cannot be navigated out of its tree. Each is evaluated on the
  concrete file system of \<open>Memfs\<close>.
\<close>

section \<open>The example storage\<close>

text \<open>The tree the examples run on: the storage \<open>/d\<close> with two objects under \<open>a\<close>.\<close>

definition example_fs :: memfs where
  "example_fs = [([''d'', ''a'', ''x''], FileNode [1, 2]), ([''d'', ''a'', ''s'', ''y''], FileNode [3]),
     ([''d'', ''a'', ''s''], DirNode), ([''d'', ''a''], DirNode), ([''d''], DirNode), ([], DirNode)]"

abbreviation example_storage :: fs_storage where
  "example_storage \<equiv> fs_New ''/d'' []"

lemma example_sane: "mem_sane example_fs"
  by (auto simp: mem_sane_def tree_ok_def example_fs_def real_seg_def split: if_splits)

lemma example_wf: "fs_wf mem_sane example_storage example_fs"
  by (simp add: fs_wf_def example_sane fs_New_def)

lemma example_objs:
  "fs_objs mem_view example_storage example_fs ''a/x'' = Some [1, 2]"
  "fs_objs mem_view example_storage example_fs ''a/s/y'' = Some [3]"
  by code_simp+

section \<open>The contract\<close>

text \<open>
  C6. On any file system that obeys the laws, the methods of the file system storage implement the
  storage contract, bare and behind the guard: get, put, copy, exists and list act on a map from
  clean keys to contents.
\<close>

theorem fs_refines_contract:
  assumes "afero_fs af view sane"
  shows "storager_contract (fs_ops pick af) (fs_objs view) (fs_wf sane) \<and>
    storager_contract (guard_ops (fs_ops pick af)) (\<lambda>g. fs_objs view (inner g)) (\<lambda>g. fs_wf sane (inner g))"
  using afero_fs.fs_contract [OF assms] afero_fs.fs_guarded_contract [OF assms] by blast

theorem fs_refines_contract_witness:
  "storager_contract (guard_ops (fs_ops (\<lambda>_. 0) mem_afero)) (\<lambda>g. fs_objs mem_view (inner g))
     (\<lambda>g. fs_wf mem_sane (inner g))"
  using fs_refines_contract [OF mem.afero_fs_axioms] by blast

section \<open>Writes\<close>

text \<open>
  C13. A put either succeeds, and the one key it names holds the whole body while no other object
  changes, or fails, and every object, the destination included, is as it was.
\<close>

theorem fs_PutObject_atomic:
  assumes "afero_fs af view sane" "fs_wf sane s f" "key_ok k"
    and "fs_PutObject af s ctx k body f = (r, f')"
  shows "case r of
     Inr n \<Rightarrow> rd_end body = None \<and> n = length (rd_bytes body) \<and>
       fs_objs view s f' = (fs_objs view s f)(k \<mapsto> rd_bytes body)
   | Inl e \<Rightarrow> fs_objs view s f \<subseteq>\<^sub>m fs_objs view s f'"
proof (cases r)
  case (Inl e)
  have "view f \<subseteq>\<^sub>m view f'"
    using afero_fs.put_spec(2) [OF assms(1) _ _ assms(3,4) Inl] assms(2) by (simp add: fs_wf_def)
  with Inl show ?thesis by (simp add: fs_objs_kept)
next
  case (Inr n)
  with storager_contract.put_ok [OF afero_fs.fs_contract [OF assms(1)] assms(2,3), of _ ctx body n f']
    assms(4) show ?thesis by simp
qed

theorem fs_PutObject_atomic_witness:
  "\<exists>f'. fs_PutObject mem_afero example_storage (\<lambda>_. None) ''a/x'' (bytes_reader [9]) example_fs = (Inr 1, f') \<and>
     fs_objs mem_view example_storage f' = (fs_objs mem_view example_storage example_fs)(''a/x'' \<mapsto> [9])"
proof -
  have "fst (fs_PutObject mem_afero example_storage (\<lambda>_. None) ''a/x'' (bytes_reader [9]) example_fs) = Inr 1"
    by code_simp
  then obtain f' where run:
    "fs_PutObject mem_afero example_storage (\<lambda>_. None) ''a/x'' (bytes_reader [9]) example_fs = (Inr 1, f')"
    by (metis prod.collapse)
  have "key_ok ''a/x''" by (simp add: key_ok_def path_simps)
  from fs_PutObject_atomic [OF mem.afero_fs_axioms example_wf this run] run show ?thesis by simp
qed

text \<open>
  C14. A copy either succeeds, and the destination holds the content of the source, or fails, and
  every object, the destination included, is as it was.
\<close>

theorem fs_Copy_atomic:
  assumes "afero_fs af view sane" "fs_wf sane s f" "key_ok k" "key_ok l"
    and "fs_Copy af s ctx k l opts f = (r, f')"
  shows "case r of
     Inr c \<Rightarrow> (\<exists>b. fs_objs view s f k = Some b \<and> fs_objs view s f' = (fs_objs view s f)(l \<mapsto> b) \<and>
       (Bytes c = wrap64 (int (length b)) \<or> Bytes c = 0 \<and> fs_objs view s f l = Some b))
   | Inl e \<Rightarrow> fs_objs view s f \<subseteq>\<^sub>m fs_objs view s f'"
proof (cases r)
  case (Inl e)
  have "view f \<subseteq>\<^sub>m view f'"
    using afero_fs.copy_spec [OF assms(1) _ _ assms(4,5)] assms(2) Inl by (simp add: fs_wf_def)
  with Inl show ?thesis by (simp add: fs_objs_kept)
next
  case (Inr c)
  with storager_contract.copy_ok [OF afero_fs.fs_contract [OF assms(1)] assms(2-4), of _ ctx opts c f']
    sized_contract.copy_bytes [OF afero_fs.fs_sized [OF assms(1)] assms(2-4), of _ ctx opts c f']
    assms(5) show ?thesis by fastforce
qed

theorem fs_Copy_atomic_witness:
  "\<exists>e f'. fs_Copy mem_afero example_storage (\<lambda>_. Some Canceled) ''a/x'' ''b/z'' [] example_fs = (Inl e, f') \<and>
     fs_objs mem_view example_storage example_fs \<subseteq>\<^sub>m fs_objs mem_view example_storage f'"
proof -
  have "fst (fs_Copy mem_afero example_storage (\<lambda>_. Some Canceled) ''a/x'' ''b/z'' [] example_fs) =
      Inl (Errorf ''error copying to'' [Canceled])"
    by code_simp
  then obtain f' where run: "fs_Copy mem_afero example_storage (\<lambda>_. Some Canceled) ''a/x'' ''b/z'' [] example_fs =
      (Inl (Errorf ''error copying to'' [Canceled]), f')"
    by (metis prod.collapse)
  have "key_ok ''a/x''" "key_ok ''b/z''" by (simp_all add: key_ok_def path_simps)
  from fs_Copy_atomic [OF mem.afero_fs_axioms example_wf this run] run show ?thesis by simp
qed

section \<open>Deletes\<close>

text \<open>
  C15. \<open>Delete\<close> is all or nothing on its paths: if any of them is not an object nothing is removed
  and a \<open>MissingObjectsError\<close> names exactly those paths, in order; if it succeeds every path was an
  object and exactly those objects are gone.
\<close>

theorem fs_Delete_all_or_nothing:
  assumes "afero_fs af view sane" "fs_wf sane s f" "\<forall>k \<in> set ks. key_ok k"
    and "fs_Delete af s ctx ks f = (r, f')"
  shows "((\<exists>k \<in> set ks. fs_objs view s f k = None) \<longrightarrow>
      fs_objs view s f' = fs_objs view s f \<and> (\<exists>e. r = Inl e \<and> (\<forall>m. e = MissingObjectsError m \<longrightarrow>
        m = filter (\<lambda>k. fs_objs view s f k = None) ks))) \<and>
    (r = Inr () \<longrightarrow> (\<forall>k \<in> set ks. fs_objs view s f k \<noteq> None) \<and>
      fs_objs view s f' = fs_objs view s f |` (- set ks))"
proof -
  have f: "sane f" using assms(2) by (simp add: fs_wf_def)
  note spec = afero_fs.delete_spec [OF assms(1) f assms(3,4)]
  show ?thesis
    using spec(2,3) fs_objs_cong [of view f' f s] by blast
qed

theorem fs_Delete_all_or_nothing_witness:
  "\<exists>f'. fs_Delete mem_afero example_storage (\<lambda>_. None) [''a/x'', ''nope'', ''a/s''] example_fs =
      (Inl (MissingObjectsError [''nope'', ''a/s'']), f') \<and>
     fs_objs mem_view example_storage f' ''a/x'' = Some [1, 2]"
proof -
  have "fst (fs_Delete mem_afero example_storage (\<lambda>_. None) [''a/x'', ''nope'', ''a/s''] example_fs) =
      Inl (MissingObjectsError [''nope'', ''a/s''])"
    by code_simp
  then obtain f' where run: "fs_Delete mem_afero example_storage (\<lambda>_. None) [''a/x'', ''nope'', ''a/s''] example_fs =
      (Inl (MissingObjectsError [''nope'', ''a/s'']), f')"
    by (metis prod.collapse)
  have keys: "\<forall>k \<in> set [''a/x'', ''nope'', ''a/s'']. key_ok k" by (simp add: key_ok_def path_simps)
  have "fs_objs mem_view example_storage example_fs ''nope'' = None"
    "fs_objs mem_view example_storage example_fs ''a/s'' = None"
    by code_simp+
  with fs_Delete_all_or_nothing [OF mem.afero_fs_axioms example_wf keys run] run example_objs(1)
  show ?thesis by simp
qed

text \<open>
  C21. \<open>DeleteAll\<close> never touches an object outside the prefix; when it succeeds nothing at or below
  the prefix is left; when it reports the prefix missing there was nothing there.
\<close>

theorem fs_DeleteAll_exact:
  assumes "afero_fs af view sane" "fs_wf sane s f" "key_ok k"
    and "fs_DeleteAll af s ctx k f = (r, f')"
  shows "(\<forall>l. \<not> under k l \<longrightarrow> fs_objs view s f' l = fs_objs view s f l) \<and>
    (r = Inr () \<longrightarrow> fs_objs view s f' = fs_objs view s f |` {l. \<not> under k l}) \<and>
    (\<forall>m. r = Inl (MissingObjectsError m) \<longrightarrow> m = [k] \<and> (\<forall>l. under k l \<longrightarrow> fs_objs view s f l = None))"
proof -
  have f: "sane f" "fs_cwd s \<noteq> ''''" using assms(2) by (simp_all add: fs_wf_def)
  note spec = afero_fs.deleteall_spec [OF assms(1) f assms(3,4)]
  show ?thesis using spec(2-4) by blast
qed

theorem fs_DeleteAll_exact_witness:
  "\<exists>f'. fs_DeleteAll mem_afero example_storage (\<lambda>_. None) ''a/s'' example_fs = (Inr (), f') \<and>
     fs_objs mem_view example_storage f' ''a/x'' = Some [1, 2]"
proof -
  have "fst (fs_DeleteAll mem_afero example_storage (\<lambda>_. None) ''a/s'' example_fs) = Inr ()"
    by code_simp
  then obtain f' where run: "fs_DeleteAll mem_afero example_storage (\<lambda>_. None) ''a/s'' example_fs = (Inr (), f')"
    by (metis prod.collapse)
  have "key_ok ''a/s''" by (simp add: key_ok_def path_simps)
  note spec = fs_DeleteAll_exact [OF mem.afero_fs_axioms example_wf this run]
  have "\<not> under ''a/s'' ''a/x''" by code_simp
  with spec run example_objs(1) show ?thesis by simp
qed

section \<open>Reads\<close>

text \<open>
  A range read of an object delivers the requested slice clamped to the end of the object (all
  of the rest for a negative length), and only for an offset inside the object; a negative offset
  or a zero length is \<open>ErrInvalidRange\<close>.
\<close>

theorem fs_GetObjectRange_slice:
  assumes "afero_fs af view sane" "fs_wf sane s f" "key_ok k" "fs_objs view s f k = Some b"
    and "fs_GetObjectRange af s ctx k off len f = (r, f')"
  shows "fs_objs view s f' = fs_objs view s f \<and>
    (off < 0 \<or> len = 0 \<longrightarrow> r = Inl ErrInvalidRange) \<and>
    (\<forall>rd. r = Inr rd \<longrightarrow> 0 \<le> off \<and> off < int (length b) \<and> len \<noteq> 0 \<and>
       (rd_end rd = None \<longrightarrow> rd_bytes rd =
          (if len < 0 then drop (nat off) b else take (nat len) (drop (nat off) b))))"
proof -
  have f: "sane f" using assms(2) by (simp add: fs_wf_def)
  have v: "view f (path_Join (fs_cwd s) k) = Some (FileNode b)"
    using assms(3,4) by (simp add: fs_objs_def)
  note spec = afero_fs.range_spec [OF assms(1) f assms(5)]
  have "fs_objs view s f' = fs_objs view s f" using spec(1) fs_objs_cong [of view f' f s] by simp
  moreover have "\<forall>rd. r = Inr rd \<longrightarrow> 0 \<le> off \<and> off < int (length b) \<and> len \<noteq> 0 \<and>
      (rd_end rd = None \<longrightarrow> rd_bytes rd = clamped off len b)"
    using spec(3) [OF v] by blast
  ultimately show ?thesis using spec(2) unfolding clamped_def by blast
qed

theorem fs_GetObjectRange_slice_witness:
  "\<exists>rd f'. fs_GetObjectRange mem_afero example_storage (\<lambda>_. None) ''a/x'' 1 9 example_fs = (Inr rd, f') \<and>
     0 \<le> (1 :: int64) \<and> (rd_end rd = None \<longrightarrow> rd_bytes rd = [2])"
proof -
  let ?call = "fs_GetObjectRange mem_afero example_storage (\<lambda>_. None) ''a/x'' 1 9 example_fs"
  have "case fst ?call of Inr rd \<Rightarrow> rd_bytes rd = [2] | Inl e \<Rightarrow> False" by code_simp
  then obtain rd f' where run: "?call = (Inr rd, f')"
    by (cases ?call) (auto split: sum.splits)
  have k: "key_ok ''a/x''" by (simp add: key_ok_def path_simps)
  from fs_GetObjectRange_slice [OF mem.afero_fs_axioms example_wf k example_objs(1) run] run
  show ?thesis by auto
qed

text \<open>
  C20. A listing holds exactly the objects under the prefix, by their names relative to it, each
  once and in ascending order, with the sizes of their contents; listing changes nothing.
\<close>

theorem fs_List_exact:
  assumes "afero_fs af view sane" "fs_wf sane s f" "stays_inside p"
    and "fs_List af s ctx p f = (Inr os, f')"
  shows "fs_objs view s f' = fs_objs view s f \<and> sorted_wrt (<) (map Name os) \<and>
    Name ` set os = {k. key_ok k \<and> fs_objs view s f (path_Join p k) \<noteq> None} \<and>
    (\<forall>x \<in> set os. \<exists>b. fs_objs view s f (path_Join p (Name x)) = Some b \<and> Size x = int (length b))"
proof -
  note c = afero_fs.fs_contract [OF assms(1)]
  have L: "List_op (fs_ops (\<lambda>_. 0) af) s ctx p f = (Inr os, f')" using assms(4) by simp
  have fr: "fs_objs view s f' = fs_objs view s f"
    using storager_contract.list_frame [OF c assms(2,3) L] by blast
  have lc: "sorted_wrt (<) (map Name os) \<and>
      (\<forall>k. key_ok k \<longrightarrow> (fs_objs view s f (path_Join p k) \<noteq> None \<longleftrightarrow> k \<in> Name ` set os)) \<and>
      (\<forall>x \<in> set os. Exist x \<and> key_ok (Name x))"
    using storager_contract.list_content [OF c assms(2,3) L] .
  have "\<exists>b. fs_objs view s f (path_Join p (Name x)) = Some b \<and> Size x = int (length b)" if "x \<in> set os" for x
    using lc that sized_contract.list_size [OF afero_fs.fs_sized [OF assms(1)] assms(2,3) L that]
    by (metis imageI not_None_eq)
  with fr lc show ?thesis by blast
qed

theorem fs_List_exact_witness:
  "\<exists>os f'. fs_List mem_afero example_storage (\<lambda>_. None) ''a'' example_fs = (Inr os, f') \<and>
     ''x'' \<in> Name ` set os"
proof -
  have "case fst (fs_List mem_afero example_storage (\<lambda>_. None) ''a'' example_fs) of Inr os \<Rightarrow> True | Inl e \<Rightarrow> False"
    by code_simp
  then obtain os f' where run: "fs_List mem_afero example_storage (\<lambda>_. None) ''a'' example_fs = (Inr os, f')"
    by (cases "fs_List mem_afero example_storage (\<lambda>_. None) ''a'' example_fs") (auto split: sum.splits)
  have p: "stays_inside ''a''" by (simp add: stays_inside_def path_simps)
  have "path_Join ''a'' ''x'' = ''a/x''" "key_ok ''x''" by code_simp+
  with fs_List_exact [OF mem.afero_fs_axioms example_wf p run] run example_objs(1) show ?thesis by simp
qed

text \<open>
  C22. Whatever path of relative re-rootings and directory listings a caller follows from a
  guarded file system storage, it stays guarded and stays in the tree it started in.
\<close>

theorem fs_guarded_navigation:
  assumes "afero_fs af view sane" "nav (guard_ops (fs_ops pick af)) g g'" "guarded g"
  shows "guarded g' \<and> (\<exists>rel. path_segs (guard_GetCwd (fs_ops pick af) g') =
     path_segs (guard_GetCwd (fs_ops pick af) g) @ rel \<and> ''..'' \<notin> set rel)"
  using navigator.guard_nav_below [OF afero_fs.fs_navigator [OF assms(1)] assms(2,3)]
    nav_guarded [OF assms(2,3)] by blast

theorem fs_guarded_navigation_witness:
  "\<exists>g'. SubStorage (guard_ops (fs_ops (\<lambda>_. 0) mem_afero)) (fs_Guarded example_storage) ''a/../a/s'' True = Inr g' \<and>
     guarded g'"
proof -
  let ?st = "guard_ops (fs_ops (\<lambda>_. 0) mem_afero)"
  have g: "guarded (fs_Guarded example_storage)" by (simp add: fs_Guarded_def fs_New_def)
  obtain g' where sub: "SubStorage ?st (fs_Guarded example_storage) ''a/../a/s'' True = Inr g'"
    by (simp add: fs_Guarded_def fs_New_def listPrefix_def clean_def escapes_def path_simps fs_SubStorage_def)
  have "nav ?st (fs_Guarded example_storage) g'" by (rule nav_sub [OF nav_here sub])
  from fs_guarded_navigation [OF mem.afero_fs_axioms this g] sub show ?thesis by blast
qed

section \<open>Where the code is wider than the interface\<close>

text \<open>
  The interface speaks of objects; the backend answers for directories too: one exists, and an empty
  one is a prefix that can be deleted.
\<close>

lemma fs_directory_exists:
  "fst (fs_Exists mem_afero example_storage (\<lambda>_. None) ''a/s'' example_fs) = Inr True"
  by code_simp

lemma fs_empty_directory_deleted:
  "fst (fs_DeleteAll mem_afero example_storage (\<lambda>_. None) ''e'' (([''d'', ''e''], DirNode) # example_fs)) = Inr ()"
  by code_simp

end
