(* ===== verification/Enc_Properties.thy ===== *)
theory Enc_Properties
  imports Plain_Age Fs_Properties
begin

text \<open>
  The properties of the encrypted storage: over every storage with the contract and every age with
  its laws, and evaluated on the file system storage over the in-memory file system with the format
  of \<open>Plain_Age\<close>.
\<close>

section \<open>The storage below\<close>

interpretation mem_enc: encrypted_sized
  "fs_ops pick mem_afero" "fs_objs mem_view" "fs_wf mem_sane" plain_age plain_opens plain_sealed "\<lambda>_. 0"
  for pick
  by unfold_locales auto

definition example_enc :: "(fs_storage, unit, unit) enc_storage" where
  "example_enc = \<lparr>es_store = example_storage, es_identity = (), es_recipient = (), es_layout = plain_layout\<rparr>"

lemma example_enc_wf: "enc_wf plain_age (fs_wf mem_sane) example_enc example_fs"
  using example_wf by (simp add: enc_wf_def example_enc_def)

section \<open>Contract\<close>

text \<open>
  C9. The encrypted storage is a storage: over any storage that keeps the contract it keeps the
  contract itself, the contents being the plaintexts, and so it does over a guarded one.
\<close>

theorem enc_refines_contract:
  assumes "encrypted_store st objs good age opens sealed hdr"
  shows "storager_contract (enc_ops pick age st) (enc_objs objs opens) (enc_wf age good) \<and>
    storager_contract (enc_ops pick age (guard_ops st))
      (enc_objs (\<lambda>g. objs (inner g)) opens) (enc_wf age (\<lambda>g. good (inner g)))"
  using encrypted_store.enc_contract [OF assms]
    encrypted_store.enc_contract [OF encrypted_store.guarded_encrypted [OF assms]] by blast

theorem enc_refines_contract_witness:
  "storager_contract (enc_ops (\<lambda>_. 0) plain_age (fs_ops (\<lambda>_. 0) mem_afero))
     (enc_objs (fs_objs mem_view) plain_opens) (enc_wf plain_age (fs_wf mem_sane))"
  using enc_refines_contract [OF mem_enc.encrypted_store_axioms] by blast

text \<open>
  C26. Round trip: what a put has written the store holds as a file sealed to the identity, and a get
  whose body the store delivers in full returns exactly the bytes put, ending cleanly.
\<close>

theorem enc_roundtrip:
  assumes "encrypted_store st objs good age opens sealed hdr" "enc_wf age good s w" "key_ok k"
    and put: "enc_PutObject age st s ctx k body w = (Inr n, w1)"
    and get: "GetObject st (es_store s) ctx k w1 = (Inr stored, w2)" "rd_end stored = None"
  shows "sealed (es_identity s) (rd_bytes stored) (rd_bytes body) \<and> n = length (rd_bytes body) \<and>
    (\<exists>r. enc_GetObject age st s ctx k w1 = (Inr r, w2) \<and> rd_end r = None \<and> rd_bytes r = rd_bytes body)"
proof -
  obtain ct where p: "n = length (rd_bytes body)" "enc_wf age good s w1" "sealed (es_identity s) ct (rd_bytes body)"
    and o: "objs (es_store s) w1 k = Some ct"
    using encrypted_store.enc_put_ok [OF assms(1-4)] by auto
  have "storager_contract st objs good" using assms(1) by (simp add: encrypted_store_def)
  then have eq: "rd_bytes stored = ct"
    using storager_contract.get_content [of st objs good, OF _ _ assms(3) o get] p(2) by (simp add: enc_wf_def)
  moreover have "age_spec age opens sealed hdr" using assms(1) by (simp add: encrypted_store_def)
  from age_spec.sealed_opens [OF this p(3)] have "opens (es_identity s) ct = Some (rd_bytes body)" .
  ultimately show ?thesis
    using encrypted_store.enc_get_delivers [OF assms(1) get] p by simp
qed

definition example_sealed :: reader where
  "example_sealed = \<lparr>rd_chunks = [[5, 6, 7, 0, 0, 0, 0, 0, 0, 0, 0, 0, 0, 0, 0, 0, 0, 0, 0]], rd_end = None, rd_close = None\<rparr>"

lemma seal_example: "seal [5, 6, 7] = [5, 6, 7, 0, 0, 0, 0, 0, 0, 0, 0, 0, 0, 0, 0, 0, 0, 0, 0]"
proof -
  have "tag = [0, 0, 0, 0, 0, 0, 0, 0, 0, 0, 0, 0, 0, 0, 0, 0]" by (simp add: tag_def numeral_eq_Suc)
  then show ?thesis by (simp add: seal.simps)
qed

lemma example_sealed_bytes: "rd_bytes example_sealed = seal [5, 6, 7]"
  by (simp add: example_sealed_def rd_bytes_def seal_example)

lemma example_enc_put:
  "enc_PutObject plain_age st example_enc ctx k (bytes_reader [5, 6, 7]) =
     bindIO (PutObject st example_storage ctx k example_sealed) (\<lambda>_. ret 3)"
  by (intro ext)
    (simp add: enc_PutObject_def tryIO_apply example_sealed_def example_enc_def numeral_3_eq_3 seal_example)

lemma example_put:
  "case fst (fs_PutObject mem_afero example_storage (\<lambda>_. None) ''e/z'' example_sealed example_fs) of
     Inr n \<Rightarrow> True | Inl e \<Rightarrow> False"
  by code_simp

lemma example_get:
  "case fs_GetObject mem_afero example_storage (\<lambda>_. None) ''e/z''
     (snd (fs_PutObject mem_afero example_storage (\<lambda>_. None) ''e/z'' example_sealed example_fs)) of
     (Inr b, w2) \<Rightarrow> rd_end b = None | (Inl e, w2) \<Rightarrow> False"
  by code_simp

theorem enc_roundtrip_witness:
  "\<exists>w1 w2 r. enc_PutObject plain_age (fs_ops (\<lambda>_. 0) mem_afero) example_enc (\<lambda>_. None) ''e/z'' (bytes_reader [5, 6, 7]) example_fs =
       (Inr 3, w1) \<and>
     enc_GetObject plain_age (fs_ops (\<lambda>_. 0) mem_afero) example_enc (\<lambda>_. None) ''e/z'' w1 = (Inr r, w2) \<and>
     rd_bytes r = [5, 6, 7]"
proof -
  let ?st = "fs_ops (\<lambda>_. 0) mem_afero"
  let ?put = "enc_PutObject plain_age ?st example_enc (\<lambda>_. None) ''e/z'' (bytes_reader [5, 6, 7]) example_fs"
  obtain m w1 where fsput: "fs_PutObject mem_afero example_storage (\<lambda>_. None) ''e/z'' example_sealed example_fs = (Inr m, w1)"
    using io_succeeds [OF example_put] by blast
  then have put: "?put = (Inr 3, w1)" by (simp add: example_enc_put bindIO_apply)
  obtain b w2 where get: "GetObject ?st (es_store example_enc) (\<lambda>_. None) ''e/z'' w1 = (Inr b, w2)" "rd_end b = None"
    using example_get fsput by (auto simp: example_enc_def split: prod.splits sum.splits)
  have "key_ok ''e/z''" by (simp add: key_ok_def path_simps)
  from enc_roundtrip [OF mem_enc.encrypted_store_axioms example_enc_wf this put get] put show ?thesis by auto
qed

section \<open>Ranges and sizes\<close>

definition example_enc_fs :: memfs where
  "example_enc_fs = snd (fs_PutObject mem_afero example_storage (\<lambda>_. None) ''e/z'' example_sealed example_fs)"

lemma example_enc_holds:
  "enc_wf plain_age (fs_wf mem_sane) example_enc example_enc_fs"
  "fs_objs mem_view (es_store example_enc) example_enc_fs ''e/z'' = Some (seal [5, 6, 7])"
  "fits (\<lambda>_. 0) plain_sealed example_enc (seal [5, 6, 7]) [5, 6, 7]"
proof -
  obtain m where run: "PutObject (fs_ops (\<lambda>_. 0) mem_afero) example_storage (\<lambda>_. None) ''e/z'' example_sealed example_fs = (Inr m, example_enc_fs)"
    using io_succeeds [OF example_put] by (auto simp: example_enc_fs_def)
  have "key_ok ''e/z''" by (simp add: key_ok_def path_simps)
  from mem.contract.put_ok [OF example_wf this run]
  have "fs_objs mem_view example_storage example_enc_fs ''e/z'' = Some (rd_bytes example_sealed)"
    "fs_wf mem_sane example_storage example_enc_fs" by auto
  then show "enc_wf plain_age (fs_wf mem_sane) example_enc example_enc_fs"
    "fs_objs mem_view (es_store example_enc) example_enc_fs ''e/z'' = Some (seal [5, 6, 7])"
    by (simp_all add: enc_wf_def example_enc_def example_sealed_bytes)
  show "fits (\<lambda>_. 0) plain_sealed example_enc (seal [5, 6, 7]) [5, 6, 7]"
    by (simp add: fits_def plain_sealed_def example_enc_def plain_layout_def headerReadSize_def
        seal_example MaxInt64_def encChunkSize_def)
qed

lemma mem_steady:
  assumes "fs_objs mem_view s v k = Some b" "fs_GetObjectRange mem_afero s ctx k off len v = (Inr r, v')"
  shows "rd_end r = None"
proof -
  from assms(1) have "mem_view v (path_Join (fs_cwd s) k) = Some (FileNode b)" by (auto simp: fs_objs_def split: if_splits)
  with assms(2) mem_Open_Inr [of "path_Join (fs_cwd s) k" v] show ?thesis
    by (auto simp: fs_GetObjectRange_def tryIO_apply section_reader_def reader_from_def
        split: if_splits prod.splits sum.splits)
qed

text \<open>
  C17. A range read of an encrypted object is the slice of its plaintext, clamped to the end, however
  large the object and whichever way its ciphertext is fetched: it returns, ends cleanly and leaves
  the storage as it was. The store's range bodies are taken not to fail half way.
\<close>

theorem enc_range_slice:
  assumes "encrypted_sized st objs good age opens sealed hdr" "enc_wf age good s w" "key_ok k"
    and "objs (es_store s) w k = Some ct" "fits hdr sealed s ct p"
    and "\<And>a b v r v'. good (es_store s) v \<Longrightarrow> objs (es_store s) v k = Some ct \<Longrightarrow>
      GetObjectRange st (es_store s) ctx k a b v = (Inr r, v') \<Longrightarrow> rd_end r = None"
    and "enc_GetObjectRange age st s ctx k off len w = (Inr res, w')"
  shows "0 \<le> off \<and> off < int (length p) \<and> enc_objs objs opens s w' = enc_objs objs opens s w \<and>
    (\<exists>rd. res = Some rd \<and> rd_end rd = None \<and>
       rd_bytes rd = (if len < 0 then drop (nat off) p else take (nat len) (drop (nat off) p)))"
proof -
  have "0 \<le> off \<and> off < int (length p) \<and> len \<noteq> 0 \<and> enc_objs objs opens s w' = enc_objs objs opens s w \<and>
    (\<exists>rd. res = Some rd \<and> rd_end rd = None \<and> rd_bytes rd = clamped off len p)"
    by (rule encrypted_sized.enc_range [OF assms(1-5) _ assms(7)]) (rule assms(6))
  then show ?thesis by (simp add: clamped_def)
qed

lemma example_enc_calls:
  "case fs_Stat mem_afero example_storage ''e/z'' example_enc_fs of
     (Inr si, w) \<Rightarrow> Exist si \<and> Size si = 19 \<and>
       (case fs_GetObject mem_afero example_storage (\<lambda>_. None) ''e/z'' w of
          (Inr b, w') \<Rightarrow> rd_end b = None \<and> rd_bytes b = rd_bytes example_sealed | (Inl e, w') \<Rightarrow> False)
   | (Inl e, w) \<Rightarrow> False"
  by code_simp

lemma example_enc_range:
  "\<exists>res w'. enc_GetObjectRange plain_age (fs_ops (\<lambda>_. 0) mem_afero) example_enc (\<lambda>_. None) ''e/z'' 1 9 example_enc_fs =
     (Inr res, w')"
proof -
  obtain si w b w' where S: "fs_Stat mem_afero example_storage ''e/z'' example_enc_fs = (Inr si, w)" "Exist si" "Size si = 19"
    and G: "fs_GetObject mem_afero example_storage (\<lambda>_. None) ''e/z'' w = (Inr b, w')" "rd_end b = None"
      "rd_bytes b = rd_bytes example_sealed"
    using example_enc_calls by (auto split: prod.splits sum.splits)
  have b: "rd_bytes b = seal [5, 6, 7]" by (simp add: G(3) example_sealed_bytes)
  have len: "int (length (seal [5, 6, 7])) = 19" by (simp add: seal_example)
  have sz: "plaintextSize (es_layout example_enc) 19 = Some 3" by code_simp
  have fin: "range_end 3 1 9 = 3" "sub64 3 1 = 2" by code_simp+
  obtain rd where "decrypt_range (plain_age :: (unit, unit, int64, memfs) age) () 19 1 2 (Whole (seal [5, 6, 7])) = Some (Inr rd)"
    using mem_enc.decrypt_whole [OF seal_opens [of "()"], of 1 2 "[5, 6, 7]"] len by auto
  then show ?thesis
    using S G(1,2) sz fin b
    by (simp add: enc_GetObjectRange_def bindIO_apply example_enc_def openRangeSource_def wholeObjectSize_def
        readWholeSource_def readAll_def Let_def)
qed

theorem enc_range_slice_witness:
  "\<exists>rd w'. enc_GetObjectRange plain_age (fs_ops (\<lambda>_. 0) mem_afero) example_enc (\<lambda>_. None) ''e/z'' 1 9 example_enc_fs =
     (Inr (Some rd), w') \<and> rd_bytes rd = [6, 7]"
proof -
  obtain res w' where run: "enc_GetObjectRange plain_age (fs_ops (\<lambda>_. 0) mem_afero) example_enc (\<lambda>_. None) ''e/z'' 1 9
      example_enc_fs = (Inr res, w')"
    using example_enc_range by blast
  have "key_ok ''e/z''" by (simp add: key_ok_def path_simps)
  note spec = enc_range_slice [OF mem_enc.encrypted_sized_axioms example_enc_holds(1) this example_enc_holds(2,3) _ run]
  have "\<exists>rd. res = Some rd \<and> rd_bytes rd = [6, 7]"
    using spec mem_steady by fastforce
  with run show ?thesis by blast
qed

text \<open>
  C30. \<open>Stat\<close>, \<open>List\<close> and \<open>Copy\<close> of an encrypted storage report plaintext bytes.
\<close>

theorem enc_reports_plaintext:
  assumes "encrypted_sized st objs good age opens sealed hdr" "enc_wf age good s w" "fits hdr sealed s ct p"
  shows "(key_ok k \<and> objs (es_store s) w k = Some ct \<and> enc_Stat st s k w = (Inr si, w1) \<longrightarrow>
       Exist si \<and> Size si = int (length p)) \<and>
    (stays_inside q \<and> enc_List st s ctx q w = (Inr os, w2) \<and> x \<in> set os \<and>
       objs (es_store s) w (path_Join q (Name x)) = Some ct \<longrightarrow> Size x = int (length p)) \<and>
    (key_ok k \<and> key_ok d \<and> objs (es_store s) w k = Some ct \<and> enc_Copy st s ctx k d opts w = (Inr c, w3) \<longrightarrow>
       Bytes c = int (length p) \<or> Bytes c = 0 \<and> objs (es_store s) w d = Some ct)"
  using encrypted_sized.enc_sizes [OF assms] by blast

theorem enc_reports_plaintext_witness:
  "\<exists>si w1. enc_Stat (fs_ops (\<lambda>_. 0) mem_afero) example_enc ''e/z'' example_enc_fs = (Inr si, w1) \<and> Size si = 3"
proof -
  obtain si w where "fs_Stat mem_afero example_storage ''e/z'' example_enc_fs = (Inr si, w)" "Exist si"
    using example_enc_calls by (auto split: prod.splits sum.splits)
  then obtain si' where run: "enc_Stat (fs_ops (\<lambda>_. 0) mem_afero) example_enc ''e/z'' example_enc_fs = (Inr si', w)"
    by (simp add: enc_Stat_def bindIO_apply example_enc_def)
  have "key_ok ''e/z''" by (simp add: key_ok_def path_simps)
  with enc_reports_plaintext [OF mem_enc.encrypted_sized_axioms [of "\<lambda>_. 0"] example_enc_holds(1,3), of "''e/z''" si' w] run example_enc_holds(2)
  have "Size si' = int (length [5, 6, 7 :: byte])" by blast
  with run show ?thesis by simp
qed

section \<open>Failures\<close>



section \<open>Opening a storage\<close>

text \<open>
  C31. A storage \<open>New\<close> returns fits the objects of its identity: its layout has the measured
  header, no longer than a range read holds, and every storage reached from it by \<open>SubStorage\<close> or
  \<open>ListDir\<close> keeps the identity, the recipient and the layout.
\<close>

theorem enc_New_fits:
  assumes "age_spec age opens sealed hdr" "enc_New age (Some h) (Some i) w = (Inr s, w')"
  shows "es_store s = h \<and> es_identity s = i \<and> es_recipient s = age_Recipient age i \<and>
    es_layout s = \<lparr>payloadOffset = hdr i\<rparr> \<and> sane_layout (es_layout s) \<and>
    (\<forall>p rel sub. enc_SubStorage st s p rel = Inr sub \<longrightarrow> sub = s\<lparr>es_store := es_store sub\<rparr>) \<and>
    (\<forall>ctx v files dirs v' sub. enc_ListDir st s ctx v = (Inr (files, dirs), v') \<and> sub \<in> set dirs \<longrightarrow>
       sub = s\<lparr>es_store := es_store sub\<rparr>)"
proof -
  note new = age_spec.enc_New_spec [OF assms]
  have "sane_layout (es_layout s)"
    using new age_spec.hdr_pos [OF assms(1), of i] by (simp add: sane_layout_def headerReadSize_def)
  moreover have "\<forall>p rel sub. enc_SubStorage st s p rel = Inr sub \<longrightarrow> sub = s\<lparr>es_store := es_store sub\<rparr>"
    by (auto simp: enc_SubStorage_def rewrap_def split: sum.splits)
  moreover have "\<forall>ctx v files dirs v' sub. enc_ListDir st s ctx v = (Inr (files, dirs), v') \<and> sub \<in> set dirs \<longrightarrow>
       sub = s\<lparr>es_store := es_store sub\<rparr>"
    by (auto simp: enc_ListDir_def bindIO_Inr rewrap_def)
  ultimately show ?thesis using new by simp
qed

theorem enc_New_fits_witness:
  "\<exists>s. enc_New plain_age (Some example_storage) (Some ()) example_fs = (Inr s, example_fs) \<and> sane_layout (es_layout s)"
proof -
  have "seal [] = replicate 16 0" by (simp add: seal.simps tag_def)
  then obtain s where run: "enc_New plain_age (Some example_storage) (Some ()) example_fs = (Inr s, example_fs)"
    by (simp add: enc_New_def measurePayloadOffset_def tryIO_apply bindIO_apply Let_def tagSize_def sub64_id in64_iff
        headerReadSize_def)
  from enc_New_fits [OF plain.age_spec_axioms this] run show ?thesis by blast
qed

section \<open>The ciphertext source\<close>

text \<open>
  C28. Whatever reads a client makes, in whatever order, on a source opened for a range read, each of
  them returns: the read loop always makes progress, because the buffered header and final chunk
  have been checked to be complete. Nothing is assumed of the store.
\<close>

theorem range_source_returns:
  assumes "sane_layout l" "in64 encrypted"
    and "openRangeSource st h l ctx key encrypted off end w = (Inr src, w')"
  shows "\<exists>x src'. run p src = Some (x, src')"
  using run_returns [OF openRangeSource_sized [OF assms], of p] by blast

theorem range_source_returns_witness:
  "\<exists>src w' x src'. openRangeSource (fs_ops (\<lambda>_. 0) mem_afero) example_storage plain_layout (\<lambda>_. None) ''e/z'' 19 0 3
     example_enc_fs = (Inr src, w') \<and> run (ReadOp 4 17 (\<lambda>r. Ret (length (fst r)))) src = Some (x, src')"
proof -
  have "case fs_GetObject mem_afero example_storage (\<lambda>_. None) ''e/z'' example_enc_fs of
      (Inr b, w') \<Rightarrow> rd_end b = None | (Inl e, w') \<Rightarrow> False" by code_simp
  then obtain b w' where "fs_GetObject mem_afero example_storage (\<lambda>_. None) ''e/z'' example_enc_fs = (Inr b, w')" "rd_end b = None"
    by (auto split: prod.splits sum.splits)
  then obtain src where run: "openRangeSource (fs_ops (\<lambda>_. 0) mem_afero) example_storage plain_layout (\<lambda>_. None) ''e/z'' 19 0 3
      example_enc_fs = (Inr src, w')"
    by (simp add: openRangeSource_def wholeObjectSize_def readWholeSource_def bindIO_apply readAll_def)
  have "sane_layout plain_layout" "in64 19" by (simp_all add: sane_layout_def plain_layout_def in64_iff)
  from range_source_returns [OF this run, where p = "ReadOp 4 17 (\<lambda>r. Ret (length (fst r)))"] run show ?thesis by blast
qed

text \<open>
  C27. A source made of a header, a final chunk and one forward stream answers a client that reads in
  age's order exactly as the whole ciphertext would, and records no failure of its own.
\<close>

theorem chunk_source_serves:
  assumes "chunk_ok ct c" "orderly ct c p (cs_pos c)"
  shows "\<exists>c'. run p (Chunks c) = Some (fst (the (run p (Whole ct))), Chunks c') \<and>
    sourceErr (Chunks c') = sourceErr (Chunks c) \<and> source_Close (Chunks c') = source_Close (Chunks c)"
  using run_Chunks [OF assms] by (auto simp: run_Whole same_shape_def)

definition example_ct :: bytes where "example_ct = replicate 4990 1 @ replicate 10 2"

definition example_source :: chunkSource where
  "example_source = \<lparr>cs_size = 5000, cs_payloadOffset = 200, cs_tailStart = 4990, cs_streamEnd = 4990,
     cs_head = replicate 4096 1, cs_tail = replicate 10 2,
     cs_stream = Some \<lparr>rb_left = replicate 4690 1, rb_end = None, rb_err = None, rb_close = None\<rparr>,
     cs_pos = 300, cs_err = None\<rparr>"

theorem chunk_source_serves_witness:
  "\<exists>c'. run (ReadOp 20 4985 Ret) (Chunks example_source) =
     Some ((replicate 5 1 @ replicate 10 2, Some EOF), Chunks c')"
proof -
  have ok: "chunk_ok example_ct example_source"
    by (auto simp: chunk_ok_def example_ct_def example_source_def MaxInt64_def ct_slice_def)
  have o: "orderly example_ct example_source (ReadOp 20 4985 Ret) (cs_pos example_source)"
    by (simp add: in_order_def example_source_def MaxInt64_def)
  have "whole_ReadAt example_ct 20 4985 = (replicate 5 1 @ replicate 10 2, Some EOF)"
    by (simp add: whole_ReadAt_def example_ct_def)
  with chunk_source_serves [OF ok o] show ?thesis by (auto simp: run_Whole)
qed

end
