(* ===== verification/Testing.thy ===== *)
theory Testing
  imports Guard
begin

text \<open>
  The ground of the conformance suite \<^verbatim>\<open>storagetest/storagetest.go\<close>: what a test function does
  with its \<^verbatim>\<open>*testing.T\<close>, and the helpers the cases share. A test passes the world on, reports
  failures in order, and either returns or ends its goroutine (\<^verbatim>\<open>t.Fatalf\<close>, \<^verbatim>\<open>t.Skip\<close>). A report
  tells a wrong answer of the storage from an error it returned. Shown: weakest-precondition rules
  for tests that never report a wrong answer, one per construct and helper.
\<close>

section \<open>Tests\<close>

datatype report =
    Wrong string
  | Returned string error
  | Skipped string

text \<open>The result is \<open>None\<close> when the test's goroutine has ended.\<close>

type_synonym ('w, 'a) test = "'w \<Rightarrow> 'a option \<times> report list \<times> 'w"

definition t_ret :: "'a \<Rightarrow> ('w, 'a) test" where
  "t_ret x w = (Some x, [], w)"

definition t_bind :: "('w, 'a) test \<Rightarrow> ('a \<Rightarrow> ('w, 'b) test) \<Rightarrow> ('w, 'b) test" where
  "t_bind m f w = (case m w of
       (None, l, w') \<Rightarrow> (None, l, w')
     | (Some x, l, w') \<Rightarrow> (case f x w' of (r, l', w'') \<Rightarrow> (r, l @ l', w'')))"

text \<open>A sequence of steps that return nothing, and a loop over a list of inputs.\<close>

primrec t_all :: "('w, unit) test list \<Rightarrow> ('w, unit) test" where
  "t_all [] = t_ret ()"
| "t_all (m # ms) = t_bind m (\<lambda>_. t_all ms)"

definition t_each :: "'a list \<Rightarrow> ('a \<Rightarrow> ('w, unit) test) \<Rightarrow> ('w, unit) test" where
  "t_each xs f = t_all (map f xs)"

definition t_Errorf :: "report \<Rightarrow> ('w, unit) test" where
  "t_Errorf m w = (Some (), [m], w)"

definition t_Fatalf :: "report \<Rightarrow> ('w, 'a) test" where
  "t_Fatalf m w = (None, [m], w)"

definition t_Skip :: "string \<Rightarrow> ('w, 'a) test" where
  "t_Skip m w = (None, [Skipped m], w)"

text \<open>A call of the storage, with its error as a value; \<open>t_run\<close> is for the calls that return a
  value beside the error.\<close>

definition t_call :: "('w, 'a) io \<Rightarrow> ('w, error + 'a) test" where
  "t_call m w = (case m w of (r, w') \<Rightarrow> (Some r, [], w'))"

definition t_run :: "('w \<Rightarrow> 'a \<times> 'w) \<Rightarrow> ('w, 'a) test" where
  "t_run m w = (case m w of (r, w') \<Rightarrow> (Some r, [], w'))"

text \<open>\<^verbatim>\<open>if err != nil { t.Fatalf(...) }\<close>, and the checks that report and go on.\<close>

definition t_must :: "string \<Rightarrow> ('w, 'a) io \<Rightarrow> ('w, 'a) test" where
  "t_must what m = t_bind (t_call m) (\<lambda>r. case r of Inl err \<Rightarrow> t_Fatalf (Returned what err) | Inr x \<Rightarrow> t_ret x)"

definition t_check :: "bool \<Rightarrow> string \<Rightarrow> ('w, unit) test" where
  "t_check ok what = (if ok then t_ret () else t_Errorf (Wrong what))"

definition t_require :: "bool \<Rightarrow> string \<Rightarrow> ('w, unit) test" where
  "t_require ok what = (if ok then t_ret () else t_Fatalf (Wrong what))"

text \<open>\<^verbatim>\<open>if !errors.Is(err, want) { t.Errorf(...) }\<close>; a nil error is a wrong answer.\<close>

definition t_wantErr :: "string \<Rightarrow> error \<Rightarrow> error option \<Rightarrow> ('w, unit) test" where
  "t_wantErr what want err = (case err of
       None \<Rightarrow> t_Errorf (Wrong what)
     | Some e \<Rightarrow> if errors_Is e want then t_ret () else t_Errorf (Returned what e))"

definition t_mustErr :: "string \<Rightarrow> error \<Rightarrow> error option \<Rightarrow> ('w, unit) test" where
  "t_mustErr what want err = (case err of
       None \<Rightarrow> t_Fatalf (Wrong what)
     | Some e \<Rightarrow> if errors_Is e want then t_ret () else t_Fatalf (Returned what e))"

fun err_of :: "error + 'a \<Rightarrow> error option" where
  "err_of (Inl e) = Some e"
| "err_of (Inr x) = None"

text \<open>A call that must fail with an error of a kind.\<close>

definition t_fails :: "string \<Rightarrow> error \<Rightarrow> ('w, 'a) io \<Rightarrow> ('w, unit) test" where
  "t_fails what want m = t_bind (t_call m) (\<lambda>r. t_wantErr what want (err_of r))"

text \<open>\<^verbatim>\<open>errors.As\<close> for \<^verbatim>\<open>*storages.MissingObjectsError\<close>: the paths of the first one in the tree.\<close>

fun as_MissingObjects :: "error \<Rightarrow> string list option" where
  "as_MissingObjects (MissingObjectsError ps) = Some ps"
| "as_MissingObjects (Errorf m es) = first_Some (map as_MissingObjects es)"
| "as_MissingObjects _ = None"

section \<open>Inputs\<close>

definition str_bytes :: "string \<Rightarrow> bytes" where
  "str_bytes s = map of_char s"

lemma str_bytes_code [code]: "str_bytes s = map (\<lambda>c. word_of_int (of_char c)) s"
proof -
  have "(of_char c :: byte) = word_of_int (of_char c)" for c
    by (cases c) (simp add: of_char_def)
  then show ?thesis by (simp add: str_bytes_def)
qed

definition Background :: "'w ctx" where
  "Background = (\<lambda>_. None)"

text \<open>\<^verbatim>\<open>bytes.NewReader([]byte(s))\<close>, and one followed by \<^verbatim>\<open>iotest.ErrReader(err)\<close>.\<close>

definition str_reader :: "string \<Rightarrow> reader" where
  "str_reader s = bytes_reader (str_bytes s)"

definition failing_reader :: "string \<Rightarrow> error \<Rightarrow> reader" where
  "failing_reader s err = \<lparr>rd_chunks = [str_bytes s], rd_end = Some err, rd_close = None\<rparr>"

section \<open>The helpers of the suite\<close>

definition mustSub :: "('h, 'w) storager \<Rightarrow> 'h \<Rightarrow> string \<Rightarrow> ('w, 'h) test" where
  "mustSub st h subPath =
     (case SubStorage st h subPath True of
        Inl err \<Rightarrow> t_Fatalf (Returned ''SubStorage'' err)
      | Inr sub \<Rightarrow> t_ret sub)"

definition t_put :: "('h, 'w) storager \<Rightarrow> 'h \<Rightarrow> string \<Rightarrow> string \<Rightarrow> ('w, unit) test" where
  "t_put st h nm content =
     t_bind (t_must ''PutObject'' (PutObject st h Background nm (str_reader content))) (\<lambda>_. t_ret ())"

text \<open>\<^verbatim>\<open>io.ReadAll\<close> of an open reader, with the deferred \<^verbatim>\<open>Close\<close> that runs however the
  reading ends.\<close>

definition read_close :: "reader \<Rightarrow> ('w, bytes) test" where
  "read_close r w =
     (case (case rd_end r of Some err \<Rightarrow> t_Fatalf (Returned ''read'' err) | None \<Rightarrow> t_ret (rd_bytes r)) w of
        (res, l, w') \<Rightarrow>
          (res, l @ (case rd_close r of Some err \<Rightarrow> [Returned ''Close reader'' err] | None \<Rightarrow> []), w'))"

definition mustGet :: "('h, 'w) storager \<Rightarrow> 'h \<Rightarrow> string \<Rightarrow> ('w, bytes) test" where
  "mustGet st h nm = t_bind (t_must ''GetObject'' (GetObject st h Background nm)) read_close"

definition mustGetRange :: "('h, 'w) storager \<Rightarrow> 'h \<Rightarrow> string \<Rightarrow> int64 \<Rightarrow> int64 \<Rightarrow> ('w, bytes) test" where
  "mustGetRange st h nm off len =
     t_bind (t_must ''GetObjectRange'' (GetObjectRange st h Background nm off len)) read_close"

definition object_names :: "ObjectStat list \<Rightarrow> string list" where
  "object_names objects = map Name objects"

text \<open>\<open>want\<close> is the literal of a \<^verbatim>\<open>map[string]int64\<close>; a name it lacks has size 0.\<close>

definition assertObjects :: "ObjectStat list \<Rightarrow> (string \<times> int64) list \<Rightarrow> ('w, unit) test" where
  "assertObjects got want =
     (let wantNames = sort (map fst want) in
      t_bind (t_require (object_names got = wantNames) ''List names'') (\<lambda>_.
        t_each got (\<lambda>x.
          t_check (Size x = (case map_of want (Name x) of Some n \<Rightarrow> n | None \<Rightarrow> 0)) ''List entry size'')))"

definition assertExists :: "('h, 'w) storager \<Rightarrow> 'h \<Rightarrow> string \<Rightarrow> bool \<Rightarrow> ('w, unit) test" where
  "assertExists st h nm want =
     t_bind (t_must ''Exists'' (Exists st h Background nm)) (\<lambda>ok. t_check (ok = want) ''Exists'')"

text \<open>\<open>string(mustGet(...))\<close> compared with a literal.\<close>

definition t_content :: "('h, 'w) storager \<Rightarrow> 'h \<Rightarrow> string \<Rightarrow> string \<Rightarrow> ('w, unit) test" where
  "t_content st h nm want = t_bind (mustGet st h nm) (\<lambda>got. t_check (got = str_bytes want) ''content'')"

definition t_listing :: "('h, 'w) storager \<Rightarrow> 'h \<Rightarrow> string \<Rightarrow> (string \<times> int64) list \<Rightarrow> ('w, unit) test" where
  "t_listing st h prefix want =
     t_bind (t_must ''List'' (List_op st h Background prefix)) (\<lambda>objects. assertObjects objects want)"

text \<open>A copy of a prefix, whose statistics come with its error.\<close>

definition t_mustCopyAll :: "string \<Rightarrow> ('w \<Rightarrow> (CopyStat \<times> error option) \<times> 'w) \<Rightarrow> ('w, CopyStat) test" where
  "t_mustCopyAll what m = t_bind (t_run m) (\<lambda>(stat, err).
     case err of Some e \<Rightarrow> t_Fatalf (Returned what e) | None \<Rightarrow> t_ret stat)"

definition t_failsAll :: "string \<Rightarrow> error \<Rightarrow> ('w \<Rightarrow> (CopyStat \<times> error option) \<times> 'w) \<Rightarrow> ('w, unit) test" where
  "t_failsAll what want m = t_bind (t_run m) (\<lambda>(stat, err). t_wantErr what want err)"

text \<open>\<^verbatim>\<open>time.Duration.Abs\<close> and ten seconds, in nanoseconds.\<close>

definition duration_Abs :: "int64 \<Rightarrow> int64" where
  "duration_Abs d = (if 0 \<le> d then d else if d = MinInt64 then MaxInt64 else - d)"

definition ten_seconds :: int64 where
  "ten_seconds = 10 * 1000000000"

section \<open>Tests that report no wrong answer\<close>

text \<open>
  \<open>sound P m Q\<close>: from a world with \<open>P\<close>, whatever \<open>m\<close> reports is an error the storage
  returned or a skip, never a wrong answer; and if \<open>m\<close> returns, its result and world satisfy \<open>Q\<close>.
\<close>

fun wrong :: "report \<Rightarrow> bool" where
  "wrong (Wrong m) = True"
| "wrong (Returned m e) = False"
| "wrong (Skipped m) = False"

definition sound :: "('w \<Rightarrow> bool) \<Rightarrow> ('w, 'a) test \<Rightarrow> ('a \<Rightarrow> 'w \<Rightarrow> bool) \<Rightarrow> bool" where
  "sound P m Q \<longleftrightarrow> (\<forall>w. P w \<longrightarrow> (case m w of (r, l, w') \<Rightarrow>
     (\<forall>x \<in> set l. \<not> wrong x) \<and> (\<forall>v. r = Some v \<longrightarrow> Q v w')))"

named_theorems sound_rules \<open>rules that take a test apart\<close>

lemma sound_ret [sound_rules]: "(\<And>w. P w \<Longrightarrow> Q x w) \<Longrightarrow> sound P (t_ret x) Q"
  by (simp add: sound_def t_ret_def)

lemma sound_bind [sound_rules]:
  assumes "sound P m R" and "\<And>x. sound (R x) (f x) Q"
  shows "sound P (t_bind m f) Q"
  unfolding sound_def
proof (intro allI impI)
  fix w assume "P w"
  obtain r l w1 where m: "m w = (r, l, w1)" by (metis prod_cases3)
  with assms(1) \<open>P w\<close> have l: "\<forall>x \<in> set l. \<not> wrong x" and R: "\<And>v. r = Some v \<Longrightarrow> R v w1"
    by (auto simp: sound_def)
  show "case t_bind m f w of (r, l, w') \<Rightarrow> (\<forall>x \<in> set l. \<not> wrong x) \<and> (\<forall>v. r = Some v \<longrightarrow> Q v w')"
  proof (cases r)
    case None
    then show ?thesis using m l by (simp add: t_bind_def)
  next
    case (Some v)
    obtain r' l' w2 where f: "f v w1 = (r', l', w2)" by (metis prod_cases3)
    with assms(2) [of v] R [OF Some] have "(\<forall>x \<in> set l'. \<not> wrong x) \<and> (\<forall>v. r' = Some v \<longrightarrow> Q v w2)"
      by (auto simp: sound_def)
    then show ?thesis using m l f Some by (auto simp: t_bind_def)
  qed
qed

lemma sound_weaken:
  assumes "sound P m Q" and "\<And>w. P' w \<Longrightarrow> P w" and "\<And>v w. Q v w \<Longrightarrow> Q' v w"
  shows "sound P' m Q'"
  unfolding sound_def
proof (intro allI impI)
  fix w assume "P' w"
  then have "P w" by (rule assms(2))
  with assms(1,3) show "case m w of (r, l, w') \<Rightarrow> (\<forall>x \<in> set l. \<not> wrong x) \<and> (\<forall>v. r = Some v \<longrightarrow> Q' v w')"
    by (fastforce simp: sound_def)
qed

lemma sound_conj: "sound P m Q \<Longrightarrow> sound P m R \<Longrightarrow> sound P m (\<lambda>v w. Q v w \<and> R v w)"
  by (fastforce simp: sound_def)

lemma sound_Nil [sound_rules]: "(\<And>w. P w \<Longrightarrow> Q () w) \<Longrightarrow> sound P (t_all []) Q"
  by (simp add: sound_ret)

lemma sound_Cons [sound_rules]:
  "sound P m (\<lambda>_. R) \<Longrightarrow> sound R (t_all ms) Q \<Longrightarrow> sound P (t_all (m # ms)) Q"
  by (simp add: sound_bind)

text \<open>The last step, whose world does not matter any more.\<close>

lemma sound_last: "sound P m (\<lambda>_ _. True) \<Longrightarrow> sound P (t_all [m]) (\<lambda>_ _. True)"
  by (simp add: sound_bind sound_ret)

lemma sound_each:
  assumes "\<And>x. x \<in> set xs \<Longrightarrow> sound P (f x) (\<lambda>_. P)"
  shows "sound P (t_each xs f) (\<lambda>_. P)"
  using assms by (induction xs) (auto simp: t_each_def intro!: sound_ret sound_bind)

lemma sound_pre: "(c \<Longrightarrow> sound P m Q) \<Longrightarrow> sound (\<lambda>w. c \<and> P w) m Q"
  by (auto simp: sound_def)

lemma sound_check: "(\<And>w. P w \<Longrightarrow> ok) \<Longrightarrow> sound P (t_check ok what) (\<lambda>_. P)"
  by (auto simp: sound_def t_check_def t_ret_def t_Errorf_def)

lemma sound_check_last: "(\<And>w. P w \<Longrightarrow> ok) \<Longrightarrow> sound P (t_check ok what) (\<lambda>_ _. True)"
  by (auto simp: sound_def t_check_def t_ret_def t_Errorf_def)

lemma sound_require: "(\<And>w. P w \<Longrightarrow> ok) \<Longrightarrow> sound P (t_require ok what) (\<lambda>_. P)"
  by (auto simp: sound_def t_require_def t_ret_def t_Fatalf_def)

lemma sound_must:
  assumes "\<And>w x w'. P w \<Longrightarrow> m w = (Inr x, w') \<Longrightarrow> Q x w'"
  shows "sound P (t_must what m) Q"
  unfolding sound_def
proof (intro allI impI)
  fix w assume "P w"
  obtain r w1 where m: "m w = (r, w1)" by fastforce
  show "case t_must what m w of (r, l, w') \<Rightarrow> (\<forall>x \<in> set l. \<not> wrong x) \<and> (\<forall>v. r = Some v \<longrightarrow> Q v w')"
    using assms [OF \<open>P w\<close>] m
    by (cases r) (auto simp: t_must_def t_bind_def t_call_def t_Fatalf_def t_ret_def)
qed

lemma sound_fails:
  assumes "\<And>w x w'. P w \<Longrightarrow> m w = (Inr x, w') \<Longrightarrow> False"
    and "\<And>w e w'. P w \<Longrightarrow> m w = (Inl e, w') \<Longrightarrow> Q () w'"
  shows "sound P (t_fails what want m) Q"
  unfolding sound_def
proof (intro allI impI)
  fix w assume "P w"
  obtain r w1 where m: "m w = (r, w1)" by fastforce
  show "case t_fails what want m w of (r, l, w') \<Rightarrow> (\<forall>x \<in> set l. \<not> wrong x) \<and> (\<forall>v. r = Some v \<longrightarrow> Q v w')"
    using assms [OF \<open>P w\<close>] m
    by (cases r) (auto simp: t_fails_def t_bind_def t_call_def t_wantErr_def t_Errorf_def t_ret_def)
qed

lemma sound_read_close:
  assumes "\<And>w. P w \<Longrightarrow> rd_end r = None \<Longrightarrow> Q (rd_bytes r) w"
  shows "sound P (read_close r) Q"
  using assms by (auto simp: sound_def read_close_def t_Fatalf_def t_ret_def split: option.splits)

lemma sound_run: "(\<And>w. P w \<Longrightarrow> Q (f w) w) \<Longrightarrow> sound P (t_run (\<lambda>w. (f w, w))) Q"
  by (auto simp: sound_def t_run_def)

end
