(* ===== verification/Storagetest.thy ===== *)
theory Storagetest
  imports Testing
begin

text \<open>
  \<^verbatim>\<open>storagetest/storagetest.go\<close>: the conformance suite every backend is held to. Each
  \<open>test_<name>\<close> is the subtest of that name, over any method table \<open>st\<close> and a factory
  \<open>newStorage\<close>; a subtest that asks for the time takes \<^verbatim>\<open>time.Since\<close> as \<open>since\<close>. \<open>Run\<close>
  runs them in the order of the source and collects what each reported.
\<close>

type_synonym ('h, 'w) subtest = "('h, 'w) storager \<Rightarrow> ('w, 'h) test \<Rightarrow> ('w, unit) test"

section \<open>Writing and reading\<close>

definition test_PutGetRoundTrip :: "('h, 'w) subtest" where
  "test_PutGetRoundTrip st newStorage = t_bind newStorage (\<lambda>h. t_all
     [t_put st h ''test.txt'' ''hello world'', t_content st h ''test.txt'' ''hello world''])"

definition test_PutGetNestedCreatesDirs :: "('h, 'w) subtest" where
  "test_PutGetNestedCreatesDirs st newStorage = t_bind newStorage (\<lambda>h. t_all
     [t_put st h ''a/b/c.txt'' ''nested'', t_content st h ''a/b/c.txt'' ''nested''])"

definition test_PutFailedReadKeepsPrevious :: "('h, 'w) subtest" where
  "test_PutFailedReadKeepsPrevious st newStorage = t_bind newStorage (\<lambda>h. t_all
     [t_put st h ''obj.txt'' ''old'',
      t_bind (t_call (PutObject st h Background ''obj.txt'' (failing_reader ''new-partial'' (ErrorString ''boom'')))) (\<lambda>r.
        t_require (err_of r \<noteq> None) ''PutObject with a failing body''),
      t_content st h ''obj.txt'' ''old'',
      t_bind (t_must ''List'' (List_op st h Background '''')) (\<lambda>objects.
        t_check (object_names objects = [''obj.txt'']) ''List'')])"

definition test_GetMissingReturnsErrFileNotFound :: "('h, 'w) subtest" where
  "test_GetMissingReturnsErrFileNotFound st newStorage = t_bind newStorage (\<lambda>h.
     t_fails ''GetObject'' ErrFileNotFound (GetObject st h Background ''missing.txt''))"

definition test_Exists :: "('h, 'w) subtest" where
  "test_Exists st newStorage = t_bind newStorage (\<lambda>h. t_all
     [assertExists st h ''test.txt'' False, t_put st h ''test.txt'' ''data'', assertExists st h ''test.txt'' True])"

section \<open>Metadata\<close>

definition test_StatMissing :: "('h, 'w) subtest" where
  "test_StatMissing st newStorage = t_bind newStorage (\<lambda>h.
     t_bind (t_must ''Stat'' (Stat st h ''missing.txt'')) (\<lambda>stat.
       t_check (\<not> Exist stat) ''Stat(missing).Exist''))"

definition test_StatExisting :: "(int \<Rightarrow> 'w \<Rightarrow> int64) \<Rightarrow> ('h, 'w) subtest" where
  "test_StatExisting since st newStorage = t_bind newStorage (\<lambda>h. t_all
     [t_put st h ''info.txt'' ''some-data'',
      t_bind (t_must ''Stat'' (Stat st h ''info.txt'')) (\<lambda>stat.
        t_bind (t_check (Exist stat) ''Stat.Exist'') (\<lambda>_.
          t_bind (t_run (\<lambda>w. (since (LastModified stat) w, w))) (\<lambda>skew.
            t_check (\<not> duration_Abs skew > ten_seconds) ''Stat.LastModified'')))])"

definition test_StatReportsSize :: "('h, 'w) subtest" where
  "test_StatReportsSize st newStorage = t_bind newStorage (\<lambda>h. t_all
     [t_put st h ''sized.txt'' ''0123456789'',
      t_bind (t_must ''Stat'' (Stat st h ''sized.txt'')) (\<lambda>stat.
        t_check (Size stat = int (length ''0123456789'')) ''Stat.Size'')])"

section \<open>Ranges\<close>

definition rangeContent :: string where
  "rangeContent = ''0123456789abcdefghij''"

definition test_GetObjectRangeInside :: "('h, 'w) subtest" where
  "test_GetObjectRangeInside st newStorage = t_bind newStorage (\<lambda>h. t_all
     [t_put st h ''ranged.txt'' rangeContent,
      t_bind (mustGetRange st h ''ranged.txt'' 5 4) (\<lambda>got. t_check (got = str_bytes ''5678'') ''GetObjectRange(5, 4)'')])"

definition test_GetObjectRangeToEOF :: "('h, 'w) subtest" where
  "test_GetObjectRangeToEOF st newStorage = t_bind newStorage (\<lambda>h. t_all
     [t_put st h ''ranged.txt'' rangeContent,
      t_bind (mustGetRange st h ''ranged.txt'' 15 (-1)) (\<lambda>got. t_check (got = str_bytes ''fghij'') ''GetObjectRange(15, -1)'')])"

definition test_GetObjectRangeCrossingEOF :: "('h, 'w) subtest" where
  "test_GetObjectRangeCrossingEOF st newStorage = t_bind newStorage (\<lambda>h. t_all
     [t_put st h ''ranged.txt'' rangeContent,
      t_bind (mustGetRange st h ''ranged.txt'' 16 100) (\<lambda>got. t_check (got = str_bytes ''ghij'') ''GetObjectRange(16, 100)'')])"

definition test_GetObjectRangeOffsetAtOrPastSize :: "('h, 'w) subtest" where
  "test_GetObjectRangeOffsetAtOrPastSize st newStorage = t_bind newStorage (\<lambda>h. t_all
     [t_put st h ''ranged.txt'' rangeContent,
      t_each [int (length rangeContent), int (length rangeContent) + 100] (\<lambda>offset.
        t_fails ''GetObjectRange past the end'' ErrInvalidRange (GetObjectRange st h Background ''ranged.txt'' offset 1))])"

definition test_GetObjectRangeZeroLength :: "('h, 'w) subtest" where
  "test_GetObjectRangeZeroLength st newStorage = t_bind newStorage (\<lambda>h. t_all
     [t_put st h ''ranged.txt'' rangeContent,
      t_fails ''GetObjectRange(0, 0)'' ErrInvalidRange (GetObjectRange st h Background ''ranged.txt'' 0 0)])"

definition test_GetObjectRangeNegativeOffset :: "('h, 'w) subtest" where
  "test_GetObjectRangeNegativeOffset st newStorage = t_bind newStorage (\<lambda>h. t_all
     [t_put st h ''ranged.txt'' rangeContent,
      t_fails ''GetObjectRange(-1, 4)'' ErrInvalidRange (GetObjectRange st h Background ''ranged.txt'' (-1) 4)])"

definition test_GetObjectRangeMissing :: "('h, 'w) subtest" where
  "test_GetObjectRangeMissing st newStorage = t_bind newStorage (\<lambda>h.
     t_fails ''GetObjectRange(missing)'' ErrFileNotFound (GetObjectRange st h Background ''missing.txt'' 0 4))"

section \<open>Listings\<close>

definition test_ListNestedTree :: "(int \<Rightarrow> 'w \<Rightarrow> int64) \<Rightarrow> ('h, 'w) subtest" where
  "test_ListNestedTree since st newStorage = t_bind newStorage (\<lambda>h. t_all
     [t_put st h ''a.txt'' ''1'', t_put st h ''dir/b.txt'' ''22'', t_put st h ''dir/sub/c.txt'' ''333'',
      t_put st h ''dir.txt'' ''4444'',
      t_bind (t_must ''List'' (List_op st h Background '''')) (\<lambda>objects. t_all
        [assertObjects objects [(''a.txt'', 1), (''dir.txt'', 4), (''dir/b.txt'', 2), (''dir/sub/c.txt'', 3)],
         t_each objects (\<lambda>x. t_bind (t_check (Exist x) ''List entry Exist'') (\<lambda>_.
           t_bind (t_run (\<lambda>w. (since (LastModified x) w, w))) (\<lambda>skew.
             t_check (\<not> duration_Abs skew > ten_seconds) ''List entry LastModified'')))]),
      t_listing st h ''dir'' [(''b.txt'', 2), (''sub/c.txt'', 3)]])"

definition t_listsNothing :: "('h, 'w) storager \<Rightarrow> 'h \<Rightarrow> string \<Rightarrow> ('w, unit) test" where
  "t_listsNothing st h prefix =
     t_bind (t_must ''List'' (List_op st h Background prefix)) (\<lambda>objects. t_check (length objects = 0) ''List empty'')"

definition test_ListMissingPrefix :: "('h, 'w) subtest" where
  "test_ListMissingPrefix st newStorage = t_bind newStorage (\<lambda>h. t_all
     [t_listsNothing st h ''never_existed'', t_put st h ''kept/a.txt'' ''a'', t_listsNothing st h ''still_missing''])"

definition test_ListPrefixThatIsAnObject :: "('h, 'w) subtest" where
  "test_ListPrefixThatIsAnObject st newStorage = t_bind newStorage (\<lambda>h. t_all
     [t_put st h ''a.txt'' ''1'', t_listsNothing st h ''a.txt''])"

definition test_ListPrefixIsolation :: "('h, 'w) subtest" where
  "test_ListPrefixIsolation st newStorage = t_bind newStorage (\<lambda>h. t_all
     [t_put st h ''data/one.txt'' ''1'', t_put st h ''database/two.txt'' ''22'',
      t_listing st h ''data'' [(''one.txt'', 1)]])"

definition test_ETagAgreesAndChanges :: "('h, 'w) subtest" where
  "test_ETagAgreesAndChanges st newStorage = t_bind newStorage (\<lambda>h.
     t_bind (t_put st h ''dir/a.txt'' ''one'') (\<lambda>_.
     t_bind (t_must ''List(dir)'' (List_op st h Background ''dir'')) (\<lambda>listed.
     t_bind (t_require (length listed = 1) ''List(dir)'') (\<lambda>_.
     t_bind (if ETag (hd listed) = '''' then t_Skip ''the backend reports no ETag'' else t_ret ()) (\<lambda>_.
     t_bind (t_must ''Stat'' (Stat st h ''dir/a.txt'')) (\<lambda>stat.
     t_bind (t_check (ETag stat = ETag (hd listed)) ''Stat ETag'') (\<lambda>_.
     t_bind (t_put st h ''dir/a.txt'' ''two'') (\<lambda>_.
     t_bind (t_must ''Stat'' (Stat st h ''dir/a.txt'')) (\<lambda>again.
       t_check (ETag again \<noteq> ETag stat) ''ETag after overwriting'')))))))))"

section \<open>Navigation\<close>

definition test_ListAfterSubStorage :: "('h, 'w) subtest" where
  "test_ListAfterSubStorage st newStorage = t_bind newStorage (\<lambda>h. t_bind (mustSub st h ''subdir'') (\<lambda>sub. t_all
     [t_put st sub ''x/y.txt'' ''data'', t_put st h ''outside.txt'' ''ignored'',
      t_listing st sub '''' [(''x/y.txt'', 4)], t_listing st h ''subdir'' [(''x/y.txt'', 4)]]))"

definition test_ListDirSplitsFilesAndDirs :: "('h, 'w) subtest" where
  "test_ListDirSplitsFilesAndDirs st newStorage = t_bind newStorage (\<lambda>h. t_all
     [t_put st h ''file1.txt'' ''a'', t_put st h ''dir1/file2.txt'' ''b'',
      t_bind (t_must ''ListDir'' (ListDir st h Background)) (\<lambda>(files, dirs). t_all
        [t_check (''file1.txt'' \<in> set files) ''ListDir files'',
         t_require (length dirs = 1) ''ListDir dirs'',
         t_check (Dirname st (hd dirs) = ''dir1'') ''Dirname''])])"

definition test_SubStorageRelative :: "('h, 'w) subtest" where
  "test_SubStorageRelative st newStorage = t_bind newStorage (\<lambda>h. t_bind (mustSub st h ''subdir'') (\<lambda>sub. t_all
     [t_put st sub ''deep.txt'' ''deep-data'', assertExists st sub ''deep.txt'' True,
      assertExists st h ''subdir/deep.txt'' True, assertExists st h ''deep.txt'' False]))"

section \<open>Deleting\<close>

definition test_DeleteFile :: "('h, 'w) subtest" where
  "test_DeleteFile st newStorage = t_bind newStorage (\<lambda>h. t_all
     [t_put st h ''to_delete.txt'' ''data'',
      t_bind (t_must ''Delete'' (Delete st h Background [''to_delete.txt''])) (\<lambda>_. t_ret ()),
      assertExists st h ''to_delete.txt'' False])"

definition test_DeleteDirectoryIsAnError :: "('h, 'w) subtest" where
  "test_DeleteDirectoryIsAnError st newStorage = t_bind newStorage (\<lambda>h. t_all
     [t_put st h ''dir/x.txt'' ''data'',
      t_bind (t_call (Delete st h Background [''dir''])) (\<lambda>r. t_mustErr ''Delete(dir)'' ErrFileNotFound (err_of r)),
      assertExists st h ''dir/x.txt'' True])"

definition test_DeleteMissingIsAnError :: "('h, 'w) subtest" where
  "test_DeleteMissingIsAnError st newStorage = t_bind newStorage (\<lambda>h.
     t_bind (t_call (Delete st h Background [''never_existed.txt''])) (\<lambda>r.
     t_bind (t_mustErr ''Delete(missing)'' ErrFileNotFound (err_of r)) (\<lambda>_.
       case Option.bind (err_of r) as_MissingObjects of
         None \<Rightarrow> t_Fatalf (Wrong ''Delete(missing) error type'')
       | Some paths \<Rightarrow> t_check (paths = [''never_existed.txt'']) ''Paths'')))"

definition test_DeleteWithOneMissingDeletesNothing :: "('h, 'w) subtest" where
  "test_DeleteWithOneMissingDeletesNothing st newStorage = t_bind newStorage (\<lambda>h. t_all
     [t_put st h ''a.txt'' ''a'', t_put st h ''c.txt'' ''c'',
      t_bind (t_call (Delete st h Background [''a.txt'', ''b.txt'', ''c.txt''])) (\<lambda>r.
      t_bind (t_mustErr ''Delete'' ErrFileNotFound (err_of r)) (\<lambda>_.
        case Option.bind (err_of r) as_MissingObjects of
          None \<Rightarrow> t_ret ()
        | Some paths \<Rightarrow> t_check (paths = [''b.txt'']) ''Paths'')),
      assertExists st h ''a.txt'' True, assertExists st h ''c.txt'' True])"

definition test_DeleteAllPrefixIsolation :: "('h, 'w) subtest" where
  "test_DeleteAllPrefixIsolation st newStorage = t_bind newStorage (\<lambda>h. t_all
     [t_put st h ''data/one.txt'' ''1'', t_put st h ''data/two.txt'' ''2'', t_put st h ''data2/three.txt'' ''3'',
      t_bind (t_must ''DeleteAll'' (DeleteAll st h Background ''data'')) (\<lambda>_. t_ret ()),
      assertExists st h ''data/one.txt'' False, assertExists st h ''data/two.txt'' False,
      assertExists st h ''data2/three.txt'' True])"

definition test_DeleteAllMissingPrefixIsAnError :: "('h, 'w) subtest" where
  "test_DeleteAllMissingPrefixIsAnError st newStorage = t_bind newStorage (\<lambda>h. t_all
     [t_fails ''DeleteAll(missing)'' ErrFileNotFound (DeleteAll st h Background ''never_existed''),
      t_put st h ''kept/a.txt'' ''a'',
      t_fails ''DeleteAll(missing)'' ErrFileNotFound (DeleteAll st h Background ''still_missing''),
      assertExists st h ''kept/a.txt'' True])"

section \<open>Copying an object\<close>

definition t_mustCopy :: "('h, 'w) storager \<Rightarrow> 'h \<Rightarrow> string \<Rightarrow> string \<Rightarrow> ('w, CopyStat) test" where
  "t_mustCopy st h src dst = t_must ''Copy'' (Copy st h Background src dst [])"

definition t_failsCopy :: "('h, 'w) storager \<Rightarrow> 'h \<Rightarrow> error \<Rightarrow> string \<Rightarrow> string \<Rightarrow> ('w, unit) test" where
  "t_failsCopy st h want src dst = t_fails ''Copy'' want (Copy st h Background src dst [])"

definition test_CopyRoundTrip :: "('h, 'w) subtest" where
  "test_CopyRoundTrip st newStorage = t_bind newStorage (\<lambda>h. t_all
     [t_put st h ''src.txt'' ''payload'',
      t_bind (t_mustCopy st h ''src.txt'' ''nested/dir/dst.txt'') (\<lambda>stat.
        t_check (Bytes stat = int (length ''payload'')) ''CopyStat.Bytes''),
      t_content st h ''nested/dir/dst.txt'' ''payload'', t_content st h ''src.txt'' ''payload''])"

definition test_CopyEmptyObject :: "('h, 'w) subtest" where
  "test_CopyEmptyObject st newStorage = t_bind newStorage (\<lambda>h. t_all
     [t_put st h ''empty.txt'' '''',
      t_bind (t_mustCopy st h ''empty.txt'' ''empty-copy.txt'') (\<lambda>stat. t_check (Bytes stat = 0) ''CopyStat.Bytes''),
      t_bind (mustGet st h ''empty-copy.txt'') (\<lambda>got. t_check (length got = 0) ''copy'')])"

definition test_CopyOverwritesDestination :: "('h, 'w) subtest" where
  "test_CopyOverwritesDestination st newStorage = t_bind newStorage (\<lambda>h. t_all
     [t_put st h ''src.txt'' ''new'', t_put st h ''dst.txt'' ''old and longer'',
      t_bind (t_mustCopy st h ''src.txt'' ''dst.txt'') (\<lambda>stat.
        t_check (Bytes stat = int (length ''new'')) ''CopyStat.Bytes''),
      t_content st h ''dst.txt'' ''new''])"

definition test_CopyIsIndependentOfSource :: "('h, 'w) subtest" where
  "test_CopyIsIndependentOfSource st newStorage = t_bind newStorage (\<lambda>h. t_all
     [t_put st h ''src.txt'' ''original'',
      t_bind (t_mustCopy st h ''src.txt'' ''dst.txt'') (\<lambda>_. t_ret ()),
      t_put st h ''src.txt'' ''changed'',
      t_content st h ''dst.txt'' ''original'',
      t_bind (t_must ''Delete'' (Delete st h Background [''src.txt''])) (\<lambda>_. t_ret ()),
      t_content st h ''dst.txt'' ''original''])"

text \<open>A copy that fails returns no statistics; the error is what the test reports.\<close>

definition test_CopyOntoItselfIsANoop :: "('h, 'w) subtest" where
  "test_CopyOntoItselfIsANoop st newStorage = t_bind newStorage (\<lambda>h. t_all
     [t_put st h ''same.txt'' ''keep me'',
      t_each [''same.txt'', ''./same.txt'', ''dir/../same.txt''] (\<lambda>dst.
        t_bind (t_call (Copy st h Background ''same.txt'' dst [])) (\<lambda>r. case r of
            Inl err \<Rightarrow> t_Errorf (Returned ''Copy onto itself'' err)
          | Inr stat \<Rightarrow> t_check (Bytes stat = 0) ''CopyStat.Bytes'')),
      t_content st h ''same.txt'' ''keep me''])"

definition test_CopyMissingSourceIsAnError :: "('h, 'w) subtest" where
  "test_CopyMissingSourceIsAnError st newStorage = t_bind newStorage (\<lambda>h. t_all
     [t_failsCopy st h ErrFileNotFound ''missing.txt'' ''dst.txt'',
      assertExists st h ''dst.txt'' False,
      t_failsCopy st h ErrFileNotFound ''missing.txt'' ''missing.txt''])"

definition test_CopyDirectoryIsAnError :: "('h, 'w) subtest" where
  "test_CopyDirectoryIsAnError st newStorage = t_bind newStorage (\<lambda>h. t_all
     [t_put st h ''dir/a.txt'' ''a'',
      t_failsCopy st h ErrFileNotFound ''dir'' ''dir-copy'',
      assertExists st h ''dir-copy'' False])"

definition test_CopyWithinSubStorage :: "('h, 'w) subtest" where
  "test_CopyWithinSubStorage st newStorage = t_bind newStorage (\<lambda>h. t_all
     [t_put st h ''sub/src.txt'' ''scoped'',
      t_bind (mustSub st h ''sub'') (\<lambda>sub. t_bind (t_mustCopy st sub ''src.txt'' ''dst.txt'') (\<lambda>_. t_ret ())),
      t_content st h ''sub/dst.txt'' ''scoped'',
      assertExists st h ''dst.txt'' False])"

section \<open>Copying a prefix\<close>

definition t_CopyAll :: "('h, 'w) storager \<Rightarrow> 'h \<Rightarrow> string \<Rightarrow> string \<Rightarrow> ('w, CopyStat) test" where
  "t_CopyAll st h src dst = t_mustCopyAll ''CopyAll'' (CopyAll st h Background src dst [])"

text \<open>\<^verbatim>\<open>if _, err := st.CopyAll(...); err != nil\<close>, and the cases that read the statistics.\<close>

definition t_copiesAll :: "('h, 'w) storager \<Rightarrow> 'h \<Rightarrow> string \<Rightarrow> string \<Rightarrow> ('w, unit) test" where
  "t_copiesAll st h src dst = t_bind (t_CopyAll st h src dst) (\<lambda>_. t_ret ())"

definition t_copiesObjects :: "('h, 'w) storager \<Rightarrow> 'h \<Rightarrow> string \<Rightarrow> string \<Rightarrow> int64 \<Rightarrow> ('w, unit) test" where
  "t_copiesObjects st h src dst n =
     t_bind (t_CopyAll st h src dst) (\<lambda>stat. t_check (Objects stat = n) ''CopyStat.Objects'')"

definition test_CopyAllTree :: "('h, 'w) subtest" where
  "test_CopyAllTree st newStorage = t_bind newStorage (\<lambda>h. t_all
     [t_put st h ''src/a.txt'' ''1'', t_put st h ''src/d/b.txt'' ''22'', t_put st h ''src/d/e/c.txt'' ''333'',
      t_bind (t_CopyAll st h ''src'' ''dst'') (\<lambda>stat. t_check (Objects stat = 3 \<and> Bytes stat = 6) ''CopyStat''),
      t_listing st h ''dst'' [(''a.txt'', 1), (''d/b.txt'', 2), (''d/e/c.txt'', 3)],
      t_each [(''a.txt'', ''1''), (''d/b.txt'', ''22''), (''d/e/c.txt'', ''333'')] (\<lambda>(nm, want). t_all
        [t_content st h (''dst/'' @ nm) want, t_content st h (''src/'' @ nm) want])])"

definition test_CopyAllEmptyObjects :: "('h, 'w) subtest" where
  "test_CopyAllEmptyObjects st newStorage = t_bind newStorage (\<lambda>h. t_all
     [t_put st h ''src/empty.txt'' '''', t_put st h ''src/d/empty.txt'' '''',
      t_bind (t_CopyAll st h ''src'' ''dst'') (\<lambda>stat. t_check (Objects stat = 2 \<and> Bytes stat = 0) ''CopyStat''),
      assertExists st h ''dst/empty.txt'' True, assertExists st h ''dst/d/empty.txt'' True])"

definition test_CopyAllOverwritesDestination :: "('h, 'w) subtest" where
  "test_CopyAllOverwritesDestination st newStorage = t_bind newStorage (\<lambda>h. t_all
     [t_put st h ''src/a.txt'' ''new'', t_put st h ''dst/a.txt'' ''old and longer'',
      t_put st h ''dst/unrelated.txt'' ''stays'',
      t_copiesAll st h ''src'' ''dst'',
      t_content st h ''dst/a.txt'' ''new'', t_content st h ''dst/unrelated.txt'' ''stays''])"

definition test_CopyAllPrefixIsolation :: "('h, 'w) subtest" where
  "test_CopyAllPrefixIsolation st newStorage = t_bind newStorage (\<lambda>h. t_all
     [t_put st h ''data/one.txt'' ''1'', t_put st h ''database/two.txt'' ''22'',
      t_copiesObjects st h ''data'' ''copy'' 1,
      t_listing st h ''copy'' [(''one.txt'', 1)]])"

definition test_CopyAllMissingPrefixIsAnError :: "('h, 'w) subtest" where
  "test_CopyAllMissingPrefixIsAnError st newStorage = t_bind newStorage (\<lambda>h. t_all
     [t_put st h ''kept/a.txt'' ''a'', t_put st h ''file.txt'' ''f'',
      t_each [''never_existed'', ''file.txt''] (\<lambda>prefix.
        t_bind (t_run (CopyAll st h Background prefix ''dst'' [])) (\<lambda>(stat, err). t_all
          [t_wantErr ''CopyAll(missing)'' ErrFileNotFound err, t_check (stat = zeroCopyStat) ''CopyStat''])),
      t_listsNothing st h ''dst''])"

definition test_CopyAllOntoItself :: "('h, 'w) subtest" where
  "test_CopyAllOntoItself st newStorage = t_bind newStorage (\<lambda>h. t_all
     [t_put st h ''src/a.txt'' ''keep me'', t_put st h ''src/d/b.txt'' ''me too'',
      t_copiesAll st h ''src'' ''src'',
      t_content st h ''src/a.txt'' ''keep me'', t_content st h ''src/d/b.txt'' ''me too''])"

definition test_CopyAllIntoOwnSubtree :: "('h, 'w) subtest" where
  "test_CopyAllIntoOwnSubtree st newStorage = t_bind newStorage (\<lambda>h. t_all
     [t_put st h ''a/x.txt'' ''x'', t_put st h ''a/d/y.txt'' ''yy'',
      t_copiesObjects st h ''a'' ''a/b'' 2,
      t_listing st h ''a'' [(''x.txt'', 1), (''d/y.txt'', 2), (''b/x.txt'', 1), (''b/d/y.txt'', 2)]])"

definition test_CopyAllIntoOwnSubtreeLeavesOutTheDestination :: "('h, 'w) subtest" where
  "test_CopyAllIntoOwnSubtreeLeavesOutTheDestination st newStorage = t_bind newStorage (\<lambda>h. t_all
     [t_put st h ''a/x.txt'' ''new'', t_put st h ''a/b/x.txt'' ''old'', t_put st h ''a/b/kept.txt'' ''kept'',
      t_copiesObjects st h ''a'' ''a/b'' 1,
      t_listing st h ''a'' [(''x.txt'', 3), (''b/x.txt'', 3), (''b/kept.txt'', 4)],
      t_content st h ''a/b/x.txt'' ''new''])"

definition test_CopyAllFromRoot :: "('h, 'w) subtest" where
  "test_CopyAllFromRoot st newStorage = t_bind newStorage (\<lambda>h. t_all
     [t_put st h ''x.txt'' ''x'', t_put st h ''d/y.txt'' ''yy'',
      t_copiesObjects st h '''' ''backup'' 2,
      t_listing st h '''' [(''x.txt'', 1), (''d/y.txt'', 2), (''backup/x.txt'', 1), (''backup/d/y.txt'', 2)]])"

definition test_CopyAllIsIndependentOfSource :: "('h, 'w) subtest" where
  "test_CopyAllIsIndependentOfSource st newStorage = t_bind newStorage (\<lambda>h. t_all
     [t_put st h ''src/a.txt'' ''original'',
      t_copiesAll st h ''src'' ''dst'',
      t_bind (t_must ''DeleteAll'' (DeleteAll st h Background ''src'')) (\<lambda>_. t_ret ()),
      t_content st h ''dst/a.txt'' ''original''])"

definition test_CopyAllWithinSubStorage :: "('h, 'w) subtest" where
  "test_CopyAllWithinSubStorage st newStorage = t_bind newStorage (\<lambda>h. t_all
     [t_put st h ''sub/src/a.txt'' ''scoped'', t_put st h ''src/a.txt'' ''outside'',
      t_bind (mustSub st h ''sub'') (\<lambda>sub. t_copiesAll st sub ''src'' ''dst''),
      t_content st h ''sub/dst/a.txt'' ''scoped'',
      assertExists st h ''dst/a.txt'' False])"

section \<open>The guard\<close>

definition test_CopyAllGuardRejectsEscapingPrefixes :: "('h, 'w) subtest" where
  "test_CopyAllGuardRejectsEscapingPrefixes st newStorage = t_bind newStorage (\<lambda>h. t_all
     [t_put st h ''src/a.txt'' ''a'',
      t_each [(''../src'', ''dst''), (''src'', ''../dst''), (''src'', ''dst/../../dst'')] (\<lambda>(src, dst).
        t_failsAll ''CopyAll'' ErrUnsafeKey (CopyAll st h Background src dst [])),
      assertExists st h ''dst/a.txt'' False])"

definition escapingKeys :: "string list" where
  "escapingKeys = [''../escape.txt'', ''a/../../escape.txt'', ''/absolute.txt'']"

definition test_GuardRejectsEscapingKeys :: "('h, 'w) subtest" where
  "test_GuardRejectsEscapingKeys st newStorage = t_bind newStorage (\<lambda>h. t_all
     [t_each escapingKeys (\<lambda>key. t_all
        [t_fails ''PutObject'' ErrUnsafeKey (PutObject st h Background key (str_reader ''x'')),
         t_fails ''GetObject'' ErrUnsafeKey (GetObject st h Background key),
         t_fails ''Exists'' ErrUnsafeKey (Exists st h Background key)]),
      t_put st h ''inside.txt'' ''x'',
      t_each escapingKeys (\<lambda>key. t_all
        [t_failsCopy st h ErrUnsafeKey key ''copy.txt'', t_failsCopy st h ErrUnsafeKey ''inside.txt'' key]),
      assertExists st h ''copy.txt'' False])"

definition test_GuardRejectsTheStorageRoot :: "('h, 'w) subtest" where
  "test_GuardRejectsTheStorageRoot st newStorage = t_bind newStorage (\<lambda>h. t_all
     [t_put st h ''kept.txt'' ''kept'',
      t_each ['''', ''.''] (\<lambda>key. t_all
        [t_fails ''DeleteAll'' ErrUnsafeKey (DeleteAll st h Background key),
         t_fails ''Stat'' ErrUnsafeKey (Stat st h key),
         t_failsCopy st h ErrUnsafeKey ''kept.txt'' key]),
      assertExists st h ''kept.txt'' True])"

definition test_GuardSurvivesNavigation :: "('h, 'w) subtest" where
  "test_GuardSurvivesNavigation st newStorage = t_bind newStorage (\<lambda>h. t_all
     [t_put st h ''dir/x.txt'' ''x'',
      t_bind (mustSub st h ''dir'') (\<lambda>sub.
        t_fails ''SubStorage.PutObject(escaping)'' ErrUnsafeKey
          (PutObject st sub Background ''../../escape.txt'' (str_reader ''x''))),
      t_bind (t_must ''ListDir'' (ListDir st h Background)) (\<lambda>(files, dirs). t_all
        [t_require (length dirs = 1) ''ListDir dirs'',
         t_fails ''ListDir dir PutObject(escaping)'' ErrUnsafeKey
           (PutObject st (hd dirs) Background ''../../escape.txt'' (str_reader ''x''))])])"

text \<open>The storage is nil exactly when \<open>SubStorage\<close> returns an error.\<close>

definition test_GuardRejectsEscapingSubStorage :: "('h, 'w) subtest" where
  "test_GuardRejectsEscapingSubStorage st newStorage = t_bind newStorage (\<lambda>h.
     t_each [''../escape'', ''a/../../escape'', ''/absolute''] (\<lambda>subPath.
       let r = SubStorage st h subPath True in t_all
         [t_wantErr ''SubStorage'' ErrUnsafeKey (err_of r),
          t_check (err_of r \<noteq> None) ''SubStorage returned a storage'']))"

definition test_Ping :: "('h, 'w) subtest" where
  "test_Ping st newStorage = t_bind newStorage (\<lambda>h.
     t_bind (t_call (Ping st h Background)) (\<lambda>r. case err_of r of
         Some err \<Rightarrow> t_Errorf (Returned ''Ping'' err) | None \<Rightarrow> t_ret ()))"

definition test_Close :: "('h, 'w) subtest" where
  "test_Close st newStorage = t_bind newStorage (\<lambda>h.
     t_bind (t_call (Close st h)) (\<lambda>r. case err_of r of
         Some err \<Rightarrow> t_Errorf (Returned ''Close'' err) | None \<Rightarrow> t_ret ()))"

section \<open>The suite\<close>

definition suite :: "(int \<Rightarrow> 'w \<Rightarrow> int64) \<Rightarrow> (string \<times> ('h, 'w) subtest) list" where
  "suite since =
     [(''PutGetRoundTrip'', test_PutGetRoundTrip), (''PutGetNestedCreatesDirs'', test_PutGetNestedCreatesDirs),
      (''PutFailedReadKeepsPrevious'', test_PutFailedReadKeepsPrevious),
      (''GetMissingReturnsErrFileNotFound'', test_GetMissingReturnsErrFileNotFound), (''Exists'', test_Exists),
      (''StatMissing'', test_StatMissing), (''StatExisting'', test_StatExisting since),
      (''StatReportsSize'', test_StatReportsSize), (''GetObjectRangeInside'', test_GetObjectRangeInside),
      (''GetObjectRangeToEOF'', test_GetObjectRangeToEOF), (''GetObjectRangeCrossingEOF'', test_GetObjectRangeCrossingEOF),
      (''GetObjectRangeOffsetAtOrPastSize'', test_GetObjectRangeOffsetAtOrPastSize),
      (''GetObjectRangeZeroLength'', test_GetObjectRangeZeroLength),
      (''GetObjectRangeNegativeOffset'', test_GetObjectRangeNegativeOffset),
      (''GetObjectRangeMissing'', test_GetObjectRangeMissing), (''ListNestedTree'', test_ListNestedTree since),
      (''ListMissingPrefix'', test_ListMissingPrefix), (''ListPrefixThatIsAnObject'', test_ListPrefixThatIsAnObject),
      (''ListPrefixIsolation'', test_ListPrefixIsolation), (''ETagAgreesAndChanges'', test_ETagAgreesAndChanges),
      (''ListAfterSubStorage'', test_ListAfterSubStorage), (''ListDirSplitsFilesAndDirs'', test_ListDirSplitsFilesAndDirs),
      (''SubStorageRelative'', test_SubStorageRelative), (''DeleteFile'', test_DeleteFile),
      (''DeleteDirectoryIsAnError'', test_DeleteDirectoryIsAnError),
      (''DeleteMissingIsAnError'', test_DeleteMissingIsAnError),
      (''DeleteWithOneMissingDeletesNothing'', test_DeleteWithOneMissingDeletesNothing),
      (''DeleteAllPrefixIsolation'', test_DeleteAllPrefixIsolation),
      (''DeleteAllMissingPrefixIsAnError'', test_DeleteAllMissingPrefixIsAnError),
      (''CopyRoundTrip'', test_CopyRoundTrip), (''CopyEmptyObject'', test_CopyEmptyObject),
      (''CopyOverwritesDestination'', test_CopyOverwritesDestination),
      (''CopyIsIndependentOfSource'', test_CopyIsIndependentOfSource),
      (''CopyOntoItselfIsANoop'', test_CopyOntoItselfIsANoop),
      (''CopyMissingSourceIsAnError'', test_CopyMissingSourceIsAnError),
      (''CopyDirectoryIsAnError'', test_CopyDirectoryIsAnError),
      (''CopyWithinSubStorage'', test_CopyWithinSubStorage), (''CopyAllTree'', test_CopyAllTree),
      (''CopyAllEmptyObjects'', test_CopyAllEmptyObjects),
      (''CopyAllOverwritesDestination'', test_CopyAllOverwritesDestination),
      (''CopyAllPrefixIsolation'', test_CopyAllPrefixIsolation),
      (''CopyAllMissingPrefixIsAnError'', test_CopyAllMissingPrefixIsAnError),
      (''CopyAllOntoItself'', test_CopyAllOntoItself), (''CopyAllIntoOwnSubtree'', test_CopyAllIntoOwnSubtree),
      (''CopyAllIntoOwnSubtreeLeavesOutTheDestination'', test_CopyAllIntoOwnSubtreeLeavesOutTheDestination),
      (''CopyAllFromRoot'', test_CopyAllFromRoot), (''CopyAllIsIndependentOfSource'', test_CopyAllIsIndependentOfSource),
      (''CopyAllWithinSubStorage'', test_CopyAllWithinSubStorage),
      (''CopyAllGuardRejectsEscapingPrefixes'', test_CopyAllGuardRejectsEscapingPrefixes),
      (''GuardRejectsEscapingKeys'', test_GuardRejectsEscapingKeys),
      (''GuardRejectsTheStorageRoot'', test_GuardRejectsTheStorageRoot),
      (''GuardSurvivesNavigation'', test_GuardSurvivesNavigation),
      (''GuardRejectsEscapingSubStorage'', test_GuardRejectsEscapingSubStorage),
      (''Ping'', test_Ping), (''Close'', test_Close)]"

fun run_all :: "('h, 'w) storager \<Rightarrow> ('w, 'h) test \<Rightarrow> (string \<times> ('h, 'w) subtest) list \<Rightarrow> 'w \<Rightarrow>
    (string \<times> report list) list \<times> 'w" where
  "run_all st newStorage [] w = ([], w)"
| "run_all st newStorage ((nm, subtest) # ts) w =
     (case subtest st newStorage w of (_, l, w1) \<Rightarrow>
        (case run_all st newStorage ts w1 of (rs, w2) \<Rightarrow> ((nm, l) # rs, w2)))"

definition Run :: "(int \<Rightarrow> 'w \<Rightarrow> int64) \<Rightarrow> ('h, 'w) storager \<Rightarrow> ('w, 'h) test \<Rightarrow> 'w \<Rightarrow>
    (string \<times> report list) list \<times> 'w" where
  "Run since st newStorage = run_all st newStorage (suite since)"

text \<open>What \<^verbatim>\<open>go test\<close> counts as a failure: any report but a skip.\<close>

fun skipped :: "report \<Rightarrow> bool" where
  "skipped (Skipped m) = True"
| "skipped (Wrong m) = False"
| "skipped (Returned m e) = False"

definition failures :: "(string \<times> report list) list \<times> 'w \<Rightarrow> (string \<times> report list) list" where
  "failures results = filter (\<lambda>(nm, l). l \<noteq> []) (map (\<lambda>(nm, l). (nm, filter (\<lambda>r. \<not> skipped r) l)) (fst results))"

end
