(* ===== verification/Suite_Laws.thy ===== *)
theory Suite_Laws
  imports Storagetest
begin

text \<open>
  What the storage contract promises the conformance suite. Inside \<open>sized_contract\<close> each helper of
  the suite has a rule over the objects the storage holds; with them the cases about contents, sizes,
  ranges and listings are taken apart step by step. Shown: on a storage with the contract these
  cases never report a wrong answer, only errors the storage returned.
\<close>

section \<open>Names below a prefix\<close>

text \<open>The key that names \<open>k\<close> relative to \<open>p\<close>, if it lies below.\<close>

definition below :: "string \<Rightarrow> string \<Rightarrow> string option" where
  "below p k =
     (let n = length (path_segs p); rest = drop n (path_segs k) in
      if take n (path_segs k) = path_segs p \<and> rest \<noteq> [] then Some (render False rest) else None)"

lemma below_iff:
  assumes "stays_inside p" "key_ok k"
  shows "below p k = Some n \<longleftrightarrow> key_ok n \<and> path_Join p n = k"
proof
  assume b: "below p k = Some n"
  let ?rest = "drop (length (path_segs p)) (path_segs k)"
  have r: "?rest \<noteq> []" "n = render False ?rest" "path_segs k = path_segs p @ ?rest"
    using b by (auto simp: below_def Let_def split: if_splits) (metis append_take_drop_id)
  have "\<forall>s \<in> set ?rest. real_seg s" using key_ok_real [OF assms(2)] by (meson in_set_dropD)
  note n = key_of_segs [OF r(1) this, folded r(2)]
  have "path_segs (path_Join p n) = path_segs k"
    using n r(3) by (simp add: path_segs_Join key_okD)
  with n assms show "key_ok n \<and> path_Join p n = k"
    by (simp add: key_ok_eqI path_Join_key_ok)
next
  assume "key_ok n \<and> path_Join p n = k"
  then have n: "key_ok n" and k: "path_segs k = path_segs p @ path_segs n"
    by (auto simp: path_segs_Join key_okD)
  have "render False (path_segs n) = n"
    using key_ok_not_abs [OF n] key_okD(2) [OF n] by (simp add: path_Clean_render)
  with n k show "below p k = Some n" by (simp add: below_def key_okD)
qed

text \<open>The names of a list of keys below a prefix.\<close>

definition names_below :: "string \<Rightarrow> string list \<Rightarrow> string list" where
  "names_below p ks = List.map_filter (below p) ks"

lemma set_names_below:
  assumes "stays_inside p" "list_all key_ok ks"
  shows "n \<in> set (names_below p ks) \<longleftrightarrow> key_ok n \<and> path_Join p n \<in> set ks"
proof -
  have "n \<in> set (names_below p ks) \<longleftrightarrow> (\<exists>k \<in> set ks. below p k = Some n)"
    by (force simp: names_below_def map_filter_def)
  also have "\<dots> \<longleftrightarrow> key_ok n \<and> path_Join p n \<in> set ks"
    using below_iff [OF assms(1)] assms(2) by (auto simp: list_all_iff)
  finally show ?thesis .
qed

section \<open>The helpers on a storage with the contract\<close>

text \<open>
  \<open>holds h al\<close>: the storage is well-formed and its objects are those of the association list,
  texts by their keys.
\<close>

definition texts :: "(string \<times> string) list \<Rightarrow> string \<rightharpoonup> bytes" where
  "texts al = map_option str_bytes \<circ> map_of al"

lemma texts_Cons: "texts ((k, s) # al) = (texts al)(k \<mapsto> str_bytes s)"
  by (auto simp: texts_def fun_eq_iff)

lemma texts_None: "texts al k = None \<longleftrightarrow> k \<notin> set (map fst al)"
  by (auto simp: texts_def map_of_eq_None_iff)

lemma texts_Some: "map_of al k = Some s \<Longrightarrow> texts al k = Some (str_bytes s)"
  by (simp add: texts_def)

lemma length_str_bytes [simp]: "length (str_bytes s) = length s"
  by (simp add: str_bytes_def)

lemma str_reader_sel [simp]: "rd_bytes (str_reader s) = str_bytes s" "rd_end (str_reader s) = None"
  by (simp_all add: str_reader_def)

text \<open>The listing a storage with these objects must give.\<close>

definition lists_as :: "(string \<times> string) list \<Rightarrow> string \<Rightarrow> (string \<times> int64) list \<Rightarrow> bool" where
  "lists_as al p want \<longleftrightarrow> list_all key_ok (map fst al) \<and> distinct (map fst want) \<and>
     sort (map fst want) = sort (remdups (names_below p (map fst al))) \<and>
     list_all (\<lambda>(n, size). case map_of al (path_Join p n) of None \<Rightarrow> False | Some s \<Rightarrow> size = int (length s)) want"

lemma sound_assertObjects:
  assumes "lists_as al p want"
    and "object_names os = sort (remdups (names_below p (map fst al)))"
    and "\<forall>x \<in> set os. \<forall>s. map_of al (path_Join p (Name x)) = Some s \<longrightarrow> Size x = int (length s)"
  shows "sound P (assertObjects os want) (\<lambda>_. P)"
proof -
  have names: "object_names os = sort (map fst want)" using assms(1,2) by (simp add: lists_as_def)
  have "Size x = (case map_of want (Name x) of Some n \<Rightarrow> n | None \<Rightarrow> 0)" if x: "x \<in> set os" for x
  proof -
    have "Name x \<in> set (object_names os)" using x by (simp add: object_names_def)
    then obtain n where n: "(Name x, n) \<in> set want" unfolding names by auto
    then obtain s where "map_of al (path_Join p (Name x)) = Some s" "n = int (length s)"
      using assms(1) by (auto simp: lists_as_def list_all_iff split: option.splits)
    moreover have "map_of want (Name x) = Some n" using n assms(1) by (simp add: lists_as_def)
    ultimately show ?thesis using assms(3) x by simp
  qed
  then show ?thesis
    unfolding assertObjects_def Let_def
    by (intro sound_bind [OF sound_require sound_each [OF sound_check]]) (simp_all add: names)
qed

text \<open>What a storage reports as modified was modified just now, by the clock of the test.\<close>

definition recent :: "(int \<Rightarrow> 'w \<Rightarrow> int64) \<Rightarrow> ObjectStat \<Rightarrow> 'w \<Rightarrow> bool" where
  "recent since x w \<longleftrightarrow> \<not> duration_Abs (since (LastModified x) w) > ten_seconds"

definition keeps_time :: "(int \<Rightarrow> 'w \<Rightarrow> int64) \<Rightarrow> ('h, 'w) storager \<Rightarrow> ('h \<Rightarrow> 'w \<Rightarrow> bool) \<Rightarrow> bool" where
  "keeps_time since st good \<longleftrightarrow> (\<forall>h w. good h w \<longrightarrow>
     (\<forall>k x w'. Stat st h k w = (Inr x, w') \<and> Exist x \<longrightarrow> recent since x w') \<and>
     (\<forall>p xs w'. List_op st h Background p w = (Inr xs, w') \<longrightarrow> (\<forall>x \<in> set xs. recent since x w')))"

context sized_contract
begin

definition holds :: "'a \<Rightarrow> (string \<times> string) list \<Rightarrow> 'b \<Rightarrow> bool" where
  "holds h al w \<longleftrightarrow> wf h w \<and> objs h w = texts al"

lemma sound_put:
  assumes "key_ok k"
  shows "sound (holds h al) (t_put st h k s) (\<lambda>_. holds h ((k, s) # al))"
  unfolding t_put_def
proof (rule sound_bind [OF sound_must])
  fix w n w'
  assume "holds h al w" "PutObject st h Background k (str_reader s) w = (Inr n, w')"
  with put_ok [OF _ assms] show "holds h ((k, s) # al) w'" by (auto simp: holds_def texts_Cons)
qed (simp add: sound_ret)

lemma sound_get:
  assumes "key_ok k" "map_of al k = Some s"
  shows "sound (holds h al) (mustGet st h k) (\<lambda>got w. got = str_bytes s \<and> holds h al w)"
  unfolding mustGet_def
proof (rule sound_bind)
  show "sound (holds h al) (t_must ''GetObject'' (GetObject st h Background k))
      (\<lambda>r w. (rd_end r = None \<longrightarrow> rd_bytes r = str_bytes s) \<and> holds h al w)"
  proof (rule sound_must)
    fix w r w'
    assume w: "holds h al w" and G: "GetObject st h Background k w = (Inr r, w')"
    then have "wf h w" "objs h w k = Some (str_bytes s)"
      using assms(2) by (simp_all add: holds_def texts_Some)
    with get_content [OF _ assms(1) _ G] get_frame [OF _ assms(1) G] w
    show "(rd_end r = None \<longrightarrow> rd_bytes r = str_bytes s) \<and> holds h al w'" by (auto simp: holds_def)
  qed
qed (auto intro: sound_read_close)

lemma sound_content:
  assumes "key_ok k" "map_of al k = Some s"
  shows "sound (holds h al) (t_content st h k s) (\<lambda>_. holds h al)"
  unfolding t_content_def
  by (rule sound_bind [OF sound_get [OF assms]], rule sound_pre, rule sound_check) simp

lemma sound_exists:
  assumes "key_ok k" "map_of al k = Some s"
  shows "sound (holds h al) (assertExists st h k True) (\<lambda>_. holds h al)"
  unfolding assertExists_def
proof (rule sound_bind)
  show "sound (holds h al) (t_must ''Exists'' (Exists st h Background k)) (\<lambda>ok w. ok \<and> holds h al w)"
  proof (rule sound_must)
    fix w ok w'
    assume w: "holds h al w" and E: "Exists st h Background k w = (Inr ok, w')"
    then have "wf h w" "objs h w k \<noteq> None" using assms(2) by (simp_all add: holds_def texts_Some)
    with exists_object [OF _ assms(1), of h w Background w'] exists_frame [OF _ assms(1) E] E w
    show "ok \<and> holds h al w'" by (cases ok) (auto simp: holds_def)
  qed
qed (rule sound_pre, rule sound_check, simp)

lemma sound_stat:
  assumes "key_ok k" "map_of al k = Some s"
  shows "sound (holds h al) (t_must what (Stat st h k))
    (\<lambda>stat w. (Exist stat \<and> Size stat = int (length s)) \<and> holds h al w)"
proof (rule sound_must)
  fix w stat w'
  assume w: "holds h al w" and S: "Stat st h k w = (Inr stat, w')"
  then have "wf h w" "objs h w k = Some (str_bytes s)" using assms(2) by (simp_all add: holds_def texts_Some)
  with stat_object [OF _ assms(1) _ S] stat_frame [OF _ assms(1) S] w
  show "(Exist stat \<and> Size stat = int (length s)) \<and> holds h al w'" by (auto simp: holds_def)
qed

lemma sound_stat_recent:
  assumes "key_ok k" "map_of al k = Some s" "keeps_time since st wf"
  shows "sound (holds h al) (t_must what (Stat st h k)) (\<lambda>stat w. Exist stat \<and> recent since stat w)"
proof (rule sound_must)
  fix w stat w'
  assume w: "holds h al w" and S: "Stat st h k w = (Inr stat, w')"
  then have "wf h w" "objs h w k = Some (str_bytes s)" using assms(2) by (simp_all add: holds_def texts_Some)
  with stat_object [OF _ assms(1) _ S] S assms(3) show "Exist stat \<and> recent since stat w'"
    unfolding keeps_time_def by blast
qed

lemma sound_list_recent:
  assumes "keeps_time since st wf"
  shows "sound (holds h al) (t_must what (List_op st h Background p)) (\<lambda>os w. \<forall>x \<in> set os. recent since x w)"
  using assms by (intro sound_must) (auto simp: keeps_time_def holds_def)

lemma sound_range:
  assumes "key_ok k" "map_of al k = Some s" "in64 len"
  shows "sound (holds h al) (mustGetRange st h k off len)
    (\<lambda>got w. got = clamped off len (str_bytes s) \<and> holds h al w)"
  unfolding mustGetRange_def
proof (rule sound_bind)
  show "sound (holds h al) (t_must ''GetObjectRange'' (GetObjectRange st h Background k off len))
      (\<lambda>r w. (rd_end r = None \<longrightarrow> rd_bytes r = clamped off len (str_bytes s)) \<and> holds h al w)"
  proof (rule sound_must)
    fix w r w'
    assume w: "holds h al w" and G: "GetObjectRange st h Background k off len w = (Inr r, w')"
    then have "wf h w" "objs h w k = Some (str_bytes s)"
      using assms(2) by (simp_all add: holds_def texts_Some)
    with range_content [OF _ assms(1,3) _ G] range_frame [OF _ assms(1) G] w
    show "(rd_end r = None \<longrightarrow> rd_bytes r = clamped off len (str_bytes s)) \<and> holds h al w'"
      by (auto simp: holds_def)
  qed
qed (auto intro: sound_read_close)

lemma sound_bad_range:
  assumes "key_ok k" "map_of al k = Some s" "in64 len" "off < 0 \<or> len = 0 \<or> int (length s) \<le> off"
  shows "sound (holds h al) (t_fails what want (GetObjectRange st h Background k off len)) (\<lambda>_. holds h al)"
proof (rule sound_fails)
  fix w r w'
  assume "holds h al w" and G: "GetObjectRange st h Background k off len w = (Inr r, w')"
  then have "wf h w" "objs h w k = Some (str_bytes s)"
    using assms(2) by (simp_all add: holds_def texts_Some)
  with range_content [OF _ assms(1,3) _ G] assms(4) show False by auto
next
  fix w e w'
  assume "holds h al w" "GetObjectRange st h Background k off len w = (Inl e, w')"
  then show "holds h al w'" using range_frame [OF _ assms(1)] by (auto simp: holds_def)
qed

text \<open>A listing of a prefix is determined by the objects: the sorted names below it.\<close>

lemma sound_list:
  assumes "stays_inside p" "list_all key_ok (map fst al)"
  shows "sound (holds h al) (t_must what (List_op st h Background p))
    (\<lambda>os w. (object_names os = sort (remdups (names_below p (map fst al))) \<and>
      (\<forall>x \<in> set os. Exist x \<and> (\<forall>s. map_of al (path_Join p (Name x)) = Some s \<longrightarrow> Size x = int (length s)))) \<and>
      holds h al w)"
proof (rule sound_must)
  fix w os w'
  assume w: "holds h al w" and L: "List_op st h Background p w = (Inr os, w')"
  then have g: "wf h w" and o': "objs h w = texts al" by (simp_all add: holds_def)
  note lc = list_content [OF g assms(1) L]
  have "n \<in> Name ` set os \<longleftrightarrow> n \<in> set (names_below p (map fst al))" for n
    using lc set_names_below [OF assms, of n] by (auto simp: o' texts_None)
  then have "set (map Name os) = set (sort (remdups (names_below p (map fst al))))" by auto
  moreover have "sorted (map Name os)" "distinct (map Name os)"
    using lc by (auto simp: strict_sorted_iff)
  ultimately have "map Name os = sort (remdups (names_below p (map fst al)))"
    by (intro sorted_distinct_set_unique) (simp_all add: distinct_sort)
  moreover have "Size x = int (length s)" if "x \<in> set os" "map_of al (path_Join p (Name x)) = Some s" for x s
    using list_size [OF g assms(1) L that(1), of "str_bytes s"] that(2) by (simp add: o' texts_Some)
  moreover have "holds h al w'" using list_frame [OF g assms(1) L] w by (simp add: holds_def)
  ultimately show "(object_names os = sort (remdups (names_below p (map fst al))) \<and>
      (\<forall>x \<in> set os. Exist x \<and> (\<forall>s. map_of al (path_Join p (Name x)) = Some s \<longrightarrow> Size x = int (length s)))) \<and>
      holds h al w'"
    using lc by (simp add: object_names_def)
qed

lemma sound_listing:
  assumes "stays_inside p" "lists_as al p want"
  shows "sound (holds h al) (t_bind (t_must what (List_op st h Background p)) (\<lambda>objects. assertObjects objects want))
    (\<lambda>_. holds h al)"
proof -
  have "list_all key_ok (map fst al)" using assms(2) by (simp add: lists_as_def)
  from sound_list [OF assms(1) this] show ?thesis
    by (rule sound_bind) (rule sound_pre, rule sound_assertObjects [OF assms(2)], simp_all)
qed

text \<open>A copy counts the bytes, unless the destination already held them.\<close>

lemma sound_copy:
  assumes "key_ok k" "key_ok d" "map_of al k = Some s" "in64 (int (length s))"
  shows "sound (holds h al) (t_mustCopy st h k d)
    (\<lambda>c w. ((s = [] \<or> texts al d \<noteq> Some (str_bytes s)) \<longrightarrow> Bytes c = int (length s)) \<and> holds h ((d, s) # al) w)"
  unfolding t_mustCopy_def
proof (rule sound_must)
  fix w c w'
  assume w: "holds h al w" and C: "Copy st h Background k d [] w = (Inr c, w')"
  then have g: "wf h w" "objs h w k = Some (str_bytes s)" "objs h w = texts al"
    using assms(3) by (simp_all add: holds_def texts_Some)
  from copy_ok [OF g(1) assms(1,2) C] copy_bytes [OF g(1) assms(1,2) C g(2)] g assms(4)
  show "((s = [] \<or> texts al d \<noteq> Some (str_bytes s)) \<longrightarrow> Bytes c = int (length s)) \<and> holds h ((d, s) # al) w'"
    by (auto simp: holds_def texts_Cons)
qed

lemma sound_lists_nothing:
  assumes "stays_inside p" "list_all key_ok (map fst al)" "names_below p (map fst al) = []"
  shows "sound (holds h al) (t_listsNothing st h p) (\<lambda>_. holds h al)"
  unfolding t_listsNothing_def
  by (rule sound_bind [OF sound_list [OF assms(1,2)]], rule sound_pre, rule sound_check)
    (use assms(3) in \<open>simp add: object_names_def\<close>)

end

section \<open>The cases the contract decides\<close>

lemma suite_keys [simp]:
  "key_ok ''test.txt''" "key_ok ''a/b/c.txt''" "key_ok ''info.txt''" "key_ok ''sized.txt''" "key_ok ''ranged.txt''"
  "key_ok ''a.txt''" "key_ok ''dir/b.txt''" "key_ok ''dir/sub/c.txt''" "key_ok ''dir.txt''" "key_ok ''kept/a.txt''"
  "key_ok ''data/one.txt''" "key_ok ''database/two.txt''" "key_ok ''empty.txt''" "key_ok ''empty-copy.txt''"
  "key_ok ''src.txt''" "key_ok ''dst.txt''" "key_ok ''nested/dir/dst.txt''"
  by (simp_all add: key_ok_def path_simps)

lemma suite_prefixes [simp]:
  "stays_inside ''dir''" "stays_inside ''never_existed''" "stays_inside ''still_missing''" "stays_inside ''a.txt''"
  "stays_inside ''data''"
  by (simp_all add: stays_inside_def path_simps)

context sized_contract
begin

definition fresh :: "('b, 'a) test \<Rightarrow> bool" where
  "fresh newStorage \<longleftrightarrow> sound (\<lambda>_. True) newStorage (\<lambda>h. holds h [])"

lemma sound_case:
  "fresh newStorage \<Longrightarrow> (\<And>h. sound (holds h []) (f h) (\<lambda>_ _. True)) \<Longrightarrow>
    sound (\<lambda>_. True) (t_bind newStorage f) (\<lambda>_ _. True)"
  unfolding fresh_def by (rule sound_bind)

lemmas sound_steps = sound_Cons sound_Nil sound_put sound_content

lemma sound_PutGetRoundTrip:
  "fresh ns \<Longrightarrow> sound (\<lambda>_. True) (test_PutGetRoundTrip st ns) (\<lambda>_ _. True)"
  unfolding test_PutGetRoundTrip_def by (erule sound_case) (rule sound_steps | simp)+

lemma sound_PutGetNestedCreatesDirs:
  "fresh ns \<Longrightarrow> sound (\<lambda>_. True) (test_PutGetNestedCreatesDirs st ns) (\<lambda>_ _. True)"
  unfolding test_PutGetNestedCreatesDirs_def by (erule sound_case) (rule sound_steps | simp)+

lemma sound_StatReportsSize:
  "fresh ns \<Longrightarrow> sound (\<lambda>_. True) (test_StatReportsSize st ns) (\<lambda>_ _. True)"
  unfolding test_StatReportsSize_def
  by (erule sound_case) (rule sound_steps sound_bind [OF sound_stat] sound_pre sound_check | simp)+

lemma sound_StatExisting:
  assumes "fresh ns" "keeps_time since st wf"
  shows "sound (\<lambda>_. True) (test_StatExisting since st ns) (\<lambda>_ _. True)"
  unfolding test_StatExisting_def
  by (rule sound_case [OF assms(1)])
    (rule sound_last sound_steps sound_bind [OF sound_stat_recent [OF _ _ assms(2)]] sound_bind [OF sound_check]
      sound_bind [OF sound_run [where Q = "\<lambda>d w. \<not> duration_Abs d > ten_seconds"]] sound_check_last
      | simp add: recent_def)+

text \<open>The range cases read one object, and expect its slice or a refusal.\<close>

lemma sound_range_case:
  assumes "fresh ns" "in64 len" "want = clamped off len (str_bytes rangeContent)"
  shows "sound (\<lambda>_. True) (t_bind ns (\<lambda>h. t_all [t_put st h ''ranged.txt'' rangeContent,
      t_bind (mustGetRange st h ''ranged.txt'' off len) (\<lambda>got. t_check (got = want) what)])) (\<lambda>_ _. True)"
  by (rule sound_case [OF assms(1)])
    (rule sound_last sound_steps sound_bind [OF sound_range] sound_pre sound_check_last | simp add: assms(2,3))+

lemma sound_refused_range:
  assumes "in64 len" "off < 0 \<or> len = 0 \<or> int (length rangeContent) \<le> off"
  shows "sound (holds h [(''ranged.txt'', rangeContent)])
    (t_fails what want (GetObjectRange st h Background ''ranged.txt'' off len)) (\<lambda>_. holds h [(''ranged.txt'', rangeContent)])"
  using assms by (intro sound_bad_range [where s = rangeContent]) simp_all

lemma sound_ranges:
  assumes ns: "fresh ns"
  shows "sound (\<lambda>_. True) (test_GetObjectRangeInside st ns) (\<lambda>_ _. True)"
    "sound (\<lambda>_. True) (test_GetObjectRangeToEOF st ns) (\<lambda>_ _. True)"
    "sound (\<lambda>_. True) (test_GetObjectRangeCrossingEOF st ns) (\<lambda>_ _. True)"
  unfolding test_GetObjectRangeInside_def test_GetObjectRangeToEOF_def test_GetObjectRangeCrossingEOF_def
  by (rule sound_range_case [OF ns], simp add: in64_iff, code_simp)+

lemma sound_bad_ranges:
  assumes ns: "fresh ns"
  shows "sound (\<lambda>_. True) (test_GetObjectRangeOffsetAtOrPastSize st ns) (\<lambda>_ _. True)"
    "sound (\<lambda>_. True) (test_GetObjectRangeZeroLength st ns) (\<lambda>_ _. True)"
    "sound (\<lambda>_. True) (test_GetObjectRangeNegativeOffset st ns) (\<lambda>_ _. True)"
  unfolding test_GetObjectRangeOffsetAtOrPastSize_def test_GetObjectRangeZeroLength_def test_GetObjectRangeNegativeOffset_def
  by (rule sound_case [OF ns], (rule sound_steps sound_each sound_refused_range | force simp: in64_iff)+)+

lemma sound_ListMissingPrefix:
  "fresh ns \<Longrightarrow> sound (\<lambda>_. True) (test_ListMissingPrefix st ns) (\<lambda>_ _. True)"
  unfolding test_ListMissingPrefix_def
  by (erule sound_case) (rule sound_steps sound_lists_nothing | simp | code_simp)+

lemma sound_ListPrefixThatIsAnObject:
  "fresh ns \<Longrightarrow> sound (\<lambda>_. True) (test_ListPrefixThatIsAnObject st ns) (\<lambda>_ _. True)"
  unfolding test_ListPrefixThatIsAnObject_def
  by (erule sound_case) (rule sound_steps sound_lists_nothing | simp | code_simp)+

lemma sound_ListPrefixIsolation:
  "fresh ns \<Longrightarrow> sound (\<lambda>_. True) (test_ListPrefixIsolation st ns) (\<lambda>_ _. True)"
  unfolding test_ListPrefixIsolation_def t_listing_def
  by (erule sound_case) (rule sound_steps sound_listing | simp | code_simp)+

text \<open>The listing of the nested tree, whose entries are also asked for their age.\<close>

lemma sound_ListNestedTree:
  assumes "fresh ns" "keeps_time since st wf"
  shows "sound (\<lambda>_. True) (test_ListNestedTree since st ns) (\<lambda>_ _. True)"
proof -
  let ?al = "[(''dir.txt'', ''4444''), (''dir/sub/c.txt'', ''333''), (''dir/b.txt'', ''22''), (''a.txt'', ''1'')]"
  let ?want = "[(''a.txt'', 1), (''dir.txt'', 4), (''dir/b.txt'', 2), (''dir/sub/c.txt'', 3)] :: (string \<times> int64) list"
  let ?entry = "\<lambda>x. t_bind (t_check (Exist x) ''List entry Exist'') (\<lambda>_.
      t_bind (t_run (\<lambda>w. (since (LastModified x) w, w))) (\<lambda>skew.
        t_check (\<not> duration_Abs skew > ten_seconds) ''List entry LastModified''))"
  have keys: "list_all key_ok (map fst ?al)" and lists: "lists_as ?al '''' ?want" by code_simp+
  have entry: "sound P (?entry x) (\<lambda>_. P)" if "Exist x" "\<And>w. P w \<Longrightarrow> recent since x w" for x P
    by (rule sound_bind [OF sound_check [OF that(1)]],
        rule sound_bind [OF sound_run [where Q = "\<lambda>d w. \<not> duration_Abs d > ten_seconds \<and> P w"]],
        use that(2) in \<open>simp add: recent_def\<close>, rule sound_pre, rule sound_check)
  have root: "sound (holds h ?al) (t_bind (t_must ''List'' (List_op st h Background '''')) (\<lambda>objects. t_all
      [assertObjects objects ?want, t_each objects ?entry])) (\<lambda>_. holds h ?al)" for h
  proof (rule sound_bind [OF sound_conj [OF sound_list [OF stays_inside_Nil keys] sound_list_recent [OF assms(2)]]])
    fix os
    let ?names = "object_names os = sort (remdups (names_below '''' (map fst ?al)))"
    let ?stats = "\<forall>x \<in> set os. Exist x \<and> (\<forall>s. map_of ?al (path_Join '''' (Name x)) = Some s \<longrightarrow> Size x = int (length s))"
    let ?P = "\<lambda>w. holds h ?al w \<and> (\<forall>x \<in> set os. recent since x w)"
    have "sound ?P (t_all [assertObjects os ?want, t_each os ?entry]) (\<lambda>_. ?P)" if ?names ?stats
      using that by (intro sound_Cons [OF sound_assertObjects [OF lists]] sound_Cons [OF sound_each [OF entry]] sound_Nil) auto
    then have "?names \<Longrightarrow> ?stats \<Longrightarrow> sound ?P (t_all [assertObjects os ?want, t_each os ?entry]) (\<lambda>_. holds h ?al)"
      by (rule sound_weaken) blast+
    then show "sound (\<lambda>w. ((?names \<and> ?stats) \<and> holds h ?al w) \<and> (\<forall>x \<in> set os. recent since x w))
        (t_all [assertObjects os ?want, t_each os ?entry]) (\<lambda>_. holds h ?al)"
      unfolding conj_assoc by (intro sound_pre)
  qed
  show ?thesis
    unfolding test_ListNestedTree_def t_listing_def
    by (rule sound_case [OF assms(1)]) (rule sound_steps root sound_listing | simp | code_simp)+
qed

lemma sound_CopyRoundTrip:
  "fresh ns \<Longrightarrow> sound (\<lambda>_. True) (test_CopyRoundTrip st ns) (\<lambda>_ _. True)"
  unfolding test_CopyRoundTrip_def
  by (erule sound_case) (rule sound_steps sound_bind [OF sound_copy] sound_pre sound_check | simp add: in64_iff texts_def)+

lemma sound_CopyEmptyObject:
  "fresh ns \<Longrightarrow> sound (\<lambda>_. True) (test_CopyEmptyObject st ns) (\<lambda>_ _. True)"
  unfolding test_CopyEmptyObject_def
  by (erule sound_case)
    (rule sound_last sound_steps sound_bind [OF sound_copy] sound_bind [OF sound_get] sound_pre sound_check_last sound_check
      | simp add: in64_iff texts_def str_bytes_def)+

lemma sound_CopyOverwritesDestination:
  "fresh ns \<Longrightarrow> sound (\<lambda>_. True) (test_CopyOverwritesDestination st ns) (\<lambda>_ _. True)"
  unfolding test_CopyOverwritesDestination_def
  by (erule sound_case)
    (rule sound_steps sound_bind [OF sound_copy] sound_pre sound_check | simp add: in64_iff texts_def str_bytes_def)+

end

end
