(* ===== verification/Walk.thy ===== *)
theory Walk
  imports Fs_Laws
begin

text \<open>
  \<^verbatim>\<open>utils.go\<close>: the recursive listing of a storage. Its recursion follows \<open>ListDir\<close>, so it ends
  only on a storage of finite depth: the model has fuel, one unit per level, and running out is
  \<open>None\<close>. The locale \<open>tree_contract\<close> is what a listing of one directory promises; inside it
  \<open>Walk\<close> is shown to return, on enough fuel, exactly the objects of the storage. The file system
  storage is an instance.
\<close>

section \<open>The source\<close>

type_synonym ('h, 'w) walker = "'h \<Rightarrow> string \<Rightarrow> 'w \<Rightarrow> ((error + string list) \<times> 'w) option"

fun walk_dirs :: "('h, 'w) walker \<Rightarrow> ('h, 'w) storager \<Rightarrow> string \<Rightarrow> 'h list \<Rightarrow> string list \<Rightarrow> 'w \<Rightarrow>
    ((error + string list) \<times> 'w) option" where
  "walk_dirs rec st parent [] res w = Some (Inr res, w)"
| "walk_dirs rec st parent (d # ds) res w =
     (case rec d (path_Join parent (Dirname st d)) w of
        None \<Rightarrow> None
      | Some (Inl err, w') \<Rightarrow> Some (Inl (Errorf ''error walking through directory'' [err]), w')
      | Some (Inr subFiles, w') \<Rightarrow> walk_dirs rec st parent ds (res @ subFiles) w')"

primrec walk :: "nat \<Rightarrow> ('h, 'w) storager \<Rightarrow> 'w ctx \<Rightarrow> ('h, 'w) walker" where
  "walk 0 st ctx h parent w = None"
| "walk (Suc fuel) st ctx h parent w =
     (case ctx w of
        Some err \<Rightarrow> Some (Inl err, w)
      | None \<Rightarrow>
          (case ListDir st h ctx w of
             (Inl err, w') \<Rightarrow> Some (Inl (Errorf ''error listing directory'' [err]), w')
           | (Inr (files, dirs), w') \<Rightarrow>
               walk_dirs (walk fuel st ctx) st parent dirs (map (path_Join parent) files) w'))"

definition Walk :: "nat \<Rightarrow> ('h, 'w) storager \<Rightarrow> 'w ctx \<Rightarrow> 'h \<Rightarrow> 'w \<Rightarrow> ((error + string list) \<times> 'w) option" where
  "Walk fuel st ctx h w = walk fuel st ctx h '''' w"

section \<open>Keys and their first segment\<close>

definition keys :: "(string \<rightharpoonup> bytes) \<Rightarrow> string set" where
  "keys m = {k. key_ok k \<and> m k \<noteq> None}"

lemma real_seg_key: "real_seg n \<Longrightarrow> key_ok n"
  using real_seg_single [of n] key_of_segs [of "[n]"] by (simp add: render_def)

lemma key_first_rest:
  assumes "key_ok k" "path_segs k = s # t # rest"
  obtains k' where "key_ok k'" "real_seg s" "k = path_Join s k'"
proof -
  have real: "\<forall>x \<in> set (s # t # rest). real_seg x" using key_ok_real [OF assms(1)] assms(2) by simp
  let ?k = "render False (t # rest)"
  have k': "key_ok ?k" "path_segs ?k = t # rest" using real by (auto intro!: key_of_segs)
  have s: "real_seg s" using real by simp
  have "key_ok (path_Join s ?k)" using real_seg_single [OF s] k'(1) by (intro path_Join_key_ok) simp_all
  moreover have "path_segs (path_Join s ?k) = path_segs k"
    using real_seg_single [OF s] k' assms(2) by (simp add: path_segs_Join key_okD)
  ultimately have "k = path_Join s ?k" using assms(1) by (intro key_ok_eqI) simp_all
  with k'(1) s show ?thesis by (rule that)
qed

lemma key_one_seg: "key_ok k \<Longrightarrow> path_segs k = [s] \<Longrightarrow> k = s \<and> real_seg s"
  using key_ok_real [of k s] key_ok_eqI [of k s] real_seg_key [of s] real_seg_single [of s] by simp

section \<open>What a directory listing promises\<close>

text \<open>\<open>deep h w n\<close> bounds the nesting of directories below \<open>h\<close> by \<open>n\<close>.\<close>

locale tree_contract =
  fixes st :: "('h, 'w) storager"
    and objs :: "'h \<Rightarrow> 'w \<Rightarrow> string \<rightharpoonup> bytes"
    and good :: "'h \<Rightarrow> 'w \<Rightarrow> bool"
    and deep :: "'h \<Rightarrow> 'w \<Rightarrow> nat \<Rightarrow> bool"
  assumes listdir_frame: "good h w \<Longrightarrow> ListDir st h ctx w = (r, w') \<Longrightarrow>
      objs h' w' = objs h' w \<and> (good h' w \<longrightarrow> good h' w') \<and> deep h' w' = deep h' w"
    and listdir_files: "good h w \<Longrightarrow> ListDir st h ctx w = (Inr (files, dirs), w') \<Longrightarrow>
      n \<in> set files \<longleftrightarrow> real_seg n \<and> objs h w n \<noteq> None"
    and listdir_dirs: "good h w \<Longrightarrow> ListDir st h ctx w = (Inr (files, dirs), w') \<Longrightarrow> d \<in> set dirs \<Longrightarrow>
      real_seg (Dirname st d) \<and> good d w \<and>
      (\<forall>k. key_ok k \<longrightarrow> objs d w k = objs h w (path_Join (Dirname st d) k))"
    and listdir_all: "good h w \<Longrightarrow> ListDir st h ctx w = (Inr (files, dirs), w') \<Longrightarrow> real_seg n \<Longrightarrow> key_ok k \<Longrightarrow>
      objs h w (path_Join n k) \<noteq> None \<Longrightarrow> n \<in> Dirname st ` set dirs"
    and listdir_deep: "good h w \<Longrightarrow> deep h w m \<Longrightarrow> ListDir st h ctx w = (Inr (files, dirs), w') \<Longrightarrow> d \<in> set dirs \<Longrightarrow>
      0 < m \<and> deep d w (m - 1)"
begin

text \<open>The objects of a directory are its files and the objects of its directories.\<close>

lemma listdir_keys:
  assumes "good h w" "ListDir st h ctx w = (Inr (files, dirs), w')"
  shows "keys (objs h w) = set files \<union> (\<Union>d \<in> set dirs. path_Join (Dirname st d) ` keys (objs d w))"
proof (intro set_eqI iffI)
  fix k assume k: "k \<in> keys (objs h w)"
  then have ok: "key_ok k" "objs h w k \<noteq> None" by (simp_all add: keys_def)
  show "k \<in> set files \<union> (\<Union>d \<in> set dirs. path_Join (Dirname st d) ` keys (objs d w))"
  proof (cases "path_segs k")
    case (Cons s ss)
    show ?thesis
    proof (cases ss)
      case Nil
      with key_one_seg [OF ok(1)] Cons listdir_files [OF assms, of k] ok(2) show ?thesis by auto
    next
      case (Cons t rest)
      with \<open>path_segs k = s # ss\<close> have "path_segs k = s # t # rest" by simp
      with ok(1) obtain k' where k': "key_ok k'" "real_seg s" "k = path_Join s k'" by (rule key_first_rest)
      then obtain d where "d \<in> set dirs" "Dirname st d = s" using listdir_all [OF assms k'(2,1)] ok(2) by auto
      with listdir_dirs [OF assms] k' ok(2) show ?thesis by (fastforce simp: keys_def)
    qed
  qed (use key_okD(3) [OF ok(1)] in simp)
next
  fix k assume "k \<in> set files \<union> (\<Union>d \<in> set dirs. path_Join (Dirname st d) ` keys (objs d w))"
  then show "k \<in> keys (objs h w)"
  proof
    assume "k \<in> set files"
    then show ?thesis using listdir_files [OF assms, of k] real_seg_key by (auto simp: keys_def)
  next
    assume "k \<in> (\<Union>d \<in> set dirs. path_Join (Dirname st d) ` keys (objs d w))"
    then obtain d k' where d: "d \<in> set dirs" "key_ok k'" "objs d w k' \<noteq> None" "k = path_Join (Dirname st d) k'"
      by (auto simp: keys_def)
    with listdir_dirs [OF assms d(1)] real_seg_single [of "Dirname st d"] path_Join_key_ok
    show ?thesis by (simp add: keys_def)
  qed
qed

definition walk_ok :: "'h \<Rightarrow> string \<Rightarrow> 'w \<Rightarrow> ((error + string list) \<times> 'w) option \<Rightarrow> bool" where
  "walk_ok h parent w r \<longleftrightarrow> (\<exists>x w'. r = Some (x, w') \<and>
     (\<forall>h'. objs h' w' = objs h' w \<and> (good h' w \<longrightarrow> good h' w') \<and> deep h' w' = deep h' w) \<and>
     (\<forall>res. x = Inr res \<longrightarrow> set res = path_Join parent ` keys (objs h w)))"

lemma walk_dirs_ok:
  assumes rec: "\<And>d p v. d \<in> set ds \<Longrightarrow> good d v \<Longrightarrow> deep d v m \<Longrightarrow> walk_ok d p v (rec d p v)"
    and ds: "\<forall>d \<in> set ds. good d w \<and> deep d w m"
  shows "\<exists>x w'. walk_dirs rec st parent ds res w = Some (x, w') \<and>
    (\<forall>h'. objs h' w' = objs h' w \<and> (good h' w \<longrightarrow> good h' w') \<and> deep h' w' = deep h' w) \<and>
    (\<forall>out. x = Inr out \<longrightarrow> set out = set res \<union>
       (\<Union>d \<in> set ds. path_Join (path_Join parent (Dirname st d)) ` keys (objs d w)))"
  using assms
proof (induction ds arbitrary: res w)
  case (Cons d ds)
  have "walk_ok d (path_Join parent (Dirname st d)) w (rec d (path_Join parent (Dirname st d)) w)"
    using Cons.prems by simp
  then obtain x w1 where r: "rec d (path_Join parent (Dirname st d)) w = Some (x, w1)"
    and fr: "\<And>h'. objs h' w1 = objs h' w \<and> (good h' w \<longrightarrow> good h' w1) \<and> deep h' w1 = deep h' w"
    and out: "\<And>sub. x = Inr sub \<Longrightarrow> set sub = path_Join (path_Join parent (Dirname st d)) ` keys (objs d w)"
    unfolding walk_ok_def by blast
  show ?case
  proof (cases x)
    case (Inl e)
    with r fr show ?thesis by simp
  next
    case (Inr sub)
    have "\<forall>d \<in> set ds. good d w1 \<and> deep d w1 m" using Cons.prems(2) fr by simp
    from Cons.IH [OF Cons.prems(1) this, of "res @ sub"]
    obtain y w2 where y: "walk_dirs rec st parent ds (res @ sub) w1 = Some (y, w2)"
      "\<forall>h'. objs h' w2 = objs h' w1 \<and> (good h' w1 \<longrightarrow> good h' w2) \<and> deep h' w2 = deep h' w1"
      "\<forall>out. y = Inr out \<longrightarrow> set out = set (res @ sub) \<union>
         (\<Union>d \<in> set ds. path_Join (path_Join parent (Dirname st d)) ` keys (objs d w1))"
      by auto
    with r Inr out [of sub] fr show ?thesis by (auto simp: fr)
  qed
qed simp

lemma walk_returns:
  assumes "good h w" "deep h w m"
  shows "walk_ok h parent w (walk (Suc m) st ctx h parent w)"
  using assms
proof (induction m arbitrary: h parent w rule: less_induct)
  case (less m)
  show ?case
  proof (cases "ctx w")
    case (Some err)
    then show ?thesis by (simp add: walk_ok_def)
  next
    case None
    obtain r w1 where L: "ListDir st h ctx w = (r, w1)" by fastforce
    note fr = listdir_frame [OF less.prems(1) L]
    show ?thesis
    proof (cases r)
      case (Inl err)
      with L None fr show ?thesis by (simp add: walk_ok_def)
    next
      case (Inr fd)
      obtain files dirs where fd: "fd = (files, dirs)" by fastforce
      with L Inr have L': "ListDir st h ctx w = (Inr (files, dirs), w1)" by simp
      note deeper = listdir_deep [OF less.prems L'] and sub = listdir_dirs [OF less.prems(1) L']
      have step: "walk (Suc m) st ctx h parent w =
          walk_dirs (walk m st ctx) st parent dirs (map (path_Join parent) files) w1"
        using None L' by simp
      have rec: "walk_ok d p v (walk m st ctx d p v)" if "d \<in> set dirs" "good d v" "deep d v (m - 1)" for d p v
        using less.IH [of "m - 1" d v p] deeper [OF that(1)] that(2,3) by (cases m) auto
      have here: "\<forall>d \<in> set dirs. good d w1 \<and> deep d w1 (m - 1)" using sub deeper fr by simp
      from walk_dirs_ok [OF rec here, of parent "map (path_Join parent) files"]
      obtain x w2 where x: "walk_dirs (walk m st ctx) st parent dirs (map (path_Join parent) files) w1 = Some (x, w2)"
        "\<forall>h'. objs h' w2 = objs h' w1 \<and> (good h' w1 \<longrightarrow> good h' w2) \<and> deep h' w2 = deep h' w1"
        "\<forall>out. x = Inr out \<longrightarrow> set out = set (map (path_Join parent) files) \<union>
           (\<Union>d \<in> set dirs. path_Join (path_Join parent (Dirname st d)) ` keys (objs d w1))"
        by blast
      have "path_Join (path_Join parent (Dirname st d)) k = path_Join parent (path_Join (Dirname st d) k)"
        if "d \<in> set dirs" "key_ok k" for d k
        using path_Join_assoc [OF that(2), of "Dirname st d" parent] sub [OF that(1)] real_seg_single by simp
      then have "path_Join parent ` keys (objs h w) = set (map (path_Join parent) files) \<union>
           (\<Union>d \<in> set dirs. path_Join (path_Join parent (Dirname st d)) ` keys (objs d w))"
        unfolding listdir_keys [OF less.prems(1) L'] image_Un image_UN image_image
        by (auto simp: keys_def)
      with x fr step show ?thesis by (simp add: walk_ok_def)
    qed
  qed
qed

lemma Walk_all:
  assumes "good h w" "deep h w m"
  shows "\<exists>x w'. Walk (Suc m) st ctx h w = Some (x, w') \<and> objs h w' = objs h w \<and>
    (\<forall>res. x = Inr res \<longrightarrow> set res = keys (objs h w))"
proof -
  have "path_Join '''' ` keys m' = keys m'" for m'
    by (force simp: keys_def path_Join_Nil_left key_okD image_iff)
  then show ?thesis
    using walk_returns [OF assms, of "''''" ctx] by (auto simp: walk_ok_def Walk_def)
qed

end

section \<open>The file system storage\<close>

lemma path_Base_Join:
  assumes "real_seg n"
  shows "path_Base (path_Join base n) = n"
proof -
  have n: "n \<noteq> ''''" "CHR ''/'' \<notin> set n" using assms by (auto simp: real_seg_def)
  let ?p = "path_Join base n"
  have segs: "path_segs ?p = path_segs base @ [n]" using assms by (rule real_seg_Join)
  have clean: "path_Clean ?p = ?p" using n by simp
  obtain pre where pre: "?p = pre @ n" "pre = '''' \<or> last pre = CHR ''/''"
  proof (cases "path_segs base = []")
    case True
    have "?p = (if path_IsAbs ?p then ''/'' else '''') @ n"
      using clean path_Clean_render [of ?p] segs True n by (auto simp: render_def split: if_splits)
    then show ?thesis using that [of "if path_IsAbs ?p then ''/'' else ''''"] by simp
  next
    case False
    have "?p = (if path_IsAbs ?p then ''/'' else '''') @ Join_str ''/'' (path_segs base) @ ''/'' @ n"
      using clean path_Clean_render [of ?p] segs False n by (auto simp: render_def Join_str_append split: if_splits)
    then show ?thesis
      using that [of "(if path_IsAbs ?p then ''/'' else '''') @ Join_str ''/'' (path_segs base) @ ''/''"] by simp
  qed
  have ne: "?p \<noteq> ''''" using pre n by simp
  have "hd (rev n) \<noteq> CHR ''/''" using n by (metis hd_in_set rev_is_Nil_conv set_rev)
  then have drop: "dropWhile (\<lambda>c. c = CHR ''/'') (rev ?p) = rev n @ rev pre"
    using pre n by (cases "rev n") auto
  have take: "takeWhile (\<lambda>c. c \<noteq> CHR ''/'') (rev n @ rev pre) = rev n"
  proof -
    have "takeWhile (\<lambda>c. c \<noteq> CHR ''/'') (rev n @ rev pre) = rev n @ takeWhile (\<lambda>c. c \<noteq> CHR ''/'') (rev pre)"
      using n by (intro takeWhile_append2) auto
    moreover have "takeWhile (\<lambda>c. c \<noteq> CHR ''/'') (rev pre) = []"
      using pre(2) by (cases pre rule: rev_cases) auto
    ultimately show ?thesis by simp
  qed
  show ?thesis unfolding path_Base_def Let_def drop take using ne n by simp
qed

definition fs_deep :: "('f \<Rightarrow> string \<rightharpoonup> node) \<Rightarrow> fs_storage \<Rightarrow> 'f \<Rightarrow> nat \<Rightarrow> bool" where
  "fs_deep view s f n \<longleftrightarrow>
     (\<forall>k. key_ok k \<longrightarrow> view f (path_Join (fs_cwd s) k) = Some DirNode \<longrightarrow> length (path_segs k) \<le> n)"

definition fs_rooted :: "('f \<Rightarrow> bool) \<Rightarrow> fs_storage \<Rightarrow> 'f \<Rightarrow> bool" where
  "fs_rooted sane s f \<longleftrightarrow> fs_wf sane s f \<and> path_Clean (fs_cwd s) = fs_cwd s"

context afero_fs
begin

lemma fs_ListDir_cases:
  assumes "fs_ListDir af s ctx f = (Inr (files, dirs), f')" "sane f"
  obtains (missing) "files = []" "dirs = []" "view f (fs_cwd s) = None"
  | (entries) es where "af_ReadDir af (fs_cwd s) f = (Inr es, f')"
      "files = map fi_name (filter (\<lambda>e. \<not> fi_isdir e) es)"
      "dirs = map (\<lambda>e. fs_sub s (path_Join (fs_cwd s) (fi_name e))) (filter fi_isdir es)"
proof -
  obtain r f1 where R: "af_ReadDir af (fs_cwd s) f = (r, f1)" by fastforce
  show ?thesis
  proof (cases r)
    case (Inl e)
    with assms R have "errors_Is e ErrNotExist" "files = []" "dirs = []"
      by (auto simp: fs_ListDir_def tryIO_apply split: if_splits)
    with readdir_missing [OF assms(2), of "fs_cwd s" e f1] R Inl missing show ?thesis by simp
  next
    case (Inr es)
    with assms R entries [of es] show ?thesis by (auto simp: fs_ListDir_def tryIO_apply)
  qed
qed

lemma fs_sub_Dirname: "real_seg n \<Longrightarrow> fs_Dirname (fs_sub s (path_Join (fs_cwd s) n)) = n"
  by (simp add: fs_Dirname_def fs_sub_def path_Base_Join)

lemma file_under:
  "real_seg n \<Longrightarrow> key_ok k \<Longrightarrow> path_Join (path_Join cwd n) k = path_Join cwd (path_Join n k)"
  using path_Join_assoc [of k n cwd] real_seg_single [of n] by simp

end

sublocale afero_fs \<subseteq> tree: tree_contract "fs_ops pick af" "fs_objs view" "fs_rooted sane" "fs_deep view"
proof (unfold_locales, goal_cases)
  case (1 h w ctx r w' h')
  obtain rd w1 where R: "af_ReadDir af (fs_cwd h) w = (rd, w1)" by fastforce
  have s: "sane w" using 1(1) by (simp add: fs_rooted_def fs_wf_def)
  have "w' = w1" using 1(2) R by (auto simp: fs_ListDir_def tryIO_apply split: sum.splits if_splits)
  then have "view w' = view w" "sane w'" using readdir_frame [OF s R] by simp_all
  then show ?case using fs_objs_cong [of view w' w h'] by (auto simp: fs_rooted_def fs_wf_def fs_deep_def)
next
  case (2 h w ctx files dirs w' n)
  then have L: "fs_ListDir af h ctx w = (Inr (files, dirs), w')" and s: "sane w" "fs_cwd h \<noteq> ''''"
    and clean: "path_Clean (fs_cwd h) = fs_cwd h" by (simp_all add: fs_rooted_def fs_wf_def)
  from L s(1) show ?case
  proof (cases rule: fs_ListDir_cases)
    case missing
    then show ?thesis
      using tree_closed [OF s(1) clean] by (auto simp: fs_objs_def file_at_def)
  next
    case (entries es)
    note info = readdir_info [OF s entries(1)] and all = readdir_all [OF s entries(1)]
      and names = readdir_names [OF entries(1)]
    show ?thesis
    proof
      assume "n \<in> set files"
      then obtain e where e: "e \<in> set es" "\<not> fi_isdir e" "n = fi_name e" using entries(2) by auto
      from info [OF e(1)] e obtain b where "view w (path_Join (fs_cwd h) n) = Some (FileNode b)"
        by (metis info_matches.simps(1) node.exhaust)
      with names [OF e(1)] e show "real_seg n \<and> fs_objs view h w n \<noteq> None"
        by (auto simp: fs_objs_def file_at_def real_seg_key)
    next
      assume n: "real_seg n \<and> fs_objs view h w n \<noteq> None"
      then obtain b where b: "view w (path_Join (fs_cwd h) n) = Some (FileNode b)"
        by (auto simp: fs_objs_def file_at_def split: if_splits option.splits node.splits)
      with all [of n] n obtain e where e: "e \<in> set es" "n = fi_name e" by auto
      with info [OF e(1)] b have "\<not> fi_isdir e" by auto
      with e entries(2) show "n \<in> set files" by auto
    qed
  qed
next
  case (3 h w ctx files dirs w' d)
  then have L: "fs_ListDir af h ctx w = (Inr (files, dirs), w')" and s: "sane w" "fs_cwd h \<noteq> ''''"
    by (simp_all add: fs_rooted_def fs_wf_def)
  from L s(1) show ?case
  proof (cases rule: fs_ListDir_cases)
    case (entries es)
    from entries(3) 3(3) obtain e where e: "e \<in> set es" "d = fs_sub h (path_Join (fs_cwd h) (fi_name e))" by auto
    have n: "real_seg (fi_name e)" using readdir_names [OF entries(1) e(1)] .
    have "fs_objs view d w k = fs_objs view h w (path_Join (fi_name e) k)" if "key_ok k" for k
      using that n file_under [OF n that] path_Join_key_ok [OF _ that] real_seg_single [OF n]
      by (simp add: fs_objs_def e(2) fs_sub_def)
    then show ?thesis
      using n fs_sub_Dirname [OF n, of h] s real_seg_key [OF n]
      by (simp add: e(2) fs_rooted_def fs_wf_def fs_sub_def key_okD)
  qed (use 3 in simp)
next
  case (4 h w ctx files dirs w' n k)
  then have L: "fs_ListDir af h ctx w = (Inr (files, dirs), w')" and s: "sane w" "fs_cwd h \<noteq> ''''"
    and clean: "path_Clean (fs_cwd h) = fs_cwd h" by (simp_all add: fs_rooted_def fs_wf_def)
  have under: "view w (path_Join (path_Join (fs_cwd h) n) k) \<noteq> None"
    using 4(5) file_under [OF 4(3,4)] by (auto simp: fs_objs_def file_at_def split: if_splits option.splits)
  from L s(1) show ?case
  proof (cases rule: fs_ListDir_cases)
    case missing
    have "key_ok (path_Join n k)" using real_seg_single [OF 4(3)] 4(4) by (intro path_Join_key_ok) simp_all
    with tree_closed [OF s(1) clean _ this] missing(3) under file_under [OF 4(3,4)] show ?thesis by simp
  next
    case (entries es)
    have cl: "path_Clean (path_Join (fs_cwd h) n) = path_Join (fs_cwd h) n"
      using real_seg_key [OF 4(3)] by (simp add: key_okD)
    have dir: "view w (path_Join (fs_cwd h) n) = Some DirNode"
      using tree_closed [OF s(1) cl _ 4(4)] under by blast
    then obtain e where e: "e \<in> set es" "n = fi_name e" using readdir_all [OF s entries(1) 4(3)] by auto
    with readdir_info [OF s entries(1) e(1)] dir have "fi_isdir e" by auto
    then have "fs_sub h (path_Join (fs_cwd h) n) \<in> set dirs" using e entries(3) by auto
    with fs_sub_Dirname [OF 4(3), of h] show ?thesis by (auto intro!: image_eqI [of _ _ "fs_sub h (path_Join (fs_cwd h) n)"])
  qed
next
  case (5 h w m ctx files dirs w' d)
  then have L: "fs_ListDir af h ctx w = (Inr (files, dirs), w')" and s: "sane w" "fs_cwd h \<noteq> ''''"
    by (simp_all add: fs_rooted_def fs_wf_def)
  from L s(1) show ?case
  proof (cases rule: fs_ListDir_cases)
    case (entries es)
    from entries(3) 5(4) obtain e where e: "e \<in> set es" "fi_isdir e" "d = fs_sub h (path_Join (fs_cwd h) (fi_name e))"
      by auto
    let ?n = "fi_name e"
    have n: "real_seg ?n" using readdir_names [OF entries(1) e(1)] .
    from readdir_info [OF s entries(1) e(1)] e(2) have "view w (path_Join (fs_cwd h) ?n) = Some DirNode"
      by auto (metis info_matches.simps(2) node.exhaust)
    with 5(2) real_seg_key [OF n] real_seg_single [OF n] have m: "0 < m" by (fastforce simp: fs_deep_def)
    have "length (path_segs k) \<le> m - 1"
      if k: "key_ok k" "view w (path_Join (path_Join (fs_cwd h) ?n) k) = Some DirNode" for k
    proof -
      have "key_ok (path_Join ?n k)" using real_seg_single [OF n] k(1) by (intro path_Join_key_ok) simp_all
      with 5(2) k file_under [OF n k(1)] have "length (path_segs (path_Join ?n k)) \<le> m" by (simp add: fs_deep_def)
      then show ?thesis using real_seg_single [OF n] k(1) by (simp add: path_segs_Join key_okD)
    qed
    with m show ?thesis by (simp add: fs_deep_def e(3) fs_sub_def)
  qed (use 5 in simp)
qed

context afero_fs
begin

lemma fs_tree: "tree_contract (fs_ops pick af) (fs_objs view) (fs_rooted sane) (fs_deep view)"
  by (rule tree.tree_contract_axioms)

end

end
