(* ===== verification/Directory.thy ===== *)
theory Directory
  imports Walk Fs_Properties
begin

text \<open>
  \<^verbatim>\<open>directory/config.go\<close>, \<^verbatim>\<open>directory/storage.go\<close> and \<^verbatim>\<open>inmemory/storage.go\<close>: how a file system
  storage is opened. The \<^verbatim>\<open>os\<close> calls of the directory backend and \<^verbatim>\<open>afero.NewOsFs()\<close> are the
  same file system, so both are the record \<open>afero\<close>. Shown: an opened storage is rooted at a
  directory inside the configured root, guarded unless asked otherwise, and opening it touches no
  object. The recursive listing of a storage is evaluated here on the in-memory file system.
\<close>

section \<open>directory\<close>

record dir_config =
  RootPath :: string
  dir_Prefix :: string

definition dir_DefaultConfig :: dir_config where
  "dir_DefaultConfig = \<lparr>RootPath = '''', dir_Prefix = ''''\<rparr>"

definition cleanPrefix :: "string \<Rightarrow> error + string" where
  "cleanPrefix prefix =
     (if prefix = '''' then Inr ''''
      else if path_IsAbs prefix then Inl (ErrorString ''prefix must be relative to the root path'')
      else
        let cleaned = path_Clean (filepath_ToSlash prefix) in
        if cleaned = ''.'' then Inr ''''
        else if path_IsAbs cleaned then Inl (ErrorString ''prefix must be relative to the root path'')
        else if cleaned = ''..'' \<or> HasPrefix cleaned ''../'' then Inl (ErrorString ''prefix reaches outside the root path'')
        else Inr cleaned)"

definition dir_Validate :: "'f afero \<Rightarrow> dir_config \<Rightarrow> ('f, unit) io" where
  "dir_Validate af d =
     (if RootPath d = '''' then throw ErrRootPathIsRequired
      else bindIO (af_Stat af (RootPath d)) (\<lambda>info.
        if \<not> fi_isdir info then throw (ErrorString ''root path is not a directory'')
        else (case cleanPrefix (dir_Prefix d) of Inl err \<Rightarrow> throw err | Inr _ \<Rightarrow> ret ())))"

definition ensurePrefix :: "'f afero \<Rightarrow> string \<Rightarrow> bool \<Rightarrow> ('f, unit) io" where
  "ensurePrefix af root create =
     tryIO (af_Stat af root) (\<lambda>r. case r of
         Inr info \<Rightarrow> if \<not> fi_isdir info then throw (ErrorString ''prefix path is a file'') else ret ()
       | Inl err \<Rightarrow>
           if errors_Is err ErrNotExist then
             if \<not> create then throw (Errorf ''prefix'' [ErrPrefixNotExists])
             else tryIO (af_MkdirAll af root DirMode) (\<lambda>m. case m of
                 Inl e \<Rightarrow> throw (Errorf ''error creating prefix directory'' [e])
               | Inr _ \<Rightarrow> ret ())
           else throw err)"

definition dir_NewStorage :: "'f afero \<Rightarrow> dir_config \<Rightarrow> fs_option list \<Rightarrow> ('f, fs_storage gstore) io" where
  "dir_NewStorage af cfg opts =
     bindIO (dir_Validate af cfg) (\<lambda>_.
       case cleanPrefix (dir_Prefix cfg) of
         Inl err \<Rightarrow> throw err
       | Inr prefix \<Rightarrow>
           let root = path_Join (RootPath cfg) prefix; s = fs_New root opts in
           bindIO (ensurePrefix af root (fs_CreatePrefixEnabled s)) (\<lambda>_. ret (fs_Guarded s)))"

section \<open>inmemory\<close>

text \<open>\<open>af\<close> and the world stand for the fresh file system; a failing \<^verbatim>\<open>MkdirAll\<close> panics.\<close>

definition mem_New :: "'f afero \<Rightarrow> string \<Rightarrow> fs_option list \<Rightarrow> ('f, fs_storage gstore) io" where
  "mem_New af basePath opts =
     (let base = (if basePath = '''' then ''/'' else basePath) in
      tryIO (af_MkdirAll af base DirMode) (\<lambda>r. case r of
          Inl err \<Rightarrow> throw (Errorf ''panic: inmemory: failed to create root'' [err])
        | Inr _ \<Rightarrow> ret (fs_Guarded (fs_New base opts))))"

section \<open>What opening a storage gives\<close>

lemma cleanPrefix_inside:
  assumes "cleanPrefix p = Inr q"
  shows "stays_inside q" "path_segs q = path_segs p" "\<not> path_IsAbs q" "''..'' \<notin> set (path_segs p)"
proof -
  have c: "path_Clean (path_Clean p) = path_Clean p" by simp
  from assms consider "p = ''''" "q = ''''" | "\<not> path_IsAbs p" "path_Clean p = ''.''" "q = ''''"
    | "\<not> path_IsAbs p" "q = path_Clean p" "q \<noteq> ''..''" "\<not> HasPrefix q ''../''"
    by (auto simp: cleanPrefix_def Let_def filepath_ToSlash_def split: if_splits)
  then have "stays_inside q \<and> path_segs q = path_segs p \<and> \<not> path_IsAbs q"
  proof cases
    case 2
    then show ?thesis using path_Clean_dot_iff [of p] by (simp add: path_IsAbs_def)
  next
    case 3
    then show ?thesis using escapes_Clean_iff [of p] by (simp add: stays_inside_def)
  qed (simp add: path_IsAbs_def)
  then show "stays_inside q" "path_segs q = path_segs p" "\<not> path_IsAbs q" "''..'' \<notin> set (path_segs p)"
    by (auto simp: stays_inside_def)
qed

text \<open>Options set the guard and the creation flag, never the root.\<close>

definition dir_option :: "fs_option \<Rightarrow> bool" where
  "dir_option opt \<longleftrightarrow> (\<forall>s. fs_cwd (opt s) = fs_cwd s)"

lemma dir_options_cwd:
  "\<forall>o' \<in> set opts. dir_option o' \<Longrightarrow> fs_cwd (fs_New root opts) = root"
proof -
  assume h: "\<forall>o' \<in> set opts. dir_option o'"
  have "fs_cwd (foldl (\<lambda>s opt. opt s) s0 opts) = fs_cwd s0" for s0
    using h by (induction opts arbitrary: s0) (auto simp: dir_option_def)
  then show ?thesis by (simp add: fs_New_def toSlash_def filepath_ToSlash_def)
qed

lemma source_options [simp]: "dir_option fs_WithUnsafe" "dir_option fs_WithCreatePrefix"
  by (simp_all add: dir_option_def fs_WithUnsafe_def fs_WithCreatePrefix_def)

context afero_fs
begin

lemma dir_Validate_spec:
  assumes "sane f" "dir_Validate af cfg f = (r, f')"
  shows "view f' = view f \<and> sane f' \<and> (r = Inr () \<longrightarrow> RootPath cfg \<noteq> '''' \<and> view f (RootPath cfg) = Some DirNode)"
proof (cases "RootPath cfg = ''''")
  case True
  with assms show ?thesis by (auto simp: dir_Validate_def)
next
  case False
  obtain st f1 where S: "af_Stat af (RootPath cfg) f = (st, f1)" by fastforce
  note fr = stat_frame [OF assms(1) S]
  show ?thesis
  proof (cases st)
    case (Inl e)
    with S assms(2) False fr show ?thesis by (auto simp: dir_Validate_def bindIO_apply)
  next
    case (Inr i)
    with S have "af_Stat af (RootPath cfg) f = (Inr i, f1)" by simp
    then obtain nd where "view f (RootPath cfg) = Some nd" "info_matches nd i" using stat_info [OF assms(1)] by blast
    then have "fi_isdir i \<longrightarrow> view f (RootPath cfg) = Some DirNode" by (cases nd) auto
    with Inr S assms(2) False fr show ?thesis
      by (auto simp: dir_Validate_def bindIO_apply split: if_splits sum.splits)
  qed
qed

lemma ensurePrefix_spec:
  assumes "sane f" "ensurePrefix af root create f = (r, f')"
  shows "sane f' \<and> (\<forall>q. view f' q = view f q \<or> view f q = None \<and> view f' q = Some DirNode \<and> create \<and> ancestor q root) \<and>
    (r = Inr () \<longrightarrow> view f' root = Some DirNode)"
proof -
  obtain st f1 where S: "af_Stat af root f = (st, f1)" by fastforce
  note fr = stat_frame [OF assms(1) S]
  show ?thesis
  proof (cases st)
    case (Inr i)
    with S have "af_Stat af root f = (Inr i, f1)" by simp
    then obtain nd where "view f root = Some nd" "info_matches nd i" using stat_info [OF assms(1)] by blast
    then have "fi_isdir i \<longrightarrow> view f root = Some DirNode" by (cases nd) auto
    with Inr S assms(2) fr show ?thesis by (auto simp: ensurePrefix_def tryIO_apply split: if_splits)
  next
    case (Inl e)
    show ?thesis
    proof (cases "errors_Is e ErrNotExist \<and> create")
      case False
      with Inl S assms(2) fr show ?thesis by (auto simp: ensurePrefix_def tryIO_apply split: if_splits)
    next
      case True
      obtain m f2 where M: "af_MkdirAll af root DirMode f1 = (m, f2)" by fastforce
      have s1: "sane f1" using fr by simp
      have "f' = f2" "r = Inr () \<longrightarrow> (\<exists>u. m = Inr u)"
        using True Inl S M assms(2) by (auto simp: ensurePrefix_def tryIO_apply split: sum.splits)
      moreover have "m = Inr u \<Longrightarrow> view f2 root = Some DirNode" for u using mkdir_ok [OF s1] M by simp
      ultimately show ?thesis
        using mkdir_inv [OF s1 M] mkdir_effect [OF s1 M] fr True by auto
    qed
  qed
qed

lemma dir_NewStorage_spec:
  assumes f: "sane f" and opts: "\<forall>o' \<in> set opts. dir_option o'"
    and N: "dir_NewStorage af cfg opts f = (Inr g, f')"
  shows "\<exists>p s. cleanPrefix (dir_Prefix cfg) = Inr p \<and> s = fs_New (path_Join (RootPath cfg) p) opts \<and> g = fs_Guarded s \<and>
    fs_cwd s = path_Join (RootPath cfg) p \<and> RootPath cfg \<noteq> '''' \<and> sane f' \<and> view f' (fs_cwd s) = Some DirNode \<and>
    (\<forall>q. view f' q = view f q \<or> view f q = None \<and> view f' q = Some DirNode \<and> ancestor q (fs_cwd s))"
proof -
  obtain v f1 where V: "dir_Validate af cfg f = (v, f1)" by fastforce
  note vs = dir_Validate_spec [OF f V]
  from N V have v: "v = Inr ()" by (cases v) (auto simp: dir_NewStorage_def bindIO_apply)
  from N V v obtain p where p: "cleanPrefix (dir_Prefix cfg) = Inr p"
    by (cases "cleanPrefix (dir_Prefix cfg)") (auto simp: dir_NewStorage_def bindIO_apply)
  let ?root = "path_Join (RootPath cfg) p"
  let ?s = "fs_New ?root opts"
  obtain e f2 where E: "ensurePrefix af ?root (fs_CreatePrefixEnabled ?s) f1 = (e, f2)" by fastforce
  from N V v p E have e: "e = Inr ()" "f2 = f'" "g = fs_Guarded ?s"
    by (cases e; auto simp: dir_NewStorage_def bindIO_apply Let_def)+
  have "sane f1" using vs by simp
  from ensurePrefix_spec [OF this E] have "sane f'" "view f' ?root = Some DirNode"
    "\<forall>q. view f' q = view f q \<or> view f q = None \<and> view f' q = Some DirNode \<and> ancestor q ?root"
    using e vs by auto
  with p e vs v dir_options_cwd [OF opts] show ?thesis by auto
qed

lemma dir_NewStorage_keeps:
  assumes "sane f" "\<forall>o' \<in> set opts. dir_option o'" "dir_NewStorage af cfg opts f = (Inr g, f')"
  shows "(\<exists>root. fs_CreatePrefixEnabled (fs_New root opts)) \<or> view f' = view f"
proof -
  obtain v f1 where V: "dir_Validate af cfg f = (v, f1)" by fastforce
  note vs = dir_Validate_spec [OF assms(1) V]
  from assms(3) V obtain p where p: "v = Inr ()" "cleanPrefix (dir_Prefix cfg) = Inr p"
    by (cases v; cases "cleanPrefix (dir_Prefix cfg)") (auto simp: dir_NewStorage_def bindIO_apply)
  let ?root = "path_Join (RootPath cfg) p"
  let ?s = "fs_New ?root opts"
  obtain e f2 where E: "ensurePrefix af ?root (fs_CreatePrefixEnabled ?s) f1 = (e, f2)" by fastforce
  from assms(3) V p E have "f2 = f'"
    by (cases e; auto simp: dir_NewStorage_def bindIO_apply Let_def)
  moreover have "sane f1" using vs by simp
  from ensurePrefix_spec [OF this E] have "fs_CreatePrefixEnabled ?s \<or> (\<forall>q. view f2 q = view f1 q)" by blast
  ultimately show ?thesis using vs by (auto simp: fun_eq_iff)
qed

end

section \<open>Properties\<close>

lemma opts_flags:
  assumes "set opts \<subseteq> {fs_WithUnsafe, fs_WithCreatePrefix}"
  shows "fs_unsafe (fs_New root opts) \<longleftrightarrow> fs_WithUnsafe \<in> set opts"
    "fs_CreatePrefixEnabled (fs_New root opts) \<longleftrightarrow> fs_WithCreatePrefix \<in> set opts"
    "\<forall>o' \<in> set opts. dir_option o'"
proof -
  let ?z = "\<lparr>fs_cwd = '''', fs_dirMode = 0, fs_fileMode = 0, fs_unsafe = False, fs_createPrefix = False\<rparr>"
  have "fs_unsafe (fs_WithUnsafe ?z) \<noteq> fs_unsafe (fs_WithCreatePrefix ?z)"
    by (simp add: fs_WithUnsafe_def fs_WithCreatePrefix_def)
  then have ne: "fs_WithUnsafe \<noteq> fs_WithCreatePrefix" by metis
  have "(fs_unsafe (foldl (\<lambda>s opt. opt s) s0 opts) \<longleftrightarrow> fs_unsafe s0 \<or> fs_WithUnsafe \<in> set opts) \<and>
    (fs_createPrefix (foldl (\<lambda>s opt. opt s) s0 opts) \<longleftrightarrow> fs_createPrefix s0 \<or> fs_WithCreatePrefix \<in> set opts)" for s0
    using assms
  proof (induction opts arbitrary: s0)
    case (Cons opt opts)
    then have "opt = fs_WithUnsafe \<or> opt = fs_WithCreatePrefix" by simp
    then show ?case
      using Cons ne by (auto simp: fs_WithUnsafe_def [of s0] fs_WithCreatePrefix_def [of s0])
  qed simp
  then show "fs_unsafe (fs_New root opts) \<longleftrightarrow> fs_WithUnsafe \<in> set opts"
    "fs_CreatePrefixEnabled (fs_New root opts) \<longleftrightarrow> fs_WithCreatePrefix \<in> set opts"
    by (simp_all add: fs_New_def fs_CreatePrefixEnabled_def)
  show "\<forall>o' \<in> set opts. dir_option o'" using assms by auto
qed

text \<open>
  C25. Opening a directory storage: its root is a directory, reached from the configured root by a
  path without \<open>..\<close>; it is guarded exactly when \<open>WithUnsafe\<close> was not passed; opening changes no
  object, and without \<open>WithCreatePrefix\<close> it changes nothing at all.
\<close>

theorem dir_NewStorage_confined:
  assumes "afero_fs af view sane" "sane f" "set opts \<subseteq> {fs_WithUnsafe, fs_WithCreatePrefix}"
    and "dir_NewStorage af cfg opts f = (Inr g, f')"
  shows "(\<exists>rel. path_segs (fs_cwd (inner g)) = path_segs (RootPath cfg) @ rel \<and> ''..'' \<notin> set rel) \<and>
    view f' (fs_cwd (inner g)) = Some DirNode \<and> fs_rooted sane (inner g) f' \<and>
    (guarded g \<longleftrightarrow> fs_WithUnsafe \<notin> set opts) \<and>
    (\<forall>s. fs_objs view s f' = fs_objs view s f) \<and>
    (fs_WithCreatePrefix \<notin> set opts \<longrightarrow> view f' = view f)"
proof -
  note fl = opts_flags [OF assms(3)]
  obtain p s where s: "cleanPrefix (dir_Prefix cfg) = Inr p" "s = fs_New (path_Join (RootPath cfg) p) opts" "g = fs_Guarded s"
    "fs_cwd s = path_Join (RootPath cfg) p" "RootPath cfg \<noteq> ''''" "sane f'" "view f' (fs_cwd s) = Some DirNode"
    "\<forall>q. view f' q = view f q \<or> view f q = None \<and> view f' q = Some DirNode \<and> ancestor q (fs_cwd s)"
    using afero_fs.dir_NewStorage_spec [OF assms(1,2) fl(3) assms(4)] by blast
  note cp = cleanPrefix_inside [OF s(1)]
  have inner: "inner g = s" "guarded g \<longleftrightarrow> \<not> fs_unsafe s" using s(3) by (simp_all add: fs_Guarded_def)
  have root: "path_segs (fs_cwd s) = path_segs (RootPath cfg) @ path_segs p"
    using cp(1) by (simp add: s(4) path_segs_Join)
  have ne: "path_Join (RootPath cfg) p \<noteq> ''''" using s(5) by simp
  have rooted: "fs_rooted sane s f'"
    using s(4,6) ne s(5) by (simp add: fs_rooted_def fs_wf_def)
  have "file_at view f' q = file_at view f q" for q
    using s(8) [rule_format, of q] by (auto simp: file_at_def)
  then have objs: "fs_objs view h f' = fs_objs view h f" for h by (simp add: fs_objs_def fun_eq_iff)
  have kept: "view f' = view f" if "fs_WithCreatePrefix \<notin> set opts"
    using afero_fs.dir_NewStorage_keeps [OF assms(1,2) fl(3) assms(4)] that fl(2) by blast
  from cp(2,4) root rooted inner s(7) objs kept fl(1) s(2) show ?thesis by (auto intro: exI [of _ "path_segs p"])
qed

theorem dir_NewStorage_confined_witness:
  "\<exists>g f'. dir_NewStorage mem_afero \<lparr>RootPath = ''/d'', dir_Prefix = ''a/../b/c''\<rparr> [fs_WithCreatePrefix] example_fs = (Inr g, f') \<and>
     guarded g \<and> mem_view f' ''/d/b/c'' = Some DirNode"
proof -
  let ?cfg = "\<lparr>RootPath = ''/d'', dir_Prefix = ''a/../b/c''\<rparr>"
  let ?call = "dir_NewStorage mem_afero ?cfg [fs_WithCreatePrefix] example_fs"
  have "case fst ?call of Inr g \<Rightarrow> fs_cwd (inner g) = ''/d/b/c'' | Inl e \<Rightarrow> False" by code_simp
  then obtain g f' where run: "?call = (Inr g, f')" and cwd: "fs_cwd (inner g) = ''/d/b/c''"
    by (cases ?call) (auto split: sum.splits)
  let ?z = "\<lparr>fs_cwd = '''', fs_dirMode = 0, fs_fileMode = 0, fs_unsafe = False, fs_createPrefix = False\<rparr>"
  have "fs_unsafe (fs_WithUnsafe ?z) \<noteq> fs_unsafe (fs_WithCreatePrefix ?z)"
    by (simp add: fs_WithUnsafe_def fs_WithCreatePrefix_def)
  then have "fs_WithUnsafe \<notin> set [fs_WithCreatePrefix]" by (metis list.set(1,2) singletonD)
  moreover have "set [fs_WithCreatePrefix] \<subseteq> {fs_WithUnsafe, fs_WithCreatePrefix}" by simp
  ultimately show ?thesis
    using dir_NewStorage_confined [OF mem.afero_fs_axioms example_sane _ run] run cwd by auto
qed

text \<open>
  C24. \<open>Walk\<close> over a file system storage returns whenever its directories nest at most \<open>n\<close> deep, with
  fuel for one level more, and its result is exactly the keys of the storage's objects; walking
  changes nothing.
\<close>

theorem Walk_lists_all:
  assumes "afero_fs af view sane" "fs_rooted sane s f" "fs_deep view s f n"
  shows "\<exists>r f'. Walk (Suc n) (fs_ops pick af) ctx s f = Some (r, f') \<and> fs_objs view s f' = fs_objs view s f \<and>
    (\<forall>res. r = Inr res \<longrightarrow> set res = {k. key_ok k \<and> fs_objs view s f k \<noteq> None})"
  using tree_contract.Walk_all [OF afero_fs.fs_tree [OF assms(1)] assms(2,3)] unfolding keys_def by blast

lemma mem_deep:
  assumes "\<forall>e \<in> set f. length (fst e) \<le> n"
  shows "fs_deep mem_view s f n"
proof -
  have "length (path_segs k) \<le> n" if "key_ok k" "mem_view f (path_Join (fs_cwd s) k) = Some DirNode" for k
  proof -
    have "(path_segs (path_Join (fs_cwd s) k), DirNode) \<in> set f"
      using that(2) by (auto simp: mem_view_def split: if_splits intro: map_of_SomeD)
    with assms have "length (path_segs (path_Join (fs_cwd s) k)) \<le> n" by force
    then show ?thesis using that(1) by (simp add: path_segs_Join key_okD)
  qed
  then show ?thesis by (simp add: fs_deep_def)
qed

theorem Walk_lists_all_witness:
  "\<exists>res f'. Walk 5 (fs_ops (\<lambda>_. 0) mem_afero) (\<lambda>_. None) example_storage example_fs = Some (Inr res, f') \<and>
     ''a/s/y'' \<in> set res"
proof -
  have "case Walk 5 (fs_ops (\<lambda>_. 0) mem_afero) (\<lambda>_. None) example_storage example_fs of
      Some (Inr res, f') \<Rightarrow> True | _ \<Rightarrow> False"
    by code_simp
  then obtain res f' where run: "Walk (Suc 4) (fs_ops (\<lambda>_. 0) mem_afero) (\<lambda>_. None) example_storage example_fs = Some (Inr res, f')"
    by (auto split: option.splits prod.splits sum.splits)
  have rooted: "fs_rooted mem_sane example_storage example_fs"
    using example_wf by (simp add: fs_rooted_def fs_New_def path_simps)
  have deep: "fs_deep mem_view example_storage example_fs 4" by (rule mem_deep) (simp add: example_fs_def)
  have "key_ok ''a/s/y''" by (simp add: key_ok_def path_simps)
  with Walk_lists_all [OF mem.afero_fs_axioms rooted deep, of "\<lambda>_. 0" "\<lambda>_. None"] run example_objs(2)
  have "''a/s/y'' \<in> set res" by auto
  with run show ?thesis by simp
qed

end
