(* ===== verification/Sftp_Lazy.thy ===== *)
theory Sftp_Lazy
  imports Prelude
begin

text \<open>
  \<^verbatim>\<open>ssh/sftp_lazy.go\<close>: the connection every clone of an SSH storage shares, opened by the first
  caller and closed once. The decisions of \<^verbatim>\<open>Client\<close> and \<^verbatim>\<open>Close\<close> are functions of the
  fields; callers that run concurrently are steps of a machine in which the lock is held while
  connecting. Shown by rule induction over its runs: at most one connection is ever opened, the open
  ones are exactly what the storage still holds, every caller that got a client got that one, and a
  closed storage has none.
\<close>

section \<open>The fields\<close>

record 'c sftpLazy =
  lz_sftp :: "'c option"
  lz_ssh :: "'c option"
  lz_connErr :: "error option"
  lz_attempted :: bool
  lz_closed :: bool

definition newSFTPLazy :: "'c sftpLazy" where
  "newSFTPLazy = \<lparr>lz_sftp = None, lz_ssh = None, lz_connErr = None, lz_attempted = False, lz_closed = False\<rparr>"

text \<open>
  \<^verbatim>\<open>Client\<close> under the lock: \<open>lazy_cached\<close> is what it returns without connecting (\<open>None\<close> means it
  has to connect; a nil client with a nil error is an unusable one), \<open>lazy_settle\<close> what it
  records of the attempt, \<open>gone\<close> telling whether the caller's own context was done.
\<close>

definition lazy_cached :: "'c sftpLazy \<Rightarrow> (error + 'c option) option" where
  "lazy_cached l =
     (if lz_closed l then Some (Inl ErrStorageClosed)
      else if lz_attempted l then
        Some (case lz_connErr l of Some e \<Rightarrow> Inl e | None \<Rightarrow> Inr (lz_sftp l))
      else None)"

definition lazy_settle :: "bool \<Rightarrow> error + 'c \<Rightarrow> 'c sftpLazy \<Rightarrow> 'c sftpLazy" where
  "lazy_settle gone outcome l =
     (case outcome of
        Inl err \<Rightarrow> if gone then l else l\<lparr>lz_attempted := True, lz_connErr := Some err\<rparr>
      | Inr c \<Rightarrow> l\<lparr>lz_attempted := True, lz_sftp := Some c, lz_ssh := Some c\<rparr>)"

text \<open>\<^verbatim>\<open>Close\<close> under the lock: the connection it has to close, if any.\<close>

definition lazy_Close :: "'c sftpLazy \<Rightarrow> 'c option \<times> 'c sftpLazy" where
  "lazy_Close l =
     (case lz_ssh l of
        None \<Rightarrow> (None, l\<lparr>lz_closed := True\<rparr>)
      | Some c \<Rightarrow> (Some c, l\<lparr>lz_closed := True, lz_ssh := None, lz_sftp := None\<rparr>))"

text \<open>
  \<^verbatim>\<open>connect\<close> and \<^verbatim>\<open>openSFTP\<close>: dialling, the SSH handshake and the SFTP session, each of
  which may fail; \<open>stopped\<close> is what \<^verbatim>\<open>context.Cause\<close> says when the context ended before the
  session was up, which has closed the connection (\<^verbatim>\<open>context.AfterFunc\<close>). A failure of the later
  steps closes the connection the earlier ones opened.
\<close>

record ('w, 'conn, 'c) dialer =
  dl_Dial :: "('w, 'conn) io"
  dl_NewClientConn :: "'conn \<Rightarrow> ('w, 'c) io"
  dl_NewSftp :: "'c \<Rightarrow> ('w, unit) io"
  dl_CloseClient :: "'c \<Rightarrow> ('w, unit) io"
  dl_CloseConn :: "'conn \<Rightarrow> ('w, unit) io"
  dl_stopped :: "'w \<Rightarrow> error option"

definition openSFTP :: "('w, 'conn, 'c) dialer \<Rightarrow> 'conn \<Rightarrow> ('w, 'c) io" where
  "openSFTP dl conn =
     tryIO (dl_NewClientConn dl conn) (\<lambda>r. case r of
         Inl err \<Rightarrow> throw (Errorf ''connect via SSH'' [err])
       | Inr c \<Rightarrow> tryIO (dl_NewSftp dl c) (\<lambda>s. case s of
             Inl err \<Rightarrow> tryIO (dl_CloseClient dl c) (\<lambda>_. throw (Errorf ''start SFTP session'' [err]))
           | Inr _ \<Rightarrow> ret c))"

definition connect :: "('w, 'conn, 'c) dialer \<Rightarrow> ('w, 'c) io" where
  "connect dl =
     tryIO (dl_Dial dl) (\<lambda>r. case r of
         Inl err \<Rightarrow> throw (Errorf ''connect'' [err])
       | Inr conn \<Rightarrow> tryIO (openSFTP dl conn) (\<lambda>s w.
           case dl_stopped dl w of
             Some cause \<Rightarrow> tryIO (dl_CloseConn dl conn) (\<lambda>_. throw (Errorf ''connect via SSH'' [cause])) w
           | None \<Rightarrow> (s, w)))"

text \<open>
  \<^verbatim>\<open>Client\<close> for a caller that has the lock, on a world that holds the fields (\<open>get\<close>, \<open>put\<close>).
\<close>

definition lazy_Client ::
  "('w \<Rightarrow> 'c sftpLazy) \<Rightarrow> ('c sftpLazy \<Rightarrow> 'w \<Rightarrow> 'w) \<Rightarrow> ('w, 'c) io \<Rightarrow> 'w ctx \<Rightarrow> ('w, 'c option) io" where
  "lazy_Client get put conn ctx w =
     (case lazy_cached (get w) of
        Some r \<Rightarrow> (r, w)
      | None \<Rightarrow>
          (case conn w of (outcome, w') \<Rightarrow>
             (case outcome of Inl err \<Rightarrow> Inl err | Inr c \<Rightarrow> Inr (Some c),
              put (lazy_settle (ctx w' \<noteq> None) outcome (get w')) w')))"

section \<open>Concurrent callers\<close>

text \<open>
  A caller is idle, waits for the lock in \<^verbatim>\<open>Client\<close> or \<^verbatim>\<open>Close\<close>, connects while holding it, or
  has its answer. Connections are numbered as they are opened; \<open>mc_open\<close> are the open ones.
\<close>

datatype phase = Idle | WantClient | WantClose | Connecting | Answered "error + nat option" | CloseDone

record machine =
  mc_lazy :: "nat sftpLazy"
  mc_holder :: "nat option"
  mc_phase :: "nat \<Rightarrow> phase"
  mc_open :: "nat list"
  mc_opened :: nat

definition init_machine :: machine where
  "init_machine = \<lparr>mc_lazy = newSFTPLazy, mc_holder = None, mc_phase = (\<lambda>_. Idle), mc_open = [], mc_opened = 0\<rparr>"

definition set_phase :: "nat \<Rightarrow> phase \<Rightarrow> machine \<Rightarrow> machine" where
  "set_phase t p m = m\<lparr>mc_phase := (mc_phase m)(t := p)\<rparr>"

definition may_call :: "phase \<Rightarrow> bool" where
  "may_call p = (case p of WantClient \<Rightarrow> False | WantClose \<Rightarrow> False | Connecting \<Rightarrow> False | _ \<Rightarrow> True)"

inductive lazy_step :: "machine \<Rightarrow> machine \<Rightarrow> bool" where
  call_client: "may_call (mc_phase m t) \<Longrightarrow> lazy_step m (set_phase t WantClient m)"
| call_close: "may_call (mc_phase m t) \<Longrightarrow> lazy_step m (set_phase t WantClose m)"
| give_up: "mc_phase m t = WantClient \<Longrightarrow>
    lazy_step m (set_phase t (Answered (Inl (Errorf ''wait for SSH connection'' [cause]))) m)"
| answer_cached: "mc_phase m t = WantClient \<Longrightarrow> mc_holder m = None \<Longrightarrow> lazy_cached (mc_lazy m) = Some r \<Longrightarrow>
    lazy_step m (set_phase t (Answered r) m)"
| start: "mc_phase m t = WantClient \<Longrightarrow> mc_holder m = None \<Longrightarrow> lazy_cached (mc_lazy m) = None \<Longrightarrow>
    lazy_step m (set_phase t Connecting (m\<lparr>mc_holder := Some t\<rparr>))"
| connected: "mc_phase m t = Connecting \<Longrightarrow> mc_holder m = Some t \<Longrightarrow>
    lazy_step m (set_phase t (Answered (Inr (Some (mc_opened m))))
      (m\<lparr>mc_holder := None, mc_lazy := lazy_settle gone (Inr (mc_opened m)) (mc_lazy m),
         mc_open := mc_opened m # mc_open m, mc_opened := Suc (mc_opened m)\<rparr>))"
| failed: "mc_phase m t = Connecting \<Longrightarrow> mc_holder m = Some t \<Longrightarrow>
    lazy_step m (set_phase t (Answered (Inl err))
      (m\<lparr>mc_holder := None, mc_lazy := lazy_settle gone (Inl err) (mc_lazy m)\<rparr>))"
| close: "mc_phase m t = WantClose \<Longrightarrow> mc_holder m = None \<Longrightarrow> lazy_Close (mc_lazy m) = (c, l) \<Longrightarrow>
    lazy_step m (set_phase t CloseDone
      (m\<lparr>mc_lazy := l, mc_open := (case c of None \<Rightarrow> mc_open m | Some x \<Rightarrow> filter (\<lambda>y. y \<noteq> x) (mc_open m))\<rparr>))"

inductive lazy_reach :: "machine \<Rightarrow> bool" where
  reach_init: "lazy_reach init_machine"
| reach_step: "lazy_reach m \<Longrightarrow> lazy_step m m' \<Longrightarrow> lazy_reach m'"

text \<open>
  The invariant: what is open is what the storage holds, one caller holds the lock while connecting,
  and nothing has been opened before the first recorded attempt.
\<close>

definition fields_ok :: "nat sftpLazy \<Rightarrow> nat list \<Rightarrow> nat \<Rightarrow> bool" where
  "fields_ok l opened_now n \<longleftrightarrow>
     opened_now = (case lz_ssh l of None \<Rightarrow> [] | Some c \<Rightarrow> [c]) \<and> lz_sftp l = lz_ssh l \<and>
     (if n = 0 then lz_ssh l = None \<and> (lz_attempted l \<longleftrightarrow> lz_connErr l \<noteq> None)
      else n = 1 \<and> lz_attempted l \<and> lz_connErr l = None \<and> lz_ssh l = (if lz_closed l then None else Some 0))"

definition lazy_inv :: "machine \<Rightarrow> bool" where
  "lazy_inv m \<longleftrightarrow> fields_ok (mc_lazy m) (mc_open m) (mc_opened m) \<and>
     (\<forall>t. mc_phase m t = Connecting \<longleftrightarrow> mc_holder m = Some t) \<and>
     (mc_holder m \<noteq> None \<longrightarrow> \<not> lz_attempted (mc_lazy m) \<and> \<not> lz_closed (mc_lazy m)) \<and>
     (\<forall>t c. mc_phase m t = Answered (Inr c) \<longrightarrow> c = Some 0 \<and> mc_opened m = 1)"

lemma fields_cached: "fields_ok l op n \<Longrightarrow> lazy_cached l = Some (Inr c) \<Longrightarrow> c = Some 0 \<and> n = 1"
  by (auto simp: fields_ok_def lazy_cached_def split: if_splits option.splits)

lemma fields_connected:
  assumes "fields_ok l op n" "\<not> lz_attempted l" "\<not> lz_closed l"
  shows "n = 0 \<and> fields_ok (lazy_settle gone (Inr n) l) (n # op) (Suc n)"
  using assms by (auto simp: fields_ok_def lazy_settle_def split: if_splits)

lemma fields_failed:
  assumes "fields_ok l op n" "\<not> lz_attempted l"
  shows "fields_ok (lazy_settle gone (Inl e) l) op n"
  using assms by (auto simp: fields_ok_def lazy_settle_def split: if_splits)

lemma fields_closed:
  assumes "fields_ok l op n" "lazy_Close l = (c, l')"
  shows "fields_ok l' (case c of None \<Rightarrow> op | Some x \<Rightarrow> filter (\<lambda>y. y \<noteq> x) op) n \<and> lz_closed l'"
  using assms by (auto simp: fields_ok_def lazy_Close_def split: option.splits if_splits)

lemma lazy_inv_init: "lazy_inv init_machine"
  by (simp add: lazy_inv_def fields_ok_def init_machine_def newSFTPLazy_def)

lemma lazy_inv_phase:
  assumes "lazy_inv m" "mc_phase m t \<noteq> Connecting" "p \<noteq> Connecting"
    and "\<And>c. p = Answered (Inr c) \<Longrightarrow> c = Some 0 \<and> mc_opened m = 1"
  shows "lazy_inv (set_phase t p m)"
proof -
  have "mc_holder m \<noteq> Some t" using assms(1,2) by (auto simp: lazy_inv_def)
  then show ?thesis using assms(1,3,4) by (auto simp: lazy_inv_def set_phase_def)
qed

lemma lazy_inv_step:
  assumes "lazy_step m m'" "lazy_inv m"
  shows "lazy_inv m'"
  using assms(1)
proof (cases rule: lazy_step.cases)
  case (call_client t)
  then show ?thesis using assms(2) by (auto intro!: lazy_inv_phase simp: may_call_def split: phase.splits)
next
  case (call_close t)
  then show ?thesis using assms(2) by (auto intro!: lazy_inv_phase simp: may_call_def split: phase.splits)
next
  case (give_up t cause)
  then show ?thesis using assms(2) by (auto intro!: lazy_inv_phase)
next
  case (answer_cached t r)
  have "fields_ok (mc_lazy m) (mc_open m) (mc_opened m)" using assms(2) by (simp add: lazy_inv_def)
  then show ?thesis
    using answer_cached assms(2) fields_cached by (auto intro!: lazy_inv_phase)
next
  case (start t)
  then have "\<not> lz_attempted (mc_lazy m)" "\<not> lz_closed (mc_lazy m)"
    by (auto simp: lazy_cached_def split: if_splits)
  with start assms(2) show ?thesis by (auto simp: lazy_inv_def set_phase_def)
next
  case (connected t gone)
  with assms(2) have "\<not> lz_attempted (mc_lazy m)" "\<not> lz_closed (mc_lazy m)" "fields_ok (mc_lazy m) (mc_open m) (mc_opened m)"
    by (auto simp: lazy_inv_def)
  from fields_connected [OF this(3,1,2), of gone] connected assms(2) show ?thesis
    by (auto simp: lazy_inv_def set_phase_def)
next
  case (failed t err gone)
  with assms(2) have "\<not> lz_attempted (mc_lazy m)" "fields_ok (mc_lazy m) (mc_open m) (mc_opened m)"
    by (auto simp: lazy_inv_def)
  from fields_failed [OF this(2,1), of gone err] failed assms(2) show ?thesis
    by (auto simp: lazy_inv_def set_phase_def)
next
  case (close t c l)
  with assms(2) fields_closed [of "mc_lazy m" "mc_open m" "mc_opened m" c l] show ?thesis
    by (auto simp: lazy_inv_def set_phase_def)
qed

lemma lazy_reach_inv: "lazy_reach m \<Longrightarrow> lazy_inv m"
  by (induction rule: lazy_reach.induct) (auto intro: lazy_inv_init lazy_inv_step)

text \<open>
  C33. Whatever callers do concurrently, in whatever order they get the lock, fail, give up or close:
  at most one connection is ever opened, the open connection is the one the storage holds, every
  caller that got a client got that one, and a closed storage holds no connection, answers every
  later call with \<open>ErrStorageClosed\<close> and stays closed.
\<close>

theorem lazy_single_connection:
  assumes "lazy_reach m"
  shows "mc_opened m \<le> 1 \<and> mc_open m = (case lz_ssh (mc_lazy m) of None \<Rightarrow> [] | Some c \<Rightarrow> [c]) \<and>
    (\<forall>t c. mc_phase m t = Answered (Inr c) \<longrightarrow> c = Some 0) \<and>
    (lz_closed (mc_lazy m) \<longrightarrow> mc_open m = [] \<and> lazy_cached (mc_lazy m) = Some (Inl ErrStorageClosed) \<and>
      (\<forall>m'. lazy_step m m' \<longrightarrow> lz_closed (mc_lazy m')))"
proof -
  have i: "lazy_inv m" using assms by (rule lazy_reach_inv)
  have "lz_closed (mc_lazy m')" if "lz_closed (mc_lazy m)" "lazy_step m m'" for m'
    using that(2,1)
    by (cases rule: lazy_step.cases)
      (auto simp: set_phase_def lazy_settle_def lazy_Close_def split: sum.splits option.splits)
  with i show ?thesis
    by (auto simp: lazy_inv_def fields_ok_def lazy_cached_def split: if_splits option.splits)
qed

theorem lazy_single_connection_witness:
  "\<exists>m. lazy_reach m \<and> mc_phase m 1 = CloseDone \<and> mc_phase m 0 = Answered (Inr (Some 0)) \<and> mc_open m = []"
proof -
  note step = reach_step [rotated]
  let ?m1 = "set_phase 0 WantClient init_machine"
  let ?m2 = "set_phase 0 Connecting (?m1\<lparr>mc_holder := Some 0\<rparr>)"
  let ?m3 = "set_phase 1 WantClose ?m2"
  let ?m4 = "set_phase 0 (Answered (Inr (Some (mc_opened ?m3))))
      (?m3\<lparr>mc_holder := None, mc_lazy := lazy_settle False (Inr (mc_opened ?m3)) (mc_lazy ?m3),
         mc_open := mc_opened ?m3 # mc_open ?m3, mc_opened := Suc (mc_opened ?m3)\<rparr>)"
  let ?l = "newSFTPLazy\<lparr>lz_attempted := True, lz_closed := True\<rparr> :: nat sftpLazy"
  let ?m5 = "set_phase 1 CloseDone
      (?m4\<lparr>mc_lazy := ?l, mc_open := (case Some 0 of None \<Rightarrow> mc_open ?m4 | Some x \<Rightarrow> filter (\<lambda>y. y \<noteq> x) (mc_open ?m4))\<rparr>)"
  note evals = set_phase_def init_machine_def newSFTPLazy_def may_call_def lazy_cached_def lazy_settle_def lazy_Close_def
  have "lazy_reach ?m1" by (rule step [OF call_client reach_init]) (simp add: evals)
  then have "lazy_reach ?m2" by (rule step [OF start, rotated 3]) (simp_all add: evals)
  then have "lazy_reach ?m3" by (rule step [OF call_close, rotated 1]) (simp add: evals)
  then have "lazy_reach ?m4" by (rule step [OF connected, rotated 2]) (simp_all add: evals)
  then have r: "lazy_reach ?m5" by (rule step [OF close, rotated 3]) (simp_all add: evals)
  have "lz_closed (mc_lazy ?m5)" by (simp add: evals)
  with lazy_single_connection [OF r] have "mc_open ?m5 = []" by blast
  moreover have "mc_phase ?m5 1 = CloseDone" "mc_phase ?m5 0 = Answered (Inr (Some 0))" by (simp_all add: evals)
  ultimately show ?thesis using r by blast
qed

end
