(* ===== verification/Ssh.thy ===== *)
theory Ssh
  imports Sftp_Lazy Walk
begin

text \<open>
  \<^verbatim>\<open>ssh/config.go\<close> and \<^verbatim>\<open>ssh/storage.go\<close>: the backend over SFTP. The SFTP client, the source of
  random names and the SSH key parser are parameters; \<open>client\<close> stands for \<^verbatim>\<open>sftpLazy.Client\<close>.
  Closing a file that was only read has no effect on the storage and is left out, as is logging.
\<close>

section \<open>Configuration\<close>

record ssh_config =
  Host :: string
  Port :: int64
  User :: string
  Password :: string
  PrivateKeyPath :: string
  PrivateKeyPassphrase :: string
  ssh_Prefix :: string
  ConnectTimeout :: int64

definition defaultPort :: int64 where "defaultPort = 22"

definition defaultConnectTimeout :: int64 where "defaultConnectTimeout = 30000000000"

definition ssh_applyDefaults :: "ssh_config \<Rightarrow> ssh_config" where
  "ssh_applyDefaults c =
     (let c1 = (if Port c = 0 then c\<lparr>Port := defaultPort\<rparr> else c) in
      if ConnectTimeout c1 = 0 then c1\<lparr>ConnectTimeout := defaultConnectTimeout\<rparr> else c1)"

definition ssh_DefaultConfig :: ssh_config where
  "ssh_DefaultConfig = ssh_applyDefaults
     \<lparr>Host = '''', Port = 0, User = '''', Password = '''', PrivateKeyPath = '''', PrivateKeyPassphrase = '''',
      ssh_Prefix = '''', ConnectTimeout = 0\<rparr>"

text \<open>\<^verbatim>\<open>Validate\<close> also fills the defaults into the receiver.\<close>

definition ssh_Validate :: "ssh_config \<Rightarrow> error option \<times> ssh_config" where
  "ssh_Validate c0 =
     (let c = ssh_applyDefaults c0 in
      (if Host c = '''' then Some (ErrorString ''host is required'')
       else if User c = '''' then Some (ErrorString ''user is required'')
       else if Password c = '''' \<and> PrivateKeyPath c = '''' then
         Some (ErrorString ''one of password or private_key_path is required'')
       else if PrivateKeyPassphrase c \<noteq> '''' \<and> PrivateKeyPath c = '''' then
         Some (ErrorString ''private_key_passphrase requires private_key_path'')
       else if ConnectTimeout c < 0 then Some (ErrorString ''connect_timeout must not be negative'')
       else None, c))"

section \<open>Opening\<close>

datatype 'k auth = PublicKeys 'k | PasswordAuth string

text \<open>\<open>kp_missing\<close> tells a \<^verbatim>\<open>*ssh.PassphraseMissingError\<close>.\<close>

record 'k keyparser =
  kp_ReadFile :: "string \<Rightarrow> error + bytes"
  kp_Parse :: "bytes \<Rightarrow> error + 'k"
  kp_ParseWithPassphrase :: "bytes \<Rightarrow> string \<Rightarrow> error + 'k"
  kp_missing :: "error \<Rightarrow> bool"

definition parsePrivateKey :: "'k keyparser \<Rightarrow> bytes \<Rightarrow> string \<Rightarrow> error + 'k" where
  "parsePrivateKey kp pem passphrase =
     (case kp_Parse kp pem of
        Inl err \<Rightarrow>
          if kp_missing kp err then
            if passphrase = '''' then Inl (Errorf ''parse SSH private key: the key is encrypted'' [err])
            else (case kp_ParseWithPassphrase kp pem passphrase of
                Inl e \<Rightarrow> Inl (Errorf ''parse SSH private key with passphrase'' [e])
              | Inr k \<Rightarrow> Inr k)
          else Inl (Errorf ''parse SSH private key'' [err])
      | Inr k \<Rightarrow> Inr k)"

definition buildAuthMethods :: "'k keyparser \<Rightarrow> ssh_config \<Rightarrow> error + 'k auth list" where
  "buildAuthMethods kp cfg =
     (let pw = (if Password cfg \<noteq> '''' then [PasswordAuth (Password cfg)] else []) in
      if PrivateKeyPath cfg = '''' then Inr pw
      else (case kp_ReadFile kp (PrivateKeyPath cfg) of
          Inl err \<Rightarrow> Inl (Errorf ''read SSH private key'' [err])
        | Inr pem \<Rightarrow> (case parsePrivateKey kp pem (PrivateKeyPassphrase cfg) of
              Inl err \<Rightarrow> Inl err
            | Inr k \<Rightarrow> Inr (PublicKeys k # pw))))"

record ssh_storage =
  sh_cfg :: ssh_config
  sh_cwd :: string
  sh_unsafe :: bool

definition ssh_WithUnsafe :: "ssh_storage \<Rightarrow> ssh_storage" where
  "ssh_WithUnsafe s = s\<lparr>sh_unsafe := True\<rparr>"

text \<open>The storage, and the authentication methods its connection will use.\<close>

definition ssh_New ::
  "'k keyparser \<Rightarrow> ssh_config \<Rightarrow> (ssh_storage \<Rightarrow> ssh_storage) list \<Rightarrow> error + (ssh_storage gstore \<times> 'k auth list)" where
  "ssh_New kp cfg0 opts =
     (case ssh_Validate cfg0 of
        (Some err, cfg) \<Rightarrow> Inl (Errorf ''validate ssh config'' [err])
      | (None, cfg) \<Rightarrow>
          let s = foldl (\<lambda>s opt. opt s) \<lparr>sh_cfg = cfg, sh_cwd = ssh_Prefix cfg, sh_unsafe = False\<rparr> opts in
          (case buildAuthMethods kp cfg of
             Inl err \<Rightarrow> Inl err
           | Inr auths \<Rightarrow> Inr (if sh_unsafe s then Bare s else Guard (Bare s), auths)))"

section \<open>The SFTP client\<close>

text \<open>
  An open remote file is an \<open>afile\<close>; \<open>sc_Create\<close> returns the name of the file it created, to
  which \<open>sc_Write\<close> appends. \<open>sc_random\<close> is \<^verbatim>\<open>crypto/rand\<close> in hexadecimal.
\<close>

record 'w sftp =
  sc_ReadDir :: "string \<Rightarrow> ('w, fileinfo list) io"
  sc_Join :: "string \<Rightarrow> string \<Rightarrow> string"
  sc_Remove :: "string \<Rightarrow> ('w, unit) io"
  sc_RemoveDirectory :: "string \<Rightarrow> ('w, unit) io"
  sc_Stat :: "string \<Rightarrow> ('w, fileinfo) io"
  sc_Open :: "string \<Rightarrow> ('w, afile) io"
  sc_FStat :: "afile \<Rightarrow> ('w, fileinfo) io"
  sc_Seek :: "afile \<Rightarrow> int64 \<Rightarrow> ('w, unit) io"
  sc_Create :: "string \<Rightarrow> ('w, string) io"
  sc_Write :: "string \<Rightarrow> bytes \<Rightarrow> ('w, unit) io"
  sc_CloseFile :: "string \<Rightarrow> ('w, unit) io"
  sc_MkdirAll :: "string \<Rightarrow> ('w, unit) io"
  sc_Rename :: "string \<Rightarrow> string \<Rightarrow> ('w, unit) io"
  sc_PosixRename :: "string \<Rightarrow> string \<Rightarrow> ('w, unit) io"
  sc_random :: "('w, string) io"

type_synonym 'w lazy_client = "'w ctx \<Rightarrow> ('w, 'w sftp) io"

text \<open>\<^verbatim>\<open>os.IsNotExist\<close> does not look through wrapped errors.\<close>

definition os_IsNotExist :: "error \<Rightarrow> bool" where
  "os_IsNotExist err \<longleftrightarrow> err = ErrNotExist"

definition ssh_clone :: "ssh_storage \<Rightarrow> string \<Rightarrow> ssh_storage" where
  "ssh_clone s cwd = \<lparr>sh_cfg = sh_cfg s, sh_cwd = cwd, sh_unsafe = False\<rparr>"

definition ssh_Close :: "('w, unit) io \<Rightarrow> ssh_storage \<Rightarrow> ('w, unit) io" where
  "ssh_Close lazyClose s = lazyClose"

definition ssh_GetCwd :: "ssh_storage \<Rightarrow> string" where
  "ssh_GetCwd s = sh_cwd s"

definition ssh_Dirname :: "ssh_storage \<Rightarrow> string" where
  "ssh_Dirname s = path_Base (sh_cwd s)"

definition ssh_ListDir :: "'w lazy_client \<Rightarrow> ssh_storage \<Rightarrow> 'w ctx \<Rightarrow> ('w, string list \<times> ssh_storage list) io" where
  "ssh_ListDir client s ctx =
     bindIO (client ctx) (\<lambda>c.
       tryIO (sc_ReadDir c (sh_cwd s)) (\<lambda>r. case r of
           Inl err \<Rightarrow> if os_IsNotExist err then ret ([], []) else throw (Errorf ''read SFTP dir'' [err])
         | Inr infos \<Rightarrow> ret
             (map fi_name (filter (\<lambda>i. \<not> fi_isdir i) infos),
              map (\<lambda>i. ssh_clone s (sc_Join c (sh_cwd s) (fi_name i))) (filter fi_isdir infos))))"

definition ssh_GetObject :: "'w lazy_client \<Rightarrow> ssh_storage \<Rightarrow> 'w ctx \<Rightarrow> string \<Rightarrow> ('w, reader) io" where
  "ssh_GetObject client s ctx filePath =
     bindIO (client ctx) (\<lambda>c.
       tryIO (sc_Open c (path_Join (sh_cwd s) filePath)) (\<lambda>r. case r of
           Inl err \<Rightarrow> throw ErrFileNotFound
         | Inr f \<Rightarrow> ret (file_reader f)))"

definition limit_reader :: "reader \<Rightarrow> int64 \<Rightarrow> reader" where
  "limit_reader r n =
     \<lparr>rd_chunks = [take (nat n) (rd_bytes r)],
      rd_end = (if nat n \<le> length (rd_bytes r) then None else rd_end r), rd_close = rd_close r\<rparr>"

definition ssh_GetObjectRange ::
  "'w lazy_client \<Rightarrow> ssh_storage \<Rightarrow> 'w ctx \<Rightarrow> string \<Rightarrow> int64 \<Rightarrow> int64 \<Rightarrow> ('w, reader) io" where
  "ssh_GetObjectRange client s ctx filePath offset len =
     (if offset < 0 \<or> len = 0 then throw ErrInvalidRange
      else bindIO (client ctx) (\<lambda>c.
        let objPath = path_Join (sh_cwd s) filePath in
        tryIO (sc_Open c objPath) (\<lambda>r. case r of
            Inl err \<Rightarrow> throw ErrFileNotFound
          | Inr f \<Rightarrow>
              tryIO (sc_FStat c f) (\<lambda>r. case r of
                  Inl err \<Rightarrow> throw (Errorf ''get stats of object'' [err])
                | Inr info \<Rightarrow>
                    if offset \<ge> fi_size info then throw ErrInvalidRange
                    else tryIO (sc_Seek c f offset) (\<lambda>r. case r of
                        Inl err \<Rightarrow> throw (Errorf ''seek in object'' [err])
                      | Inr _ \<Rightarrow>
                          let rest = reader_from (file_reader f) offset in
                          ret (if len > 0 then limit_reader rest len else rest))))))"

section \<open>Listing\<close>

text \<open>
  \<^verbatim>\<open>listUnder\<close> recurses into directories, so it has fuel, one unit per level (\<open>None\<close> is running
  out). It appends to the result it is given.
\<close>

fun list_entries ::
  "(string \<Rightarrow> string \<Rightarrow> ObjectStat list \<Rightarrow> 'w \<Rightarrow> ((error + ObjectStat list) \<times> 'w) option) \<Rightarrow> 'w sftp \<Rightarrow>
    string \<Rightarrow> string \<Rightarrow> fileinfo list \<Rightarrow> ObjectStat list \<Rightarrow> 'w \<Rightarrow> ((error + ObjectStat list) \<times> 'w) option" where
  "list_entries rec c dir rel [] res w = Some (Inr res, w)"
| "list_entries rec c dir rel (entry # entries) res w =
     (let name = path_Join rel (fi_name entry) in
      if fi_isdir entry then
        (case rec (sc_Join c dir (fi_name entry)) name res w of
           None \<Rightarrow> None
         | Some (Inl err, w') \<Rightarrow> Some (Inl err, w')
         | Some (Inr res', w') \<Rightarrow> list_entries rec c dir rel entries res' w')
      else
        list_entries rec c dir rel entries
          (res @ [\<lparr>Name = name, LastModified = fi_modtime entry, Exist = True, Size = fi_size entry, ETag = ''''\<rparr>]) w)"

primrec listUnder ::
  "nat \<Rightarrow> 'w ctx \<Rightarrow> 'w sftp \<Rightarrow> string \<Rightarrow> string \<Rightarrow> ObjectStat list \<Rightarrow> 'w \<Rightarrow> ((error + ObjectStat list) \<times> 'w) option" where
  "listUnder 0 ctx c dir rel res w = None"
| "listUnder (Suc fuel) ctx c dir rel res w =
     (case ctx w of
        Some err \<Rightarrow> Some (Inl err, w)
      | None \<Rightarrow>
          (case sc_ReadDir c dir w of
             (Inl err, w') \<Rightarrow>
               if errors_Is err ErrNotExist then Some (Inr res, w')
               else Some (Inl (Errorf ''read SFTP dir'' [err]), w')
           | (Inr entries, w') \<Rightarrow> list_entries (listUnder fuel ctx c) c dir rel entries res w'))"

definition sort_stats :: "ObjectStat list \<Rightarrow> ObjectStat list" where
  "sort_stats = sort_key Name"

definition ssh_List ::
  "nat \<Rightarrow> 'w lazy_client \<Rightarrow> ssh_storage \<Rightarrow> 'w ctx \<Rightarrow> string \<Rightarrow> 'w \<Rightarrow> ((error + ObjectStat list) \<times> 'w) option" where
  "ssh_List fuel client s ctx prefix w =
     (case client ctx w of
        (Inl err, w1) \<Rightarrow> Some (Inl err, w1)
      | (Inr c, w1) \<Rightarrow>
          let root = path_Join (sh_cwd s) prefix in
          (case sc_Stat c root w1 of
             (Inl err, w2) \<Rightarrow>
               if errors_Is err ErrNotExist then Some (Inr [], w2)
               else Some (Inl (Errorf ''get stats'' [err]), w2)
           | (Inr info, w2) \<Rightarrow>
               if \<not> fi_isdir info then Some (Inr [], w2)
               else (case listUnder fuel ctx c root '''' [] w2 of
                   None \<Rightarrow> None
                 | Some (Inl err, w3) \<Rightarrow> Some (Inl err, w3)
                 | Some (Inr res, w3) \<Rightarrow> Some (Inr (sort_stats res), w3))))"

section \<open>Writing\<close>

definition tempSibling :: "'w sftp \<Rightarrow> string \<Rightarrow> ('w, string) io" where
  "tempSibling c p =
     tryIO (sc_random c) (\<lambda>r. case r of
         Inl err \<Rightarrow> throw (Errorf ''generate temporary name'' [err])
       | Inr suffix \<Rightarrow> ret (path_Join (path_Dir p) (''.copy-'' @ suffix)))"

definition ssh_removeQuietly :: "'w sftp \<Rightarrow> string \<Rightarrow> ('w, unit) io" where
  "ssh_removeQuietly c p = tryIO (sc_Remove c p) (\<lambda>_. ret ())"

definition replaceFile :: "'w sftp \<Rightarrow> string \<Rightarrow> string \<Rightarrow> ('w, unit) io" where
  "replaceFile c src dst =
     tryIO (sc_PosixRename c src dst) (\<lambda>r. case r of
         Inr _ \<Rightarrow> ret ()
       | Inl posixErr \<Rightarrow>
           bindIO (tempSibling c dst) (\<lambda>aside.
             tryIO (sc_Rename c dst aside) (\<lambda>r. case r of
                 Inl err \<Rightarrow>
                   if errors_Is err ErrNotExist then sc_Rename c src dst
                   else throw (Errorf ''after posix-rename failed'' [err, posixErr])
               | Inr _ \<Rightarrow>
                   tryIO (sc_Rename c src dst) (\<lambda>r. case r of
                       Inl err \<Rightarrow>
                         tryIO (sc_Rename c aside dst) (\<lambda>r. case r of
                             Inl rerr \<Rightarrow> throw (Errorf ''the previous file could not be restored'' [err, rerr])
                           | Inr _ \<Rightarrow> throw err)
                     | Inr _ \<Rightarrow> bindIO (ssh_removeQuietly c aside) (\<lambda>_. ret ())))))"

text \<open>
  The loop of \<^verbatim>\<open>io.Copy\<close> into a remote file: \<open>rctx\<close> is consulted before every read (a put wraps
  its body in a \<^verbatim>\<open>ctxReader\<close>), \<open>wctx\<close> before every write (\<^verbatim>\<open>ctxWriter\<close>).
\<close>

fun ssh_io_Copy ::
  "'w sftp \<Rightarrow> ('w \<Rightarrow> error option) \<Rightarrow> ('w \<Rightarrow> error option) \<Rightarrow> string \<Rightarrow> bytes list \<Rightarrow> error option \<Rightarrow> nat \<Rightarrow> ('w, nat) io" where
  "ssh_io_Copy c rctx wctx tmp [] fin n w =
     (case rctx w of
        Some e \<Rightarrow> (Inl e, w)
      | None \<Rightarrow> (case fin of Some e \<Rightarrow> (Inl e, w) | None \<Rightarrow> (Inr n, w)))"
| "ssh_io_Copy c rctx wctx tmp (d # ds) fin n w =
     (case rctx w of
        Some e \<Rightarrow> (Inl e, w)
      | None \<Rightarrow>
          if d = [] then ssh_io_Copy c rctx wctx tmp ds fin n w
          else (case wctx w of
              Some e \<Rightarrow> (Inl e, w)
            | None \<Rightarrow> (case sc_Write c tmp d w of
                  (Inl e, w') \<Rightarrow> (Inl e, w')
                | (Inr _, w') \<Rightarrow> ssh_io_Copy c rctx wctx tmp ds fin (n + length d) w')))"

definition fillAndReplace ::
  "'w ctx \<Rightarrow> 'w sftp \<Rightarrow> ('w \<Rightarrow> error option) \<Rightarrow> string \<Rightarrow> reader \<Rightarrow> string \<Rightarrow> ('w, nat) io" where
  "fillAndReplace ctx c rctx tmp src dst =
     tryIO (ssh_io_Copy c rctx ctx tmp (rd_chunks src) (rd_end src) 0) (\<lambda>copied.
       tryIO (sc_CloseFile c tmp) (\<lambda>closed.
         case copied of
           Inl err \<Rightarrow> throw err
         | Inr n \<Rightarrow>
             (case closed of
                Inl cerr \<Rightarrow> throw (Errorf ''close copy'' [cerr])
              | Inr _ \<Rightarrow>
                  tryIO (replaceFile c tmp dst) (\<lambda>r. case r of
                      Inl err \<Rightarrow> throw (Errorf ''move copy into place'' [err])
                    | Inr _ \<Rightarrow> ret n))))"

definition ssh_PutObject :: "'w lazy_client \<Rightarrow> ssh_storage \<Rightarrow> 'w ctx \<Rightarrow> string \<Rightarrow> reader \<Rightarrow> ('w, nat) io" where
  "ssh_PutObject client s ctx filePath body =
     bindIO (client ctx) (\<lambda>c.
       let absolutePath = path_Join (sh_cwd s) filePath in
       tryIO (sc_MkdirAll c (path_Dir absolutePath)) (\<lambda>r. case r of
           Inl err \<Rightarrow> throw (Errorf ''create directory'' [err])
         | Inr _ \<Rightarrow>
             tryIO (sc_Stat c absolutePath) (\<lambda>st.
               if (case st of Inr info \<Rightarrow> fi_isdir info | Inl _ \<Rightarrow> False) then
                 throw (ErrorString ''put destination is a directory'')
               else
                 bindIO (tempSibling c absolutePath) (\<lambda>tmpFull.
                   tryIO (sc_Create c tmpFull) (\<lambda>r. case r of
                       Inl err \<Rightarrow> throw (Errorf ''create file'' [err])
                     | Inr tmp \<Rightarrow>
                         tryIO (fillAndReplace ctx c ctx tmp body absolutePath) (\<lambda>r. case r of
                             Inl err \<Rightarrow>
                               bindIO (ssh_removeQuietly c tmpFull) (\<lambda>_. throw (Errorf ''write data to file'' [err]))
                           | Inr n \<Rightarrow> ret n))))))"

text \<open>The part of \<^verbatim>\<open>Copy\<close> that opens the source and streams it.\<close>

definition ssh_copy_open :: "'w sftp \<Rightarrow> 'w ctx \<Rightarrow> string \<Rightarrow> string \<Rightarrow> ('w, CopyStat) io" where
  "ssh_copy_open c ctx srcFull dstFull =
     tryIO (sc_Open c srcFull) (\<lambda>r. case r of
         Inl err \<Rightarrow>
           if errors_Is err ErrNotExist then throw ErrFileNotFound else throw (Errorf ''open file'' [err])
       | Inr src \<Rightarrow>
           tryIO (sc_MkdirAll c (path_Dir dstFull)) (\<lambda>r. case r of
               Inl err \<Rightarrow> throw (Errorf ''create directory'' [err])
             | Inr _ \<Rightarrow>
                 bindIO (tempSibling c dstFull) (\<lambda>tmpFull.
                   tryIO (sc_Create c tmpFull) (\<lambda>r. case r of
                       Inl err \<Rightarrow> throw (Errorf ''create file'' [err])
                     | Inr tmp \<Rightarrow>
                         tryIO (fillAndReplace ctx c (\<lambda>_. None) tmp (file_reader src) dstFull) (\<lambda>r. case r of
                             Inl err \<Rightarrow>
                               bindIO (ssh_removeQuietly c tmpFull) (\<lambda>_. throw (Errorf ''copy via SFTP'' [err]))
                           | Inr n \<Rightarrow> ret \<lparr>Bytes = wrap64 (int n), Streamed = True, Objects = 0\<rparr>)))))"

definition ssh_Copy ::
  "'w lazy_client \<Rightarrow> ssh_storage \<Rightarrow> 'w ctx \<Rightarrow> string \<Rightarrow> string \<Rightarrow> CopyOption list \<Rightarrow> ('w, CopyStat) io" where
  "ssh_Copy client s ctx srcPath dstPath opts =
     bindIO (client ctx) (\<lambda>c.
       let srcFull = path_Join (sh_cwd s) srcPath; dstFull = path_Join (sh_cwd s) dstPath in
       tryIO (sc_Stat c srcFull) (\<lambda>r. case r of
           Inl err \<Rightarrow>
             if errors_Is err ErrNotExist then throw ErrFileNotFound
             else throw (Errorf ''get stats of object'' [err])
         | Inr info \<Rightarrow>
             if fi_isdir info then throw ErrFileNotFound
             else if srcFull = dstFull then ret zeroCopyStat
             else
               tryIO (sc_Stat c dstFull) (\<lambda>d.
                 case d of
                   Inr dstInfo \<Rightarrow>
                     if fi_isdir dstInfo then throw (ErrorString ''copy destination is a directory'')
                     else ssh_copy_open c ctx srcFull dstFull
                 | Inl err \<Rightarrow>
                     if errors_Is err ErrNotExist then ssh_copy_open c ctx srcFull dstFull
                     else throw (Errorf ''get stats of object'' [err]))))"

section \<open>Deleting\<close>

text \<open>The check of \<^verbatim>\<open>Delete\<close>: the paths that are not objects, in order.\<close>

fun ssh_verify :: "'w sftp \<Rightarrow> ssh_storage \<Rightarrow> string list \<Rightarrow> ('w, string list) io" where
  "ssh_verify c s [] w = (Inr [], w)"
| "ssh_verify c s (fp # fps) w =
     (case sc_Stat c (path_Join (sh_cwd s) fp) w of
        (Inl err, w') \<Rightarrow>
          if errors_Is err ErrNotExist then
            (case ssh_verify c s fps w' of (Inl e, w'') \<Rightarrow> (Inl e, w'') | (Inr ms, w'') \<Rightarrow> (Inr (fp # ms), w''))
          else (Inl (Errorf ''get stats of object'' [err]), w')
      | (Inr info, w') \<Rightarrow>
          if fi_isdir info then
            (case ssh_verify c s fps w' of (Inl e, w'') \<Rightarrow> (Inl e, w'') | (Inr ms, w'') \<Rightarrow> (Inr (fp # ms), w''))
          else ssh_verify c s fps w')"

fun ssh_remove_list :: "'w sftp \<Rightarrow> ssh_storage \<Rightarrow> string list \<Rightarrow> ('w, unit) io" where
  "ssh_remove_list c s [] w = (Inr (), w)"
| "ssh_remove_list c s (fp # fps) w =
     (case sc_Remove c (path_Join (sh_cwd s) fp) w of
        (Inl err, w') \<Rightarrow>
          if errors_Is err ErrNotExist then ssh_remove_list c s fps w'
          else (Inl (Errorf ''delete object'' [err]), w')
      | (Inr _, w') \<Rightarrow> ssh_remove_list c s fps w')"

definition ssh_Delete :: "'w lazy_client \<Rightarrow> ssh_storage \<Rightarrow> 'w ctx \<Rightarrow> string list \<Rightarrow> ('w, unit) io" where
  "ssh_Delete client s ctx filePaths =
     bindIO (client ctx) (\<lambda>c.
       bindIO (ssh_verify c s filePaths) (\<lambda>missing.
         if missing \<noteq> [] then throw (MissingObjectsError missing)
         else ssh_remove_list c s filePaths))"

text \<open>\<^verbatim>\<open>removeAll\<close> recurses into directories; one unit of fuel per level.\<close>

fun remove_entries ::
  "(string \<Rightarrow> 'w \<Rightarrow> ((error + unit) \<times> 'w) option) \<Rightarrow> 'w sftp \<Rightarrow> string \<Rightarrow> fileinfo list \<Rightarrow> 'w \<Rightarrow> ((error + unit) \<times> 'w) option" where
  "remove_entries rec c p [] w = Some (Inr (), w)"
| "remove_entries rec c p (e # es) w =
     (case rec (sc_Join c p (fi_name e)) w of
        None \<Rightarrow> None
      | Some (Inl err, w') \<Rightarrow> Some (Inl err, w')
      | Some (Inr _, w') \<Rightarrow> remove_entries rec c p es w')"

primrec removeAll :: "nat \<Rightarrow> 'w sftp \<Rightarrow> string \<Rightarrow> 'w \<Rightarrow> ((error + unit) \<times> 'w) option" where
  "removeAll 0 c p w = None"
| "removeAll (Suc fuel) c p w =
     (case sc_Stat c p w of
        (Inl err, w1) \<Rightarrow>
          if errors_Is err ErrNotExist then Some (Inr (), w1) else Some (Inl (Errorf ''get stats'' [err]), w1)
      | (Inr info, w1) \<Rightarrow>
          if \<not> fi_isdir info then
            (case sc_Remove c p w1 of
               (Inl err, w2) \<Rightarrow>
                 if errors_Is err ErrNotExist then Some (Inr (), w2) else Some (Inl (Errorf ''delete object'' [err]), w2)
             | (Inr _, w2) \<Rightarrow> Some (Inr (), w2))
          else
            (case sc_ReadDir c p w1 of
               (Inl err, w2) \<Rightarrow> Some (Inl (Errorf ''read SFTP dir'' [err]), w2)
             | (Inr entries, w2) \<Rightarrow>
                 (case remove_entries (removeAll fuel c) c p entries w2 of
                    None \<Rightarrow> None
                  | Some (Inl err, w3) \<Rightarrow> Some (Inl err, w3)
                  | Some (Inr _, w3) \<Rightarrow>
                      (case sc_RemoveDirectory c p w3 of
                         (Inl err, w4) \<Rightarrow>
                           if errors_Is err ErrNotExist then Some (Inr (), w4)
                           else Some (Inl (Errorf ''remove SFTP dir'' [err]), w4)
                       | (Inr _, w4) \<Rightarrow> Some (Inr (), w4)))))"

definition ssh_DeleteAll ::
  "nat \<Rightarrow> 'w lazy_client \<Rightarrow> ssh_storage \<Rightarrow> 'w ctx \<Rightarrow> string \<Rightarrow> 'w \<Rightarrow> ((error + unit) \<times> 'w) option" where
  "ssh_DeleteAll fuel client s ctx pathPrefix w =
     (case client ctx w of
        (Inl err, w1) \<Rightarrow> Some (Inl err, w1)
      | (Inr c, w1) \<Rightarrow>
          let fullPath = path_Join (sh_cwd s) pathPrefix in
          (case sc_Stat c fullPath w1 of
             (Inl err, w2) \<Rightarrow>
               if errors_Is err ErrNotExist then Some (Inl (MissingObjectsError [pathPrefix]), w2)
               else Some (Inl (Errorf ''get stats'' [err]), w2)
           | (Inr info, w2) \<Rightarrow>
               (case removeAll fuel c fullPath w2 of
                  None \<Rightarrow> None
                | Some (Inl err, w3) \<Rightarrow> Some (Inl (Errorf ''error deleting'' [err]), w3)
                | Some (Inr _, w3) \<Rightarrow> Some (Inr (), w3))))"

section \<open>The rest\<close>

definition ssh_Exists :: "'w lazy_client \<Rightarrow> ssh_storage \<Rightarrow> 'w ctx \<Rightarrow> string \<Rightarrow> ('w, bool) io" where
  "ssh_Exists client s ctx fileName =
     bindIO (client ctx) (\<lambda>c.
       tryIO (sc_Stat c (path_Join (sh_cwd s) fileName)) (\<lambda>r. case r of
           Inl err \<Rightarrow> if os_IsNotExist err then ret False else throw (Errorf ''check file existence'' [err])
         | Inr _ \<Rightarrow> ret True))"

definition ssh_SubStorage :: "ssh_storage \<Rightarrow> string \<Rightarrow> bool \<Rightarrow> error + ssh_storage" where
  "ssh_SubStorage s subPath relative =
     Inr (ssh_clone s (if relative then path_Join (sh_cwd s) subPath else subPath))"

definition ssh_Ping :: "'w lazy_client \<Rightarrow> ssh_storage \<Rightarrow> 'w ctx \<Rightarrow> ('w, unit) io" where
  "ssh_Ping client s ctx =
     tryIO (client ctx) (\<lambda>r. case r of
         Inl err \<Rightarrow> throw (Errorf ''error pinging ssh storage'' [err])
       | Inr _ \<Rightarrow> ret ())"

definition ssh_Stat :: "'w lazy_client \<Rightarrow> ssh_storage \<Rightarrow> string \<Rightarrow> ('w, ObjectStat) io" where
  "ssh_Stat client s fileName =
     bindIO (client (\<lambda>_. None)) (\<lambda>c.
       let fullPath = path_Join (sh_cwd s) fileName in
       tryIO (sc_Stat c fullPath) (\<lambda>r. case r of
           Inl err \<Rightarrow>
             if os_IsNotExist err then
               ret \<lparr>Name = fullPath, LastModified = 0, Exist = False, Size = 0, ETag = ''''\<rparr>
             else throw (Errorf ''error getting file stat'' [err])
         | Inr info \<Rightarrow>
             ret \<lparr>Name = fullPath, LastModified = fi_modtime info, Exist = True, Size = fi_size info, ETag = ''''\<rparr>))"

text \<open>The method table, for a storage whose directories nest at most \<open>fuel\<close> levels.\<close>

definition ssh_CopyAll ::
  "nat \<Rightarrow> ('w group \<Rightarrow> nat) \<Rightarrow> 'w lazy_client \<Rightarrow> ssh_storage \<Rightarrow> 'w ctx \<Rightarrow> string \<Rightarrow> string \<Rightarrow> CopyAllOption list \<Rightarrow>
    'w \<Rightarrow> (CopyStat \<times> error option) \<times> 'w" where
  "ssh_CopyAll fuel pick client s ctx srcPrefix dstPrefix opts =
     CopyListed pick (\<lambda>ctx' p. fueled (ssh_List fuel client s ctx' p)) ctx srcPrefix dstPrefix
       (\<lambda>ctx' _ srcPath dstPath o'. ssh_Copy client s ctx' srcPath dstPath o') opts"

definition ssh_ops :: "nat \<Rightarrow> ('w group \<Rightarrow> nat) \<Rightarrow> 'w lazy_client \<Rightarrow> ('w, unit) io \<Rightarrow> (ssh_storage, 'w) storager" where
  "ssh_ops fuel pick client lazyClose =
     \<lparr>GetObject = ssh_GetObject client, GetObjectRange = ssh_GetObjectRange client, PutObject = ssh_PutObject client,
      Delete = ssh_Delete client, DeleteAll = (\<lambda>s ctx p. fueled (ssh_DeleteAll fuel client s ctx p)),
      List_op = (\<lambda>s ctx p. fueled (ssh_List fuel client s ctx p)), Stat = ssh_Stat client,
      Exists = ssh_Exists client, GetCwd = ssh_GetCwd, Dirname = ssh_Dirname, ListDir = ssh_ListDir client,
      SubStorage = ssh_SubStorage, Copy = ssh_Copy client, CopyAll = ssh_CopyAll fuel pick client,
      Ping = ssh_Ping client, Close = ssh_Close lazyClose\<rparr>"

end
