(* ===== verification/Ssh_Laws.thy ===== *)
theory Ssh_Laws
  imports Ssh Memfs
begin

text \<open>
  What the SSH backend relies on of an SFTP server (locale \<open>sftp_fs\<close>, over the same view of a file
  tree as \<open>afero_fs\<close>), and what its loops do on one: replacing a file never loses the file it
  replaces, and a listing returns and is exactly the objects under the prefix, in order.
\<close>

section \<open>The laws\<close>

locale sftp_fs =
  fixes c :: "'w sftp"
    and view :: "'w \<Rightarrow> string \<rightharpoonup> node"
    and sane :: "'w \<Rightarrow> bool"
  assumes tree_closed: "sane w \<Longrightarrow> path_Clean p = p \<Longrightarrow> view w p \<noteq> Some DirNode \<Longrightarrow> key_ok k \<Longrightarrow>
      view w (path_Join p k) = None"
    and join: "sc_Join c base elem = path_Join base elem"
    and stat_frame: "sane w \<Longrightarrow> sc_Stat c p w = (st, w') \<Longrightarrow> view w' = view w \<and> sane w'"
    and stat_info: "sane w \<Longrightarrow> sc_Stat c p w = (Inr i, w') \<Longrightarrow> \<exists>nd. view w p = Some nd \<and> info_matches nd i"
    and stat_missing: "sane w \<Longrightarrow> sc_Stat c p w = (Inl e, w') \<Longrightarrow> errors_Is e ErrNotExist \<Longrightarrow> view w p = None"
    and readdir_frame: "sane w \<Longrightarrow> sc_ReadDir c p w = (rd, w') \<Longrightarrow> view w' = view w \<and> sane w'"
    and readdir_names: "sc_ReadDir c p w = (Inr es, w') \<Longrightarrow> en \<in> set es \<Longrightarrow> real_seg (fi_name en)"
    and readdir_distinct: "sane w \<Longrightarrow> sc_ReadDir c p w = (Inr es, w') \<Longrightarrow> distinct (map fi_name es)"
    and readdir_info: "sane w \<Longrightarrow> p \<noteq> '''' \<Longrightarrow> sc_ReadDir c p w = (Inr es, w') \<Longrightarrow> en \<in> set es \<Longrightarrow>
      \<exists>nd. view w (path_Join p (fi_name en)) = Some nd \<and> info_matches nd en"
    and readdir_all: "sane w \<Longrightarrow> p \<noteq> '''' \<Longrightarrow> sc_ReadDir c p w = (Inr es, w') \<Longrightarrow> real_seg n \<Longrightarrow>
      view w (path_Join p n) \<noteq> None \<Longrightarrow> n \<in> fi_name ` set es"
    and readdir_missing: "sane w \<Longrightarrow> sc_ReadDir c p w = (Inl e, w') \<Longrightarrow> errors_Is e ErrNotExist \<Longrightarrow> view w p = None"
    and random_frame: "sane w \<Longrightarrow> sc_random c w = (rn, w') \<Longrightarrow> view w' = view w \<and> sane w'"
    and random_fresh: "sane w \<Longrightarrow> sc_random c w = (Inr sfx, w') \<Longrightarrow>
      view w (path_Join (path_Dir p) (''.copy-'' @ sfx)) = None"
    and posix_inv: "sane w \<Longrightarrow> sc_PosixRename c s d w = (rn', w') \<Longrightarrow> sane w'"
    and posix_err: "sane w \<Longrightarrow> sc_PosixRename c s d w = (Inl e, w') \<Longrightarrow> view w' = view w"
    and posix_ok: "sane w \<Longrightarrow> view w s = Some (FileNode b) \<Longrightarrow> view w d \<noteq> Some DirNode \<Longrightarrow>
      sc_PosixRename c s d w = (Inr u, w') \<Longrightarrow> view w' = (view w)(s := None, d \<mapsto> FileNode b)"
    and rename_inv: "sane w \<Longrightarrow> sc_Rename c s d w = (rn', w') \<Longrightarrow> sane w'"
    and rename_err: "sane w \<Longrightarrow> sc_Rename c s d w = (Inl e, w') \<Longrightarrow> view w' = view w"
    and rename_some: "sane w \<Longrightarrow> sc_Rename c s d w = (Inr u, w') \<Longrightarrow> view w s \<noteq> None"
    and rename_ok: "sane w \<Longrightarrow> view w s = Some (FileNode b) \<Longrightarrow> view w d \<noteq> Some DirNode \<Longrightarrow>
      sc_Rename c s d w = (Inr u, w') \<Longrightarrow> view w' = (view w)(s := None, d \<mapsto> FileNode b)"
    and remove_inv: "sane w \<Longrightarrow> sc_Remove c p w = (rm, w') \<Longrightarrow> view w p \<noteq> Some DirNode \<Longrightarrow> sane w'"
    and remove_err: "sane w \<Longrightarrow> sc_Remove c p w = (Inl e, w') \<Longrightarrow> view w' = view w"
    and remove_missing: "sane w \<Longrightarrow> sc_Remove c p w = (Inl e, w') \<Longrightarrow> errors_Is e ErrNotExist \<Longrightarrow> view w p = None"
    and remove_ok: "sane w \<Longrightarrow> view w p \<noteq> Some DirNode \<Longrightarrow> sc_Remove c p w = (Inr u, w') \<Longrightarrow>
      view w' = (view w)(p := None)"
begin

lemma tempSibling_spec:
  assumes "sane w" "tempSibling c p w = (r, w')"
  shows "view w' = view w \<and> sane w' \<and> (\<forall>t. r = Inr t \<longrightarrow> view w t = None)"
proof -
  obtain rn w1 where R: "sc_random c w = (rn, w1)" by fastforce
  note fr = random_frame [OF assms(1) R]
  show ?thesis
  proof (cases rn)
    case (Inl e)
    with R assms(2) fr show ?thesis by (auto simp: tempSibling_def tryIO_apply)
  next
    case (Inr sfx)
    with R have "view w (path_Join (path_Dir p) (''.copy-'' @ sfx)) = None" using random_fresh [OF assms(1)] by simp
    with Inr R assms(2) fr show ?thesis by (auto simp: tempSibling_def tryIO_apply)
  qed
qed

lemma quiet_spec:
  assumes "sane w" "view w p = Some (FileNode b)" "ssh_removeQuietly c p w = (r, w')"
  shows "r = Inr () \<and> sane w' \<and> (view w' = view w \<or> view w' = (view w)(p := None))"
proof -
  obtain rm w1 where R: "sc_Remove c p w = (rm, w1)" by fastforce
  have "view w p \<noteq> Some DirNode" using assms(2) by simp
  with remove_inv [OF assms(1) R] remove_err [OF assms(1)] remove_ok [OF assms(1)] R assms(3)
  show ?thesis by (cases rm) (auto simp: ssh_removeQuietly_def tryIO_apply)
qed

text \<open>
  The cases of \<open>replaceFile\<close>. \<open>old\<close> is what stood at the destination; \<open>aside\<close> is the fresh
  name it is moved to on a server without posix-rename.
\<close>

lemma replaceFile_cases:
  assumes w: "sane w" and src: "view w src = Some (FileNode new)" and dst: "view w dst \<noteq> Some DirNode" "src \<noteq> dst"
    and R: "replaceFile c src dst w = (r, w')"
  shows "sane w' \<and> (case r of
      Inr _ \<Rightarrow> view w' dst = Some (FileNode new) \<and> view w' src = None \<and>
        (\<forall>q. q \<noteq> src \<longrightarrow> q \<noteq> dst \<longrightarrow> view w' q = view w q \<or> view w q = None)
    | Inl e \<Rightarrow> view w' = view w \<or>
        (\<exists>aside old. view w dst = Some (FileNode old) \<and> view w aside = None \<and>
           view w' = (view w)(dst := None, aside \<mapsto> FileNode old)))"
proof -
  obtain p w1 where P: "sc_PosixRename c src dst w = (p, w1)" by fastforce
  have w1: "sane w1" using posix_inv [OF w P] .
  show ?thesis
  proof (cases p)
    case (Inr u)
    with P R have "r = Inr ()" "w' = w1" by (auto simp: replaceFile_def tryIO_apply)
    moreover have "view w1 = (view w)(src := None, dst \<mapsto> FileNode new)"
      using posix_ok [OF w src dst(1)] P Inr by simp
    ultimately show ?thesis
      using w1 dst(2) by auto
  next
    case (Inl perr)
    have v1: "view w1 = view w" using posix_err [OF w] P Inl by simp
    obtain t w2 where T: "tempSibling c dst w1 = (t, w2)" by fastforce
    note ts = tempSibling_spec [OF w1 T]
    show ?thesis
    proof (cases t)
      case terr: (Inl e)
      with P Inl T R have "r = Inl e" "w' = w2" by (auto simp: replaceFile_def tryIO_apply bindIO_apply)
      with ts v1 show ?thesis by simp
    next
      case taside: (Inr aside)
      then have free: "view w aside = None" and w2: "sane w2" "view w2 = view w" using ts v1 by simp_all
      obtain m w3 where M: "sc_Rename c dst aside w2 = (m, w3)" by fastforce
      have w3: "sane w3" using rename_inv [OF w2(1) M] .
      show ?thesis
      proof (cases m)
        case merr: (Inl e)
        have v3: "view w3 = view w" using rename_err [OF w2(1)] M merr w2 by simp
        show ?thesis
        proof (cases "errors_Is e ErrNotExist")
          case False
          with P Inl T taside M merr R have "w' = w3" "\<exists>x. r = Inl x"
            by (auto simp: replaceFile_def tryIO_apply bindIO_apply)
          with v3 w3 show ?thesis by auto
        next
          case True
          with P Inl T taside M merr R have R2: "sc_Rename c src dst w3 = (r, w')"
            by (auto simp: replaceFile_def tryIO_apply bindIO_apply)
          have "sane w'" using rename_inv [OF w3 R2] .
          moreover have "view w' = (view w)(src := None, dst \<mapsto> FileNode new)" if "r = Inr u" for u
            using rename_ok [OF w3, of src new dst u w'] R2 that src dst(1) v3 by simp
          moreover have "view w' = view w" if "r = Inl x" for x
            using rename_err [OF w3, of src dst x w'] R2 that v3 by simp
          ultimately show ?thesis using dst(2) free by (cases r) auto
        qed
      next
        case moved: (Inr u)
        have "view w dst \<noteq> None" using rename_some [OF w2(1)] M moved w2(2) by simp
        then obtain old where old: "view w dst = Some (FileNode old)" using dst(1) by (cases "view w dst"; cases "the (view w dst)") auto
        have v3: "view w3 = (view w)(dst := None, aside \<mapsto> FileNode old)"
          using rename_ok [OF w2(1), of dst old aside u w3] M moved old free w2(2) by simp
        have ne: "aside \<noteq> src" "aside \<noteq> dst" using free src old by auto
        obtain m2 w4 where M2: "sc_Rename c src dst w3 = (m2, w4)" by fastforce
        have w4: "sane w4" using rename_inv [OF w3 M2] .
        show ?thesis
        proof (cases m2)
          case (Inr u2)
          have v4: "view w4 = (view w3)(src := None, dst \<mapsto> FileNode new)"
            using rename_ok [OF w3, of src new dst u2 w4] M2 Inr v3 src ne dst(2) by simp
          have a4: "view w4 aside = Some (FileNode old)" using v4 v3 ne by simp
          obtain q w5 where Q: "ssh_removeQuietly c aside w4 = (q, w5)" by fastforce
          note qs = quiet_spec [OF w4 a4 Q]
          from P Inl T taside M moved M2 Inr Q qs R have "r = Inr ()" "w' = w5"
            by (auto simp: replaceFile_def tryIO_apply bindIO_apply)
          with qs v4 v3 ne dst(2) free show ?thesis by auto
        next
          case m2err: (Inl e2)
          have v4: "view w4 = view w3" using rename_err [OF w3] M2 m2err by simp
          obtain b w5 where B: "sc_Rename c aside dst w4 = (b, w5)" by fastforce
          have w5: "sane w5" using rename_inv [OF w4 B] .
          from \<open>p = Inl perr\<close> P T taside M moved M2 m2err B R have res: "w' = w5" "\<exists>x. r = Inl x"
            by (auto simp: replaceFile_def tryIO_apply bindIO_apply split: sum.splits)
          show ?thesis
          proof (cases b)
            case (Inr u3)
            have "view w5 = (view w4)(aside := None, dst \<mapsto> FileNode old)"
              using rename_ok [OF w4, of aside old dst u3 w5] B Inr v4 v3 ne by simp
            then have "view w5 = view w" using v4 v3 old free ne by (auto simp: fun_eq_iff)
            with res w5 show ?thesis by auto
          next
            case (Inl e3)
            have "view w5 = view w4" using rename_err [OF w4] B Inl by simp
            with res w5 v4 v3 old free show ?thesis by auto
          qed
        qed
      qed
    qed
  qed
qed

end

section \<open>Listing\<close>

text \<open>The objects below a directory, by their keys, and a bound on the nesting of directories.\<close>

definition under_keys :: "(string \<rightharpoonup> node) \<Rightarrow> string \<Rightarrow> string set" where
  "under_keys v dir = {k. key_ok k \<and> (\<exists>b. v (path_Join dir k) = Some (FileNode b))}"

definition dir_deep :: "(string \<rightharpoonup> node) \<Rightarrow> string \<Rightarrow> nat \<Rightarrow> bool" where
  "dir_deep v dir n \<longleftrightarrow> (\<forall>k. key_ok k \<longrightarrow> v (path_Join dir k) = Some DirNode \<longrightarrow> length (path_segs k) \<le> n)"

definition lists :: "(string \<rightharpoonup> node) \<Rightarrow> string \<Rightarrow> string \<Rightarrow> string set \<Rightarrow> ObjectStat list \<Rightarrow> bool" where
  "lists v dir rel ks xs \<longleftrightarrow> Name ` set xs = path_Join rel ` ks \<and> distinct (map Name xs) \<and>
     (\<forall>x \<in> set xs. Exist x \<and> (\<exists>k b. key_ok k \<and> Name x = path_Join rel k \<and> v (path_Join dir k) = Some (FileNode b) \<and>
        Size x = int (length b)))"

definition first_seg :: "string \<Rightarrow> string" where
  "first_seg k = hd (path_segs k)"

lemma key_cases:
  assumes "key_ok k"
  obtains "real_seg k" "first_seg k = k"
  | k' n where "real_seg n" "key_ok k'" "k = path_Join n k'" "first_seg k = n"
proof (cases "path_segs k")
  case Nil
  then show ?thesis using key_okD(3) [OF assms] by simp
next
  case (Cons s ss)
  show ?thesis
  proof (cases ss)
    case Nil
    with key_one_seg [OF assms] Cons show ?thesis by (intro that(1)) (auto simp: first_seg_def)
  next
    case (Cons t rest)
    with \<open>path_segs k = s # ss\<close> have k: "path_segs k = s # t # rest" by simp
    with assms obtain k' where "key_ok k'" "real_seg s" "k = path_Join s k'" by (rule key_first_rest)
    with k show ?thesis by (intro that(2) [of s k']) (auto simp: first_seg_def)
  qed
qed

lemma first_seg_Join: "real_seg n \<Longrightarrow> key_ok k \<Longrightarrow> first_seg (path_Join n k) = n"
  using real_seg_single [of n] by (simp add: first_seg_def path_segs_Join key_okD)

lemma join_key: "real_seg n \<Longrightarrow> key_ok k \<Longrightarrow> key_ok (path_Join n k)"
  using real_seg_single [of n] by (intro path_Join_key_ok) simp_all

lemma join_assoc: "real_seg n \<Longrightarrow> key_ok k \<Longrightarrow> path_Join (path_Join base n) k = path_Join base (path_Join n k)"
  using path_Join_assoc [of k n base] real_seg_single [of n] by simp

lemma lists_append:
  assumes "lists v dir rel A xs" "lists v dir rel B ys" "A \<inter> B = {}" "\<forall>k \<in> A \<union> B. key_ok k"
  shows "lists v dir rel (A \<union> B) (xs @ ys)"
proof -
  have "path_Join rel ` A \<inter> path_Join rel ` B = {}"
    using assms(3,4) path_Join_inj [of _ _ rel] by blast
  with assms(1,2) show ?thesis by (auto simp: lists_def)
qed

lemma lists_sub:
  assumes "real_seg n" "lists v (path_Join dir n) (path_Join rel n) (under_keys v (path_Join dir n)) xs"
  shows "lists v dir rel (path_Join n ` under_keys v (path_Join dir n)) xs"
proof -
  have "path_Join (path_Join rel n) ` under_keys v (path_Join dir n) =
      path_Join rel ` path_Join n ` under_keys v (path_Join dir n)"
    using join_assoc [OF assms(1)] by (auto simp: under_keys_def image_image intro!: image_cong)
  moreover have "\<exists>l b. key_ok l \<and> path_Join (path_Join rel n) k = path_Join rel l \<and> v (path_Join dir l) = Some (FileNode b) \<and>
      s = int (length b)"
    if "key_ok k" "v (path_Join (path_Join dir n) k) = Some (FileNode b)" "s = int (length b)" for k b s
    using that assms(1) join_key [of n k] join_assoc [of n k]
    by (intro exI [of _ "path_Join n k"] exI [of _ b]) simp
  ultimately show ?thesis using assms(2) unfolding lists_def by metis
qed

context sftp_fs
begin

text \<open>The keys whose first segment is one entry: the entry itself, or what lies below it.\<close>

lemma keys_of_file:
  assumes "sane w" "real_seg n" "view w (path_Join dir n) = Some (FileNode b)"
  shows "{k \<in> under_keys (view w) dir. first_seg k = n} = {n}"
proof -
  have cl: "path_Clean (path_Join dir n) = path_Join dir n" using real_seg_key [OF assms(2)] by (simp add: key_okD)
  have "k = n" if k: "key_ok k" "\<exists>b. view w (path_Join dir k) = Some (FileNode b)" "first_seg k = n" for k
    using k(1)
  proof (cases rule: key_cases)
    case (2 k' m)
    then have "view w (path_Join (path_Join dir n) k') = None"
      using tree_closed [OF assms(1) cl] assms(3) k(3) by simp
    with 2 k join_assoc [of n k' dir] assms(2) show ?thesis by simp
  qed (use k in simp)
  moreover have "first_seg n = n" using real_seg_single [OF assms(2)] by (simp add: first_seg_def)
  ultimately show ?thesis using assms(2,3) real_seg_key by (auto simp: under_keys_def)
qed

lemma keys_of_dir:
  assumes "real_seg n" "view w (path_Join dir n) = Some DirNode"
  shows "{k \<in> under_keys (view w) dir. first_seg k = n} = path_Join n ` under_keys (view w) (path_Join dir n)"
proof (intro set_eqI iffI)
  fix k assume "k \<in> {k \<in> under_keys (view w) dir. first_seg k = n}"
  then have k: "key_ok k" "\<exists>b. view w (path_Join dir k) = Some (FileNode b)" "first_seg k = n"
    by (simp_all add: under_keys_def)
  from k(1) show "k \<in> path_Join n ` under_keys (view w) (path_Join dir n)"
  proof (cases rule: key_cases)
    case 1
    with k assms(2) show ?thesis by simp
  next
    case (2 k' m)
    with k join_assoc [of n k' dir] assms(1) show ?thesis by (auto simp: under_keys_def)
  qed
next
  fix k assume "k \<in> path_Join n ` under_keys (view w) (path_Join dir n)"
  then show "k \<in> {k \<in> under_keys (view w) dir. first_seg k = n}"
    using assms(1) join_key first_seg_Join join_assoc by (auto simp: under_keys_def)
qed

definition listed_ok ::
  "'w \<Rightarrow> string \<Rightarrow> string \<Rightarrow> string set \<Rightarrow> ObjectStat list \<Rightarrow> ((error + ObjectStat list) \<times> 'w) option \<Rightarrow> bool" where
  "listed_ok w dir rel ks res r \<longleftrightarrow> (\<exists>x w'. r = Some (x, w') \<and> view w' = view w \<and> sane w' \<and>
     (\<forall>out. x = Inr out \<longrightarrow> (\<exists>new. out = res @ new \<and> lists (view w) dir rel ks new)))"

lemma listed_append:
  assumes "lists (view w) dir rel A new1" "listed_ok w dir rel B (res @ new1) r"
    "A \<inter> B = {}" "\<forall>k \<in> A \<union> B. key_ok k"
  shows "listed_ok w dir rel (A \<union> B) res r"
  using assms lists_append [OF assms(1) _ assms(3,4)] unfolding listed_ok_def by (metis append.assoc)

lemma list_entries_ok:
  assumes w: "sane w"
    and rec: "\<And>n res' v. real_seg n \<Longrightarrow> sane v \<Longrightarrow> view v = view w \<Longrightarrow> view w (path_Join dir n) = Some DirNode \<Longrightarrow>
      listed_ok v (path_Join dir n) (path_Join rel n) (under_keys (view w) (path_Join dir n)) res'
        (rec (path_Join dir n) (path_Join rel n) res' v)"
    and es: "distinct (map fi_name es)"
      "\<forall>e \<in> set es. real_seg (fi_name e) \<and> (\<exists>nd. view w (path_Join dir (fi_name e)) = Some nd \<and> info_matches nd e)"
  shows "listed_ok w dir rel {k \<in> under_keys (view w) dir. first_seg k \<in> fi_name ` set es} res
    (list_entries rec c dir rel es res w)"
  using assms
proof (induction es arbitrary: res w)
  case Nil
  then show ?case by (simp add: listed_ok_def lists_def)
next
  case (Cons e es)
  let ?n = "fi_name e"
  let ?K = "\<lambda>ns. {k \<in> under_keys (view w) dir. first_seg k \<in> ns}"
  obtain nd where n: "real_seg ?n" and nd: "view w (path_Join dir ?n) = Some nd" "info_matches nd e"
    using Cons.prems(4) by auto
  have split: "?K (fi_name ` set (e # es)) = ?K {?n} \<union> ?K (fi_name ` set es)" by auto
  have disj: "?K {?n} \<inter> ?K (fi_name ` set es) = {}" using Cons.prems(3) by (auto simp: image_iff)
  have oks: "\<forall>k \<in> ?K {?n} \<union> ?K (fi_name ` set es). key_ok k" by (auto simp: under_keys_def)
  have IH: "listed_ok w dir rel (?K (fi_name ` set es)) res' (list_entries rec c dir rel es res' v)"
    if "sane v" "view v = view w" for res' v
    using Cons.IH [of v res'] Cons.prems that by (simp add: listed_ok_def)
  show ?case
  proof (cases nd)
    case DirNode
    then have d: "view w (path_Join dir ?n) = Some DirNode" and isdir: "fi_isdir e" using nd by simp_all
    obtain x v' where r: "rec (path_Join dir ?n) (path_Join rel ?n) res w = Some (x, v')" "view v' = view w" "sane v'"
      and out: "\<forall>o'. x = Inr o' \<longrightarrow> (\<exists>new. o' = res @ new \<and>
        lists (view w) (path_Join dir ?n) (path_Join rel ?n) (under_keys (view w) (path_Join dir ?n)) new)"
      using Cons.prems(2) [OF n Cons.prems(1) refl d, of res] unfolding listed_ok_def by blast
    show ?thesis
    proof (cases x)
      case (Inl err)
      with r isdir show ?thesis by (simp add: join Let_def listed_ok_def)
    next
      case (Inr res')
      with out obtain new1 where new1: "res' = res @ new1" "lists (view w) dir rel (?K {?n}) new1"
        using lists_sub [OF n, of "view w" dir rel] keys_of_dir [OF n d] by auto
      from listed_append [OF new1(2) IH [OF r(3,2)] disj oks] new1(1) r Inr isdir split
      show ?thesis by (simp add: join Let_def)
    qed
  next
    case (FileNode b)
    then have b: "view w (path_Join dir ?n) = Some (FileNode b)" "fi_size e = int (length b)" "\<not> fi_isdir e"
      using nd by simp_all
    let ?x = "\<lparr>Name = path_Join rel ?n, LastModified = fi_modtime e, Exist = True, Size = fi_size e, ETag = ''''\<rparr>"
    have x: "lists (view w) dir rel (?K {?n}) [?x]"
      using keys_of_file [OF Cons.prems(1) n b(1)] b n real_seg_key [OF n] by (auto simp: lists_def)
    from listed_append [OF x IH [OF Cons.prems(1) refl] disj oks] b(3) split
    show ?thesis by (simp add: Let_def)
  qed
qed

lemma listUnder_ok:
  assumes "sane w" "dir \<noteq> ''''" "path_Clean dir = dir" "dir_deep (view w) dir m"
  shows "listed_ok w dir rel (under_keys (view w) dir) res (listUnder (Suc m) ctx c dir rel res w)"
  using assms
proof (induction m arbitrary: dir rel res w rule: less_induct)
  case (less m)
  show ?case
  proof (cases "ctx w")
    case (Some e)
    with less.prems show ?thesis by (simp add: listed_ok_def)
  next
    case None
    obtain rd w1 where R: "sc_ReadDir c dir w = (rd, w1)" by fastforce
    note fr = readdir_frame [OF less.prems(1) R]
    show ?thesis
    proof (cases rd)
      case (Inl e)
      have "under_keys (view w) dir = {}" if "errors_Is e ErrNotExist"
        using tree_closed [OF less.prems(1,3)] readdir_missing [OF less.prems(1), of dir e w1] R Inl that
        by (auto simp: under_keys_def)
      with Inl R None fr show ?thesis by (auto simp: listed_ok_def lists_def)
    next
      case (Inr es)
      then have R': "sc_ReadDir c dir w = (Inr es, w1)" using R by simp
      have w1: "sane w1" "view w1 = view w" using fr by simp_all
      have all: "{k \<in> under_keys (view w) dir. first_seg k \<in> fi_name ` set es} = under_keys (view w) dir"
      proof -
        have "first_seg k \<in> fi_name ` set es" if k: "key_ok k" "view w (path_Join dir k) \<noteq> None" for k
          using k(1)
        proof (cases rule: key_cases)
          case 1
          with readdir_all [OF less.prems(1,2) R'] k show ?thesis by simp
        next
          case (2 k' n)
          have cl: "path_Clean (path_Join dir n) = path_Join dir n" using real_seg_key [OF 2(1)] by (simp add: key_okD)
          have "view w (path_Join (path_Join dir n) k') \<noteq> None" using 2 k join_assoc [of n k' dir] by simp
          then have "view w (path_Join dir n) = Some DirNode" 
            by (rule contrapos_np) (rule tree_closed [OF less.prems(1) cl _ 2(2)])
          with readdir_all [OF less.prems(1,2) R' 2(1)] 2(4) show ?thesis by simp
        qed
        then show ?thesis by (auto simp: under_keys_def)
      qed
      have "listed_ok v (path_Join dir n) (path_Join rel' n) (under_keys (view w1) (path_Join dir n)) res'
          (listUnder m ctx c (path_Join dir n) (path_Join rel' n) res' v)"
        if n: "real_seg n" and v: "sane v" "view v = view w1" and d: "view w1 (path_Join dir n) = Some DirNode"
        for n res' v rel'
      proof -
        have nk: "key_ok n" "path_segs n = [n]" using real_seg_key [OF n] real_seg_single [OF n] by simp_all
        then have m: "0 < m" using less.prems(4) d w1 by (fastforce simp: dir_deep_def)
        have "length (path_segs k) \<le> m - 1"
          if "key_ok k" "view w (path_Join (path_Join dir n) k) = Some DirNode" for k
        proof -
          have "length (path_segs (path_Join n k)) \<le> m"
            using less.prems(4) that join_assoc [OF n that(1), of dir] join_key [OF n that(1)] by (simp add: dir_deep_def)
          then show ?thesis using nk that(1) real_seg_single [OF n] by (simp add: path_segs_Join key_okD)
        qed
        then have "dir_deep (view v) (path_Join dir n) (m - 1)" using v w1 by (simp add: dir_deep_def)
        moreover have "path_Clean (path_Join dir n) = path_Join dir n" using nk by (simp add: key_okD)
        ultimately have "listed_ok v (path_Join dir n) (path_Join rel' n) (under_keys (view v) (path_Join dir n)) res'
            (listUnder (Suc (m - 1)) ctx c (path_Join dir n) (path_Join rel' n) res' v)"
          using less.prems(2) m v by (intro less.IH) simp_all
        with m v show ?thesis by simp
      qed
      then have "listed_ok w1 dir rel {k \<in> under_keys (view w1) dir. first_seg k \<in> fi_name ` set es} res
          (list_entries (listUnder m ctx c) c dir rel es res w1)"
        using readdir_distinct [OF less.prems(1) R'] readdir_names [OF R'] readdir_info [OF less.prems(1,2) R'] w1
        by (intro list_entries_ok) auto
      with all w1 None R' show ?thesis by (simp add: listed_ok_def)
    qed
  qed
qed

end


section \<open>The sorted listing\<close>

lemma sort_stats_lists:
  assumes "lists v dir rel ks xs"
  shows "lists v dir rel ks (sort_stats xs) \<and> sorted_wrt (<) (map Name (sort_stats xs))"
proof -
  have "sorted (map Name (sort_stats xs))" and m: "mset (sort_stats xs) = mset xs"
    by (simp_all add: sort_stats_def)
  moreover have "distinct (map Name (sort_stats xs))"
    using assms m by (metis lists_def mset_eq_imp_distinct_iff mset_map)
  ultimately show ?thesis
    using assms mset_eq_setD [OF m] by (simp add: lists_def strict_sorted_iff)
qed

context sftp_fs
begin

lemma ssh_List_spec:
  assumes w: "sane w" and client: "client ctx w = (Inr c, w)"
    and root: "path_Join (sh_cwd s) prefix \<noteq> ''''" "dir_deep (view w) (path_Join (sh_cwd s) prefix) m"
  shows "\<exists>r w'. ssh_List (Suc m) client s ctx prefix w = Some (r, w') \<and> view w' = view w \<and>
    (\<forall>os. r = Inr os \<longrightarrow> sorted_wrt (<) (map Name os) \<and>
       Name ` set os = under_keys (view w) (path_Join (sh_cwd s) prefix) \<and>
       (\<forall>x \<in> set os. \<exists>b. view w (path_Join (path_Join (sh_cwd s) prefix) (Name x)) = Some (FileNode b) \<and>
          Size x = int (length b)))"
proof -
  let ?root = "path_Join (sh_cwd s) prefix"
  have cl: "path_Clean ?root = ?root" using root(1) by (auto simp: path_Join_def)
  have same: "path_Join '''' k = k" if "key_ok k" for k using that by (simp add: path_Join_Nil_left key_okD)
  have none: "under_keys (view w) ?root = {}" if "view w ?root \<noteq> Some DirNode"
    using tree_closed [OF w cl that] by (auto simp: under_keys_def)
  obtain st w1 where S: "sc_Stat c ?root w = (st, w1)" by fastforce
  have w1: "sane w1" "view w1 = view w" using stat_frame [OF w S] by simp_all
  show ?thesis
  proof (cases st)
    case (Inl e)
    then show ?thesis
      using S client w1 stat_missing [OF w, of ?root e w1] none by (auto simp: ssh_List_def Let_def)
  next
    case (Inr i)
    then obtain nd where nd: "view w ?root = Some nd" "info_matches nd i" using stat_info [OF w] S by blast
    show ?thesis
    proof (cases nd)
      case (FileNode b)
      then show ?thesis using S client w1 Inr nd none by (auto simp: ssh_List_def Let_def)
    next
      case DirNode
      have "dir_deep (view w1) ?root m" using root(2) w1 by simp
      from listUnder_ok [OF w1(1) root(1) cl this, of "''''" "[]" ctx]
      obtain x w2 where L: "listUnder (Suc m) ctx c ?root '''' [] w1 = Some (x, w2)" "view w2 = view w"
        and out: "\<And>os. x = Inr os \<Longrightarrow> lists (view w) ?root '''' (under_keys (view w) ?root) os"
        using w1(2) unfolding listed_ok_def by auto
      show ?thesis
      proof (cases x)
        case err: (Inl e)
        then show ?thesis using S client Inr nd DirNode L by (simp add: ssh_List_def Let_def del: listUnder.simps)
      next
        case ok: (Inr os)
        from sort_stats_lists [OF out [OF ok]]
        have l: "lists (view w) ?root '''' (under_keys (view w) ?root) (sort_stats os)"
          and sorted: "sorted_wrt (<) (map Name (sort_stats os))" by simp_all
        have "path_Join '''' ` under_keys (view w) ?root = under_keys (view w) ?root"
          using same by (force simp: under_keys_def)
        with l same have names: "Name ` set (sort_stats os) = under_keys (view w) ?root"
          "\<forall>x \<in> set (sort_stats os). \<exists>b. view w (path_Join ?root (Name x)) = Some (FileNode b) \<and> Size x = int (length b)"
          by (auto simp: lists_def)
        have "ssh_List (Suc m) client s ctx prefix w = Some (Inr (sort_stats os), w2)"
          using S client Inr nd DirNode L ok by (simp add: ssh_List_def Let_def del: listUnder.simps)
        with sorted names L(2) show ?thesis by auto
      qed
    qed
  qed
qed

end

end
