(* ===== verification/Ssh_Effects.thy ===== *)
theory Ssh_Effects
  imports Ssh_Laws
begin

text \<open>
  What the operations of the SSH backend that write and delete leave on a server (locale
  \<open>sftp_store\<close>, \<open>sftp_fs\<close> with the calls that open, create, write and make or remove
  directories). A put or copy that succeeds holds the whole content at its destination and changes no
  other file; one that fails loses no content. \<open>Delete\<close> removes all or nothing but for the failures of
  its removals, and \<open>DeleteAll\<close> returns and removes exactly a subtree.
\<close>

section \<open>The laws of a server that is written to\<close>

locale sftp_store = sftp_fs c view sane
  for c :: "'w sftp" and view :: "'w \<Rightarrow> string \<rightharpoonup> node" and sane :: "'w \<Rightarrow> bool" +
  fixes client :: "'w lazy_client"
  assumes client_frame: "sane w \<Longrightarrow> client ctx w = (cl, w') \<Longrightarrow> view w' = view w \<and> sane w'"
    and client_same: "client ctx w = (Inr c', w') \<Longrightarrow> c' = c"
    and random_name: "sc_random c w = (Inr sfx, w') \<Longrightarrow> CHR ''/'' \<notin> set sfx"
    and open_frame: "sane w \<Longrightarrow> sc_Open c p w = (op, w') \<Longrightarrow> view w' = view w \<and> sane w'"
    and open_prefix: "sane w \<Longrightarrow> sc_Open c p w = (Inr fl, w') \<Longrightarrow> view w p = Some (FileNode b) \<Longrightarrow>
      \<exists>rest. b = rd_bytes (file_reader fl) @ rest \<and> (rd_end (file_reader fl) = None \<longrightarrow> rest = [])"
    and mkdir_inv: "sane w \<Longrightarrow> sc_MkdirAll c p w = (mk, w') \<Longrightarrow> sane w'"
    and mkdir_effect: "sane w \<Longrightarrow> sc_MkdirAll c p w = (mk, w') \<Longrightarrow>
      view w' q = view w q \<or> view w q = None \<and> view w' q = Some DirNode \<and> ancestor q p"
    and create_inv: "sane w \<Longrightarrow> view w p = None \<Longrightarrow> sc_Create c p w = (cr, w') \<Longrightarrow> sane w'"
    and create_err: "sane w \<Longrightarrow> view w p = None \<Longrightarrow> sc_Create c p w = (Inl e, w') \<Longrightarrow> view w' = view w"
    and create_ok: "sane w \<Longrightarrow> view w p = None \<Longrightarrow> sc_Create c p w = (Inr t, w') \<Longrightarrow>
      t = p \<and> view w' = (view w)(p \<mapsto> FileNode [])"
    and write_inv: "sane w \<Longrightarrow> view w t = Some (FileNode b) \<Longrightarrow> sc_Write c t d w = (wr, w') \<Longrightarrow> sane w'"
    and write_ok: "sane w \<Longrightarrow> view w t = Some (FileNode b) \<Longrightarrow> sc_Write c t d w = (Inr u, w') \<Longrightarrow>
      view w' = (view w)(t \<mapsto> FileNode (b @ d))"
    and write_err: "sane w \<Longrightarrow> view w t = Some (FileNode b) \<Longrightarrow> sc_Write c t d w = (Inl e, w') \<Longrightarrow>
      \<exists>b'. view w' = (view w)(t \<mapsto> FileNode b')"
    and close_frame: "sane w \<Longrightarrow> sc_CloseFile c t w = (cs, w') \<Longrightarrow> view w' = view w \<and> sane w'"
    and rmdir_inv: "sane w \<Longrightarrow> sc_RemoveDirectory c p w = (rd, w') \<Longrightarrow> sane w'"
    and rmdir_err: "sane w \<Longrightarrow> sc_RemoveDirectory c p w = (Inl e, w') \<Longrightarrow> view w' = view w"
    and rmdir_missing: "sane w \<Longrightarrow> sc_RemoveDirectory c p w = (Inl e, w') \<Longrightarrow> errors_Is e ErrNotExist \<Longrightarrow>
      view w p = None"
    and rmdir_ok: "sane w \<Longrightarrow> view w p = Some DirNode \<Longrightarrow> sc_RemoveDirectory c p w = (Inr u, w') \<Longrightarrow>
      view w' = (view w)(p := None)"

section \<open>Installing a file\<close>

text \<open>
  \<open>only_new\<close>: what existed is as it was but for \<open>dst\<close>. \<open>not_lost\<close>: what stood at \<open>dst\<close> still
  does, or stands under a name that was free.
\<close>

definition only_new :: "(string \<rightharpoonup> node) \<Rightarrow> string \<Rightarrow> (string \<rightharpoonup> node) \<Rightarrow> bool" where
  "only_new v dst v' \<longleftrightarrow> (\<forall>q. q \<noteq> dst \<longrightarrow> v q \<noteq> None \<longrightarrow> v' q = v q)"

definition not_lost :: "(string \<rightharpoonup> node) \<Rightarrow> string \<Rightarrow> (string \<rightharpoonup> node) \<Rightarrow> bool" where
  "not_lost v dst v' \<longleftrightarrow> v' dst = v dst \<or>
     (\<exists>aside nd. v dst = Some nd \<and> v' dst = None \<and> v aside = None \<and> v' aside = Some nd)"

fun installed :: "(string \<rightharpoonup> node) \<Rightarrow> string \<Rightarrow> bytes \<Rightarrow> error + 'a \<Rightarrow> (string \<rightharpoonup> node) \<Rightarrow> bool" where
  "installed v dst b (Inr x) v' \<longleftrightarrow> only_new v dst v' \<and> v' dst = Some (FileNode b)"
| "installed v dst b (Inl e) v' \<longleftrightarrow> only_new v dst v' \<and> not_lost v dst v'"

text \<open>Names that appear before the installation do not matter.\<close>

lemma installed_mono:
  assumes "v \<subseteq>\<^sub>m v1" "v1 dst = v dst" "installed v1 dst b r v'"
  shows "installed v dst b r v'"
proof -
  have eq: "v1 q = v q" if "v q \<noteq> None" for q using assms(1) that by (metis domIff map_le_def)
  have "only_new v dst v'" if "only_new v1 dst v'" using that eq by (auto simp: only_new_def)
  moreover have "not_lost v dst v'" if "not_lost v1 dst v'"
    using that assms(2) eq by (metis not_lost_def)
  ultimately show ?thesis using assms(3) by (cases r) auto
qed

lemma installed_refl [simp]: "installed v dst b (Inl e) v"
  by (simp add: only_new_def not_lost_def)

lemma untouched: "v \<subseteq>\<^sub>m v' \<Longrightarrow> v' dst = v dst \<Longrightarrow> installed v dst b (Inl e) v'"
  by (metis domIff installed.simps(2) map_le_def not_lost_def only_new_def)

text \<open>Whether the temporary file \<open>t\<close>, under a name that was free, is left behind or removed.\<close>

lemma installed_drop:
  assumes "installed (v(t \<mapsto> nd)) dst b (Inl e) v1" "v t = None" "t \<noteq> dst" "v' = v1 \<or> v' = v1(t := None)"
  shows "installed v dst b (Inl e') v'"
proof -
  have "only_new v dst v'" using assms by (auto simp: only_new_def)
  moreover have "not_lost v dst v'"
  proof (cases "v1 dst = v dst")
    case True
    then show ?thesis using assms(3,4) by (auto simp: not_lost_def)
  next
    case False
    then obtain aside old where "v dst = Some old" "v1 dst = None" "aside \<noteq> t" "v aside = None" "v1 aside = Some old"
      using assms(1,3) by (auto simp: not_lost_def split: if_splits)
    then show ?thesis using assms(3,4) by (auto simp: not_lost_def)
  qed
  ultimately show ?thesis by simp
qed

context sftp_store
begin

lemma ssh_io_Copy_spec:
  assumes "sane w" "view w t = Some (FileNode b)" "ssh_io_Copy c rctx wctx t cs fin n w = (r, w')"
  shows "sane w' \<and> (\<exists>b'. view w' = (view w)(t \<mapsto> FileNode b')) \<and>
    (\<forall>m. r = Inr m \<longrightarrow> fin = None \<and> m = n + length (concat cs) \<and>
       view w' = (view w)(t \<mapsto> FileNode (b @ concat cs)))"
  using assms
proof (induction cs arbitrary: n w b)
  case Nil
  have "view w = (view w)(t \<mapsto> FileNode b)" using Nil.prems(2) by auto
  moreover have "w' = w" "\<forall>m. r = Inr m \<longrightarrow> fin = None \<and> m = n"
    using Nil.prems(3) by (auto split: option.splits)
  ultimately show ?case using Nil.prems(1) by (intro conjI exI [of _ b]) simp_all
next
  case (Cons d cs)
  have same: "view w = (view w)(t \<mapsto> FileNode b)" using Cons.prems(2) by auto
  obtain wr w1 where W: "sc_Write c t d w = (wr, w1)" by fastforce
  consider (stop) e where "w' = w" "r = Inl e"
    | (skip) "d = []" "ssh_io_Copy c rctx wctx t cs fin n w = (r, w')"
    | (fail) e where "wr = Inl e" "w' = w1" "r = Inl e"
    | (go) u where "wr = Inr u" "ssh_io_Copy c rctx wctx t cs fin (n + length d) w1 = (r, w')"
    using Cons.prems(3) W by (auto split: option.splits if_splits sum.splits)
  then show ?case
  proof cases
    case stop
    then show ?thesis using Cons.prems(1) same by (intro conjI exI [of _ b]) simp_all
  next
    case skip
    then show ?thesis using Cons.IH [OF Cons.prems(1,2) skip(2)] by simp
  next
    case fail
    then show ?thesis
      using write_inv [OF Cons.prems(1,2) W] write_err [OF Cons.prems(1,2)] W by blast
  next
    case go
    then have v1: "view w1 = (view w)(t \<mapsto> FileNode (b @ d))"
      using write_ok [OF Cons.prems(1,2)] W by blast
    then have "view w1 t = Some (FileNode (b @ d))" by simp
    note IH = Cons.IH [OF write_inv [OF Cons.prems(1,2) W] this go(2)]
    then obtain b' where "view w' = (view w)(t \<mapsto> FileNode b')" by (auto simp only: v1 fun_upd_upd)
    moreover have "view w' = (view w)(t \<mapsto> FileNode (b @ concat (d # cs)))" if "r = Inr m" for m
      using IH that by (simp only: v1 fun_upd_upd concat.simps append_assoc)
    ultimately show ?thesis using IH by (intro conjI exI [of _ b']) auto
  qed
qed

text \<open>
  From the file \<open>t\<close>, created under a name that was free, to its destination. \<open>v\<close> is the tree
  before it was created.
\<close>

lemma fill_spec:
  assumes w: "sane w" and v: "view w = v(t \<mapsto> FileNode [])" "v t = None" "v dst \<noteq> Some DirNode" "t \<noteq> dst"
    and F: "fillAndReplace ctx c rctx t src dst w = (r, w')"
  shows "sane w'"
    and "r = Inr n \<Longrightarrow> installed v dst (rd_bytes src) r (view w') \<and> rd_end src = None \<and> n = length (rd_bytes src)"
    and "r = Inl e \<Longrightarrow> \<exists>b'. installed (v(t \<mapsto> FileNode b')) dst (rd_bytes src) r (view w') \<and>
      view w' t = Some (FileNode b')"
proof -
  have t0: "view w t = Some (FileNode [])" using v by simp
  obtain cp w1 where C: "ssh_io_Copy c rctx ctx t (rd_chunks src) (rd_end src) 0 w = (cp, w1)" by fastforce
  obtain cl w2 where L: "sc_CloseFile c t w1 = (cl, w2)" by fastforce
  note spec = ssh_io_Copy_spec [OF w t0 C]
  then have w1: "sane w1" by simp
  note w2 = close_frame [OF w1 L]
  obtain b' where b': "view w2 = v(t \<mapsto> FileNode b')" using spec w2 v by auto
  consider (fail) e where "r = Inl e" "w' = w2"
    | (move) n rr where "cp = Inr n" "replaceFile c t dst w2 = (rr, w')"
        "r = (case rr of Inl e \<Rightarrow> Inl (Errorf ''move copy into place'' [e]) | Inr u \<Rightarrow> Inr n)"
    using F C L by (auto simp: fillAndReplace_def tryIO_apply split: sum.splits prod.splits)
  then have "sane w' \<and>
     (\<forall>n. r = Inr n \<longrightarrow> installed v dst (rd_bytes src) r (view w') \<and> rd_end src = None \<and> n = length (rd_bytes src)) \<and>
     (\<forall>e. r = Inl e \<longrightarrow> (\<exists>b'. installed (v(t \<mapsto> FileNode b')) dst (rd_bytes src) r (view w') \<and>
       view w' t = Some (FileNode b')))"
  proof cases
    case fail
    have inst: "installed (v(t \<mapsto> FileNode b')) dst (rd_bytes src) r (view w')"
      unfolding fail b' by (rule installed_refl)
    have "view w' t = Some (FileNode b')" by (simp add: fail b')
    with inst w2 fail show ?thesis by (auto simp del: installed.simps)
  next
    case (move n rr)
    have n: "rd_end src = None" "n = length (rd_bytes src)" and new: "view w2 t = Some (FileNode (rd_bytes src))"
      using spec move(1) w2 by (simp_all add: rd_bytes_def)
    with b' have v2: "view w2 = v(t \<mapsto> FileNode (rd_bytes src))" by simp
    have "view w2 dst \<noteq> Some DirNode" using v(3,4) v2 by simp
    note R = replaceFile_cases [OF conjunct2 [OF w2] new this v(4) move(2)]
    show ?thesis
    proof (cases rr)
      case (Inr u)
      have "only_new v dst (view w')" using R Inr v v2 by (auto simp: only_new_def) (metis option.distinct(1))
      then show ?thesis using R Inr n move(3) by simp
    next
      case (Inl e)
      then show ?thesis using R move(3) v v2
        by (intro conjI impI allI exI [of _ "rd_bytes src"]) (auto simp: only_new_def not_lost_def split: if_splits)
    qed
  qed
  then show "sane w'"
    and "r = Inr n \<Longrightarrow> installed v dst (rd_bytes src) r (view w') \<and> rd_end src = None \<and> n = length (rd_bytes src)"
    and "r = Inl e \<Longrightarrow> \<exists>b'. installed (v(t \<mapsto> FileNode b')) dst (rd_bytes src) r (view w') \<and>
      view w' t = Some (FileNode b')"
    by blast+
qed

end

text \<open>What puts and copies share: a fresh name, the file, its content, its place.\<close>

definition through_temp ::
  "'w sftp \<Rightarrow> 'w ctx \<Rightarrow> ('w \<Rightarrow> error option) \<Rightarrow> reader \<Rightarrow> string \<Rightarrow> (error \<Rightarrow> error) \<Rightarrow> (nat \<Rightarrow> 'a) \<Rightarrow> ('w, 'a) io" where
  "through_temp c ctx rctx src dst wrap f =
     bindIO (tempSibling c dst) (\<lambda>tmpFull.
       tryIO (sc_Create c tmpFull) (\<lambda>r. case r of
           Inl err \<Rightarrow> throw (Errorf ''create file'' [err])
         | Inr tmp \<Rightarrow>
             tryIO (fillAndReplace ctx c rctx tmp src dst) (\<lambda>r. case r of
                 Inl err \<Rightarrow> bindIO (ssh_removeQuietly c tmpFull) (\<lambda>_. throw (wrap err))
               | Inr n \<Rightarrow> ret (f n))))"

context sftp_store
begin

lemma temp_other:
  assumes "sane w" and T: "tempSibling c p w = (Inr t, w1)"
    and p: "p = path_Join base k" "key_ok k" "\<not> HasPrefix (last (path_segs k)) ''.copy-''"
  shows "t \<noteq> p"
proof
  assume eq: "t = p"
  obtain sfx where R: "sc_random c w = (Inr sfx, w1)" and t: "t = path_Join (path_Dir p) (''.copy-'' @ sfx)"
    using T by (cases "fst (sc_random c w)"; cases "sc_random c w") (auto simp: tempSibling_def tryIO_apply)
  have real: "real_seg (''.copy-'' @ sfx)" using random_name [OF R] by (simp add: real_seg_def)
  then have "path_segs t = path_segs (path_Dir p) @ [''.copy-'' @ sfx]" unfolding t by (rule real_seg_Join)
  moreover have "path_segs p = path_segs base @ path_segs k" using p by (simp add: path_segs_Join key_okD)
  ultimately have "last (path_segs k) = ''.copy-'' @ sfx"
    using eq key_okD(3) [OF p(2)] by (metis last_appendR last_snoc)
  then show False using p(3) by (simp add: HasPrefix_def)
qed

lemma through_temp_spec:
  assumes w: "sane w" and nd: "view w dst \<noteq> Some DirNode"
    and dst: "dst = path_Join base k" "key_ok k" "\<not> HasPrefix (last (path_segs k)) ''.copy-''"
    and T: "through_temp c ctx rctx src dst wrap f w = (r, w')"
  shows "sane w' \<and> installed (view w) dst (rd_bytes src) r (view w') \<and>
    (\<forall>x. r = Inr x \<longrightarrow> rd_end src = None \<and> x = f (length (rd_bytes src)))"
proof -
  obtain ts w1 where S: "tempSibling c dst w = (ts, w1)" by fastforce
  note w1 = tempSibling_spec [OF w S]
  show ?thesis
  proof (cases ts)
    case (Inl e)
    then show ?thesis using T S w1 by (auto simp: through_temp_def bindIO_apply only_new_def not_lost_def)
  next
    case (Inr t)
    have other: "t \<noteq> dst" using temp_other [OF w _ dst] S Inr by blast
    have fresh: "view w1 t = None" "sane w1" "view w t = None" using w1 Inr by simp_all
    obtain cr w2 where C: "sc_Create c t w1 = (cr, w2)" by fastforce
    note w2 = create_inv [OF fresh(2,1) C]
    show ?thesis
    proof (cases cr)
      case err: (Inl e)
      then have "view w2 = view w" using create_err [OF fresh(2,1)] C w1 by simp
      then show ?thesis using T S Inr C err w2
        by (auto simp: through_temp_def bindIO_apply tryIO_apply only_new_def not_lost_def)
    next
      case tmp: (Inr t')
      with create_ok [OF fresh(2,1)] C w1 have t': "t' = t" and v2: "view w2 = (view w)(t \<mapsto> FileNode [])" by simp_all
      obtain fr w3 where F: "fillAndReplace ctx c rctx t src dst w2 = (fr, w3)" by fastforce
      note fs = fill_spec [OF w2 v2 fresh(3) nd other F]
      show ?thesis
      proof (cases fr)
        case ok: (Inr n)
        then have "r = Inr (f n)" "w' = w3" using T S Inr C tmp t' F
          by (simp_all add: through_temp_def bindIO_apply tryIO_apply)
        then show ?thesis using fs(1) fs(2) [OF ok] by (simp add: ok)
      next
        case fail: (Inl e)
        obtain b' where b': "installed ((view w)(t \<mapsto> FileNode b')) dst (rd_bytes src) fr (view w3)"
          "view w3 t = Some (FileNode b')" using fs(3) [OF fail] by blast
        obtain q w4 where Q: "ssh_removeQuietly c t w3 = (q, w4)" by fastforce
        note quiet = quiet_spec [OF fs(1) b'(2) Q]
        have "r = Inl (wrap e)" "w' = w4" using T S Inr C tmp t' F fail Q quiet
          by (auto simp: through_temp_def bindIO_apply tryIO_apply)
        then show ?thesis
          using quiet installed_drop [OF b'(1) [unfolded fail] fresh(3) other] by blast
      qed
    qed
  qed
qed

section \<open>Putting and copying\<close>

lemma not_isdir_file: "info_matches nd i \<Longrightarrow> \<not> fi_isdir i \<Longrightarrow> \<exists>b. nd = FileNode b"
  by (cases nd) simp_all

text \<open>Making the directory of an object touches no existing name and not the object's own.\<close>

lemma mkdir_spec:
  assumes "sane w" "sc_MkdirAll c (path_Dir (path_Join base k)) w = (mk, w')" "base \<noteq> ''''" "key_ok k"
  shows "sane w'" "view w \<subseteq>\<^sub>m view w'" "view w' (path_Join base k) = view w (path_Join base k)"
proof -
  note eff = mkdir_effect [OF assms(1,2)]
  show "sane w'" using mkdir_inv [OF assms(1,2)] .
  show "view w \<subseteq>\<^sub>m view w'" unfolding map_le_def using eff by (metis domIff)
  show "view w' (path_Join base k) = view w (path_Join base k)"
    using eff [of "path_Join base k"] not_ancestor_of_Dir [OF assms(3,4)] by blast
qed

lemma ssh_put_spec:
  assumes w: "sane w" and k: "sh_cwd s \<noteq> ''''" "key_ok k" "\<not> HasPrefix (last (path_segs k)) ''.copy-''"
    and dst: "dst = path_Join (sh_cwd s) k" "view w dst \<noteq> Some DirNode"
    and P: "ssh_PutObject client s ctx k body w = (r, w')"
  shows "sane w' \<and> installed (view w) dst (rd_bytes body) r (view w') \<and> (\<forall>n. r = Inr n \<longrightarrow> rd_end body = None)"
proof -
  obtain cl w1 where C: "client ctx w = (cl, w1)" by fastforce
  note w1 = client_frame [OF w C]
  show ?thesis
  proof (cases cl)
    case (Inl e)
    then show ?thesis using P C w1 by (auto simp: ssh_PutObject_def bindIO_apply simp del: installed.simps)
  next
    case (Inr c')
    then have c': "c' = c" using client_same C by blast
    obtain mk w2 where M: "sc_MkdirAll c (path_Dir dst) w1 = (mk, w2)" by fastforce
    note m = mkdir_spec [OF conjunct2 [OF w1] M [unfolded dst(1)] k(1,2)]
    have m2: "sane w2" "view w \<subseteq>\<^sub>m view w2" "view w2 dst = view w dst" using m w1 dst(1) by simp_all
    show ?thesis
    proof (cases mk)
      case mkerr: (Inl e)
      with P C Inr c' M dst(1) have "w' = w2" "\<exists>e. r = Inl e"
        by (auto simp: ssh_PutObject_def bindIO_apply tryIO_apply Let_def)
      with untouched [OF m2(2,3)] m2(1) show ?thesis by (auto simp del: installed.simps)
    next
      case mkok: (Inr u)
      obtain st w3 where S: "sc_Stat c dst w2 = (st, w3)" by fastforce
      note w3 = stat_frame [OF m2(1) S]
      show ?thesis
      proof (cases "case st of Inr info \<Rightarrow> fi_isdir info | Inl _ \<Rightarrow> False")
        case True
        with P C Inr c' M mkok S dst(1) have "w' = w3" "\<exists>e. r = Inl e"
          by (auto simp: ssh_PutObject_def bindIO_apply tryIO_apply Let_def)
        with untouched [of "view w" "view w3" dst] m2 w3 show ?thesis by (auto simp del: installed.simps)
      next
        case False
        with P C Inr c' M mkok S dst(1)
        have T: "through_temp c ctx ctx body dst (\<lambda>e. Errorf ''write data to file'' [e]) (\<lambda>n. n) w3 = (r, w')"
          by (simp add: ssh_PutObject_def through_temp_def bindIO_apply [of "client ctx"] tryIO_apply [of "sc_MkdirAll c x" for x]
              tryIO_apply [of "sc_Stat c x" for x] Let_def)
        have "view w3 dst \<noteq> Some DirNode" using dst(2) m2 w3 by simp
        note spec = through_temp_spec [OF conjunct2 [OF w3] this dst(1) k(2,3) T]
        moreover have "installed (view w) dst (rd_bytes body) r (view w')"
          using m2 w3 by (intro installed_mono [OF _ _ conjunct1 [OF conjunct2 [OF spec]]]) simp_all
        ultimately show ?thesis by blast
      qed
    qed
  qed
qed

text \<open>A copy whose source is no file changes nothing.\<close>

lemma ssh_copy_open_spec:
  assumes w: "sane w" and src: "view w src = Some (FileNode b)"
    and d: "sh_cwd s \<noteq> ''''" "key_ok d" "\<not> HasPrefix (last (path_segs d)) ''.copy-''"
    and dst: "dst = path_Join (sh_cwd s) d" "view w dst \<noteq> Some DirNode"
    and C: "ssh_copy_open c ctx src dst w = (r, w')"
  shows "sane w' \<and> installed (view w) dst b r (view w') \<and> (\<forall>st. r = Inr st \<longrightarrow> Bytes st = wrap64 (int (length b)))"
proof -
  obtain op w1 where O: "sc_Open c src w = (op, w1)" by fastforce
  note w1 = open_frame [OF w O]
  show ?thesis
  proof (cases op)
    case (Inl e)
    with C O w1 show ?thesis by (auto simp: ssh_copy_open_def tryIO_apply split: if_splits simp del: installed.simps)
  next
    case (Inr fl)
    obtain mk w2 where M: "sc_MkdirAll c (path_Dir dst) w1 = (mk, w2)" by fastforce
    note m = mkdir_spec [OF conjunct2 [OF w1] M [unfolded dst(1)] d(1,2)]
    have m2: "sane w2" "view w \<subseteq>\<^sub>m view w2" "view w2 dst = view w dst" using m w1 dst(1) by simp_all
    show ?thesis
    proof (cases mk)
      case mkerr: (Inl e)
      with C O Inr M have "w' = w2" "\<exists>e. r = Inl e" by (auto simp: ssh_copy_open_def tryIO_apply)
      with untouched [OF m2(2,3)] m2(1) show ?thesis by (auto simp del: installed.simps)
    next
      case mkok: (Inr u)
      with C O Inr M
      have T: "through_temp c ctx (\<lambda>_. None) (file_reader fl) dst (\<lambda>e. Errorf ''copy via SFTP'' [e])
          (\<lambda>n. \<lparr>Bytes = wrap64 (int n), Streamed = True, Objects = 0\<rparr>) w2 = (r, w')"
        by (simp add: ssh_copy_open_def through_temp_def tryIO_apply [of "sc_Open c x" for x]
            tryIO_apply [of "sc_MkdirAll c x" for x])
      have "view w2 dst \<noteq> Some DirNode" using dst(2) m2 by simp
      note spec = through_temp_spec [OF m2(1) this dst(1) d(2,3) T]
      have read: "rd_bytes (file_reader fl) = b" if "r = Inr st" for st
        using open_prefix [OF w O [unfolded Inr] src] spec that by auto
      have "installed (view w) dst (rd_bytes (file_reader fl)) r (view w')"
        using m2 by (intro installed_mono [OF _ _ conjunct1 [OF conjunct2 [OF spec]]]) simp_all
      then have "installed (view w) dst b r (view w')" using read by (cases r) auto
      with spec read show ?thesis by auto
    qed
  qed
qed

lemma ssh_copy_spec:
  assumes w: "sane w" and src: "src = path_Join (sh_cwd s) k"
    and d: "sh_cwd s \<noteq> ''''" "key_ok d" "\<not> HasPrefix (last (path_segs d)) ''.copy-''"
    and dst: "dst = path_Join (sh_cwd s) d"
    and P: "ssh_Copy client s ctx k d opts w = (r, w')"
  shows "sane w' \<and> (case view w src of
      Some (FileNode b) \<Rightarrow> installed (view w) dst b r (view w') \<and>
        (\<forall>st. r = Inr st \<longrightarrow> src \<noteq> dst \<longrightarrow> Bytes st = wrap64 (int (length b)))
    | _ \<Rightarrow> view w' = view w \<and> isl r)"
proof -
  have none: ?thesis if "sane w'" "view w' = view w" "r = Inl e" for e
    using that by (auto split: option.splits node.splits simp del: installed.simps)
  obtain cl w1 where C: "client ctx w = (cl, w1)" by fastforce
  note w1 = client_frame [OF w C]
  show ?thesis
  proof (cases cl)
    case (Inl e)
    then show ?thesis using P C w1 none by (auto simp: ssh_Copy_def bindIO_apply)
  next
    case (Inr c')
    then have c': "c' = c" using client_same C by blast
    obtain st w2 where S: "sc_Stat c src w1 = (st, w2)" by fastforce
    note w2 = stat_frame [OF conjunct2 [OF w1] S]
    show ?thesis
    proof (cases "\<exists>i. st = Inr i \<and> \<not> fi_isdir i")
      case False
      with P C Inr c' S src dst have "w' = w2" "\<exists>e. r = Inl e"
        by (auto simp: ssh_Copy_def bindIO_apply tryIO_apply Let_def split: sum.splits if_splits)
      with none w1 w2 show ?thesis by auto
    next
      case True
      then obtain i where i: "st = Inr i" "\<not> fi_isdir i" by blast
      with stat_info [OF conjunct2 [OF w1] S [unfolded i(1)]] not_isdir_file [OF _ i(2)]
      obtain b where b: "view w src = Some (FileNode b)" using w1 by fastforce
      show ?thesis
      proof (cases "src = dst")
        case same: True
        with P C Inr c' S i src dst have "w' = w2" "r = Inr zeroCopyStat"
          by (auto simp: ssh_Copy_def bindIO_apply tryIO_apply Let_def)
        with b same w1 w2 show ?thesis by (simp add: only_new_def)
      next
        case other: False
        obtain sd w3 where D: "sc_Stat c dst w2 = (sd, w3)" by fastforce
        note w3 = stat_frame [OF conjunct2 [OF w2] D]
        have v3: "view w3 = view w" "sane w3" using w1 w2 w3 by simp_all
        consider (refused) e where "r = Inl e" "w' = w3"
          | (go) "ssh_copy_open c ctx src dst w3 = (r, w')" "view w3 dst \<noteq> Some DirNode"
        proof (cases sd)
          case (Inr di)
          with stat_info [OF conjunct2 [OF w2] D [unfolded Inr]] have "\<not> fi_isdir di \<Longrightarrow> view w3 dst \<noteq> Some DirNode"
            using w3 by auto
          with P C \<open>cl = Inr c'\<close> c' S i src dst other D Inr show ?thesis
            by (cases "fi_isdir di") (auto simp: ssh_Copy_def bindIO_apply tryIO_apply Let_def intro: refused go)
        next
          case (Inl e)
          with stat_missing [OF conjunct2 [OF w2] D [unfolded Inl]] w3
          have "errors_Is e ErrNotExist \<Longrightarrow> view w3 dst \<noteq> Some DirNode" by simp
          with P C \<open>cl = Inr c'\<close> c' S i src dst other D Inl show ?thesis
            by (cases "errors_Is e ErrNotExist") (auto simp: ssh_Copy_def bindIO_apply tryIO_apply Let_def intro: refused go)
        qed
        then show ?thesis
        proof cases
          case refused
          with none v3 show ?thesis by simp
        next
          case go
          have "view w3 src = Some (FileNode b)" using b v3 by simp
          from ssh_copy_open_spec [OF v3(2) this d dst go(2,1)] v3 b show ?thesis by simp
        qed
      qed
    qed
  qed
qed

end

section \<open>Deleting\<close>

text \<open>What a removal may do: some of the names in \<open>P\<close> go, all of them when it reports success.\<close>

definition wiped :: "(string \<rightharpoonup> node) \<Rightarrow> (string \<Rightarrow> bool) \<Rightarrow> error + unit \<Rightarrow> (string \<rightharpoonup> node) \<Rightarrow> bool" where
  "wiped v P r v' \<longleftrightarrow> (\<forall>q. v' q = v q \<or> P q \<and> v' q = None) \<and> (\<forall>q. r = Inr () \<longrightarrow> P q \<longrightarrow> v' q = None)"

lemma wiped_err [simp]: "wiped v P (Inl e) v"
  by (simp add: wiped_def)

lemma wiped_gone: "(\<And>q. P q \<Longrightarrow> v q = None) \<Longrightarrow> wiped v P r v"
  by (simp add: wiped_def)

lemma wiped_one: "wiped v (\<lambda>q. q = p) r (v(p := None))"
  by (simp add: wiped_def)

lemma wiped_trans:
  assumes "wiped v P (Inr u) v1" "wiped v1 Q r v'"
  shows "wiped v (\<lambda>q. P q \<or> Q q) r v'"
  using assms unfolding wiped_def by (metis (full_types) old.unit.exhaust)

lemma wiped_mono: "wiped v P (Inl e) v' \<Longrightarrow> (\<And>q. P q \<Longrightarrow> Q q) \<Longrightarrow> wiped v Q (Inl e') v'"
  by (auto simp: wiped_def)

lemma wiped_cong: "wiped v P r v' \<Longrightarrow> (\<And>q. P q \<longleftrightarrow> Q q) \<Longrightarrow> wiped v Q r v'"
  by (simp add: wiped_def)

context sftp_store
begin

text \<open>The check names exactly the paths that are no files.\<close>

definition is_file :: "ssh_storage \<Rightarrow> 'w \<Rightarrow> string \<Rightarrow> bool" where
  "is_file s w fp \<longleftrightarrow> (\<exists>b. view w (path_Join (sh_cwd s) fp) = Some (FileNode b))"

lemma ssh_verify_spec:
  assumes "sane w" "ssh_verify c s fps w = (r, w')"
  shows "view w' = view w \<and> sane w' \<and> (\<forall>ms. r = Inr ms \<longrightarrow> ms = filter (\<lambda>fp. \<not> is_file s w fp) fps)"
  using assms
proof (induction fps arbitrary: w r w')
  case (Cons fp fps)
  obtain st w1 where S: "sc_Stat c (path_Join (sh_cwd s) fp) w = (st, w1)" by fastforce
  note w1 = stat_frame [OF Cons.prems(1) S]
  obtain q w2 where Q: "ssh_verify c s fps w1 = (q, w2)" by fastforce
  have IH: "view w2 = view w \<and> sane w2 \<and> (\<forall>ms. q = Inr ms \<longrightarrow> ms = filter (\<lambda>fp. \<not> is_file s w fp) fps)"
    using Cons.IH [OF conjunct2 [OF w1] Q] w1 by (simp add: is_file_def)
  show ?case
  proof (cases st)
    case (Inl e)
    have "errors_Is e ErrNotExist \<Longrightarrow> \<not> is_file s w fp"
      using stat_missing [OF Cons.prems(1) S [unfolded Inl]] by (simp add: is_file_def)
    with Cons.prems(2) S Inl Q IH w1 show ?thesis by (cases q) (auto split: if_splits)
  next
    case (Inr i)
    then obtain nd where "view w (path_Join (sh_cwd s) fp) = Some nd" "info_matches nd i"
      using stat_info [OF Cons.prems(1)] S by blast
    then have "is_file s w fp \<longleftrightarrow> \<not> fi_isdir i" by (cases nd) (simp_all add: is_file_def)
    with Cons.prems(2) S Inr Q IH w1 show ?thesis by (cases q) (auto split: if_splits)
  qed
qed auto

lemma ssh_remove_list_spec:
  assumes "sane w" "\<And>fp. fp \<in> set fps \<Longrightarrow> view w (path_Join (sh_cwd s) fp) \<noteq> Some DirNode"
    and "ssh_remove_list c s fps w = (r, w')"
  shows "sane w' \<and> wiped (view w) (\<lambda>q. q \<in> path_Join (sh_cwd s) ` set fps) r (view w')"
  using assms
proof (induction fps arbitrary: w)
  case (Cons fp fps)
  let ?p = "path_Join (sh_cwd s) fp"
  obtain rm w1 where R: "sc_Remove c ?p w = (rm, w1)" by fastforce
  have nd: "view w ?p \<noteq> Some DirNode" using Cons.prems(2) by simp
  note w1 = remove_inv [OF Cons.prems(1) R nd]
  consider (fail) e where "r = Inl e" "w' = w1" "view w1 = view w"
    | (go) "ssh_remove_list c s fps w1 = (r, w')" "wiped (view w) (\<lambda>q. q = ?p) (Inr ()) (view w1)"
  proof (cases rm)
    case (Inl e)
    have "view w1 = view w" using remove_err [OF Cons.prems(1) R [unfolded Inl]] .
    moreover have "wiped (view w) (\<lambda>q. q = ?p) (Inr ()) (view w1)" if "errors_Is e ErrNotExist"
      using remove_missing [OF Cons.prems(1) R [unfolded Inl] that] calculation by (simp add: wiped_def)
    ultimately show ?thesis using Cons.prems(3) R Inl by (auto split: if_splits intro: fail go)
  next
    case (Inr u)
    with remove_ok [OF Cons.prems(1) nd] R have "view w1 = (view w)(?p := None)" by simp
    then show ?thesis using Cons.prems(3) R Inr wiped_one by (auto intro: go)
  qed
  then show ?case
  proof cases
    case fail
    then show ?thesis using w1 by simp
  next
    case go
    have "view w1 (path_Join (sh_cwd s) x) \<noteq> Some DirNode" if "x \<in> set fps" for x
      using go(2) Cons.prems(2) [of x] that by (auto simp: wiped_def) (metis option.distinct(1))
    note IH = Cons.IH [OF w1 this go(1)]
    from wiped_trans [OF go(2) conjunct2 [OF IH]] have
      "wiped (view w) (\<lambda>q. q \<in> path_Join (sh_cwd s) ` set (fp # fps)) r (view w')"
      by (rule wiped_cong) auto
    with IH show ?thesis by blast
  qed
qed (auto simp: wiped_def)

lemma ssh_delete_spec:
  assumes w: "sane w" and D: "ssh_Delete client s ctx fps w = (r, w')"
  shows "sane w' \<and> (if list_all (is_file s w) fps
    then wiped (view w) (\<lambda>q. q \<in> path_Join (sh_cwd s) ` set fps) r (view w')
    else view w' = view w \<and> isl r \<and> (isl (fst (client ctx w)) \<or>
      (\<forall>ms. r = Inl (MissingObjectsError ms) \<longrightarrow> ms = filter (\<lambda>fp. \<not> is_file s w fp) fps)))"
proof -
  obtain cl w1 where C: "client ctx w = (cl, w1)" by fastforce
  note w1 = client_frame [OF w C]
  show ?thesis
  proof (cases cl)
    case (Inl e)
    with D C w1 show ?thesis by (auto simp: ssh_Delete_def bindIO_apply)
  next
    case (Inr c')
    then have c': "c' = c" using client_same C by blast
    obtain q w2 where V: "ssh_verify c s fps w1 = (q, w2)" by fastforce
    note v = ssh_verify_spec [OF conjunct2 [OF w1] V]
    have same: "view w2 = view w" "sane w2" and isf: "is_file s w1 = is_file s w"
      using v w1 by (simp_all add: is_file_def fun_eq_iff)
    have run: "(case q of Inl e \<Rightarrow> (Inl e, w2) | Inr ms \<Rightarrow>
        (if ms \<noteq> [] then throw (MissingObjectsError ms) else ssh_remove_list c s fps) w2) = (r, w')"
      using D C Inr c' V by (simp add: ssh_Delete_def bindIO_apply split: sum.splits)
    show ?thesis
    proof (cases q)
      case bad: (Inl e)
      with run have "r = Inl e" "w' = w2" by simp_all
      moreover have "(\<forall>ms. e \<noteq> MissingObjectsError ms)"
        using V bad by (induction fps arbitrary: w1) (auto split: prod.splits sum.splits if_splits)
      ultimately show ?thesis using same by simp
    next
      case (Inr ms)
      with v isf have ms: "ms = filter (\<lambda>fp. \<not> is_file s w fp) fps" by simp
      show ?thesis
      proof (cases "ms = []")
        case False
        with run Inr ms have "r = Inl (MissingObjectsError ms)" "w' = w2" "\<not> list_all (is_file s w) fps"
          by (auto simp: list_all_iff filter_empty_conv)
        with same ms show ?thesis by simp
      next
        case True
        then have all: "list_all (is_file s w) fps" using ms by (simp add: list_all_iff filter_empty_conv)
        have nd: "view w2 (path_Join (sh_cwd s) fp) \<noteq> Some DirNode" if "fp \<in> set fps" for fp
          using that same all by (auto simp: list_all_iff is_file_def)
        have "ssh_remove_list c s fps w2 = (r, w')" using run Inr True by simp
        from ssh_remove_list_spec [OF same(2) nd this] same(1) all show ?thesis by simp
      qed
    qed
  qed
qed

section \<open>Deleting a subtree\<close>

lemma not_below_parent: "real_seg n \<Longrightarrow> \<not> below (path_Join p n) p"
proof
  assume n: "real_seg n" and b: "below (path_Join p n) p"
  have segs: "path_segs (path_Join p n) = path_segs p @ [n]" using n by (rule real_seg_Join)
  from b consider "p = path_Join p n" | k where "key_ok k" "p = path_Join (path_Join p n) k"
    by (auto simp: below_def)
  then show False
  proof cases
    case 1
    then have "path_segs p = path_segs p @ [n]" using segs by simp
    then show False by simp
  next
    case 2
    then have "path_segs p = (path_segs p @ [n]) @ path_segs k"
      using segs by (metis key_okD(1) path_segs_Join)
    then show False by simp
  qed
qed

lemma below_entry:
  assumes "real_seg n" "below (path_Join p n) q"
  shows "below p q"
proof -
  from assms(2) consider "q = path_Join p n" | k where "key_ok k" "q = path_Join (path_Join p n) k"
    by (auto simp: below_def)
  then show ?thesis
  proof cases
    case 1
    then show ?thesis using real_seg_key [OF assms(1)] unfolding below_def by blast
  next
    case 2
    then have "key_ok (path_Join n k)" "q = path_Join p (path_Join n k)"
      using join_key [OF assms(1)] join_assoc [OF assms(1)] by simp_all
    then show ?thesis unfolding below_def by blast
  qed
qed

lemma tree_gone:
  assumes "sane w" "path_Clean p = p" "view w p = None" "below p q"
  shows "view w q = None"
  using assms tree_closed [OF assms(1,2)] by (auto simp: below_def)

lemma wiped_le: "wiped v P r v' \<Longrightarrow> v' \<subseteq>\<^sub>m v"
  by (auto simp: wiped_def map_le_def)

text \<open>What is no directory, at any fuel.\<close>

lemma removeAll_file:
  assumes w: "sane w" and p: "path_Clean p = p" "view w p \<noteq> Some DirNode"
  shows "\<exists>r w'. removeAll (Suc n) c p w = Some (r, w') \<and> sane w' \<and> wiped (view w) (below p) r (view w')"
proof -
  have sub: "view v q = None" if "sane v" "view v p = None" "below p q" for v q
    using tree_gone [OF that(1) p(1) that(2,3)] .
  obtain st w1 where S: "sc_Stat c p w = (st, w1)" by fastforce
  note w1 = stat_frame [OF w S]
  show ?thesis
  proof (cases st)
    case (Inl e)
    have "wiped (view w) (below p) (Inr ()) (view w1)" if "errors_Is e ErrNotExist"
      using stat_missing [OF w S [unfolded Inl] that] sub [OF w] w1 by (simp add: wiped_gone)
    with S Inl w1 show ?thesis by (cases "errors_Is e ErrNotExist") auto
  next
    case (Inr i)
    with stat_info [OF w] S obtain nd where nd: "view w p = Some nd" "info_matches nd i" by blast
    with p(2) have nodir: "\<not> fi_isdir i" by (cases nd) simp_all
    obtain rm w2 where R: "sc_Remove c p w1 = (rm, w2)" by fastforce
    have nd1: "view w1 p \<noteq> Some DirNode" using p(2) w1 by simp
    note w2 = remove_inv [OF conjunct2 [OF w1] R nd1]
    show ?thesis
    proof (cases rm)
      case err: (Inl e)
      note same = remove_err [OF conjunct2 [OF w1] R [unfolded err]]
      have "\<not> errors_Is e ErrNotExist"
        using remove_missing [OF conjunct2 [OF w1] R [unfolded err]] nd w1 by auto
      with S Inr nodir R err w2 same w1 show ?thesis by simp
    next
      case ok: (Inr u)
      have v2: "view w2 = (view w)(p := None)" using remove_ok [OF conjunct2 [OF w1] nd1] R ok w1 by simp
      have "wiped (view w) (below p) (Inr ()) (view w2)"
        using sub [OF w2] v2 by (auto simp: wiped_def) (auto simp: below_def)
      with S Inr nodir R ok w2 show ?thesis by simp
    qed
  qed
qed

lemma remove_entries_spec:
  assumes "sane w" "view w \<subseteq>\<^sub>m view w0"
    and "\<And>e v. e \<in> set es \<Longrightarrow> sane v \<Longrightarrow> view v \<subseteq>\<^sub>m view w0 \<Longrightarrow>
      \<exists>r v'. rec (path_Join p (fi_name e)) v = Some (r, v') \<and> sane v' \<and>
        wiped (view v) (below (path_Join p (fi_name e))) r (view v')"
  shows "\<exists>r w'. remove_entries rec c p es w = Some (r, w') \<and> sane w' \<and>
    wiped (view w) (\<lambda>q. \<exists>e \<in> set es. below (path_Join p (fi_name e)) q) r (view w')"
  using assms
proof (induction es arbitrary: w)
  case (Cons e es)
  from Cons.prems(3) [OF _ Cons.prems(1,2), of e] obtain r1 w1 where
    w1: "rec (path_Join p (fi_name e)) w = Some (r1, w1)" "sane w1"
      "wiped (view w) (below (path_Join p (fi_name e))) r1 (view w1)" by auto
  show ?case
  proof (cases r1)
    case (Inl err)
    then have "wiped (view w) (\<lambda>q. \<exists>e \<in> set (e # es). below (path_Join p (fi_name e)) q) (Inl err) (view w1)"
      using w1(3) by (auto intro: wiped_mono)
    with w1 Inl show ?thesis by (simp add: join)
  next
    case (Inr u)
    have "view w1 \<subseteq>\<^sub>m view w0" using wiped_le [OF w1(3)] Cons.prems(2) by (rule map_le_trans)
    from Cons.IH [OF w1(2) this] Cons.prems(3) obtain r w' where
      rest: "remove_entries rec c p es w1 = Some (r, w')" "sane w'"
        "wiped (view w1) (\<lambda>q. \<exists>e \<in> set es. below (path_Join p (fi_name e)) q) r (view w')" by auto
    from wiped_trans [OF w1(3) [unfolded Inr] rest(3)] have
      "wiped (view w) (\<lambda>q. \<exists>e \<in> set (e # es). below (path_Join p (fi_name e)) q) r (view w')"
      by (rule wiped_cong) auto
    with w1 Inr rest show ?thesis by (simp add: join)
  qed
qed (simp add: wiped_gone)

lemma removeAll_spec:
  assumes "sane w" "p \<noteq> ''''" "path_Clean p = p" "dir_deep (view w) p m"
  shows "\<exists>r w'. removeAll (Suc (Suc m)) c p w = Some (r, w') \<and> sane w' \<and> wiped (view w) (below p) r (view w')"
  using assms
proof (induction m arbitrary: p w rule: less_induct)
  case (less m)
  note w = less.prems(1)
  show ?case
  proof (cases "view w p = Some DirNode")
    case False
    then show ?thesis using removeAll_file [OF w less.prems(3)] by blast
  next
    case True
    obtain st w1 where S: "sc_Stat c p w = (st, w1)" by fastforce
    note w1 = stat_frame [OF w S]
    show ?thesis
    proof (cases st)
      case (Inl e)
      then have "\<not> errors_Is e ErrNotExist" using stat_missing [OF w S [unfolded Inl]] True by auto
      with S Inl w1 show ?thesis by simp
    next
      case (Inr i)
      with stat_info [OF w] S True have dir: "fi_isdir i" by fastforce
      obtain rd w2 where R: "sc_ReadDir c p w1 = (rd, w2)" by fastforce
      note fr = readdir_frame [OF conjunct2 [OF w1] R]
      show ?thesis
      proof (cases rd)
        case err: (Inl e)
        with S Inr dir R fr w1 show ?thesis by simp
      next
        case ok: (Inr es)
        note R' = R [unfolded ok]
        have v2: "view w2 = view w" "sane w2" using fr w1 by simp_all
        have real: "real_seg (fi_name e)" if "e \<in> set es" for e using readdir_names [OF R' that] .
        have rec: "\<exists>r v'. removeAll (Suc m) c (path_Join p (fi_name e)) v = Some (r, v') \<and> sane v' \<and>
            wiped (view v) (below (path_Join p (fi_name e))) r (view v')"
          if e: "e \<in> set es" and v: "sane v" "view v \<subseteq>\<^sub>m view w2" for e v
        proof -
          let ?n = "fi_name e"
          have nk: "key_ok ?n" "path_segs ?n = [?n]" using real_seg_key real_seg_single real [OF e] by simp_all
          have cl: "path_Clean (path_Join p ?n) = path_Join p ?n" using nk by (simp add: key_okD)
          show ?thesis
          proof (cases "view v (path_Join p ?n) = Some DirNode")
            case False
            then show ?thesis using removeAll_file [OF v(1) cl] by blast
          next
            case d: True
            have up: "view w q = Some DirNode" if "view v q = Some DirNode" for q
              using that v(2) v2 by (metis domIff map_le_def option.distinct(1))
            from less.prems(4) nk up [OF d] have m: "0 < m" by (fastforce simp: dir_deep_def)
            have "length (path_segs k) \<le> m - 1"
              if "key_ok k" "view v (path_Join (path_Join p ?n) k) = Some DirNode" for k
            proof -
              have "length (path_segs (path_Join ?n k)) \<le> m"
                using less.prems(4) up [OF that(2)] join_assoc [OF real [OF e] that(1), of p] join_key [OF real [OF e] that(1)]
                by (simp add: dir_deep_def)
              then show ?thesis using nk that(1) by (simp add: path_segs_Join key_okD)
            qed
            then have "dir_deep (view v) (path_Join p ?n) (m - 1)" by (simp add: dir_deep_def)
            moreover have "path_Join p ?n \<noteq> ''''" using less.prems(2) by (simp add: path_Join_def)
            ultimately show ?thesis using less.IH [of "m - 1" v "path_Join p ?n"] m v(1) cl by simp
          qed
        qed
        obtain r3 w3 where E: "remove_entries (removeAll (Suc m) c) c p es w2 = Some (r3, w3)" "sane w3"
          and wp: "wiped (view w2) (\<lambda>q. \<exists>e \<in> set es. below (path_Join p (fi_name e)) q) r3 (view w3)"
          using remove_entries_spec [OF v2(2) map_le_refl rec] by blast
        have inside: "below p q" if "e \<in> set es" "below (path_Join p (fi_name e)) q" for e q
          using below_entry [OF real [OF that(1)] that(2)] .
        show ?thesis
        proof (cases r3)
          case e3: (Inl x)
          have "wiped (view w) (below p) (Inl x) (view w3)"
            using wp v2 inside unfolding e3 by (auto intro: wiped_mono)
          with S Inr dir R' E e3 show ?thesis by simp
        next
          case r3: (Inr u)
          have p3: "view w3 p = Some DirNode"
            using wp True v2 not_below_parent real unfolding wiped_def by metis
          obtain rr w4 where D: "sc_RemoveDirectory c p w3 = (rr, w4)" by fastforce
          note w4 = rmdir_inv [OF E(2) D]
          show ?thesis
          proof (cases rr)
            case e4: (Inl x)
            have "\<not> errors_Is x ErrNotExist" using rmdir_missing [OF E(2) D [unfolded e4]] p3 by auto
            moreover have "wiped (view w) (below p) (Inl x) (view w4)"
              using wp v2 inside rmdir_err [OF E(2) D [unfolded e4]] unfolding r3 by (auto simp: wiped_def)
            ultimately show ?thesis using S Inr dir R' E r3 D e4 w4
              by (auto simp: wiped_def)
          next
            case r4: (Inr u')
            have v4: "view w4 = (view w3)(p := None)" using rmdir_ok [OF E(2) p3] D r4 by simp
            have "view w4 q = None" if "below p q" for q
              using tree_gone [OF w4 less.prems(3) _ that] v4 by simp
            moreover have "view w4 q = view w q \<or> below p q \<and> view w4 q = None" for q
            proof (cases "q = p")
              case True
              then show ?thesis using v4 by (simp add: below_def)
            next
              case False
              with wp v2 v4 inside show ?thesis unfolding wiped_def by (metis fun_upd_apply)
            qed
            ultimately have "wiped (view w) (below p) (Inr ()) (view w4)" by (simp add: wiped_def)
            with S Inr dir R' E r3 D r4 w4 show ?thesis by simp
          qed
        qed
      qed
    qed
  qed
qed

text \<open>
  \<open>DeleteAll\<close> returns with one unit of fuel per level and two more, and wipes the subtree of its
  prefix, unless there is nothing, which it reports.
\<close>

lemma ssh_deleteall_spec:
  assumes w: "sane w" and p: "p = path_Join (sh_cwd s) prefix" "p \<noteq> ''''" "dir_deep (view w) p m"
  shows "\<exists>r w'. ssh_DeleteAll (Suc (Suc m)) client s ctx prefix w = Some (r, w') \<and> sane w' \<and>
    wiped (view w) (below p) r (view w')"
proof -
  have cl: "path_Clean p = p" using p(1,2) by (auto simp: path_Join_def)
  obtain cr w1 where C: "client ctx w = (cr, w1)" by fastforce
  note w1 = client_frame [OF w C]
  show ?thesis
  proof (cases cr)
    case (Inl e)
    with C w1 show ?thesis by (simp add: ssh_DeleteAll_def)
  next
    case (Inr c')
    then have c': "c' = c" using client_same C by blast
    obtain st w2 where S: "sc_Stat c p w1 = (st, w2)" by fastforce
    note w2 = stat_frame [OF conjunct2 [OF w1] S]
    have "dir_deep (view w2) p m" using p(3) w1 w2 by simp
    from removeAll_spec [OF conjunct2 [OF w2] p(2) cl this] obtain r w3 where
      R: "removeAll (Suc (Suc m)) c p w2 = Some (r, w3)" "sane w3" "wiped (view w2) (below p) r (view w3)" by blast
    show ?thesis
    proof (cases st)
      case e: (Inl e)
      with C Inr c' S w1 w2 p(1) show ?thesis by (simp add: ssh_DeleteAll_def Let_def)
    next
      case i: (Inr i)
      then show ?thesis using C Inr c' S R w1 w2 p(1)
        by (cases r) (auto simp: ssh_DeleteAll_def Let_def wiped_def simp del: removeAll.simps)
    qed
  qed
qed

end

end
