(* ===== verification/Ssh_Properties.thy ===== *)
theory Ssh_Properties
  imports Ssh_Effects Fs_Properties
begin

text \<open>
  The properties of the SSH backend, for every SFTP server with the laws of \<open>sftp_fs\<close>, evaluated on
  a server over the in-memory file tree that does not know posix-rename.
\<close>

section \<open>A concrete server\<close>

definition mem_random :: "(memfs, string) io" where
  "mem_random f = (Inr (replicate (longest_name f) CHR ''0''), f)"

definition mem_Create :: "string \<Rightarrow> (memfs, string) io" where
  "mem_Create p f =
     (if abs_path p \<and> path_segs p \<noteq> [] \<and> map_of f (butlast (path_segs p)) = Some DirNode \<and>
         map_of f (path_segs p) \<noteq> Some DirNode
      then (Inr p, mem_set (path_segs p) (FileNode []) f) else (Inl (ErrorString ''failure''), f))"

definition mem_sftp :: "memfs sftp" where
  "mem_sftp =
     \<lparr>sc_ReadDir = mem_ReadDir, sc_Join = path_Join, sc_Remove = mem_Remove, sc_RemoveDirectory = mem_Remove,
      sc_Stat = mem_Stat, sc_Open = mem_Open, sc_FStat = (\<lambda>fl. mem_Stat (file_name fl)), sc_Seek = (\<lambda>fl off. ret ()),
      sc_Create = mem_Create, sc_Write = mem_Write, sc_CloseFile = (\<lambda>t. ret ()), sc_MkdirAll = (\<lambda>p. mem_MkdirAll p 0),
      sc_Rename = mem_Rename, sc_PosixRename = (\<lambda>s d. throw (ErrorString ''operation unsupported'')),
      sc_random = mem_random\<rparr>"

lemma mem_sftp_sel [simp]:
  "sc_ReadDir mem_sftp = mem_ReadDir" "sc_Join mem_sftp = path_Join" "sc_Remove mem_sftp = mem_Remove"
  "sc_Stat mem_sftp = mem_Stat" "sc_Rename mem_sftp = mem_Rename" "sc_random mem_sftp = mem_random"
  "sc_PosixRename mem_sftp s d = throw (ErrorString ''operation unsupported'')"
  by (simp_all add: mem_sftp_def)

lemma mem_entries_distinct:
  assumes "distinct (map fst f)"
  shows "distinct (map fi_name (mem_entries d f))"
proof -
  let ?es = "filter (\<lambda>e. fst e \<noteq> [] \<and> butlast (fst e) = d \<and> real_seg (last (fst e))) f"
  have "fi_name (mem_info (fst e) (snd e)) = last (fst e)" if "fst e \<noteq> []" for e :: "string list \<times> node"
    using that by (simp add: mem_info_name)
  then have eq: "map fi_name (mem_entries d f) = map (\<lambda>e. last (fst e)) ?es"
    by (auto simp: mem_entries_def)
  have "distinct (map fst ?es)" using assms by (induction f) (auto simp: image_iff)
  moreover have "inj_on (\<lambda>e. last (fst e)) (set ?es)" if "distinct (map fst ?es)"
  proof (rule inj_onI)
    fix a b assume ab: "a \<in> set ?es" "b \<in> set ?es" "last (fst a) = last (fst b)"
    then have "fst a = d @ [last (fst a)]" "fst b = d @ [last (fst b)]"
      using append_butlast_last_id [of "fst a"] append_butlast_last_id [of "fst b"] by auto
    with ab(3) have "fst a = fst b" by simp
    moreover have "inj_on fst (set ?es)" using that unfolding distinct_map by blast
    ultimately show "a = b" using ab(1,2) by (auto dest: inj_onD)
  qed
  ultimately have "distinct (map (\<lambda>e. last (fst e)) ?es)" by (simp add: distinct_map)
  then show ?thesis by (simp add: eq)
qed

lemma mem_random_fresh: "mem_random f = (Inr sfx, f') \<Longrightarrow> mem_view f (path_Join dir (''.copy-'' @ sfx)) = None"
proof -
  assume "mem_random f = (Inr sfx, f')"
  then have n: "''.copy-'' @ sfx = mem_fresh f" by (auto simp: mem_random_def mem_fresh_def)
  have "path_segs (path_Join dir (mem_fresh f)) = path_segs dir @ [mem_fresh f]"
    using real_seg_fresh by (rule real_seg_Join)
  moreover have "map_of f (path_segs dir @ [mem_fresh f]) = None"
    using mem_fresh_new [of f "path_segs dir"] by (cases "map_of f (path_segs dir @ [mem_fresh f])") auto
  ultimately show ?thesis unfolding n mem_view_def by (simp del: append.simps)
qed

interpretation mem_ssh: sftp_fs mem_sftp mem_view mem_sane
proof (unfold_locales, goal_cases)
  case 1 then show ?case by (rule mem_tree_closed)
next case 2 then show ?case by simp
next case 3 then show ?case using mem_Stat_world by fastforce
next case 4 then show ?case using mem_Stat_Inr by fastforce
next case 5 then show ?case using mem_Stat_Inl by fastforce
next case 6 then show ?case using mem_ReadDir_world by fastforce
next case 7 then show ?case using mem_ReadDir_real by fastforce
next case (8 w p es w')
  then show ?case using mem_ReadDir_Inr [of p w es w'] mem_entries_distinct by (simp add: mem_sane_def)
next case (9 w p es w' en)
  then show ?case using mem_ReadDir_Inr [of p w es w'] mem_entries_info [of w p en] by (simp add: mem_sane_def)
next case (10 w p es w' n)
  then show ?case using mem_ReadDir_Inr [of p w es w'] mem_entries_all [of p n w] by simp
next case 11 then show ?case using mem_ReadDir_missing by fastforce
next case 12 then show ?case by (auto simp: mem_random_def)
next case (13 w sfx w' p) then show ?case using mem_random_fresh [of w sfx w' "path_Dir p"] by simp
next case 14 then show ?case by auto
next case 15 then show ?case by auto
next case 16 then show ?case by auto
next case 17 then show ?case using mem_rename_spec(1) by simp
next case 18 then show ?case using mem_rename_spec(2) by (metis mem_sftp_sel(5))
next case (19 w s d u w')
  then have "mem_Rename s d w = (Inr u, w')" by simp
  then show ?case by (cases rule: mem_rename_cases) auto
next case 20 then show ?case using mem_rename_spec(3) by (metis mem_sftp_sel(5))
next case 21 then show ?case using mem_remove_spec(3) by simp
next case 22 then show ?case using mem_remove_spec(1) by (metis mem_sftp_sel(3))
next case (23 w p e w')
  then show ?case
    by (cases "mem_find p w") (auto simp: mem_Remove_def mem_find_Inl split: node.splits if_splits)
next case 24 then show ?case using mem_remove_spec(4) by (metis mem_sftp_sel(3))
qed


section \<open>Replacing a file\<close>

text \<open>
  C34. Replacing a file never loses a content: on success the destination holds the new content and
  every other file that stood there before is untouched; on failure the tree is as it was, or, when
  the previous file could not be moved back, all of it stands under the fresh name it was moved to.
\<close>

theorem replaceFile_never_loses:
  assumes "sftp_fs c view sane" "sane w" "view w src = Some (FileNode new)" "view w dst \<noteq> Some DirNode" "src \<noteq> dst"
    and "replaceFile c src dst w = (r, w')"
  shows "case r of
      Inr _ \<Rightarrow> view w' dst = Some (FileNode new) \<and> view w' src = None \<and>
        (\<forall>q. q \<noteq> src \<longrightarrow> q \<noteq> dst \<longrightarrow> view w' q = view w q \<or> view w q = None)
    | Inl e \<Rightarrow> view w' = view w \<or>
        (\<exists>aside old. view w dst = Some (FileNode old) \<and> view w aside = None \<and>
           view w' = (view w)(dst := None, aside \<mapsto> FileNode old))"
  using sftp_fs.replaceFile_cases [OF assms] by blast

theorem replaceFile_never_loses_witness:
  "\<exists>w'. replaceFile mem_sftp ''/d/a/s/y'' ''/d/a/x'' example_fs = (Inr (), w') \<and>
     mem_view w' ''/d/a/x'' = Some (FileNode [3]) \<and> mem_view w' ''/d/a/s/y'' = None"
proof -
  have "fst (replaceFile mem_sftp ''/d/a/s/y'' ''/d/a/x'' example_fs) = Inr ()" by code_simp
  then obtain w' where run: "replaceFile mem_sftp ''/d/a/s/y'' ''/d/a/x'' example_fs = (Inr (), w')"
    by (metis prod.collapse)
  have src: "mem_view example_fs ''/d/a/s/y'' = Some (FileNode [3])" by code_simp
  have dst: "mem_view example_fs ''/d/a/x'' \<noteq> Some DirNode" by code_simp
  from replaceFile_never_loses [OF mem_ssh.sftp_fs_axioms example_sane src dst _ run] run
  show ?thesis by simp
qed

section \<open>Listing\<close>

definition example_ssh :: ssh_storage where
  "example_ssh = \<lparr>sh_cfg = ssh_DefaultConfig, sh_cwd = ''/d'', sh_unsafe = False\<rparr>"




section \<open>Writing\<close>

lemma mem_Create_spec:
  assumes f: "mem_sane f" and v: "mem_view f p = None" and C: "mem_Create p f = (r, f')"
  shows "mem_sane f'" and "r = Inl e \<Longrightarrow> f' = f"
    and "r = Inr t \<Longrightarrow> t = p \<and> mem_view f' = (mem_view f)(p \<mapsto> FileNode [])"
proof -
  consider (err) e where "r = Inl e" "f' = f"
    | (ok) "abs_path p" "path_segs p \<noteq> []" "map_of f (butlast (path_segs p)) = Some DirNode"
        "map_of f (path_segs p) \<noteq> Some DirNode" "r = Inr p" "f' = mem_set (path_segs p) (FileNode []) f"
    using C unfolding mem_Create_def by (metis prod.inject)
  note two = this
  show "mem_sane f'" using two
  proof cases
    case ok
    then show ?thesis using f abs_path_real [OF ok(1)] by (simp add: mem_sane_set_file)
  qed (use f in simp)
  show "r = Inl e \<Longrightarrow> f' = f" using two by cases simp_all
  show "t = p \<and> mem_view f' = (mem_view f)(p \<mapsto> FileNode [])" if "r = Inr t"
    using two
  proof cases
    case ok
    then have "mem_view f' = (mem_view f)(p \<mapsto> FileNode [])" by (intro mem_view_set) simp_all
    with that ok show ?thesis by simp
  qed (use that in simp)
qed

lemma mem_sftp_writes [simp]:
  "sc_Open mem_sftp = mem_Open" "sc_MkdirAll mem_sftp p = mem_MkdirAll p 0" "sc_Create mem_sftp = mem_Create"
  "sc_Write mem_sftp = mem_Write" "sc_CloseFile mem_sftp t = ret ()" "sc_RemoveDirectory mem_sftp = mem_Remove"
  by (simp_all add: mem_sftp_def)

text \<open>A directory that is removed was empty.\<close>

lemma mem_Remove_any:
  assumes f: "mem_sane f" and R: "mem_Remove p f = (r, f')"
  shows "mem_sane f'" and "r = Inr u \<Longrightarrow> mem_view f' = (mem_view f)(p := None)"
proof -
  have dir: "r = Inl e \<and> f' = f \<or>
      mem_sane (mem_del (path_segs p) f) \<and> f' = mem_del (path_segs p) f \<and> abs_path p \<and> r = Inr ()"
    if v: "mem_view f p = Some DirNode" and e: "r = Inl e \<or> r = Inr ()" for e
  proof (cases "path_segs p = [] \<or> mem_entries (path_segs p) f \<noteq> []")
    case True
    have "mem_find p f = Inr DirNode" using v by (simp only: mem_find_view(1))
    with True R e show ?thesis by (auto simp: mem_Remove_def)
  next
    case False
    have find: "mem_find p f = Inr DirNode" using v by (simp only: mem_find_view(1))
    have tree: "tree_ok (map_of f)" using f by (simp add: mem_sane_def)
    have "map_of f t = None" if t: "t \<noteq> []" "butlast t = path_segs p" for t
    proof (rule ccontr)
      assume "map_of f t \<noteq> None"
      then obtain nd where nd: "map_of f t = Some nd" by blast
      then have "real_seg (last t)" using tree t(1) unfolding tree_ok_def by (meson last_in_set)
      with t map_of_SomeD [OF nd] have "mem_entries (path_segs p) f \<noteq> []"
        by (auto simp: mem_entries_def filter_empty_conv intro: bexI [of _ "(t, nd)"])
      with False show False by simp
    qed
    with False tree_ok_del [OF tree] have "mem_sane (mem_del (path_segs p) f)"
      using f by (simp add: mem_sane_def distinct_mem_del)
    with False find R mem_view_abs [OF v] show ?thesis by (simp add: mem_Remove_def)
  qed
  have r: "r = Inr () \<or> (\<exists>e. r = Inl e)" by (cases r) auto
  show "mem_sane f'"
    using dir r f mem_remove_spec(3) [OF f R] by (cases "mem_view f p = Some DirNode") auto
  show "mem_view f' = (mem_view f)(p := None)" if "r = Inr u"
    using dir that mem_view_del [of p] mem_remove_spec(4) [OF f R] by (cases "mem_view f p = Some DirNode") auto
qed

interpretation mem_store: sftp_store mem_sftp mem_view mem_sane "\<lambda>ctx w. (Inr mem_sftp, w)"
proof (unfold_locales, goal_cases)
  case 1 then show ?case by simp
next case 2 then show ?case by simp
next case (3 w sfx w') then show ?case by (auto simp: mem_random_def)
next case 4 then show ?case using mem_Open_world by fastforce
next case (5 w p fl w' b) then show ?case using mem_Open_Inr [of p w fl w'] by simp
next case 6 then show ?case using mem_mkdir_spec(1) by simp
next case 7 then show ?case using mem_mkdir_spec(2) by simp
next case 8 then show ?case using mem_Create_spec(1) by simp
next case 9 then show ?case using mem_Create_spec(2) by (metis mem_sftp_writes(3))
next case (10 w p t w') then show ?case using mem_Create_spec(3) [of w p "Inr t" w' t] by simp
next case 11 then show ?case using mem_write_spec by (metis mem_sftp_writes(4))
next case 12 then show ?case using mem_write_spec by (metis mem_sftp_writes(4))
next case 13 then show ?case using mem_write_spec by (metis mem_sftp_writes(4))
next case 14 then show ?case by simp
next case 15 then show ?case using mem_Remove_any(1) by simp
next case 16 then show ?case using mem_remove_spec(1) by fastforce
next case (17 w p e w')
  then show ?case
    by (cases "mem_find p w") (auto simp: mem_Remove_def mem_find_Inl split: node.splits if_splits)
next case 18 then show ?case using mem_Remove_any(2) by simp
qed

text \<open>
  C39. Putting an object over SFTP, where no directory stands at its key and the key is not a name of a
  temporary file: everything else that existed is as it was; a put that succeeds leaves the whole body at
  the key, and one that fails leaves the previous content there or, when it could not be moved back,
  under a name that was free.
\<close>

theorem ssh_PutObject_effect:
  assumes "sftp_store c view sane client" "sane w" "sh_cwd s \<noteq> ''''" "key_ok k"
    and "\<not> HasPrefix (last (path_segs k)) ''.copy-''" "view w (path_Join (sh_cwd s) k) \<noteq> Some DirNode"
    and "ssh_PutObject client s ctx k body w = (r, w')"
  shows "(\<forall>q. q \<noteq> path_Join (sh_cwd s) k \<longrightarrow> view w q \<noteq> None \<longrightarrow> view w' q = view w q) \<and>
    (case r of
       Inr n \<Rightarrow> rd_end body = None \<and> view w' (path_Join (sh_cwd s) k) = Some (FileNode (rd_bytes body))
     | Inl e \<Rightarrow> view w' (path_Join (sh_cwd s) k) = view w (path_Join (sh_cwd s) k) \<or>
         (\<exists>aside nd. view w (path_Join (sh_cwd s) k) = Some nd \<and> view w' (path_Join (sh_cwd s) k) = None \<and>
            view w aside = None \<and> view w' aside = Some nd))"
  using sftp_store.ssh_put_spec [OF assms(1-5) refl assms(6,7)]
  by (cases r) (auto simp: only_new_def not_lost_def)

theorem ssh_PutObject_effect_witness:
  "\<exists>w'. ssh_PutObject (\<lambda>_ w. (Inr mem_sftp, w)) example_ssh (\<lambda>_. None) ''a/x'' (bytes_reader [9]) example_fs = (Inr 1, w') \<and>
     mem_view w' ''/d/a/x'' = Some (FileNode [9]) \<and> mem_view w' ''/d/a/s/y'' = Some (FileNode [3])"
proof -
  let ?run = "ssh_PutObject (\<lambda>_ w. (Inr mem_sftp, w)) example_ssh (\<lambda>_. None) ''a/x'' (bytes_reader [9]) example_fs"
  have "fst ?run = Inr 1" by code_simp
  then obtain w' where run: "?run = (Inr 1, w')" by (metis prod.collapse)
  have key: "key_ok ''a/x''" "sh_cwd example_ssh \<noteq> ''''" "\<not> HasPrefix (last (path_segs ''a/x'')) ''.copy-''"
    by (simp add: key_ok_def path_simps, code_simp+)
  have dst: "path_Join (sh_cwd example_ssh) ''a/x'' = ''/d/a/x''" by code_simp
  have nd: "mem_view example_fs (path_Join (sh_cwd example_ssh) ''a/x'') \<noteq> Some DirNode" by code_simp
  have "mem_view example_fs ''/d/a/s/y'' = Some (FileNode [3])" by code_simp
  with ssh_PutObject_effect [OF mem_store.sftp_store_axioms example_sane key(2,1,3) nd run] run show ?thesis
    by (simp add: dst)
qed

text \<open>
  C40. Copying an object over SFTP to a key that is not a name of a temporary file. When the source is no
  file the copy fails and changes nothing. Otherwise everything that existed is as it was, but for the
  destination: a copy that succeeds leaves the source's bytes there and counts them, and one that fails
  leaves the previous content there or, when it could not be moved back, under a name that was free.
\<close>

theorem ssh_Copy_effect:
  assumes "sftp_store c view sane client" "sane w" "sh_cwd s \<noteq> ''''" "key_ok d"
    and "\<not> HasPrefix (last (path_segs d)) ''.copy-''"
    and "ssh_Copy client s ctx k d opts w = (r, w')"
  shows "case view w (path_Join (sh_cwd s) k) of
      Some (FileNode b) \<Rightarrow>
        (\<forall>q. q \<noteq> path_Join (sh_cwd s) d \<longrightarrow> view w q \<noteq> None \<longrightarrow> view w' q = view w q) \<and>
        (case r of
           Inr st \<Rightarrow> view w' (path_Join (sh_cwd s) d) = Some (FileNode b) \<and>
             (path_Join (sh_cwd s) k \<noteq> path_Join (sh_cwd s) d \<longrightarrow> Bytes st = wrap64 (int (length b)))
         | Inl e \<Rightarrow> view w' (path_Join (sh_cwd s) d) = view w (path_Join (sh_cwd s) d) \<or>
             (\<exists>aside nd. view w (path_Join (sh_cwd s) d) = Some nd \<and> view w' (path_Join (sh_cwd s) d) = None \<and>
                view w aside = None \<and> view w' aside = Some nd))
    | _ \<Rightarrow> view w' = view w \<and> isl r"
  using sftp_store.ssh_copy_spec [OF assms(1,2) refl assms(3-5) refl assms(6)]
  by (cases r) (auto simp: only_new_def not_lost_def split: option.splits node.splits)

theorem ssh_Copy_effect_witness:
  "\<exists>st w'. ssh_Copy (\<lambda>_ w. (Inr mem_sftp, w)) example_ssh (\<lambda>_. None) ''a/s/y'' ''a/x'' [] example_fs = (Inr st, w') \<and>
     mem_view w' ''/d/a/x'' = Some (FileNode [3]) \<and> Bytes st = 1"
proof -
  let ?run = "ssh_Copy (\<lambda>_ w. (Inr mem_sftp, w)) example_ssh (\<lambda>_. None) ''a/s/y'' ''a/x'' [] example_fs"
  have "fst ?run = Inr \<lparr>Bytes = 1, Streamed = True, Objects = 0\<rparr>" by code_simp
  then obtain w' where run: "?run = (Inr \<lparr>Bytes = 1, Streamed = True, Objects = 0\<rparr>, w')" by (metis prod.collapse)
  have key: "key_ok ''a/x''" "sh_cwd example_ssh \<noteq> ''''" "\<not> HasPrefix (last (path_segs ''a/x'')) ''.copy-''"
    by (simp add: key_ok_def path_simps, code_simp+)
  have dst: "path_Join (sh_cwd example_ssh) ''a/x'' = ''/d/a/x''" "path_Join (sh_cwd example_ssh) ''a/s/y'' = ''/d/a/s/y''"
    by code_simp+
  have "mem_view example_fs ''/d/a/s/y'' = Some (FileNode [3])" by code_simp
  with ssh_Copy_effect [OF mem_store.sftp_store_axioms example_sane key(2,1,3) run] run show ?thesis
    by (simp add: dst)
qed

section \<open>Deleting\<close>

text \<open>
  \<open>Delete\<close> of files removes them all when it reports success, and only them in any case; when a path
  is no file it removes nothing and names exactly the paths that are none.
\<close>

theorem ssh_Delete_outcome:
  assumes "sftp_store c view sane client" "sane w" "ssh_Delete client s ctx fps w = (r, w')"
  shows "if list_all (sftp_store.is_file view s w) fps
    then wiped (view w) (\<lambda>q. q \<in> path_Join (sh_cwd s) ` set fps) r (view w')
    else view w' = view w \<and> isl r \<and> (isl (fst (client ctx w)) \<or>
      (\<forall>ms. r = Inl (MissingObjectsError ms) \<longrightarrow> ms = filter (\<lambda>fp. \<not> sftp_store.is_file view s w fp) fps))"
  using sftp_store.ssh_delete_spec [OF assms] by (simp split: if_splits)

text \<open>
  On a server whose directories nest at most \<open>m\<close> deep under the prefix, \<open>DeleteAll\<close> returns, never
  touches anything outside the subtree of the prefix, and on success leaves nothing of it.
\<close>

theorem ssh_DeleteAll_exact:
  assumes "sftp_store c view sane client" "sane w" "path_Join (sh_cwd s) prefix \<noteq> ''''"
    and "dir_deep (view w) (path_Join (sh_cwd s) prefix) m"
  shows "\<exists>r w'. ssh_DeleteAll (Suc (Suc m)) client s ctx prefix w = Some (r, w') \<and>
    wiped (view w) (below (path_Join (sh_cwd s) prefix)) r (view w')"
  using sftp_store.ssh_deleteall_spec [OF assms(1,2) refl assms(3,4)] by blast

end
