(* ===== verification/Http_Text.thy ===== *)
theory Http_Text
  imports Storager
begin

text \<open>
  The text an object store request carries: decimal numbers (\<^verbatim>\<open>%d\<close>), the \<^verbatim>\<open>Range\<close> header of a
  range read, query escaping (\<^verbatim>\<open>url.QueryEscape\<close>, with spaces as \<^verbatim>\<open>%20\<close>) and the copy source of
  \<^verbatim>\<open>s3/storage.go\<close>. What a server reads out of each of them is defined beside it, and the properties
  say that it reads what was meant.
\<close>

section \<open>Decimal numbers\<close>

definition digit :: "nat \<Rightarrow> char" where
  "digit d = char_of (48 + d)"

fun dec_nat :: "nat \<Rightarrow> string" where
  "dec_nat n = (if n < 10 then [digit n] else dec_nat (n div 10) @ [digit (n mod 10)])"

declare dec_nat.simps [simp del]

definition fmt_d :: "int \<Rightarrow> string" where
  "fmt_d i = (if i < 0 then CHR ''-'' # dec_nat (nat (- i)) else dec_nat (nat i))"

text \<open>Reading a number: \<open>None\<close> unless the text is digits only.\<close>

definition is_digit :: "char \<Rightarrow> bool" where
  "is_digit c \<longleftrightarrow> 48 \<le> (of_char c :: nat) \<and> (of_char c :: nat) \<le> 57"

definition read_nat :: "string \<Rightarrow> nat option" where
  "read_nat s =
     (if s \<noteq> [] \<and> list_all is_digit s then Some (foldl (\<lambda>n c. 10 * n + (of_char c - 48)) 0 s) else None)"

lemma of_char_digit [simp]: "d < 10 \<Longrightarrow> of_char (digit d) = 48 + d"
  by (simp add: digit_def)

lemma dec_nat_digits: "list_all is_digit (dec_nat n) \<and> dec_nat n \<noteq> []"
proof (induction n rule: dec_nat.induct)
  case (1 n)
  have "is_digit (digit d)" if "d < 10" for d using that by (simp add: is_digit_def)
  then show ?case using 1 by (cases "n < 10") (simp_all add: dec_nat.simps [of n])
qed

lemma read_dec_nat: "read_nat (dec_nat n) = Some n"
proof -
  have "foldl (\<lambda>n c. 10 * n + (of_char c - 48)) 0 (dec_nat n) = n"
  proof (induction n rule: dec_nat.induct)
    case (1 n)
    then show ?case by (subst dec_nat.simps) auto
  qed
  then show ?thesis using dec_nat_digits [of n] by (simp add: read_nat_def)
qed

lemma dec_nat_no_dash: "CHR ''-'' \<notin> set (dec_nat n)"
proof
  assume "CHR ''-'' \<in> set (dec_nat n)"
  then have "is_digit (CHR ''-'')" using dec_nat_digits [of n] by (auto simp: list_all_iff)
  then show False by (simp add: is_digit_def)
qed

section \<open>Range headers\<close>

definition byteRangeHeader :: "int64 \<Rightarrow> int64 \<Rightarrow> string" where
  "byteRangeHeader off len =
     (if len < 0 \<or> off > sub64 MaxInt64 len then ''bytes='' @ fmt_d off @ ''-''
      else ''bytes='' @ fmt_d off @ ''-'' @ fmt_d (sub64 (add64 off len) 1))"

text \<open>
  A server's reading of the header (RFC 9110): both ends are inclusive, an end past the object is
  clamped, and \<open>None\<close> is an unsatisfiable range.
\<close>

definition read_range :: "string \<Rightarrow> (nat \<times> nat option) option" where
  "read_range h =
     (if \<not> HasPrefix h ''bytes='' then None
      else case Split (CHR ''-'') (TrimPrefix h ''bytes='') of
        [a, b] \<Rightarrow>
          (case read_nat a of
             None \<Rightarrow> None
           | Some i \<Rightarrow>
               if b = '''' then Some (i, None)
               else (case read_nat b of None \<Rightarrow> None | Some j \<Rightarrow> if j < i then None else Some (i, Some j)))
      | _ \<Rightarrow> None)"

definition serve_range :: "string \<Rightarrow> bytes \<Rightarrow> bytes option" where
  "serve_range h b =
     (case read_range h of
        None \<Rightarrow> None
      | Some (i, e) \<Rightarrow>
          if length b \<le> i then None
          else Some (case e of None \<Rightarrow> drop i b | Some j \<Rightarrow> take (Suc j - i) (drop i b)))"

lemma read_range_open: "read_range (''bytes='' @ dec_nat i @ ''-'') = Some (i, None)"
proof -
  have "Split (CHR ''-'') (dec_nat i @ ''-'') = [dec_nat i, '''']"
    by (simp add: Split_append_sep Split_no_sep dec_nat_no_dash)
  then show ?thesis
    using TrimPrefix_append [of "''bytes=''" "dec_nat i @ ''-''"] HasPrefix_append [of "''bytes=''" "dec_nat i @ ''-''"]
    by (simp add: read_range_def read_dec_nat del: append.simps HasPrefix_Cons)
qed

lemma read_range_closed:
  assumes "i \<le> j"
  shows "read_range (''bytes='' @ dec_nat i @ ''-'' @ dec_nat j) = Some (i, Some j)"
proof -
  have "Split (CHR ''-'') (dec_nat i @ ''-'' @ dec_nat j) = [dec_nat i, dec_nat j]"
    by (simp add: Split_append_sep Split_no_sep dec_nat_no_dash)
  then show ?thesis
    using assms dec_nat_digits [of j] TrimPrefix_append [of "''bytes=''" "dec_nat i @ ''-'' @ dec_nat j"]
      HasPrefix_append [of "''bytes=''" "dec_nat i @ ''-'' @ dec_nat j"]
    by (simp add: read_range_def read_dec_nat del: append.simps HasPrefix_Cons)
qed

lemma byteRangeHeader_served:
  assumes "0 \<le> off" "in64 len" "len \<noteq> 0" "int (length b) \<le> MaxInt64"
  shows "serve_range (byteRangeHeader off len) b =
    (if off < int (length b) then Some (clamped off len b) else None)"
proof (cases "len < 0 \<or> off > MaxInt64 - len")
  case True
  have "byteRangeHeader off len = ''bytes='' @ dec_nat (nat off) @ ''-''"
  proof (cases "len < 0")
    case False
    then have "sub64 MaxInt64 len = MaxInt64 - len"
      using assms(2) by (intro sub64_id) (simp add: in64_iff MaxInt64_def)
    with True False assms(1) show ?thesis by (simp add: byteRangeHeader_def fmt_d_def)
  qed (use assms(1) in \<open>simp add: byteRangeHeader_def fmt_d_def\<close>)
  moreover have "clamped off len b = drop (nat off) b"
  proof (cases "len < 0")
    case False
    then have "length (drop (nat off) b) \<le> nat len" using True assms by simp
    with False show ?thesis by (simp add: clamped_def)
  qed (simp add: clamped_def)
  ultimately show ?thesis using assms by (auto simp: serve_range_def read_range_open [simplified])
next
  case False
  then have len: "0 < len" "off + len \<le> MaxInt64" using assms by simp_all
  then have e: "sub64 (add64 off len) 1 = off + len - 1"
    using assms by (simp add: go64 in64_iff MaxInt64_def)
  have "byteRangeHeader off len = ''bytes='' @ dec_nat (nat off) @ ''-'' @ dec_nat (nat (off + len - 1))"
    using False len assms e by (auto simp: byteRangeHeader_def fmt_d_def sub64_def in64_def MinInt64_def MaxInt64_def)
  moreover have "nat off \<le> nat (off + len - 1)" "Suc (nat (off + len - 1)) - nat off = nat len"
    using len assms by linarith+
  ultimately show ?thesis
    using assms len by (auto simp: serve_range_def read_range_closed [simplified] clamped_def)
qed

text \<open>
  C36. The \<^verbatim>\<open>Range\<close> header of a range read means the range asked for: for every offset and every
  length the backends let through, however large, a server answers it with the slice of the object
  clamped to its end, and finds it unsatisfiable exactly when the offset is at or past the end.
\<close>

theorem byteRangeHeader_slice:
  assumes "0 \<le> off" "off \<le> MaxInt64" "in64 len" "len \<noteq> 0" "int (length b) \<le> MaxInt64"
  shows "serve_range (byteRangeHeader off len) b =
    (if off < int (length b) then Some (clamped off len b) else None)"
  using assms(1,3-5) by (rule byteRangeHeader_served)

theorem byteRangeHeader_slice_witness:
  "serve_range (byteRangeHeader 2 9223372036854775807) [1, 2, 3, 4] = Some [3, 4]"
  using byteRangeHeader_slice [of 2 9223372036854775807 "[1, 2, 3, 4]"]
  by (simp add: MaxInt64_def in64_iff clamped_def)


section \<open>Escaping\<close>

definition unreserved :: "char \<Rightarrow> bool" where
  "unreserved c \<longleftrightarrow> (let n = (of_char c :: nat) in
     65 \<le> n \<and> n \<le> 90 \<or> 97 \<le> n \<and> n \<le> 122 \<or> 48 \<le> n \<and> n \<le> 57 \<or> c \<in> set ''-_.~'')"

definition hex_digit :: "nat \<Rightarrow> char" where
  "hex_digit d = ''0123456789ABCDEF'' ! d"

definition QueryEscape :: "string \<Rightarrow> string" where
  "QueryEscape s = concat (map (\<lambda>c.
     if c = CHR '' '' then ''+''
     else if unreserved c then [c]
     else [CHR ''%'', hex_digit (of_char c div 16), hex_digit (of_char c mod 16)]) s)"

definition ReplaceAll :: "char \<Rightarrow> string \<Rightarrow> string \<Rightarrow> string" where
  "ReplaceAll x by s = concat (map (\<lambda>c. if c = x then by else [c]) s)"

definition copySource :: "string \<Rightarrow> string \<Rightarrow> string" where
  "copySource bucket key =
     bucket @ ''/'' @ Join_str ''/'' (map (\<lambda>seg. ReplaceAll (CHR ''+'') ''%20'' (QueryEscape seg)) (Split (CHR ''/'') key))"

text \<open>
  \<^verbatim>\<open>url.Values.Encode\<close> of a set of tags, set one after the other: a repeated key keeps its last
  value, and keys are sorted.
\<close>

definition encode_tags :: "(string \<times> string) list \<Rightarrow> string" where
  "encode_tags tags =
     ReplaceAll (CHR ''+'') ''%20'' (Join_str ''&''
       (map (\<lambda>k. QueryEscape k @ ''='' @ QueryEscape (the (map_of (rev tags) k))) (sort (remdups (map fst tags)))))"

text \<open>A server's reading: what stands before the first slash is the bucket, the rest is percent-decoded.\<close>

definition hex_value :: "char \<Rightarrow> nat" where
  "hex_value c = (let n = of_char c in if n \<le> 57 then n - 48 else n - 55)"

fun percent_decode :: "string \<Rightarrow> string" where
  "percent_decode [] = []"
| "percent_decode [c] = [c]"
| "percent_decode [c, d] = [c, d]"
| "percent_decode (c # a # b # s) =
     (if c = CHR ''%'' then char_of (16 * hex_value a + hex_value b) # percent_decode s
      else c # percent_decode (a # b # s))"

definition read_copy_source :: "string \<Rightarrow> string \<times> string" where
  "read_copy_source s =
     (takeWhile (\<lambda>c. c \<noteq> CHR ''/'') s, percent_decode (tl (dropWhile (\<lambda>c. c \<noteq> CHR ''/'') s)))"

lemma percent_decode_plain: "c \<noteq> CHR ''%'' \<Longrightarrow> percent_decode (c # s) = c # percent_decode s"
  by (cases "c # s" rule: percent_decode.cases) auto

lemma hex_value_digit: "d < 16 \<Longrightarrow> hex_value (hex_digit d) = d"
proof -
  have "\<forall>d < 16. hex_value (hex_digit d) = d" by code_simp
  then show "d < 16 \<Longrightarrow> hex_value (hex_digit d) = d" by blast
qed

definition escaped_char :: "char \<Rightarrow> string" where
  "escaped_char c = ReplaceAll (CHR ''+'') ''%20'' (QueryEscape [c])"

lemma hex_digit_no_plus: "d < 16 \<Longrightarrow> hex_digit d \<noteq> CHR ''+'' \<and> hex_digit d \<noteq> CHR ''/''"
proof -
  have "\<forall>d < 16. hex_digit d \<noteq> CHR ''+'' \<and> hex_digit d \<noteq> CHR ''/''" by code_simp
  then show "d < 16 \<Longrightarrow> hex_digit d \<noteq> CHR ''+'' \<and> hex_digit d \<noteq> CHR ''/''" by blast
qed

lemma escaped_concat: "ReplaceAll (CHR ''+'') ''%20'' (QueryEscape s) = concat (map escaped_char s)"
  by (induction s) (simp_all add: escaped_char_def QueryEscape_def ReplaceAll_def)

lemma of_char_hex: "(of_char c :: nat) div 16 < 16" "(of_char c :: nat) mod 16 < 16"
proof -
  have "(of_char c :: nat) < 256" by simp
  then show "(of_char c :: nat) div 16 < 16" by (simp add: div_less_iff_less_mult)
qed simp

lemma decode_escaped_char: "percent_decode (escaped_char c @ s) = c # percent_decode s"
proof -
  have un: "c \<noteq> CHR ''%'' \<and> c \<noteq> CHR ''+''" if "unreserved c"
    using that by (auto simp: unreserved_def Let_def)
  consider "c = CHR '' ''" | "c \<noteq> CHR '' ''" "unreserved c" | "c \<noteq> CHR '' ''" "\<not> unreserved c" by blast
  then show ?thesis
  proof cases
    case 1
    have "char_of (16 * hex_value (CHR ''2'') + hex_value (CHR ''0'')) = CHR '' ''" by code_simp
    with 1 show ?thesis by (simp add: escaped_char_def QueryEscape_def ReplaceAll_def)
  next
    case 2
    then show ?thesis
      using un by (simp add: escaped_char_def QueryEscape_def ReplaceAll_def percent_decode_plain)
  next
    case 3
    let ?h = "hex_digit (of_char c div 16)" and ?l = "hex_digit (of_char c mod 16)"
    have "escaped_char c = [CHR ''%'', ?h, ?l]"
      using 3 hex_digit_no_plus [OF of_char_hex(1) [of c]] hex_digit_no_plus [OF of_char_hex(2) [of c]]
      by (simp add: escaped_char_def QueryEscape_def ReplaceAll_def)
    moreover have "(16 * hex_value ?h + hex_value ?l :: nat) = of_char c"
      by (simp add: hex_value_digit of_char_hex)
    ultimately show ?thesis by simp
  qed
qed

lemma decode_escaped: "percent_decode (concat (map escaped_char s) @ r) = s @ percent_decode r"
  by (induction s) (simp_all add: decode_escaped_char)

lemma decode_segments:
  "percent_decode (Join_str ''/'' (map (\<lambda>seg. concat (map escaped_char seg)) segs)) = Join_str ''/'' segs"
proof (induction segs rule: induct_list012)
  case (2 s)
  then show ?case using decode_escaped [of s "[]"] by simp
next
  case (3 s t ss)
  then show ?case by (simp add: decode_escaped percent_decode_plain)
qed simp

lemma copySource_decoded:
  assumes "CHR ''/'' \<notin> set bucket"
  shows "read_copy_source (copySource bucket key) = (bucket, key)"
proof -
  let ?rest = "Join_str ''/'' (map (\<lambda>seg. concat (map escaped_char seg)) (Split (CHR ''/'') key))"
  have "copySource bucket key = bucket @ CHR ''/'' # ?rest"
    by (simp add: copySource_def escaped_concat)
  moreover have "takeWhile (\<lambda>c. c \<noteq> CHR ''/'') (bucket @ CHR ''/'' # r) = bucket \<and>
    dropWhile (\<lambda>c. c \<noteq> CHR ''/'') (bucket @ CHR ''/'' # r) = CHR ''/'' # r" for r
    using assms by (induction bucket) auto
  ultimately show ?thesis by (simp add: read_copy_source_def decode_segments Join_Split)
qed

text \<open>
  C37. The copy source names the object meant: for a bucket name without a slash and any key, with
  whatever bytes, a server that takes what stands before the first slash as the bucket and
  percent-decodes the rest reads exactly that bucket and that key.
\<close>

theorem copySource_roundtrip:
  assumes "CHR ''/'' \<notin> set bucket"
  shows "read_copy_source (copySource bucket key) = (bucket, key)"
  using assms by (rule copySource_decoded)

theorem copySource_roundtrip_witness:
  "read_copy_source (copySource ''bk'' ''a b/c+d%'') = (''bk'', ''a b/c+d%'')"
  by (rule copySource_roundtrip) simp

end
