(* ===== verification/S3.thy ===== *)
theory S3
  imports Walk Http_Text
begin

text \<open>
  \<^verbatim>\<open>s3/config.go\<close> and \<^verbatim>\<open>s3/storage.go\<close>: the S3 backend. The AWS SDK is a parameter: \<open>s3api\<close> holds
  the calls of the \<^verbatim>\<open>s3API\<close> and \<^verbatim>\<open>uploaderAPI\<close> interfaces, the SDK's paginator and the constants
  of its transfer manager; \<open>s3_New\<close> returns what the client is built from. An SDK error is an
  \<open>APIError\<close> with its code and the HTTP status of the response; the typed errors
  \<^verbatim>\<open>NoSuchKey\<close> and \<^verbatim>\<open>NotFound\<close> are those with that code. Logging is left out. A listing asks for
  pages until the server says there are no more, so it has fuel, one unit per page.
\<close>

section \<open>Configuration\<close>

record s3_config =
  s3_Endpoint :: string
  Bucket :: string
  s3_Prefix :: string
  Region :: string
  StorageClass :: string
  DisableSSL :: bool
  AccessKeyId :: string
  SecretAccessKey :: string
  SessionToken :: string
  RoleArn :: string
  SessionName :: string
  s3_MaxRetries :: int64
  CertFile :: string
  MaxPartSize :: int64
  s3_Concurrency :: int64
  UseListObjectsV1 :: bool
  ForcePathStyle :: bool
  UseAccelerate :: bool
  NoVerifySsl :: bool
  SSE :: string
  KMSKeyARN :: string
  BucketKeyEnabled :: bool

definition zero_s3_config :: s3_config where
  "zero_s3_config =
     \<lparr>s3_Endpoint = '''', Bucket = '''', s3_Prefix = '''', Region = '''', StorageClass = '''', DisableSSL = False,
      AccessKeyId = '''', SecretAccessKey = '''', SessionToken = '''', RoleArn = '''', SessionName = '''',
      s3_MaxRetries = 0, CertFile = '''', MaxPartSize = 0, s3_Concurrency = 0, UseListObjectsV1 = False,
      ForcePathStyle = False, UseAccelerate = False, NoVerifySsl = False, SSE = '''', KMSKeyARN = '''',
      BucketKeyEnabled = False\<rparr>"

definition s3_applyDefaults :: "s3_config \<Rightarrow> s3_config" where
  "s3_applyDefaults c =
     (let c1 = (if StorageClass c = '''' then c\<lparr>StorageClass := ''STANDARD''\<rparr> else c);
          c2 = (if s3_MaxRetries c1 = 0 then c1\<lparr>s3_MaxRetries := 3\<rparr> else c1) in
      if MaxPartSize c2 = 0 then c2\<lparr>MaxPartSize := 50 * 1024 * 1024\<rparr> else c2)"

definition s3_DefaultConfig :: s3_config where
  "s3_DefaultConfig = s3_applyDefaults (zero_s3_config\<lparr>ForcePathStyle := True\<rparr>)"

definition sseIsKMS :: "s3_config \<Rightarrow> bool" where
  "sseIsKMS c \<longleftrightarrow> SSE c = ''aws:kms'' \<or> SSE c = ''aws:kms:dsse''"

definition s3_Validate :: "s3_config \<Rightarrow> error option" where
  "s3_Validate c =
     (if SSE c \<notin> {'''', ''AES256'', ''aws:kms'', ''aws:kms:dsse''} then Some (ErrorString ''unknown sse'')
      else if sseIsKMS c then None
      else if KMSKeyARN c \<noteq> '''' then Some (ErrorString ''kms key arn requires sse to be kms'')
      else if BucketKeyEnabled c then Some (ErrorString ''bucket key enabled requires sse to be kms'')
      else None)"

record encryption =
  sse_mode :: string
  sse_kmsKeyID :: "string option"
  sse_bucketKey :: "bool option"

definition s3_encryption :: "s3_config \<Rightarrow> encryption" where
  "s3_encryption c =
     (if SSE c = '''' then \<lparr>sse_mode = '''', sse_kmsKeyID = None, sse_bucketKey = None\<rparr>
      else
        \<lparr>sse_mode = SSE c,
         sse_kmsKeyID = (if KMSKeyARN c \<noteq> '''' then Some (KMSKeyARN c) else None),
         sse_bucketKey = (if BucketKeyEnabled c then Some True else None)\<rparr>)"

section \<open>Opening\<close>

definition s3_fixPrefix :: "string \<Rightarrow> string" where
  "s3_fixPrefix prefix = (if prefix \<noteq> '''' \<and> last prefix \<noteq> CHR ''/'' then prefix @ ''/'' else prefix)"

record s3_storage =
  s3_cfg :: s3_config
  s3_prefix :: string
  s3_delimiter :: string
  s3_awsLogMode :: "64 word"
  s3_unsafe :: bool

definition s3_WithUnsafe :: "s3_storage \<Rightarrow> s3_storage" where
  "s3_WithUnsafe s = s\<lparr>s3_unsafe := True\<rparr>"

definition s3_WithAWSLogLevel :: "64 word \<Rightarrow> s3_storage \<Rightarrow> s3_storage" where
  "s3_WithAWSLogLevel level s = s\<lparr>s3_awsLogMode := level\<rparr>"

text \<open>What the SDK's configuration is loaded with, and what the client is then built from.\<close>

datatype load_option =
    WithRegion string
  | WithRetryMaxAttempts int64
  | WithClientLogMode "64 word"
  | WithInsecureTLS
  | WithCustomCABundle string
  | WithStaticCredentials string string string

record s3_client =
  cl_load :: "load_option list"
  cl_role :: "(string \<times> string) option"
  cl_pathStyle :: bool
  cl_accelerate :: bool
  cl_endpoint :: "string option"
  cl_partSize :: int64
  cl_concurrency :: int64

definition s3_New ::
  "(string \<Rightarrow> error option) \<Rightarrow> (load_option list \<Rightarrow> error option) \<Rightarrow> s3_config \<Rightarrow> (s3_storage \<Rightarrow> s3_storage) list \<Rightarrow>
    error + (s3_storage gstore \<times> s3_client)" where
  "s3_New openCert loadConfig cfg0 opts =
     (let cfg = s3_applyDefaults cfg0 in
      case s3_Validate cfg of
        Some err \<Rightarrow> Inl (Errorf ''invalid s3 config'' [err])
      | None \<Rightarrow>
          let s = foldl (\<lambda>s opt. opt s)
                \<lparr>s3_cfg = cfg, s3_prefix = '''', s3_delimiter = '''', s3_awsLogMode = 0, s3_unsafe = False\<rparr> opts;
              loadOpts = (if Region cfg \<noteq> '''' then [WithRegion (Region cfg)] else []) @
                [WithRetryMaxAttempts (s3_MaxRetries cfg)] @
                (if s3_awsLogMode s \<noteq> 0 then [WithClientLogMode (s3_awsLogMode s)] else []) @
                (if NoVerifySsl cfg then [WithInsecureTLS] else []);
              creds = (if SecretAccessKey cfg \<noteq> '''' \<and> AccessKeyId cfg \<noteq> '''' \<and> RoleArn cfg = ''''
                then [WithStaticCredentials (AccessKeyId cfg) (SecretAccessKey cfg) (SessionToken cfg)] else [])
          in
          (case (if CertFile cfg \<noteq> '''' then openCert (CertFile cfg) else None) of
             Some err \<Rightarrow> Inl (Errorf ''cannot open certFile'' [err])
           | None \<Rightarrow>
               let load = loadOpts @ (if CertFile cfg \<noteq> '''' then [WithCustomCABundle (CertFile cfg)] else []) @ creds in
               (case loadConfig load of
                  Some err \<Rightarrow> Inl (Errorf ''cannot load aws config'' [err])
                | None \<Rightarrow>
                    let s1 = s\<lparr>s3_prefix := s3_fixPrefix (s3_Prefix cfg)\<rparr> in
                    Inr (if s3_unsafe s1 then Bare s1 else Guard (Bare s1),
                      \<lparr>cl_load = load,
                       cl_role = (if RoleArn cfg \<noteq> '''' then Some (RoleArn cfg, SessionName cfg) else None),
                       cl_pathStyle = ForcePathStyle cfg, cl_accelerate = UseAccelerate cfg,
                       cl_endpoint = (if s3_Endpoint cfg \<noteq> '''' then Some (s3_Endpoint cfg) else None),
                       cl_partSize = MaxPartSize cfg, cl_concurrency = s3_Concurrency cfg\<rparr>))))"

section \<open>Errors of the service\<close>

definition s3_isNotFound :: "error \<Rightarrow> bool" where
  "s3_isNotFound err = (case api_error err of
     Some (code, _) \<Rightarrow> code = ''NotFound'' \<or> code = ''NoSuchKey'' | None \<Rightarrow> False)"

definition s3_isInvalidRange :: "error \<Rightarrow> bool" where
  "s3_isInvalidRange err = (case api_error err of
     Some (code, status) \<Rightarrow> code = ''InvalidRange'' \<or> status = 416 | None \<Rightarrow> False)"

definition s3_isPreconditionFailed :: "error \<Rightarrow> bool" where
  "s3_isPreconditionFailed err = (case api_error err of
     Some (code, status) \<Rightarrow> code = ''PreconditionFailed'' \<or> status = 412 | None \<Rightarrow> False)"

section \<open>The service\<close>

record s3_object =
  so_Key :: string
  so_LastModified :: int
  so_Size :: int64
  so_ETag :: string

record s3_page =
  pg_CommonPrefixes :: "string list"
  pg_Contents :: "s3_object list"
  pg_IsTruncated :: bool
  pg_NextMarker :: string

record list_input =
  li_Bucket :: string
  li_Prefix :: string
  li_Delimiter :: "string option"
  li_Marker :: "string option"

record s3_headers =
  hd_CacheControl :: "string option"
  hd_ContentDisposition :: "string option"
  hd_ContentEncoding :: "string option"
  hd_ContentLanguage :: "string option"
  hd_ContentType :: "string option"
  hd_Expires :: "int option"
  hd_Metadata :: "(string \<times> string) list"

record s3_head =
  ho_ContentLength :: int64
  ho_ETag :: "string option"
  ho_LastModified :: int
  ho_headers :: s3_headers
  ho_TagCount :: int
  ho_VersionId :: "string option"

record upload_input =
  ui_Bucket :: string
  ui_Key :: string
  ui_Body :: reader
  ui_StorageClass :: string
  ui_encryption :: encryption

record copy_input =
  ci_Bucket :: string
  ci_CopySource :: string
  ci_Key :: string
  ci_StorageClass :: string
  ci_IfMatch :: "string option"
  ci_encryption :: encryption

record create_input =
  cm_Bucket :: string
  cm_Key :: string
  cm_StorageClass :: string
  cm_headers :: s3_headers
  cm_Tagging :: "string option"
  cm_encryption :: encryption

record part_input =
  pi_Bucket :: string
  pi_Key :: string
  pi_UploadId :: string
  pi_PartNumber :: int
  pi_CopySource :: string
  pi_CopySourceRange :: string
  pi_IfMatch :: "string option"

record completed_part =
  cp_ETag :: "string option"
  cp_PartNumber :: "int option"

text \<open>
  \<open>sv_NextPageV2\<close> is one page of the SDK's paginator: it takes the continuation token the last page
  gave (none for the first page) and \<open>None\<close> is the token after the last page. \<open>sv_DeleteObjects\<close>
  returns the errors of single keys that its output carries. \<open>sv_Upload\<close> returns the number of
  bytes it read from the body.
\<close>

record 'w s3api =
  sv_ListObjects :: "'w ctx \<Rightarrow> list_input \<Rightarrow> ('w, s3_page) io"
  sv_NextPageV2 :: "'w ctx \<Rightarrow> list_input \<Rightarrow> string option \<Rightarrow> ('w, s3_page \<times> string option) io"
  sv_GetObject :: "'w ctx \<Rightarrow> string \<Rightarrow> string \<Rightarrow> string option \<Rightarrow> ('w, reader) io"
  sv_HeadObject :: "'w ctx \<Rightarrow> string \<Rightarrow> string \<Rightarrow> ('w, s3_head) io"
  sv_HeadBucket :: "'w ctx \<Rightarrow> string \<Rightarrow> ('w, unit) io"
  sv_DeleteObjects :: "'w ctx \<Rightarrow> string \<Rightarrow> string list \<Rightarrow> ('w, (string \<times> string) list) io"
  sv_GetObjectTagging :: "'w ctx \<Rightarrow> string \<Rightarrow> string \<Rightarrow> string option \<Rightarrow> ('w, (string \<times> string) list) io"
  sv_CopyObject :: "'w ctx \<Rightarrow> copy_input \<Rightarrow> ('w, unit) io"
  sv_CreateMultipartUpload :: "'w ctx \<Rightarrow> create_input \<Rightarrow> ('w, string) io"
  sv_UploadPartCopy :: "'w ctx \<Rightarrow> part_input \<Rightarrow> ('w, string option) io"
  sv_CompleteMultipartUpload :: "'w ctx \<Rightarrow> string \<Rightarrow> string \<Rightarrow> string \<Rightarrow> completed_part list \<Rightarrow> ('w, unit) io"
  sv_AbortMultipartUpload :: "'w ctx \<Rightarrow> string \<Rightarrow> string \<Rightarrow> string \<Rightarrow> ('w, unit) io"
  sv_Upload :: "'w ctx \<Rightarrow> upload_input \<Rightarrow> ('w, nat) io"
  sv_MaxUploadParts :: int64
  sv_MinUploadPartSize :: int64
  sv_DefaultUploadConcurrency :: int64


section \<open>Listing\<close>

text \<open>The marker the next page of the older listing call starts after; empty if there is none.\<close>

definition next_marker :: "s3_page \<Rightarrow> string" where
  "next_marker out =
     (if pg_NextMarker out = '''' \<and> pg_Contents out \<noteq> [] then so_Key (last (pg_Contents out)) else pg_NextMarker out)"

primrec pages_v1 ::
  "nat \<Rightarrow> 'w s3api \<Rightarrow> 'w ctx \<Rightarrow> list_input \<Rightarrow> s3_page list \<Rightarrow> 'w \<Rightarrow> ((error + s3_page list) \<times> 'w) option" where
  "pages_v1 0 sv ctx page acc w = None"
| "pages_v1 (Suc fuel) sv ctx page acc w =
     (case sv_ListObjects sv ctx page w of
        (Inl perr, w1) \<Rightarrow> Some (Inl (Errorf ''error listing s3 objects v1'' [perr]), w1)
      | (Inr out, w1) \<Rightarrow>
          if \<not> pg_IsTruncated out then Some (Inr (acc @ [out]), w1)
          else if next_marker out = '''' then Some (Inr (acc @ [out]), w1)
          else pages_v1 fuel sv ctx (page\<lparr>li_Marker := Some (next_marker out)\<rparr>) (acc @ [out]) w1)"

primrec pages_v2 ::
  "nat \<Rightarrow> 'w s3api \<Rightarrow> 'w ctx \<Rightarrow> list_input \<Rightarrow> string option \<Rightarrow> s3_page list \<Rightarrow> 'w \<Rightarrow>
    ((error + s3_page list) \<times> 'w) option" where
  "pages_v2 0 sv ctx page token acc w = None"
| "pages_v2 (Suc fuel) sv ctx page token acc w =
     (case sv_NextPageV2 sv ctx page token w of
        (Inl perr, w1) \<Rightarrow> Some (Inl (Errorf ''error listing s3 objects v2'' [perr]), w1)
      | (Inr (out, None), w1) \<Rightarrow> Some (Inr (acc @ [out]), w1)
      | (Inr (out, Some t), w1) \<Rightarrow> pages_v2 fuel sv ctx page (Some t) (acc @ [out]) w1)"

definition s3_pages ::
  "nat \<Rightarrow> 'w s3api \<Rightarrow> s3_storage \<Rightarrow> 'w ctx \<Rightarrow> string \<Rightarrow> string option \<Rightarrow> 'w \<Rightarrow> ((error + s3_page list) \<times> 'w) option" where
  "s3_pages fuel sv s ctx prefix delimiter w =
     (let page = \<lparr>li_Bucket = Bucket (s3_cfg s), li_Prefix = prefix, li_Delimiter = delimiter, li_Marker = None\<rparr> in
      if UseListObjectsV1 (s3_cfg s) then pages_v1 fuel sv ctx page [] w else pages_v2 fuel sv ctx page None [] w)"

definition s3_GetCwd :: "s3_storage \<Rightarrow> string" where
  "s3_GetCwd s = s3_prefix s"

definition s3_Dirname :: "s3_storage \<Rightarrow> string" where
  "s3_Dirname s = path_Base (s3_prefix s)"

definition DefaultS3ObjectsDelimiter :: string where
  "DefaultS3ObjectsDelimiter = ''/''"

definition s3_child :: "s3_storage \<Rightarrow> string \<Rightarrow> s3_storage" where
  "s3_child s prefix =
     \<lparr>s3_cfg = s3_cfg s, s3_prefix = s3_fixPrefix prefix, s3_delimiter = '''', s3_awsLogMode = 0, s3_unsafe = False\<rparr>"

definition s3_ListDir ::
  "nat \<Rightarrow> 'w s3api \<Rightarrow> s3_storage \<Rightarrow> 'w ctx \<Rightarrow> 'w \<Rightarrow> ((error + (string list \<times> s3_storage list)) \<times> 'w) option" where
  "s3_ListDir fuel sv s ctx w =
     (case s3_pages fuel sv s ctx (s3_prefix s) (Some DefaultS3ObjectsDelimiter) w of
        None \<Rightarrow> None
      | Some (Inl err, w1) \<Rightarrow> Some (Inl err, w1)
      | Some (Inr pages, w1) \<Rightarrow>
          Some (Inr (map (\<lambda>o'. TrimPrefix (so_Key o') (s3_prefix s)) (concat (map pg_Contents pages)),
                     map (s3_child s) (concat (map pg_CommonPrefixes pages))), w1))"

text \<open>What a listing keeps of one page: every key but the prefix itself, relative to it.\<close>

definition s3_collect :: "string \<Rightarrow> s3_object list \<Rightarrow> ObjectStat list" where
  "s3_collect fullPrefix contents =
     map (\<lambda>o'. \<lparr>Name = TrimPrefix (so_Key o') fullPrefix, LastModified = so_LastModified o', Exist = True,
                Size = so_Size o', ETag = so_ETag o'\<rparr>)
       (filter (\<lambda>o'. TrimPrefix (so_Key o') fullPrefix \<noteq> '''') contents)"

definition s3_List ::
  "nat \<Rightarrow> 'w s3api \<Rightarrow> s3_storage \<Rightarrow> 'w ctx \<Rightarrow> string \<Rightarrow> 'w \<Rightarrow> ((error + ObjectStat list) \<times> 'w) option" where
  "s3_List fuel sv s ctx prefix w =
     (let fullPrefix = s3_fixPrefix (path_Join (s3_prefix s) prefix) in
      case s3_pages fuel sv s ctx fullPrefix None w of
        None \<Rightarrow> None
      | Some (Inl err, w1) \<Rightarrow> Some (Inl err, w1)
      | Some (Inr pages, w1) \<Rightarrow> Some (Inr (concat (map (\<lambda>p. s3_collect fullPrefix (pg_Contents p)) pages)), w1))"

section \<open>Reading and writing\<close>

definition s3_GetObject :: "'w s3api \<Rightarrow> s3_storage \<Rightarrow> 'w ctx \<Rightarrow> string \<Rightarrow> ('w, reader) io" where
  "s3_GetObject sv s ctx filePath =
     tryIO (sv_GetObject sv ctx (Bucket (s3_cfg s)) (path_Join (s3_prefix s) filePath) None) (\<lambda>r. case r of
         Inl err \<Rightarrow> if s3_isNotFound err then throw ErrFileNotFound else throw (Errorf ''error getting object'' [err])
       | Inr body \<Rightarrow> ret body)"

definition s3_GetObjectRange ::
  "'w s3api \<Rightarrow> s3_storage \<Rightarrow> 'w ctx \<Rightarrow> string \<Rightarrow> int64 \<Rightarrow> int64 \<Rightarrow> ('w, reader) io" where
  "s3_GetObjectRange sv s ctx filePath off len =
     (if off < 0 \<or> len = 0 then throw ErrInvalidRange
      else tryIO (sv_GetObject sv ctx (Bucket (s3_cfg s)) (path_Join (s3_prefix s) filePath) (Some (byteRangeHeader off len)))
        (\<lambda>r. case r of
           Inl err \<Rightarrow>
             if s3_isNotFound err then throw ErrFileNotFound
             else if s3_isInvalidRange err then throw ErrInvalidRange
             else throw (Errorf ''error getting object range'' [err])
         | Inr body \<Rightarrow> ret body))"

definition s3_PutObject :: "'w s3api \<Rightarrow> s3_storage \<Rightarrow> 'w ctx \<Rightarrow> string \<Rightarrow> reader \<Rightarrow> ('w, nat) io" where
  "s3_PutObject sv s ctx filePath body =
     tryIO (sv_Upload sv ctx
       \<lparr>ui_Bucket = Bucket (s3_cfg s), ui_Key = path_Join (s3_prefix s) filePath, ui_Body = body,
        ui_StorageClass = StorageClass (s3_cfg s), ui_encryption = s3_encryption (s3_cfg s)\<rparr>) (\<lambda>r. case r of
         Inl err \<Rightarrow> throw (Errorf ''s3 object uploading error'' [err])
       | Inr n \<Rightarrow> ret n)"

section \<open>Copying\<close>

definition maxCopyObjectSize :: int64 where "maxCopyObjectSize = 5 * 2 ^ 30"

definition copyPartSize :: int64 where "copyPartSize = 512 * 2 ^ 20"

definition maxCopyPartSize :: int64 where "maxCopyPartSize = 5 * 2 ^ 30"

definition resolveCopyPartSize :: "'w s3api \<Rightarrow> CopyOptions \<Rightarrow> int64" where
  "resolveCopyPartSize sv o' =
     (if PartSize o' \<le> 0 then copyPartSize else min (max (PartSize o') (sv_MinUploadPartSize sv)) maxCopyPartSize)"

definition copyConcurrency :: "'w s3api \<Rightarrow> s3_storage \<Rightarrow> CopyOptions \<Rightarrow> int64" where
  "copyConcurrency sv s o' =
     (if Concurrency o' > 0 then Concurrency o'
      else if s3_Concurrency (s3_cfg s) > 0 then s3_Concurrency (s3_cfg s)
      else sv_DefaultUploadConcurrency sv)"

definition s3_copyObject ::
  "'w s3api \<Rightarrow> s3_storage \<Rightarrow> 'w ctx \<Rightarrow> string \<Rightarrow> string \<Rightarrow> string option \<Rightarrow> int64 \<Rightarrow> ('w, CopyStat) io" where
  "s3_copyObject sv s ctx srcKey dstKey etag sz =
     tryIO (sv_CopyObject sv ctx
       \<lparr>ci_Bucket = Bucket (s3_cfg s), ci_CopySource = copySource (Bucket (s3_cfg s)) srcKey, ci_Key = dstKey,
        ci_StorageClass = StorageClass (s3_cfg s), ci_IfMatch = etag, ci_encryption = s3_encryption (s3_cfg s)\<rparr>)
       (\<lambda>r. case r of
          Inl err \<Rightarrow>
            if s3_isNotFound err then throw ErrFileNotFound
            else if s3_isPreconditionFailed err then throw (Errorf '''' [ErrSourceChanged, err])
            else throw (Errorf ''s3 object copying error'' [err])
        | Inr _ \<Rightarrow> ret \<lparr>Bytes = sz, Streamed = False, Objects = 0\<rparr>)"

definition sourceTagging :: "'w s3api \<Rightarrow> s3_storage \<Rightarrow> 'w ctx \<Rightarrow> string \<Rightarrow> string option \<Rightarrow> ('w, string) io" where
  "sourceTagging sv s ctx srcKey versionID =
     tryIO (sv_GetObjectTagging sv ctx (Bucket (s3_cfg s)) srcKey versionID) (\<lambda>r. case r of
         Inl err \<Rightarrow> if s3_isNotFound err then throw ErrFileNotFound else throw (Errorf ''error getting object tags'' [err])
       | Inr tags \<Rightarrow> ret (encode_tags tags))"

definition wrap32 :: "int \<Rightarrow> int" where
  "wrap32 x = (x + 2 ^ 31) mod 2 ^ 32 - 2 ^ 31"

text \<open>
  One part: the range of part \<open>i\<close>, inclusive at both ends, and the task that copies it into the slot
  of the parts it shares with the others.
\<close>

definition part_range :: "int64 \<Rightarrow> int64 \<Rightarrow> nat \<Rightarrow> int64 \<times> int64" where
  "part_range sz partSize i =
     (let start = mul64 (int i) partSize in (start, sub64 (min (add64 start partSize) sz) 1))"

definition part_task ::
  "'w s3api \<Rightarrow> s3_storage \<Rightarrow> string \<Rightarrow> string \<Rightarrow> string \<Rightarrow> string option \<Rightarrow> int64 \<Rightarrow> int64 \<Rightarrow>
    'w ctx \<Rightarrow> nat \<Rightarrow> completed_part list \<Rightarrow> ('w, completed_part list) io" where
  "part_task sv s srcKey dstKey uploadID etag sz partSize ctx i parts =
     (let number = wrap32 (int (i + 1)); rng = part_range sz partSize i in
      tryIO (sv_UploadPartCopy sv ctx
        \<lparr>pi_Bucket = Bucket (s3_cfg s), pi_Key = dstKey, pi_UploadId = uploadID, pi_PartNumber = number,
         pi_CopySource = copySource (Bucket (s3_cfg s)) srcKey,
         pi_CopySourceRange = ''bytes='' @ fmt_d (fst rng) @ ''-'' @ fmt_d (snd rng), pi_IfMatch = etag\<rparr>)
        (\<lambda>r. case r of
           Inl err \<Rightarrow> throw (Errorf ''error copying part'' [err])
         | Inr partETag \<Rightarrow> ret (parts[i := \<lparr>cp_ETag = partETag, cp_PartNumber = Some number\<rparr>])))"

definition part_count :: "int64 \<Rightarrow> int64 \<Rightarrow> nat" where
  "part_count sz partSize = nat (quot64 (sub64 (add64 sz partSize) 1) partSize)"

type_synonym 'w part_group = "(nat, completed_part list, 'w) errgroup"

definition copyParts ::
  "('w part_group \<Rightarrow> nat) \<Rightarrow> 'w s3api \<Rightarrow> s3_storage \<Rightarrow> 'w ctx \<Rightarrow> string \<Rightarrow> string \<Rightarrow> string \<Rightarrow> string option \<Rightarrow>
    int64 \<Rightarrow> int64 \<Rightarrow> int64 \<Rightarrow> ('w, completed_part list) io" where
  "copyParts pick sv s ctx srcKey dstKey uploadID etag sz partSize concurrency w =
     (let count = part_count sz partSize;
          g = run_group pick
            \<lparr>e_ctx = ctx, e_task = part_task sv s srcKey dstKey uploadID etag sz partSize, e_limit = nat (max concurrency 1)\<rparr>
            \<lparr>g_queue = [0..<count], g_launched = [], g_inflight = [],
             g_shared = replicate count \<lparr>cp_ETag = None, cp_PartNumber = None\<rparr>, g_err = None, g_world = w\<rparr>
      in (case g_err g of Some err \<Rightarrow> Inl err | None \<Rightarrow> Inr (g_shared g), g_world g))"


text \<open>The part size that keeps the number of parts within the limit of the service.\<close>

definition multipart_size :: "int64 \<Rightarrow> int64 \<Rightarrow> int64 \<Rightarrow> int64" where
  "multipart_size parts sz partSize = max partSize (quot64 (sub64 (add64 sz parts) 1) parts)"

text \<open>\<^verbatim>\<open>multipartCopy\<close>: a failed copy is aborted, with a context that cannot end, and its error mapped.\<close>

definition multipart_failed :: "'w s3api \<Rightarrow> s3_storage \<Rightarrow> string \<Rightarrow> string \<Rightarrow> error \<Rightarrow> ('w, unit) io" where
  "multipart_failed sv s dstKey uploadID err =
     tryIO (sv_AbortMultipartUpload sv (\<lambda>_. None) (Bucket (s3_cfg s)) dstKey uploadID) (\<lambda>_.
       if s3_isNotFound err then throw ErrFileNotFound
       else if s3_isPreconditionFailed err then throw (Errorf '''' [ErrSourceChanged, err])
       else throw err)"

definition multipartCopy ::
  "('w part_group \<Rightarrow> nat) \<Rightarrow> 'w s3api \<Rightarrow> s3_storage \<Rightarrow> 'w ctx \<Rightarrow> string \<Rightarrow> string \<Rightarrow> s3_head \<Rightarrow> int64 \<Rightarrow> int64 \<Rightarrow>
    ('w, unit) io" where
  "multipartCopy pick sv s ctx srcKey dstKey head partSize0 concurrency =
     (let sz = ho_ContentLength head;
          partSize = multipart_size (sv_MaxUploadParts sv) sz partSize0 in
      bindIO (if ho_TagCount head > 0
              then bindIO (sourceTagging sv s ctx srcKey (ho_VersionId head)) (\<lambda>t. ret (Some t)) else ret None)
        (\<lambda>tagging.
          tryIO (sv_CreateMultipartUpload sv ctx
            \<lparr>cm_Bucket = Bucket (s3_cfg s), cm_Key = dstKey, cm_StorageClass = StorageClass (s3_cfg s),
             cm_headers = ho_headers head, cm_Tagging = tagging, cm_encryption = s3_encryption (s3_cfg s)\<rparr>)
            (\<lambda>r. case r of
               Inl err \<Rightarrow> throw (Errorf ''error starting multipart copy'' [err])
             | Inr upload \<Rightarrow>
                 tryIO (copyParts pick sv s ctx srcKey dstKey upload (ho_ETag head) sz partSize concurrency)
                   (\<lambda>r. case r of
                      Inl err \<Rightarrow> multipart_failed sv s dstKey upload err
                    | Inr parts \<Rightarrow>
                        tryIO (sv_CompleteMultipartUpload sv ctx (Bucket (s3_cfg s)) dstKey upload parts)
                          (\<lambda>r. case r of
                             Inl err \<Rightarrow>
                               multipart_failed sv s dstKey upload (Errorf ''error completing multipart copy'' [err])
                           | Inr _ \<Rightarrow> ret ())))))"

definition s3_Copy ::
  "('w part_group \<Rightarrow> nat) \<Rightarrow> 'w s3api \<Rightarrow> s3_storage \<Rightarrow> 'w ctx \<Rightarrow> string \<Rightarrow> string \<Rightarrow> CopyOption list \<Rightarrow>
    ('w, CopyStat) io" where
  "s3_Copy pick sv s ctx srcPath dstPath opts =
     (let srcKey = path_Join (s3_prefix s) srcPath; dstKey = path_Join (s3_prefix s) dstPath in
      tryIO (sv_HeadObject sv ctx (Bucket (s3_cfg s)) srcKey) (\<lambda>r. case r of
          Inl err \<Rightarrow> if s3_isNotFound err then throw ErrFileNotFound else throw (Errorf ''error getting object info'' [err])
        | Inr head \<Rightarrow>
            if srcKey = dstKey then ret zeroCopyStat
            else
              let stat = \<lparr>Bytes = ho_ContentLength head, Streamed = False, Objects = 0\<rparr> in
              if Bytes stat > maxCopyObjectSize then
                let o' = NewCopyOptions opts in
                bindIO (multipartCopy pick sv s ctx srcKey dstKey head (resolveCopyPartSize sv o') (copyConcurrency sv s o'))
                  (\<lambda>_. ret stat)
              else s3_copyObject sv s ctx srcKey dstKey (ho_ETag head) (Bytes stat)))"

definition s3_copyListed ::
  "('w part_group \<Rightarrow> nat) \<Rightarrow> 'w s3api \<Rightarrow> s3_storage \<Rightarrow> 'w ctx \<Rightarrow> ObjectStat \<Rightarrow> string \<Rightarrow> string \<Rightarrow> CopyOption list \<Rightarrow>
    ('w, CopyStat) io" where
  "s3_copyListed pick sv s ctx obj srcPath dstPath opts =
     (let srcKey = path_Join (s3_prefix s) srcPath; dstKey = path_Join (s3_prefix s) dstPath in
      if ETag obj \<noteq> '''' \<and> Size obj \<le> maxCopyObjectSize \<and> srcKey \<noteq> dstKey then
        tryIO (s3_copyObject sv s ctx srcKey dstKey (Some (ETag obj)) (Size obj)) (\<lambda>r. case r of
            Inl err \<Rightarrow> if errors_Is err ErrSourceChanged then s3_Copy pick sv s ctx srcPath dstPath opts else throw err
          | Inr stat \<Rightarrow> ret stat)
      else s3_Copy pick sv s ctx srcPath dstPath opts)"

definition s3_CopyAll ::
  "nat \<Rightarrow> ('w group \<Rightarrow> nat) \<Rightarrow> ('w part_group \<Rightarrow> nat) \<Rightarrow> 'w s3api \<Rightarrow> s3_storage \<Rightarrow> 'w ctx \<Rightarrow> string \<Rightarrow> string \<Rightarrow>
    CopyAllOption list \<Rightarrow> 'w \<Rightarrow> (CopyStat \<times> error option) \<times> 'w" where
  "s3_CopyAll fuel pick ppick sv s ctx srcPrefix dstPrefix opts =
     CopyListed pick (\<lambda>ctx' p. fueled (s3_List fuel sv s ctx' p)) ctx srcPrefix dstPrefix (s3_copyListed ppick sv s) opts"

section \<open>Deleting\<close>

definition deleteObjectsBatchSize :: nat where "deleteObjectsBatchSize = 1000"

text \<open>The check of \<^verbatim>\<open>Delete\<close>: the paths that name no object, in order.\<close>

fun s3_check :: "'w s3api \<Rightarrow> s3_storage \<Rightarrow> 'w ctx \<Rightarrow> string list \<Rightarrow> ('w, string list) io" where
  "s3_check sv s ctx [] = ret []"
| "s3_check sv s ctx (fp # fps) =
     tryIO (sv_HeadObject sv ctx (Bucket (s3_cfg s)) (path_Join (s3_prefix s) fp)) (\<lambda>r. case r of
         Inl err \<Rightarrow>
           if s3_isNotFound err then bindIO (s3_check sv s ctx fps) (\<lambda>missing. ret (fp # missing))
           else throw (Errorf ''error checking object'' [err])
       | Inr _ \<Rightarrow> s3_check sv s ctx fps)"

text \<open>
  The batches of \<^verbatim>\<open>deleteKnown\<close>. The output of a batch, which carries the keys the service could
  not delete, is dropped.
\<close>

function delete_batches :: "'w s3api \<Rightarrow> s3_storage \<Rightarrow> 'w ctx \<Rightarrow> string list \<Rightarrow> ('w, unit) io" where
  "delete_batches sv s ctx objs w =
     (if objs = [] then (Inr (), w)
      else (case sv_DeleteObjects sv ctx (Bucket (s3_cfg s)) (take deleteObjectsBatchSize objs) w of
          (Inl err, w1) \<Rightarrow> (Inl (Errorf ''error deleting objects'' [err]), w1)
        | (Inr _, w1) \<Rightarrow> delete_batches sv s ctx (drop deleteObjectsBatchSize objs) w1))"
  by pat_completeness auto
termination
  by (relation "measure (\<lambda>(sv, s, ctx, objs, w). length objs)") (auto simp: deleteObjectsBatchSize_def)

declare delete_batches.simps [simp del]

definition s3_deleteKnown :: "'w s3api \<Rightarrow> s3_storage \<Rightarrow> 'w ctx \<Rightarrow> string list \<Rightarrow> ('w, unit) io" where
  "s3_deleteKnown sv s ctx filePaths = delete_batches sv s ctx (map (path_Join (s3_prefix s)) filePaths)"

definition s3_Delete :: "'w s3api \<Rightarrow> s3_storage \<Rightarrow> 'w ctx \<Rightarrow> string list \<Rightarrow> ('w, unit) io" where
  "s3_Delete sv s ctx filePaths =
     bindIO (s3_check sv s ctx filePaths) (\<lambda>missing.
       if missing \<noteq> [] then throw (MissingObjectsError missing) else s3_deleteKnown sv s ctx filePaths)"

section \<open>The rest\<close>

definition s3_sub :: "s3_storage \<Rightarrow> string \<Rightarrow> bool \<Rightarrow> s3_storage" where
  "s3_sub s subPath relative =
     \<lparr>s3_cfg = s3_cfg s,
      s3_prefix = (if relative then s3_fixPrefix (path_Join (s3_prefix s) subPath) else subPath),
      s3_delimiter = s3_delimiter s, s3_awsLogMode = 0, s3_unsafe = False\<rparr>"

definition s3_SubStorage :: "s3_storage \<Rightarrow> string \<Rightarrow> bool \<Rightarrow> error + s3_storage" where
  "s3_SubStorage s subPath relative = Inr (s3_sub s subPath relative)"

definition s3_Exists :: "'w s3api \<Rightarrow> s3_storage \<Rightarrow> 'w ctx \<Rightarrow> string \<Rightarrow> ('w, bool) io" where
  "s3_Exists sv s ctx fileName =
     tryIO (sv_HeadObject sv ctx (Bucket (s3_cfg s)) (path_Join (s3_prefix s) fileName)) (\<lambda>r. case r of
         Inl err \<Rightarrow> if s3_isNotFound err then ret False else throw (Errorf ''error getting object info'' [err])
       | Inr _ \<Rightarrow> ret True)"

definition s3_Stat :: "'w s3api \<Rightarrow> s3_storage \<Rightarrow> string \<Rightarrow> ('w, ObjectStat) io" where
  "s3_Stat sv s fileName =
     (let fullPath = path_Join (s3_prefix s) fileName in
      tryIO (sv_HeadObject sv (\<lambda>_. None) (Bucket (s3_cfg s)) fullPath) (\<lambda>r. case r of
          Inl err \<Rightarrow>
            if s3_isNotFound err
            then ret \<lparr>Name = fullPath, LastModified = 0, Exist = False, Size = 0, ETag = ''''\<rparr>
            else throw (Errorf ''error getting object info'' [err])
        | Inr out \<Rightarrow>
            ret \<lparr>Name = fullPath, LastModified = ho_LastModified out, Exist = True, Size = ho_ContentLength out,
                 ETag = (case ho_ETag out of None \<Rightarrow> '''' | Some e \<Rightarrow> e)\<rparr>))"

definition s3_Ping :: "'w s3api \<Rightarrow> s3_storage \<Rightarrow> 'w ctx \<Rightarrow> ('w, unit) io" where
  "s3_Ping sv s ctx =
     tryIO (sv_HeadBucket sv ctx (Bucket (s3_cfg s))) (\<lambda>r. case r of
         Inl err \<Rightarrow> throw (Errorf ''error pinging s3 bucket'' [err])
       | Inr _ \<Rightarrow> ret ())"

definition s3_Close :: "s3_storage \<Rightarrow> ('w, unit) io" where
  "s3_Close s = ret ()"

text \<open>
  The method table, for listings of at most \<open>fuel\<close> pages and directories at most \<open>fuel\<close> deep, but
  for \<open>DeleteAll\<close>, which walks a storage through this table (\<open>Walk\<close> calls only its
  \<open>ListDir\<close> and \<open>Dirname\<close>).
\<close>

definition s3_methods ::
  "(s3_storage \<Rightarrow> 'w ctx \<Rightarrow> string \<Rightarrow> ('w, unit) io) \<Rightarrow> nat \<Rightarrow> ('w group \<Rightarrow> nat) \<Rightarrow> ('w part_group \<Rightarrow> nat) \<Rightarrow> 'w s3api \<Rightarrow>
    (s3_storage, 'w) storager" where
  "s3_methods deleteAll fuel pick ppick sv =
     \<lparr>GetObject = s3_GetObject sv, GetObjectRange = s3_GetObjectRange sv, PutObject = s3_PutObject sv,
      Delete = s3_Delete sv, DeleteAll = deleteAll, List_op = (\<lambda>s ctx p. fueled (s3_List fuel sv s ctx p)),
      Stat = s3_Stat sv, Exists = s3_Exists sv, GetCwd = s3_GetCwd, Dirname = s3_Dirname,
      ListDir = (\<lambda>s ctx. fueled (s3_ListDir fuel sv s ctx)), SubStorage = s3_SubStorage, Copy = s3_Copy ppick sv,
      CopyAll = s3_CopyAll fuel pick ppick sv, Ping = s3_Ping sv, Close = s3_Close\<rparr>"

definition s3_DeleteAll ::
  "nat \<Rightarrow> ('w group \<Rightarrow> nat) \<Rightarrow> ('w part_group \<Rightarrow> nat) \<Rightarrow> 'w s3api \<Rightarrow> s3_storage \<Rightarrow> 'w ctx \<Rightarrow> string \<Rightarrow> 'w \<Rightarrow>
    ((error + unit) \<times> 'w) option" where
  "s3_DeleteAll fuel pick ppick sv s ctx pathPrefix0 w =
     (let pathPrefix = s3_fixPrefix pathPrefix0; sub = s3_sub s pathPrefix True in
      case Walk fuel (s3_methods (\<lambda>_ _ _. throw (ErrorString '''')) fuel pick ppick sv) ctx sub w of
        None \<Rightarrow> None
      | Some (Inl err, w1) \<Rightarrow> Some (Inl (Errorf ''error walking through storage'' [err]), w1)
      | Some (Inr filesList, w1) \<Rightarrow>
          if filesList = [] then Some (Inl (MissingObjectsError [pathPrefix]), w1)
          else (case s3_deleteKnown sv sub ctx filesList w1 of
              (Inl err, w2) \<Rightarrow> Some (Inl (Errorf ''error deleting files'' [err]), w2)
            | (Inr _, w2) \<Rightarrow> Some (Inr (), w2)))"

definition s3_ops ::
  "nat \<Rightarrow> ('w group \<Rightarrow> nat) \<Rightarrow> ('w part_group \<Rightarrow> nat) \<Rightarrow> 'w s3api \<Rightarrow> (s3_storage, 'w) storager" where
  "s3_ops fuel pick ppick sv =
     s3_methods (\<lambda>s ctx p. fueled (s3_DeleteAll fuel pick ppick sv s ctx p)) fuel pick ppick sv"

end
