(* ===== verification/S3_Parts.thy ===== *)
theory S3_Parts
  imports S3
begin

text \<open>
  The multipart copy of the S3 backend. Its parts are shown to cut the object exactly, without
  overflow and within the number of parts the service allows; and, for every service with the laws of
  \<open>s3_pinned\<close>, under every interleaving of the part copies and whatever other clients write
  meanwhile, a copy that succeeds leaves at its destination the bytes the source had when the copy
  looked at it. The laws let a call change any object: what holds the copy together is that every part
  is pinned to the entity tag of the source.
\<close>

section \<open>Cutting an object\<close>

text \<open>Part \<open>i\<close> of an object cut into pieces of \<open>p\<close> bytes.\<close>

definition piece :: "nat \<Rightarrow> bytes \<Rightarrow> nat \<Rightarrow> bytes" where
  "piece p b i = take p (drop (i * p) b)"

lemma concat_pieces: "concat (map (piece p b) [0..<n]) = take (n * p) b"
proof (induction n)
  case (Suc n)
  have "take (n * p) b @ take p (drop (n * p) b) = take (n * p + p) b" by (simp add: take_add)
  with Suc show ?case by (simp add: piece_def add.commute)
qed simp

lemma wrap32_small: "0 \<le> x \<Longrightarrow> x < 2 ^ 31 \<Longrightarrow> wrap32 x = x"
  by (simp add: wrap32_def)

text \<open>Sizes the arithmetic of the copy is used with: an object far below \<open>2 ^ 63\<close> bytes, parts up to 5 GiB.\<close>

definition part_sizes :: "nat \<Rightarrow> int64 \<Rightarrow> bool" where
  "part_sizes n p \<longleftrightarrow> 0 < n \<and> int n \<le> 2 ^ 61 \<and> 0 < p \<and> p \<le> 2 ^ 61"

lemma part_count_eq:
  assumes "part_sizes n p"
  shows "int (part_count (int n) p) = (int n + p - 1) div p"
proof -
  have b: "0 < int n" "int n \<le> 2305843009213693952" "0 < p" "p \<le> 2305843009213693952"
    using assms by (simp_all add: part_sizes_def)
  then have "sub64 (add64 (int n) p) 1 = int n + p - 1"
    by (simp add: go64 in64_iff)
  moreover have "quot64 (int n + p - 1) p = (int n + p - 1) div p"
    using b by (intro quot64_id) (simp_all add: in64_iff)
  moreover have "0 \<le> (int n + p - 1) div p" using b by (simp add: pos_imp_zdiv_nonneg_iff)
  ultimately show ?thesis by (simp add: part_count_def)
qed

lemma part_count_bounds:
  assumes "part_sizes n p"
  shows "int n \<le> int (part_count (int n) p) * p" "(int (part_count (int n) p) - 1) * p < int n"
proof -
  let ?x = "int n + p - 1"
  have p: "0 < p" using assms by (simp add: part_sizes_def)
  have d: "?x div p * p + ?x mod p = ?x" by simp
  have m: "0 \<le> ?x mod p" "?x mod p < p" using p by simp_all
  show "int n \<le> int (part_count (int n) p) * p" "(int (part_count (int n) p) - 1) * p < int n"
    unfolding part_count_eq [OF assms] left_diff_distrib using d m by linarith+
qed

lemma part_range_eq:
  assumes sizes: "part_sizes n p" and i: "i < part_count (int n) p"
  shows "part_range (int n) p i = (int i * p, min (int i * p + p) (int n) - 1)" "int i * p < int n"
proof -
  have b: "int n \<le> 2305843009213693952" "0 < p" "p \<le> 2305843009213693952"
    using sizes by (simp_all add: part_sizes_def)
  have "int i \<le> int (part_count (int n) p) - 1" using i by simp
  then have "int i * p \<le> (int (part_count (int n) p) - 1) * p" using b(2) by (intro mult_right_mono) simp_all
  then show lt: "int i * p < int n" using part_count_bounds(2) [OF sizes] by linarith
  have pos: "0 \<le> int i * p" using b(2) by simp
  have m: "mul64 (int i) p = int i * p" using lt pos b by (intro mul64_id) (unfold in64_iff, linarith)
  have a: "add64 (int i * p) p = int i * p + p" using lt pos b by (intro add64_id) (unfold in64_iff, linarith)
  have "sub64 (min (int i * p + p) (int n)) 1 = min (int i * p + p) (int n) - 1"
    using lt pos b by (intro sub64_id) (unfold in64_iff, linarith)
  then show "part_range (int n) p i = (int i * p, min (int i * p + p) (int n) - 1)"
    by (simp add: part_range_def m a Let_def)
qed

lemma fmt_d_nonneg: "0 \<le> x \<Longrightarrow> fmt_d x = dec_nat (nat x)"
  by (simp add: fmt_d_def)

text \<open>What a server reads out of the range of a part is that piece of the object.\<close>

lemma part_range_served:
  assumes sizes: "part_sizes (length b) p" and i: "i < part_count (int (length b)) p"
    and rng: "rng = part_range (int (length b)) p i"
  shows "serve_range (''bytes='' @ fmt_d (fst rng) @ ''-'' @ fmt_d (snd rng)) b = Some (piece (nat p) b i)"
proof -
  note pr = part_range_eq [OF sizes i]
  have p: "0 < p" using sizes by (simp add: part_sizes_def)
  let ?e = "min (int i * p + p) (int (length b)) - 1"
  have pos: "0 \<le> int i * p" using p by simp
  have e: "int i * p \<le> ?e" using pr(2) p by simp
  have start: "nat (int i * p) = i * nat p" using p by (simp add: nat_mult_distrib)
  have "''bytes='' @ fmt_d (fst rng) @ ''-'' @ fmt_d (snd rng) =
      ''bytes='' @ dec_nat (nat (int i * p)) @ ''-'' @ dec_nat (nat ?e)"
    unfolding rng pr(1) fst_conv snd_conv fmt_d_nonneg [OF pos] fmt_d_nonneg [OF order_trans [OF pos e]] ..
  moreover have "nat (int i * p) \<le> nat ?e" "\<not> length b \<le> nat (int i * p)" using pr(2) pos e by linarith+
  ultimately have "serve_range (''bytes='' @ fmt_d (fst rng) @ ''-'' @ fmt_d (snd rng)) b =
      Some (take (Suc (nat ?e) - nat (int i * p)) (drop (nat (int i * p)) b))"
    using read_range_closed [of "nat (int i * p)" "nat ?e"] unfolding serve_range_def by simp
  moreover have "take (Suc (nat ?e) - nat (int i * p)) (drop (nat (int i * p)) b) = piece (nat p) b i"
  proof (cases "int i * p + p \<le> int (length b)")
    case True
    then have "?e = int i * p + p - 1" by simp
    then have "Suc (nat ?e) - nat (int i * p) = nat p" using pos p by linarith
    then show ?thesis by (simp add: piece_def start)
  next
    case False
    then have "length (drop (i * nat p) b) \<le> nat p" "length (drop (i * nat p) b) \<le> Suc (nat ?e) - nat (int i * p)"
      using pos p start by auto
    then show ?thesis by (simp add: piece_def start)
  qed
  ultimately show ?thesis by simp
qed

lemma pieces_whole:
  assumes "part_sizes (length b) p"
  shows "concat (map (piece (nat p) b) [0..<part_count (int (length b)) p]) = b"
proof -
  have p: "0 < p" using assms by (simp add: part_sizes_def)
  have "int (length b) \<le> int (part_count (int (length b)) p * nat p)"
    using part_count_bounds(1) [OF assms] p by simp
  then have "length b \<le> part_count (int (length b)) p * nat p" by (simp only: of_nat_le_iff)
  then show ?thesis by (simp add: concat_pieces)
qed

text \<open>The part size \<^verbatim>\<open>multipartCopy\<close> settles on keeps the number of parts within the service's limit.\<close>

lemma multipart_size_ok:
  assumes "part_sizes n p" "0 < parts" "parts \<le> 10000"
  shows "part_sizes n (multipart_size parts (int n) p)"
    "int (part_count (int n) (multipart_size parts (int n) p)) \<le> parts"
proof -
  let ?q = "(int n + parts - 1) div parts"
  have b: "0 < int n" "int n \<le> 2305843009213693952" "0 < p" "p \<le> 2305843009213693952"
    using assms(1) by (simp_all add: part_sizes_def)
  then have "sub64 (add64 (int n) parts) 1 = int n + parts - 1"
    using assms(2,3) by (simp add: go64 in64_iff)
  moreover have "quot64 (int n + parts - 1) parts = ?q"
    using b assms(2,3) by (intro quot64_id) (simp_all add: in64_iff)
  ultimately have eq: "multipart_size parts (int n) p = max p ?q" by (simp add: multipart_size_def)
  have d: "?q * parts + (int n + parts - 1) mod parts = int n + parts - 1" by simp
  have m: "0 \<le> (int n + parts - 1) mod parts" "(int n + parts - 1) mod parts < parts" using assms(2) by simp_all
  have le: "?q \<le> int n"
  proof -
    have "int n + parts - 1 \<le> int n * parts" 
      using b(1) assms(2) mult_nonneg_nonneg [of "int n - 1" "parts - 1"] by (simp add: algebra_simps)
    then have "?q \<le> int n * parts div parts" using assms(2) by (intro zdiv_mono1) simp_all
    then show ?thesis using assms(2) by simp
  qed
  show sizes: "part_sizes n (multipart_size parts (int n) p)"
    using assms(1) le b unfolding eq by (auto simp: part_sizes_def)
  have "int n \<le> multipart_size parts (int n) p * parts"
  proof -
    have "int n \<le> ?q * parts" using d m by linarith
    also have "\<dots> \<le> multipart_size parts (int n) p * parts" unfolding eq using assms(2) by (intro mult_right_mono) simp_all
    finally show ?thesis .
  qed
  then have "(int (part_count (int n) (multipart_size parts (int n) p)) - 1) * multipart_size parts (int n) p <
      parts * multipart_size parts (int n) p"
    using part_count_bounds(2) [OF sizes] by (simp add: mult.commute)
  moreover have "0 < multipart_size parts (int n) p" using sizes by (simp add: part_sizes_def)
  ultimately show "int (part_count (int n) (multipart_size parts (int n) p)) \<le> parts" by simp
qed


section \<open>The service\<close>

text \<open>
  What a multipart copy relies on. \<open>bkt\<close> is the content of the bucket \<open>B\<close>, \<open>etag\<close> the entity tag
  of a key, \<open>upl\<close> the parts of an open upload by their numbers. Entity tags identify contents. A part
  is cut from what its source holds when the part is copied, if the source still has the tag the
  request is pinned to. Completing an upload puts its parts together in the order they are listed.
\<close>

locale s3_pinned =
  fixes sv :: "'w s3api"
    and B :: string
    and bkt :: "'w \<Rightarrow> string \<rightharpoonup> bytes"
    and etag :: "'w \<Rightarrow> string \<Rightarrow> string"
    and upl :: "'w \<Rightarrow> string \<rightharpoonup> (int \<rightharpoonup> bytes)"
    and sane :: "'w \<Rightarrow> bool"
  assumes bucket_name: "CHR ''/'' \<notin> set B"
    and etag_content: "sane v \<Longrightarrow> sane v' \<Longrightarrow> bkt v k = Some b \<Longrightarrow> bkt v' k = Some b' \<Longrightarrow> etag v k = etag v' k \<Longrightarrow> b = b'"
    and tagging_inv: "sane w \<Longrightarrow> sv_GetObjectTagging sv ctx B k ver w = (tg, w') \<Longrightarrow> sane w'"
    and create_inv: "sane w \<Longrightarrow> sv_CreateMultipartUpload sv ctx ci w = (cr, w') \<Longrightarrow> sane w'"
    and create_ok: "sane w \<Longrightarrow> cm_Bucket ci = B \<Longrightarrow> sv_CreateMultipartUpload sv ctx ci w = (Inr u, w') \<Longrightarrow>
      upl w' u = Some Map.empty"
    and part_inv: "sane w \<Longrightarrow> sv_UploadPartCopy sv ctx pt w = (pr, w') \<Longrightarrow> sane w'"
    and part_ok: "sane w \<Longrightarrow> pi_Bucket pt = B \<Longrightarrow> read_copy_source (pi_CopySource pt) = (B, src) \<Longrightarrow>
      upl w (pi_UploadId pt) = Some ps \<Longrightarrow> sv_UploadPartCopy sv ctx pt w = (Inr t, w') \<Longrightarrow>
      \<exists>b x. bkt w src = Some b \<and> (\<forall>e. pi_IfMatch pt = Some e \<longrightarrow> etag w src = e) \<and>
        serve_range (pi_CopySourceRange pt) b = Some x \<and>
        upl w' (pi_UploadId pt) = Some (ps(pi_PartNumber pt \<mapsto> x))"
    and complete_ok: "sane w \<Longrightarrow> upl w u = Some ps \<Longrightarrow>
      \<forall>p \<in> set parts. \<exists>n. cp_PartNumber p = Some n \<and> n \<in> dom ps \<Longrightarrow>
      sorted_wrt (<) (map (\<lambda>p. the (cp_PartNumber p)) parts) \<Longrightarrow>
      sv_CompleteMultipartUpload sv ctx B dst u parts w = (Inr un, w') \<Longrightarrow>
      bkt w' dst = Some (concat (map (\<lambda>p. the (ps (the (cp_PartNumber p)))) parts))"
begin

text \<open>What a group of part copies has done so far: every part that is not pending has its piece.\<close>

definition parts_inv :: "string \<Rightarrow> bytes \<Rightarrow> nat \<Rightarrow> nat \<Rightarrow> 'w part_group \<Rightarrow> bool" where
  "parts_inv u b p cnt g \<longleftrightarrow> (g_err g = None \<longrightarrow>
     sane (g_world g) \<and> length (g_shared g) = cnt \<and> set (pending g) \<subseteq> {..<cnt} \<and>
     (\<exists>ps. upl (g_world g) u = Some ps \<and>
       (\<forall>i < cnt. i \<notin> set (pending g) \<longrightarrow>
          ps (int i + 1) = Some (piece p b i) \<and> cp_PartNumber (g_shared g ! i) = Some (int i + 1))))"

lemma parts_inv_step:
  assumes inv: "parts_inv u b (nat psz) cnt g" and a: "a \<in> set (enabled (e_limit E) g)"
    and E: "e_task E = part_task sv s src dst u (Some e) (int (length b)) psz" and s: "Bucket (s3_cfg s) = B"
    and sizes: "part_sizes (length b) psz" and cnt: "cnt = part_count (int (length b)) psz" "cnt \<le> 10000"
    and w0: "sane w0" "bkt w0 src = Some b" "etag w0 src = e"
  shows "parts_inv u b (nat psz) cnt (perform E a g)"
  unfolding parts_inv_def
proof
  let ?g = "perform E a g"
  assume ok: "g_err ?g = None"
  from a ok show "sane (g_world ?g) \<and> length (g_shared ?g) = cnt \<and> set (pending ?g) \<subseteq> {..<cnt} \<and>
     (\<exists>ps. upl (g_world ?g) u = Some ps \<and>
       (\<forall>i < cnt. i \<notin> set (pending ?g) \<longrightarrow>
          ps (int i + 1) = Some (piece (nat psz) b i) \<and> cp_PartNumber (g_shared ?g ! i) = Some (int i + 1)))"
  proof (cases rule: perform_ok_cases)
    case quiet
    have "set (pending ?g) = set (pending g)" using quiet(2) by (rule mset_eq_setD)
    with inv quiet show ?thesis by (simp add: parts_inv_def)
  next
    case (ran i shared w)
    from inv ran(1) obtain ps where old: "sane (g_world g)" "length (g_shared g) = cnt" "set (pending g) \<subseteq> {..<cnt}"
      "upl (g_world g) u = Some ps"
      "\<forall>i < cnt. i \<notin> set (pending g) \<longrightarrow>
         ps (int i + 1) = Some (piece (nat psz) b i) \<and> cp_PartNumber (g_shared g ! i) = Some (int i + 1)"
      unfolding parts_inv_def by blast
    have i: "i < cnt" using ran(2) old(3) by auto
    then have num: "wrap32 (int (i + 1)) = int i + 1" using cnt(2) wrap32_small [of "int i + 1"] by (simp add: add.commute)
    let ?rng = "part_range (int (length b)) psz i"
    let ?in = "\<lparr>pi_Bucket = B, pi_Key = dst, pi_UploadId = u, pi_PartNumber = int i + 1,
         pi_CopySource = copySource B src,
         pi_CopySourceRange = ''bytes='' @ fmt_d (fst ?rng) @ ''-'' @ fmt_d (snd ?rng), pi_IfMatch = Some e\<rparr>"
    obtain t where call: "sv_UploadPartCopy sv (gctx (e_ctx E) g) ?in (g_world g) = (Inr t, w)"
      and shared: "shared = (g_shared g)[i := \<lparr>cp_ETag = t, cp_PartNumber = Some (int i + 1)\<rparr>]"
      using ran(3) s num by (auto simp: E part_task_def Let_def tryIO_apply split: prod.splits sum.splits)
    have src: "read_copy_source (pi_CopySource ?in) = (B, src)"
      by (simp add: copySource_decoded bucket_name)
    from part_ok [OF old(1) _ src _ call, of ps] old(4) obtain b' x where x: "bkt (g_world g) src = Some b'"
      "etag (g_world g) src = e" "serve_range (pi_CopySourceRange ?in) b' = Some x"
      "upl w u = Some (ps(int i + 1 \<mapsto> x))" by auto
    have "b' = b" using etag_content [OF old(1) w0(1) x(1) w0(2)] x(2) w0(3) by simp
    then have "x = piece (nat psz) b i"
      using x(3) part_range_served [OF sizes, of i ?rng] i cnt(1) by simp
    moreover have "set (pending g) = insert i (set (pending ?g))"
      using arg_cong [OF ran(4), of set_mset] by simp
    moreover have "sane w" using part_inv [OF old(1) call] .
    ultimately show ?thesis
      using old(2,3,5) x(4) i ran(5,6) shared by (auto simp: nth_list_update)
  qed
qed

lemma copyParts_ok:
  assumes C: "copyParts pick sv s ctx src dst u (Some e) (int (length b)) psz concurrency w = (Inr parts, w')"
    and s: "Bucket (s3_cfg s) = B" and sizes: "part_sizes (length b) psz"
    and cnt: "part_count (int (length b)) psz \<le> 10000"
    and w0: "sane w0" "bkt w0 src = Some b" "etag w0 src = e" and w: "sane w" "upl w u = Some Map.empty"
  shows "sane w' \<and> length parts = part_count (int (length b)) psz \<and>
    (\<exists>ps. upl w' u = Some ps \<and> (\<forall>i < length parts. ps (int i + 1) = Some (piece (nat psz) b i) \<and>
       cp_PartNumber (parts ! i) = Some (int i + 1)))"
proof -
  let ?n = "part_count (int (length b)) psz"
  let ?E = "\<lparr>e_ctx = ctx, e_task = part_task sv s src dst u (Some e) (int (length b)) psz,
    e_limit = nat (max concurrency 1)\<rparr>"
  let ?g0 = "\<lparr>g_queue = [0..<?n], g_launched = [], g_inflight = [],
    g_shared = replicate ?n \<lparr>cp_ETag = None, cp_PartNumber = None\<rparr>, g_err = None, g_world = w\<rparr>"
  define g where "g = run_group pick ?E ?g0"
  have res: "g_err g = None" "parts = g_shared g" "w' = g_world g"
    using C by (auto simp: copyParts_def g_def Let_def split: option.splits)
  have "parts_inv u b (nat psz) ?n g"
  proof (rule group_invariant)
    show "group_reach ?E ?g0 g" unfolding g_def by (rule run_group_reach)
    show "parts_inv u b (nat psz) ?n ?g0"
      using w by (auto simp: parts_inv_def pending_def)
    show "parts_inv u b (nat psz) ?n (perform ?E a h)"
      if "parts_inv u b (nat psz) ?n h" "a \<in> set (enabled (e_limit ?E) h)" for h a
      using that s sizes cnt w0 by (intro parts_inv_step) simp_all
  qed
  moreover have "pending g = []"
    using run_group_stops [of ?E pick ?g0] enabled_Nil_iff [of "nat (max concurrency 1)" g]
    by (simp add: g_def pending_def)
  ultimately show ?thesis using res by (auto simp: parts_inv_def)
qed

lemma multipartCopy_ok:
  assumes M: "multipartCopy pick sv s ctx src dst head psz concurrency w = (Inr u, w')"
    and s: "Bucket (s3_cfg s) = B" and sizes: "part_sizes (length b) psz"
    and parts: "0 < sv_MaxUploadParts sv" "sv_MaxUploadParts sv \<le> 10000"
    and w: "sane w" "bkt w src = Some b" and head: "ho_ETag head = Some (etag w src)" "ho_ContentLength head = int (length b)"
  shows "bkt w' dst = Some b"
proof -
  let ?p = "multipart_size (sv_MaxUploadParts sv) (int (length b)) psz"
  note ms = multipart_size_ok [OF sizes parts]
  have cnt: "part_count (int (length b)) ?p \<le> 10000" using ms(2) parts(2) by simp
  obtain tg w1 where T: "(if ho_TagCount head > 0
      then bindIO (sourceTagging sv s ctx src (ho_VersionId head)) (\<lambda>t. ret (Some t)) else ret None) w = (Inr tg, w1)"
    using M by (auto simp: multipartCopy_def Let_def bindIO_apply split: prod.splits sum.splits)
  have w1: "sane w1"
  proof (cases "ho_TagCount head > 0")
    case True
    then show ?thesis
      using T w(1) s tagging_inv [OF w(1)]
      by (auto simp: sourceTagging_def bindIO_apply tryIO_apply split: prod.splits sum.splits if_splits)
  qed (use T w in simp)
  from M T obtain id w2 where C: "sv_CreateMultipartUpload sv ctx
      \<lparr>cm_Bucket = B, cm_Key = dst, cm_StorageClass = StorageClass (s3_cfg s), cm_headers = ho_headers head,
       cm_Tagging = tg, cm_encryption = s3_encryption (s3_cfg s)\<rparr> w1 = (Inr id, w2)"
    by (auto simp: multipartCopy_def Let_def bindIO_apply tryIO_apply s split: prod.splits sum.splits)
  have w2: "sane w2" "upl w2 id = Some Map.empty"
    using create_inv [OF w1 C] create_ok [OF w1 _ C] by simp_all
  from M T C obtain ps w3 where P: "copyParts pick sv s ctx src dst id (Some (etag w src)) (int (length b)) ?p concurrency w2 = (Inr ps, w3)"
    and D: "\<exists>v. sv_CompleteMultipartUpload sv ctx B dst id ps w3 = (Inr v, w')"
    by (auto simp: multipartCopy_def multipart_failed_def Let_def bindIO_apply tryIO_apply s head
        split: prod.splits sum.splits if_splits)
  from copyParts_ok [OF P s ms(1) cnt w refl w2]
  obtain m where w3: "sane w3" "length ps = part_count (int (length b)) ?p" "upl w3 id = Some m"
    "\<forall>i < length ps. m (int i + 1) = Some (piece (nat ?p) b i) \<and> cp_PartNumber (ps ! i) = Some (int i + 1)" by blast
  have nums: "map (\<lambda>p. the (cp_PartNumber p)) ps = map (\<lambda>i. int i + 1) [0..<length ps]"
    using w3(4) by (intro nth_equalityI) simp_all
  have "\<forall>p \<in> set ps. \<exists>n. cp_PartNumber p = Some n \<and> n \<in> dom m"
    using w3(4) by (auto simp: in_set_conv_nth dom_def)
  moreover have "sorted_wrt (<) (map (\<lambda>p. the (cp_PartNumber p)) ps)"
    unfolding nums by (simp add: sorted_wrt_map sorted_wrt_iff_nth_less)
  moreover have "map (\<lambda>p. the (m (the (cp_PartNumber p)))) ps = map (piece (nat ?p) b) [0..<length ps]"
    using w3(4) by (intro nth_equalityI) simp_all
  ultimately have "bkt w' dst = Some (concat (map (piece (nat ?p) b) [0..<length ps]))"
    using complete_ok [OF w3(1,3)] D by metis
  then show ?thesis using pieces_whole [OF ms(1)] w3(2) by simp
qed

end

end
