(* ===== verification/Bucket.thy ===== *)
theory Bucket
  imports Guard
begin

text \<open>
  What the object stores share. A bucket is a map from full keys to contents; a storage sees the part
  of it below its root, a text every full key starts with. The first section is about listings that
  come in pages, the second about the objects below a root, and the third lifts the storage contract
  to the guarded storage when the backend lists only clean prefixes right.
\<close>

section \<open>Listings in pages\<close>

definition after_key :: "string option \<Rightarrow> string \<Rightarrow> bool" where
  "after_key lo k \<longleftrightarrow> (case lo of None \<Rightarrow> True | Some m \<Rightarrow> m < k)"

definition upto_key :: "string option \<Rightarrow> string \<Rightarrow> bool" where
  "upto_key hi k \<longleftrightarrow> (case hi of None \<Rightarrow> True | Some m \<Rightarrow> k \<le> m)"

text \<open>The keys of one page: those with the prefix after one key and up to another, in order.\<close>

definition chunk :: "(string \<rightharpoonup> bytes) \<Rightarrow> string \<Rightarrow> string option \<Rightarrow> string list \<Rightarrow> string option \<Rightarrow> bool" where
  "chunk m pre lo ks hi \<longleftrightarrow> sorted_wrt (<) ks \<and>
     (\<forall>k. k \<in> set ks \<longleftrightarrow> m k \<noteq> None \<and> HasPrefix k pre \<and> after_key lo k \<and> upto_key hi k)"

text \<open>The keys of the pages so far, up to where the next one starts.\<close>

definition so_far :: "(string \<rightharpoonup> bytes) \<Rightarrow> string \<Rightarrow> string list \<Rightarrow> string option \<Rightarrow> bool" where
  "so_far m pre ks lo \<longleftrightarrow> (case lo of None \<Rightarrow> ks = [] | Some _ \<Rightarrow> chunk m pre None ks lo)"

definition forward :: "string option \<Rightarrow> string option \<Rightarrow> bool" where
  "forward lo hi \<longleftrightarrow> (\<forall>a b. lo = Some a \<longrightarrow> hi = Some b \<longrightarrow> a \<le> b)"

lemma so_far_start [simp]: "so_far m pre [] None"
  by (simp add: so_far_def)

lemma so_far_page:
  assumes "so_far m pre xs lo" "chunk m pre lo ys hi" "forward lo hi"
  shows "chunk m pre None (xs @ ys) hi"
proof (cases lo)
  case None
  with assms show ?thesis by (simp add: so_far_def)
next
  case (Some a)
  with assms(1) have xs: "chunk m pre None xs (Some a)" by (simp add: so_far_def)
  have lt: "x < y" if "x \<in> set xs" "y \<in> set ys" for x y
    using xs assms(2) that Some by (fastforce simp: chunk_def after_key_def upto_key_def)
  have cut: "upto_key hi k \<longleftrightarrow> k \<le> a \<or> (a < k \<and> upto_key hi k)" for k
    using assms(3) Some by (cases hi) (auto simp: forward_def upto_key_def)
  show ?thesis
    unfolding chunk_def
  proof (intro conjI allI)
    show "sorted_wrt (<) (xs @ ys)" using xs assms(2) lt by (simp add: chunk_def sorted_wrt_append)
    show "k \<in> set (xs @ ys) \<longleftrightarrow> m k \<noteq> None \<and> HasPrefix k pre \<and> after_key None k \<and> upto_key hi k" for k
      using xs assms(2) Some cut [of k] by (auto simp: chunk_def after_key_def upto_key_def)
  qed
qed

lemma so_far_next:
  "so_far m pre xs lo \<Longrightarrow> chunk m pre lo ys (Some b) \<Longrightarrow> forward lo (Some b) \<Longrightarrow> so_far m pre (xs @ ys) (Some b)"
  using so_far_page by (fastforce simp: so_far_def)

text \<open>The first entries of a sorted list are those up to the last of them.\<close>

lemma take_sorted:
  fixes es :: "string list"
  assumes "sorted_wrt (<) es" "0 < n" "n \<le> length es"
  shows "set (take n es) = {k \<in> set es. k \<le> last (take n es)}"
proof (intro set_eqI iffI)
  have t: "sorted_wrt (<) (take n es @ drop n es)" using assms(1) by simp
  have ne: "take n es \<noteq> []" using assms by auto
  then have l: "last (take n es) \<in> set (take n es)" by simp
  have upto: "k \<le> last (take n es)" if "k \<in> set (take n es)" for k
  proof -
    have "sorted (take n es)" using t by (simp add: sorted_wrt_append strict_sorted_imp_sorted)
    then have "sorted (butlast (take n es) @ [last (take n es)])" using ne by simp
    moreover from that have "k \<in> set (butlast (take n es)) \<or> k = last (take n es)"
      using ne by (metis append_butlast_last_id in_set_conv_decomp rotate1.simps(2) set_ConsD set_rotate1)
    ultimately show ?thesis unfolding sorted_append by auto
  qed
  fix k
  show "k \<in> {k \<in> set es. k \<le> last (take n es)}" if "k \<in> set (take n es)"
    using that upto by (auto dest: in_set_takeD)
  show "k \<in> set (take n es)" if k: "k \<in> {k \<in> set es. k \<le> last (take n es)}"
  proof (rule ccontr)
    assume "k \<notin> set (take n es)"
    then have "k \<in> set (drop n es)" using k set_append [of "take n es" "drop n es"] by simp
    then have "last (take n es) < k" using t l unfolding sorted_wrt_append by blast
    with k show False by auto
  qed
qed

lemma take_chunk:
  assumes "sorted_wrt (<) es" "set es = {k. m k \<noteq> None \<and> HasPrefix k pre \<and> after_key lo k}" "0 < n"
  shows "chunk m pre lo (take n es) (if length es > n then Some (last (take n es)) else None)"
    and "forward lo (if length es > n then Some (last (take n es)) else None)"
proof -
  show "chunk m pre lo (take n es) (if length es > n then Some (last (take n es)) else None)"
  proof (cases "length es > n")
    case True
    with take_sorted [OF assms(1,3)] assms(2) show ?thesis
      by (auto simp: chunk_def assms(1) sorted_wrt_take upto_key_def)
  qed (use assms in \<open>simp add: chunk_def upto_key_def\<close>)
  have "last (take n es) \<in> set es" if "length es > n"
  proof -
    have "take n es \<noteq> []" using that assms(3) by auto
    then show ?thesis using last_in_set in_set_takeD by metis
  qed
  then show "forward lo (if length es > n then Some (last (take n es)) else None)"
    using assms(2) by (auto simp: forward_def after_key_def)
qed

text \<open>The keys that are left from a position on; a page that is not the last and not empty leaves fewer.\<close>

definition keys_left :: "(string \<rightharpoonup> bytes) \<Rightarrow> string \<Rightarrow> string option \<Rightarrow> string set" where
  "keys_left m pre lo = {k. m k \<noteq> None \<and> HasPrefix k pre \<and> after_key lo k}"

lemma keys_left_page:
  assumes "finite (dom m)" "chunk m pre lo ks (Some b)" "forward lo (Some b)" "ks \<noteq> []"
  shows "card (keys_left m pre (Some b)) < card (keys_left m pre lo)"
proof (rule psubset_card_mono)
  show "finite (keys_left m pre lo)"
    using assms(1) by (rule rev_finite_subset) (auto simp: keys_left_def)
  have "hd ks \<in> set ks" using assms(4) by simp
  then have "hd ks \<in> keys_left m pre lo" "hd ks \<notin> keys_left m pre (Some b)"
    using assms(2) by (auto simp: chunk_def keys_left_def after_key_def upto_key_def)
  moreover have "keys_left m pre (Some b) \<subseteq> keys_left m pre lo"
    using assms(3) by (auto simp: keys_left_def after_key_def forward_def split: option.splits)
  ultimately show "keys_left m pre (Some b) \<subset> keys_left m pre lo" by blast
qed

section \<open>The objects below a root\<close>

definition bucket_objs :: "string \<Rightarrow> (string \<rightharpoonup> bytes) \<Rightarrow> (string \<rightharpoonup> bytes)" where
  "bucket_objs root m k = (if key_ok k then m (root @ k) else None)"

text \<open>Every key below the root is one the storage could have written, or names the root itself.\<close>

definition tidy :: "string \<Rightarrow> (string \<rightharpoonup> bytes) \<Rightarrow> bool" where
  "tidy root m \<longleftrightarrow> (\<forall>k. m (root @ k) \<noteq> None \<longrightarrow> k = '''' \<or> key_ok k)"

definition dir_of :: "string \<Rightarrow> string" where
  "dir_of p = (if p = '''' then '''' else p @ ''/'')"

lemma bucket_objs_upd: "key_ok k \<Longrightarrow> bucket_objs root (m(root @ k \<mapsto> b)) = (bucket_objs root m)(k \<mapsto> b)"
  by (auto simp: bucket_objs_def)

lemma tidy_upd: "key_ok k \<Longrightarrow> tidy root m \<Longrightarrow> tidy root (m(root @ k \<mapsto> b))"
  by (simp add: tidy_def)

text \<open>A call that may have changed one key only.\<close>

definition only_at :: "string \<Rightarrow> (string \<rightharpoonup> bytes) \<Rightarrow> (string \<rightharpoonup> bytes) \<Rightarrow> bool" where
  "only_at k m m' \<longleftrightarrow> (\<forall>q. q \<noteq> k \<longrightarrow> m' q = m q)"

lemma only_at_refl [simp]: "only_at k m m"
  by (simp add: only_at_def)

lemma only_at_trans: "only_at k m m' \<Longrightarrow> only_at k m' m'' \<Longrightarrow> only_at k m m''"
  by (simp add: only_at_def)

lemma only_at_upd: "only_at k m m' \<Longrightarrow> m' k = Some b \<Longrightarrow> m' = m(k \<mapsto> b)"
  by (auto simp: only_at_def fun_eq_iff)

lemma only_at_objs:
  assumes "key_ok k" "only_at (root @ k) m m'"
  shows "(bucket_objs root m)(k := None) \<subseteq>\<^sub>m bucket_objs root m'" "tidy root m \<Longrightarrow> tidy root m'"
proof -
  show "(bucket_objs root m)(k := None) \<subseteq>\<^sub>m bucket_objs root m'"
    using assms(2) by (auto simp: map_le_def bucket_objs_def only_at_def split: if_splits)
  show "tidy root m'" if "tidy root m"
    unfolding tidy_def
  proof (intro allI impI)
    fix q assume "m' (root @ q) \<noteq> None"
    then show "q = '''' \<or> key_ok q"
      using assms that by (cases "q = k") (auto simp: tidy_def only_at_def)
  qed
qed

lemma key_ok_Split: "key_ok k \<Longrightarrow> Split (CHR ''/'') k = path_segs k"
  using Split_Join [of "path_segs k" "CHR ''/''"] key_ok_Join_str [of k] key_okD(3) [of k] key_ok_real [of k]
  by (auto simp: real_seg_def)

lemma key_ok_rest:
  assumes "key_ok (p @ CHR ''/'' # r)"
  shows "key_ok r"
proof -
  let ?k = "p @ CHR ''/'' # r"
  have segs: "path_segs ?k = Split (CHR ''/'') p @ Split (CHR ''/'') r"
    using key_ok_Split [OF assms] by (simp only: Split_append_sep)
  have "\<forall>s \<in> set (Split (CHR ''/'') r). real_seg s" using key_ok_real [OF assms] segs by simp
  then have "key_ok (render False (Split (CHR ''/'') r))" by (intro key_of_segs) simp_all
  then show ?thesis by (simp add: render_def Join_Split)
qed

lemma path_Join_dir:
  assumes "prefix_ok p" "key_ok k"
  shows "path_Join p k = dir_of p @ k"
proof (cases "p = ''''")
  case True
  with assms show ?thesis by (simp add: path_Join_Nil_left key_okD dir_of_def)
next
  case False
  with assms(1) have "key_ok p" by (simp add: prefix_ok_def)
  then have "path_Clean p = p" "p \<noteq> ''/''" "p \<noteq> ''.''"
    using key_okD(2) [of p] by (auto simp: key_ok_def path_IsAbs_def)
  with assms(2) False show ?thesis by (simp add: path_Join_text dir_of_def)
qed

lemma append_less_iff [simp]: "(a @ x :: string) < a @ y \<longleftrightarrow> x < y"
  by (induction a) simp_all

text \<open>A whole listing, relative to a clean prefix, is the objects of the storage under it.\<close>

lemma listing_objs:
  fixes p :: string
  assumes "chunk m (root @ dir_of p) None ks None" "tidy root m" "prefix_ok p"
    and ns: "ns = map (\<lambda>k. TrimPrefix k (root @ dir_of p)) (filter (\<lambda>k. TrimPrefix k (root @ dir_of p) \<noteq> '''') ks)"
  shows "sorted_wrt (<) ns \<and> (\<forall>k. key_ok k \<longrightarrow> (bucket_objs root m (path_Join p k) \<noteq> None \<longleftrightarrow> k \<in> set ns)) \<and>
    (\<forall>n \<in> set ns. key_ok n \<and> path_Join p n = dir_of p @ n)"
proof -
  define pre where "pre = root @ dir_of p"
  have ch: "chunk m pre None ks None" and ns': "ns = map (\<lambda>k. TrimPrefix k pre) (filter (\<lambda>k. TrimPrefix k pre \<noteq> '''') ks)"
    using assms(1) ns by (simp_all add: pre_def)
  have below: "\<exists>r. k = pre @ r" if "k \<in> set ks" for k
    using ch that by (auto simp: chunk_def HasPrefix_iff)
  have mem: "k \<in> set ns \<longleftrightarrow> k \<noteq> '''' \<and> m (pre @ k) \<noteq> None" for k
  proof -
    have "k \<in> set ns \<longleftrightarrow> k \<noteq> '''' \<and> pre @ k \<in> set ks"
      using below unfolding ns' by (force simp: image_iff)
    then show ?thesis using ch by (simp add: chunk_def after_key_def upto_key_def)
  qed
  have ok: "key_ok k" if "k \<in> set ns" for k
  proof -
    from that mem have k: "k \<noteq> ''''" "m (pre @ k) \<noteq> None" by simp_all
    with assms(2) have "key_ok (dir_of p @ k)" by (auto simp: tidy_def pre_def)
    then show ?thesis using key_ok_rest [of p k] by (cases "p = ''''") (simp_all add: dir_of_def)
  qed
  have "sorted_wrt (<) ns"
  proof -
    have "sorted_wrt (\<lambda>x y. TrimPrefix x pre < TrimPrefix y pre) ks"
      using ch below by (auto simp: chunk_def intro!: sorted_wrt_mono_rel [of ks "(<)"] dest!: below)
    then show ?thesis unfolding ns' sorted_wrt_map by (rule sorted_wrt_filter)
  qed
  moreover have "bucket_objs root m (path_Join p k) \<noteq> None \<longleftrightarrow> k \<in> set ns" if "key_ok k" for k
  proof -
    have "key_ok (path_Join p k)"
      using that assms(3) by (intro path_Join_key_ok) (auto simp: prefix_ok_def key_okD)
    then show ?thesis using mem [of k] that path_Join_dir [OF assms(3) that]
      by (simp add: bucket_objs_def key_okD pre_def)
  qed
  ultimately show ?thesis using ok path_Join_dir [OF assms(3)] by simp
qed

section \<open>Where a prefix is rooted\<close>

text \<open>The text every full key of a storage starts with, and the prefix of a listing below it.\<close>

definition root_of :: "string \<Rightarrow> string" where
  "root_of prefix =
     (let c = path_Clean prefix in if c = ''.'' then '''' else if c = ''/'' then ''/'' else c @ ''/'')"

definition slash_end :: "string \<Rightarrow> string" where
  "slash_end p = (if p \<noteq> '''' \<and> last p \<noteq> CHR ''/'' then p @ ''/'' else p)"

text \<open>A prefix that is not the working directory in disguise.\<close>

definition rooted_prefix :: "string \<Rightarrow> bool" where
  "rooted_prefix prefix \<longleftrightarrow> prefix = '''' \<or> path_Clean prefix \<noteq> ''.''"

lemma Join_root_of: "key_ok k \<Longrightarrow> path_Join prefix k = root_of prefix @ k"
  by (simp add: path_Join_text root_of_def)

lemma last_Clean:
  assumes "path_Clean b \<noteq> ''/''"
  shows "last (path_Clean b) \<noteq> CHR ''/''"
proof
  assume l: "last (path_Clean b) = CHR ''/''"
  let ?s = "path_segs b"
  have norm: "norm_segs (path_IsAbs b) ?s" by (rule norm_path_segs)
  have ne: "?s \<noteq> []"
    using assms l by (auto simp: path_Clean_render render_def split: if_splits)
  then obtain q where "path_Clean b = (if path_IsAbs b then ''/'' else '''') @ Join_str ''/'' ?s"
    "Join_str ''/'' ?s = q @ ''/''"
  proof -
    have "Join_str ''/'' ?s \<noteq> ''''"
      using Join_str_hd [OF ne, of "''/''"] norm_segs_no_slash [OF norm] ne by (metis list.set_sel(1))
    moreover have c: "path_Clean b = (if path_IsAbs b then ''/'' else '''') @ Join_str ''/'' ?s"
      using ne by (simp add: path_Clean_render render_def)
    ultimately have "last (Join_str ''/'' ?s) = CHR ''/''" using l by (simp split: if_splits)
    with \<open>Join_str ''/'' ?s \<noteq> ''''\<close> have "Join_str ''/'' ?s = butlast (Join_str ''/'' ?s) @ ''/''"
      by (metis append_butlast_last_id)
    with c show ?thesis by (rule that)
  qed
  then have "'''' \<in> set (Split (CHR ''/'') (Join_str ''/'' ?s))" by (simp add: Split_append_sep)
  then show False
    using Split_slash_render [OF norm ne] norm_segs_no_slash [OF norm] by auto
qed

lemma list_root:
  assumes "prefix_ok p" "rooted_prefix prefix"
  shows "slash_end (path_Join prefix p) = root_of prefix @ dir_of p"
proof (cases "p = ''''")
  case True
  show ?thesis
  proof (cases "prefix = ''''")
    case False
    then have "path_Clean prefix \<noteq> ''.''" using assms(2) by (simp add: rooted_prefix_def)
    then show ?thesis
      using True False last_Clean [of prefix] by (auto simp: path_Join_Nil_right slash_end_def root_of_def dir_of_def Let_def)
  qed (use True in \<open>simp add: path_Join_def slash_end_def root_of_def dir_of_def path_Clean_def\<close>)
next
  case False
  with assms(1) have p: "key_ok p" by (simp add: prefix_ok_def)
  have "p \<noteq> ''/''" using key_ok_not_abs [OF p] by (auto simp: path_IsAbs_def)
  then have "last p \<noteq> CHR ''/''" using last_Clean [of p] key_okD(2) [OF p] by simp
  with False show ?thesis by (simp add: Join_root_of [OF p] slash_end_def dir_of_def)
qed

lemma Join_wide:
  assumes "path_Clean prefix \<noteq> ''.''" "stays_inside p" "prefix_ok q" "path_segs q = path_segs p"
  shows "path_Join prefix p = path_Join prefix q"
proof -
  have "prefix \<noteq> ''''" using assms(1) by (auto simp: path_Clean_def)
  moreover have "stays_inside q" using assms(3) by (auto simp: prefix_ok_def key_okD)
  ultimately show ?thesis using assms(2,4) by (simp add: path_Join_render)
qed

section \<open>Lifting the contract\<close>

text \<open>
  A backend may list only clean prefixes right: none, or a clean relative key. \<open>clean_list\<close> is the
  backend with its prefixes cleaned first, as the guard cleans them.
\<close>

definition clean_list :: "('h, 'w) storager \<Rightarrow> ('h, 'w) storager" where
  "clean_list st = st\<lparr>List_op := (\<lambda>h ctx p. case listPrefix p of Inl e \<Rightarrow> throw e | Inr q \<Rightarrow> List_op st h ctx q)\<rparr>"

lemma clean_list_sel [simp]:
  "GetObject (clean_list st) = GetObject st" "GetObjectRange (clean_list st) = GetObjectRange st"
  "PutObject (clean_list st) = PutObject st" "Stat (clean_list st) = Stat st" "Exists (clean_list st) = Exists st"
  "Copy (clean_list st) = Copy st"
  "List_op (clean_list st) h ctx p = (case listPrefix p of Inl e \<Rightarrow> throw e | Inr q \<Rightarrow> List_op st h ctx q)"
  by (simp_all add: clean_list_def)

lemma listPrefix_Inr: "stays_inside p \<Longrightarrow> \<exists>q. listPrefix p = Inr q \<and> prefix_ok q \<and> path_segs q = path_segs p"
proof -
  assume "stays_inside p"
  then obtain q where "listPrefix p = Inr q" by (simp add: listPrefix_def clean_Inr_iff)
  with listPrefix_form listPrefix_stays [of p q] show ?thesis by blast
qed

lemma listPrefix_clean: "prefix_ok q \<Longrightarrow> listPrefix q = Inr q"
  by (auto simp: prefix_ok_def listPrefix_def clean_Inr_iff key_okD path_Clean_dot_iff)

text \<open>The methods the contract is about.\<close>

definition same_methods :: "('h, 'w) storager \<Rightarrow> ('h, 'w) storager \<Rightarrow> 'h \<Rightarrow> bool" where
  "same_methods st st' h \<longleftrightarrow>
     GetObject st h = GetObject st' h \<and> GetObjectRange st h = GetObjectRange st' h \<and> PutObject st h = PutObject st' h \<and>
     Stat st h = Stat st' h \<and> Exists st h = Exists st' h \<and> Copy st h = Copy st' h \<and>
     (\<forall>ctx p. stays_inside p \<longrightarrow> List_op st h ctx p = List_op st' h ctx p)"

context sized_contract
begin

text \<open>The contract for the handles at which another table has the same methods.\<close>

lemma sized_restrict:
  assumes same: "\<And>h. good h \<Longrightarrow> same_methods st' st h"
  shows "sized_contract st' objs (\<lambda>h w. wf h w \<and> good h)"
proof -
  have eq: "GetObject st' h = GetObject st h" "GetObjectRange st' h = GetObjectRange st h"
    "PutObject st' h = PutObject st h" "Stat st' h = Stat st h" "Exists st' h = Exists st h" "Copy st' h = Copy st h"
    "stays_inside p \<Longrightarrow> List_op st' h ctx p = List_op st h ctx p" if "good h" for h ctx p
    using same [OF that] by (simp_all add: same_methods_def)
  show ?thesis
  proof (unfold_locales, goal_cases)
    case (1 h w k ctx res w' h')
    then show ?case using get_frame [of h w k ctx res w' h'] by (simp add: eq)
  next
    case (2 h w k b ctx r w')
    then show ?case using get_content [of h w k b ctx r w'] by (simp add: eq)
  next
    case (3 h w k ctx found w' h')
    then show ?case using exists_frame [of h w k ctx found w' h'] by (simp add: eq)
  next
    case (4 h w k ctx w')
    then show ?case using exists_object [of h w k ctx w'] by (simp add: eq)
  next
    case (5 h w k ctx body n w')
    then show ?case using put_ok [of h w k ctx body n w'] by (simp add: eq)
  next
    case (6 h w k ctx body e w')
    then show ?case using put_err [of h w k ctx body e w'] by (simp add: eq)
  next
    case (7 h w s d ctx opts c w')
    then show ?case using copy_ok [of h w s d ctx opts c w'] by (simp add: eq)
  next
    case (8 h w s d ctx opts e w')
    then show ?case using copy_err [of h w s d ctx opts e w'] by (simp add: eq)
  next
    case (9 h w p ctx listing w' h')
    then show ?case using list_frame [of h w p ctx listing w' h'] by (simp add: eq)
  next
    case (10 h w p ctx os w')
    then show ?case using list_content [of h w p ctx os w'] by (simp add: eq)
  next
    case (11 h w s d ctx opts c w' b)
    then show ?case using copy_bytes [of h w s d ctx opts c w' b] by (simp add: eq)
  next
    case (12 h w p ctx os w' x b)
    then show ?case using list_size [of h w p ctx os w' x b] by (simp add: eq)
  next
    case (13 h w k info w' h')
    then show ?case using stat_frame [of h w k info w' h'] by (simp add: eq)
  next
    case (14 h w k b si w')
    then show ?case using stat_object [of h w k b si w'] by (simp add: eq)
  next
    case (15 h w k ctx off len res w' h')
    then show ?case using range_frame [of h w k ctx off len res w' h'] by (simp add: eq)
  next
    case (16 h w k len b ctx off r w')
    then show ?case using range_content [of h w k len b ctx off r w'] by (simp add: eq)
  qed
qed

end

text \<open>
  A backend whose cleaned listing keeps the contract keeps it behind the guard, and bare at the handles
  where an uncleaned prefix lists the same.
\<close>

lemma guarded_clean_list:
  assumes "sized_contract (clean_list st) objs good"
  shows "sized_contract (guard_ops st) (\<lambda>g. objs (inner g)) (\<lambda>g w. good (inner g) w \<and> guarded g)"
proof (rule sized_contract.sized_restrict [OF sized_contract.guard_sized [OF assms]])
  show "same_methods (guard_ops st) (guard_ops (clean_list st)) g" if g: "guarded g" for g
  proof -
    obtain h where h: "g = Guarded h" using g by (cases g) simp_all
    have lists: "guard_List st g ctx p = guard_List (clean_list st) g ctx p" for ctx p
      by (cases "listPrefix p") (simp_all add: h listPrefix_clean [OF listPrefix_form])
    show ?thesis
      unfolding same_methods_def guard_sel
      by (intro conjI allI impI ext lists; simp add: h split: sum.split)
  qed
qed

lemma bare_clean_list:
  assumes "sized_contract (clean_list st) objs good"
    and eq: "\<And>h ctx p q. wide h \<Longrightarrow> stays_inside p \<Longrightarrow> prefix_ok q \<Longrightarrow> path_segs q = path_segs p \<Longrightarrow>
      List_op st h ctx p = List_op st h ctx q"
  shows "sized_contract st objs (\<lambda>h w. good h w \<and> wide h)"
proof (rule sized_contract.sized_restrict [OF assms(1)])
  show "same_methods st (clean_list st) h" if h: "wide h" for h
  proof -
    have "List_op st h ctx p = List_op (clean_list st) h ctx p" if p: "stays_inside p" for ctx p
    proof -
      from listPrefix_Inr [OF p] obtain q where "listPrefix p = Inr q" "prefix_ok q" "path_segs q = path_segs p" by blast
      with eq [OF h p, of q ctx] show ?thesis by simp
    qed
    then show ?thesis by (simp add: same_methods_def)
  qed
qed

end
