(* ===== verification/S3_Laws.thy ===== *)
theory S3_Laws
  imports S3_Parts Bucket
begin

text \<open>
  The S3 backend as a storage. \<open>s3_service\<close> is what S3 documents of the calls the backend makes, for
  one bucket and one client; inside it the backend is shown to keep the storage contract with sizes
  and ranges: behind the guard for every prefix, and bare for every prefix but the working directory.
  The multipart copy of large objects is part of it.
\<close>

section \<open>The laws of the service\<close>

text \<open>
  \<open>pos\<close> is the key a continuation token stands for. A call on another bucket, or one that fails, is
  only known not to touch other keys.
\<close>

locale s3_service = s3_pinned +
  fixes pos :: "string \<Rightarrow> string"
  assumes object_size: "sane w \<Longrightarrow> bkt w k = Some b \<Longrightarrow> int (length b) \<le> 2 ^ 61"
    and limits: "0 < sv_MaxUploadParts sv" "sv_MaxUploadParts sv \<le> 10000"
    and head_frame: "sane w \<Longrightarrow> sv_HeadObject sv ctx B k w = (hr, w') \<Longrightarrow> bkt w' = bkt w \<and> sane w'"
    and head_ok: "sane w \<Longrightarrow> sv_HeadObject sv ctx B k w = (Inr ho, w') \<Longrightarrow>
      \<exists>b. bkt w k = Some b \<and> ho_ContentLength ho = int (length b) \<and> ho_ETag ho = Some (etag w' k)"
    and head_missing: "sane w \<Longrightarrow> sv_HeadObject sv ctx B k w = (Inl e, w') \<Longrightarrow> s3_isNotFound e \<Longrightarrow> bkt w k = None"
    and get_frame: "sane w \<Longrightarrow> sv_GetObject sv ctx B k rng w = (gr, w') \<Longrightarrow> bkt w' = bkt w \<and> sane w'"
    and get_ok: "sane w \<Longrightarrow> sv_GetObject sv ctx B k rng w = (Inr rd, w') \<Longrightarrow>
      \<exists>b x. bkt w k = Some b \<and> (case rng of None \<Rightarrow> x = b | Some h \<Rightarrow> serve_range h b = Some x) \<and>
        (rd_end rd = None \<longrightarrow> rd_bytes rd = x)"
    and upload_ok: "sane w \<Longrightarrow> ui_Bucket ui = B \<Longrightarrow> sv_Upload sv ctx ui w = (Inr n, w') \<Longrightarrow>
      rd_end (ui_Body ui) = None \<and> n = length (rd_bytes (ui_Body ui)) \<and>
      bkt w' = (bkt w)(ui_Key ui \<mapsto> rd_bytes (ui_Body ui)) \<and> sane w'"
    and upload_err: "sane w \<Longrightarrow> ui_Bucket ui = B \<Longrightarrow> sv_Upload sv ctx ui w = (Inl e, w') \<Longrightarrow>
      only_at (ui_Key ui) (bkt w) (bkt w') \<and> sane w'"
    and copy_ok: "sane w \<Longrightarrow> ci_Bucket ci = B \<Longrightarrow> read_copy_source (ci_CopySource ci) = (B, src) \<Longrightarrow>
      sv_CopyObject sv ctx ci w = (Inr un, w') \<Longrightarrow>
      \<exists>b. bkt w src = Some b \<and> bkt w' = (bkt w)(ci_Key ci \<mapsto> b) \<and> sane w'"
    and copy_err: "sane w \<Longrightarrow> ci_Bucket ci = B \<Longrightarrow> sv_CopyObject sv ctx ci w = (Inl e, w') \<Longrightarrow>
      only_at (ci_Key ci) (bkt w) (bkt w') \<and> sane w'"
    and tagging_bkt: "sane w \<Longrightarrow> sv_GetObjectTagging sv ctx B k ver w = (tr, w') \<Longrightarrow> bkt w' = bkt w"
    and create_bkt: "sane w \<Longrightarrow> sv_CreateMultipartUpload sv ctx cm w = (cr, w') \<Longrightarrow> bkt w' = bkt w"
    and part_bkt: "sane w \<Longrightarrow> sv_UploadPartCopy sv ctx pt w = (pr, w') \<Longrightarrow> bkt w' = bkt w"
    and abort_frame: "sane w \<Longrightarrow> sv_AbortMultipartUpload sv ctx B d u w = (ar, w') \<Longrightarrow> bkt w' = bkt w \<and> sane w'"
    and complete_frame: "sane w \<Longrightarrow> sv_CompleteMultipartUpload sv ctx B d u ps w = (fr, w') \<Longrightarrow>
      only_at d (bkt w) (bkt w') \<and> sane w'"
    and page1_frame: "sane w \<Longrightarrow> sv_ListObjects sv ctx li w = (lr, w') \<Longrightarrow> bkt w' = bkt w \<and> sane w'"
    and page1_ok: "sane w \<Longrightarrow> li_Bucket li = B \<Longrightarrow> li_Delimiter li = None \<Longrightarrow> sv_ListObjects sv ctx li w = (Inr out, w') \<Longrightarrow>
      (let hi = (if pg_IsTruncated out then Some (next_marker out) else None) in
       chunk (bkt w) (li_Prefix li) (li_Marker li) (map so_Key (pg_Contents out)) hi \<and> forward (li_Marker li) hi \<and>
       (pg_IsTruncated out \<longrightarrow> pg_Contents out \<noteq> [] \<and> next_marker out \<noteq> '''') \<and>
       (\<forall>x \<in> set (pg_Contents out). \<forall>b. bkt w (so_Key x) = Some b \<longrightarrow> so_Size x = int (length b)))"
    and page2_frame: "sane w \<Longrightarrow> sv_NextPageV2 sv ctx li tok w = (nr, w') \<Longrightarrow> bkt w' = bkt w \<and> sane w'"
    and page2_ok: "sane w \<Longrightarrow> li_Bucket li = B \<Longrightarrow> li_Delimiter li = None \<Longrightarrow>
      sv_NextPageV2 sv ctx li tok w = (Inr (out, next), w') \<Longrightarrow>
      chunk (bkt w) (li_Prefix li) (map_option pos tok) (map so_Key (pg_Contents out)) (map_option pos next) \<and>
      forward (map_option pos tok) (map_option pos next) \<and> (next \<noteq> None \<longrightarrow> pg_Contents out \<noteq> []) \<and>
      (\<forall>x \<in> set (pg_Contents out). \<forall>b. bkt w (so_Key x) = Some b \<longrightarrow> so_Size x = int (length b))"
    and finite_bucket: "sane w \<Longrightarrow> finite (dom (bkt w))"
begin

section \<open>The objects of a storage\<close>

definition s3_objs :: "s3_storage \<Rightarrow> 'a \<Rightarrow> string \<rightharpoonup> bytes" where
  "s3_objs s w = bucket_objs (root_of (s3_prefix s)) (bkt w)"

definition s3_wf :: "s3_storage \<Rightarrow> 'a \<Rightarrow> bool" where
  "s3_wf s w \<longleftrightarrow> sane w \<and> Bucket (s3_cfg s) = B \<and> rooted_prefix (s3_prefix s) \<and> tidy (root_of (s3_prefix s)) (bkt w)"

lemma s3_objs_key: "key_ok k \<Longrightarrow> s3_objs s w k = bkt w (path_Join (s3_prefix s) k)"
  by (simp add: s3_objs_def bucket_objs_def Join_root_of)

lemma s3_same:
  assumes "s3_wf s w" "bkt w' = bkt w \<and> sane w'"
  shows "s3_objs h' w' = s3_objs h' w \<and> s3_wf s w'"
  using assms by (simp add: s3_objs_def s3_wf_def)

lemma s3_written:
  assumes "s3_wf s w" "key_ok k" "bkt w' = (bkt w)(path_Join (s3_prefix s) k \<mapsto> b) \<and> sane w'"
  shows "s3_objs s w' = (s3_objs s w)(k \<mapsto> b) \<and> s3_wf s w'"
  using assms by (simp add: s3_objs_def s3_wf_def Join_root_of bucket_objs_upd tidy_upd)

lemma s3_touched:
  assumes "s3_wf s w" "key_ok k" "only_at (path_Join (s3_prefix s) k) (bkt w) (bkt w') \<and> sane w'"
  shows "(s3_objs s w)(k := None) \<subseteq>\<^sub>m s3_objs s w' \<and> s3_wf s w'"
  using assms only_at_objs [of k "root_of (s3_prefix s)" "bkt w" "bkt w'"]
  by (simp add: s3_objs_def s3_wf_def Join_root_of)

section \<open>Reading\<close>

lemma s3_Get_call:
  assumes "s3_GetObject sv s ctx k w = (r, w')"
  shows "\<exists>g. sv_GetObject sv ctx (Bucket (s3_cfg s)) (path_Join (s3_prefix s) k) None w = (g, w') \<and>
    (\<forall>rd. r = Inr rd \<longrightarrow> g = Inr rd)"
  using assms by (auto simp: s3_GetObject_def tryIO_apply split: prod.splits sum.splits if_splits)

lemma s3_Range_call:
  assumes "s3_GetObjectRange sv s ctx k off len w = (r, w')"
  shows "(w' = w \<and> (\<exists>e. r = Inl e)) \<or> (0 \<le> off \<and> len \<noteq> 0 \<and>
    (\<exists>g. sv_GetObject sv ctx (Bucket (s3_cfg s)) (path_Join (s3_prefix s) k) (Some (byteRangeHeader off len)) w = (g, w') \<and>
      (\<forall>rd. r = Inr rd \<longrightarrow> g = Inr rd)))"
  using assms by (auto simp: s3_GetObjectRange_def tryIO_apply split: prod.splits sum.splits if_splits)

lemma s3_Exists_call:
  assumes "s3_Exists sv s ctx k w = (r, w')"
  shows "\<exists>g. sv_HeadObject sv ctx (Bucket (s3_cfg s)) (path_Join (s3_prefix s) k) w = (g, w') \<and>
    (r = Inr False \<longrightarrow> (\<exists>e. g = Inl e \<and> s3_isNotFound e))"
  using assms by (auto simp: s3_Exists_def tryIO_apply split: prod.splits sum.splits if_splits)

lemma s3_Stat_call:
  assumes "s3_Stat sv s k w = (r, w')"
  shows "\<exists>g. sv_HeadObject sv (\<lambda>_. None) (Bucket (s3_cfg s)) (path_Join (s3_prefix s) k) w = (g, w') \<and>
    (\<forall>e. g = Inl e \<longrightarrow> (\<forall>si. r = Inr si \<longrightarrow> s3_isNotFound e)) \<and>
    (\<forall>h. g = Inr h \<longrightarrow> (\<forall>si. r = Inr si \<longrightarrow> Exist si \<and> Size si = ho_ContentLength h))"
  using assms by (auto simp: s3_Stat_def Let_def tryIO_apply split: prod.splits sum.splits if_splits)

lemma s3_Put_call:
  assumes "s3_PutObject sv s ctx k body w = (r, w')"
  shows "\<exists>g ui. sv_Upload sv ctx ui w = (g, w') \<and> ui_Bucket ui = Bucket (s3_cfg s) \<and>
    ui_Key ui = path_Join (s3_prefix s) k \<and> ui_Body ui = body \<and> (case r of Inr n \<Rightarrow> g = Inr n | Inl _ \<Rightarrow> \<exists>e. g = Inl e)"
proof -
  let ?ui = "\<lparr>ui_Bucket = Bucket (s3_cfg s), ui_Key = path_Join (s3_prefix s) k, ui_Body = body,
        ui_StorageClass = StorageClass (s3_cfg s), ui_encryption = s3_encryption (s3_cfg s)\<rparr>"
  obtain g where "sv_Upload sv ctx ?ui w = (g, w') \<and> (case r of Inr n \<Rightarrow> g = Inr n | Inl _ \<Rightarrow> \<exists>e. g = Inl e)"
    using assms by (auto simp: s3_PutObject_def tryIO_apply split: prod.splits sum.splits)
  then show ?thesis by (intro exI [of _ g] exI [of _ ?ui]) simp
qed

section \<open>Copying\<close>

lemma copyObject_effect:
  assumes "s3_copyObject sv s ctx src dst e n w = (r, w')" "sane w" "Bucket (s3_cfg s) = B"
  shows "(\<forall>c. r = Inr c \<longrightarrow> Bytes c = n \<and> (\<exists>b. bkt w src = Some b \<and> bkt w' = (bkt w)(dst \<mapsto> b))) \<and>
    only_at dst (bkt w) (bkt w') \<and> sane w'"
proof -
  let ?ci = "\<lparr>ci_Bucket = B, ci_CopySource = copySource B src, ci_Key = dst,
        ci_StorageClass = StorageClass (s3_cfg s), ci_IfMatch = e, ci_encryption = s3_encryption (s3_cfg s)\<rparr>"
  obtain g where C: "sv_CopyObject sv ctx ?ci w = (g, w')"
    and r: "\<forall>c. r = Inr c \<longrightarrow> Bytes c = n \<and> g = Inr ()"
    using assms(1,3) by (auto simp: s3_copyObject_def tryIO_apply split: prod.splits sum.splits if_splits)
  have src: "read_copy_source (ci_CopySource ?ci) = (B, src)" using copySource_decoded [OF bucket_name] by simp
  show ?thesis
  proof (cases g)
    case (Inl e')
    with copy_err [OF assms(2) _ C [unfolded Inl]] r show ?thesis by simp
  next
    case (Inr u)
    with copy_ok [OF assms(2) _ src C [unfolded Inr]] r show ?thesis by (auto simp: only_at_def)
  qed
qed

text \<open>No part of a multipart copy but its completion changes an object.\<close>

lemma copyParts_frame:
  assumes "copyParts pick sv s ctx src dst u e n psz concurrency w = (r, w')" "sane w"
  shows "bkt w' = bkt w \<and> sane w'"
proof -
  let ?E = "\<lparr>e_ctx = ctx, e_task = part_task sv s src dst u e n psz, e_limit = nat (max concurrency 1)\<rparr>"
  let ?g0 = "\<lparr>g_queue = [0..<part_count n psz], g_launched = [], g_inflight = [],
    g_shared = replicate (part_count n psz) \<lparr>cp_ETag = None, cp_PartNumber = None\<rparr>, g_err = None, g_world = w\<rparr>"
  define g where "g = run_group pick ?E ?g0"
  have task: "bkt v' = bkt v \<and> sane v'" if "part_task sv s src dst u e n psz c i ps v = (q, v')" "sane v" for c i ps v q v'
    using that part_bkt [OF that(2)] part_inv [OF that(2)]
    by (auto simp: part_task_def tryIO_apply Let_def split: prod.splits sum.splits)
  have "bkt (g_world g) = bkt w \<and> sane (g_world g)"
  proof (rule group_invariant)
    show "group_reach ?E ?g0 g" unfolding g_def by (rule run_group_reach)
    show "bkt (g_world ?g0) = bkt w \<and> sane (g_world ?g0)" using assms(2) by simp
    show "bkt (g_world (perform ?E a h)) = bkt w \<and> sane (g_world (perform ?E a h))"
      if h: "bkt (g_world h) = bkt w \<and> sane (g_world h)" for h a
    proof (cases rule: perform_world [of ?E a h])
      case (2 i q)
      from task [OF 2 [simplified]] h show ?thesis by simp
    qed (use h in simp)
  qed
  moreover have "w' = g_world g" using assms(1) by (simp add: copyParts_def g_def Let_def)
  ultimately show ?thesis by simp
qed

lemma multipart_failed_frame:
  assumes "multipart_failed sv s d u e w = (r, w')" "sane w" "Bucket (s3_cfg s) = B"
  shows "bkt w' = bkt w \<and> sane w'"
  using assms abort_frame [OF assms(2)]
  by (auto simp: multipart_failed_def tryIO_apply split: prod.splits if_splits)

lemma sourceTagging_frame:
  assumes "sourceTagging sv s ctx k ver w = (r, w')" "sane w" "Bucket (s3_cfg s) = B"
  shows "bkt w' = bkt w \<and> sane w'"
  using assms tagging_bkt [OF assms(2)] tagging_inv [OF assms(2)]
  by (auto simp: sourceTagging_def tryIO_apply split: prod.splits sum.splits if_splits)

lemma multipartCopy_frame:
  assumes M: "multipartCopy pick sv s ctx src dst head psz concurrency w = (r, w')"
    and w: "sane w" and s: "Bucket (s3_cfg s) = B"
  shows "only_at dst (bkt w) (bkt w') \<and> sane w'"
proof -
  define tag where "tag = (if ho_TagCount head > 0
      then bindIO (sourceTagging sv s ctx src (ho_VersionId head)) (\<lambda>t. ret (Some t)) else ret None)"
  obtain t w1 where T: "tag w = (t, w1)" by fastforce
  have w1: "bkt w1 = bkt w" "sane w1"
    using T w sourceTagging_frame [OF _ w s]
    by (auto simp: tag_def bindIO_apply split: if_splits prod.splits sum.splits)
  show ?thesis
  proof (cases t)
    case (Inl e)
    with M T w1 show ?thesis by (simp add: multipartCopy_def Let_def tag_def [symmetric] bindIO_apply only_at_def)
  next
    case (Inr tg)
    define cm where "cm = \<lparr>cm_Bucket = B, cm_Key = dst, cm_StorageClass = StorageClass (s3_cfg s), cm_headers = ho_headers head,
       cm_Tagging = tg, cm_encryption = s3_encryption (s3_cfg s)\<rparr>"
    obtain c w2 where C: "sv_CreateMultipartUpload sv ctx cm w1 = (c, w2)" by fastforce
    have w2: "bkt w2 = bkt w" "sane w2" using create_bkt [OF w1(2) C] create_inv [OF w1(2) C] w1(1) by simp_all
    show ?thesis
    proof (cases c)
      case (Inl e)
      with M T \<open>t = Inr tg\<close> C w2 show ?thesis
        by (simp add: multipartCopy_def Let_def tag_def [symmetric] s cm_def [symmetric] bindIO_apply tryIO_apply only_at_def)
    next
      case (Inr u)
      let ?psz = "multipart_size (sv_MaxUploadParts sv) (ho_ContentLength head) psz"
      obtain p w3 where P: "copyParts pick sv s ctx src dst u (ho_ETag head) (ho_ContentLength head) ?psz concurrency w2 = (p, w3)"
        by fastforce
      have w3: "bkt w3 = bkt w" "sane w3" using copyParts_frame [OF P w2(2)] w2(1) by simp_all
      have M3: "(case p of Inl err \<Rightarrow> multipart_failed sv s dst u err w3
          | Inr parts \<Rightarrow> tryIO (sv_CompleteMultipartUpload sv ctx B dst u parts)
              (\<lambda>r. case r of Inl err \<Rightarrow> multipart_failed sv s dst u (Errorf ''error completing multipart copy'' [err])
                | Inr _ \<Rightarrow> ret ()) w3) = (r, w')"
        using M T \<open>t = Inr tg\<close> C Inr P
        by (simp add: multipartCopy_def Let_def tag_def [symmetric] s cm_def [symmetric] bindIO_apply tryIO_apply split: sum.splits)
      show ?thesis
      proof (cases p)
        case (Inl e)
        with M3 multipart_failed_frame [OF _ w3(2) s] w3(1) show ?thesis by (auto simp: only_at_def)
      next
        case (Inr parts)
        obtain f w4 where F: "sv_CompleteMultipartUpload sv ctx B dst u parts w3 = (f, w4)" by fastforce
        note w4 = complete_frame [OF w3(2) F]
        show ?thesis
        proof (cases f)
          case (Inl e)
          with M3 Inr F multipart_failed_frame [OF _ conjunct2 [OF w4] s] w4 w3(1) show ?thesis by (auto simp: tryIO_apply)
        next
          case (Inr v)
          with M3 \<open>p = Inr parts\<close> F w4 w3(1) show ?thesis by (simp add: tryIO_apply)
        qed
      qed
    qed
  qed
qed

text \<open>A copy succeeds with the bytes of its source at its destination and nothing else changed.\<close>

lemma s3_Copy_effect:
  assumes C: "s3_Copy ppick sv s ctx k d opts w = (r, w')" and w: "s3_wf s w" and k: "key_ok k" and d: "key_ok d"
  shows "only_at (path_Join (s3_prefix s) d) (bkt w) (bkt w') \<and> sane w' \<and>
    (\<forall>c. r = Inr c \<longrightarrow> (\<exists>b. bkt w (path_Join (s3_prefix s) k) = Some b \<and>
       bkt w' = (bkt w)(path_Join (s3_prefix s) d \<mapsto> b) \<and> (Bytes c = int (length b) \<or> Bytes c = 0 \<and> bkt w (path_Join (s3_prefix s) d) = Some b)))"
proof -
  let ?src = "path_Join (s3_prefix s) k" and ?dst = "path_Join (s3_prefix s) d"
  have s: "sane w" "Bucket (s3_cfg s) = B" using w by (simp_all add: s3_wf_def)
  obtain h w1 where H: "sv_HeadObject sv ctx B ?src w = (h, w1)" by fastforce
  note w1 = head_frame [OF s(1) H]
  show ?thesis
  proof (cases h)
    case (Inl e)
    with C H w1 s show ?thesis by (auto simp: s3_Copy_def Let_def tryIO_apply only_at_def split: if_splits)
  next
    case (Inr head)
    from head_ok [OF s(1) H [unfolded Inr]] obtain b where b: "bkt w ?src = Some b"
      "ho_ContentLength head = int (length b)" "ho_ETag head = Some (etag w1 ?src)" by blast
    have b1: "bkt w1 ?src = Some b" using b w1 by simp
    consider "?src = ?dst" "r = Inr zeroCopyStat" "w' = w1"
      | (large) "int (length b) > maxCopyObjectSize" "\<exists>u. multipartCopy ppick sv s ctx ?src ?dst head
           (resolveCopyPartSize sv (NewCopyOptions opts)) (copyConcurrency sv s (NewCopyOptions opts)) w1 = (u, w') \<and>
           (\<forall>c. r = Inr c \<longrightarrow> Bytes c = int (length b) \<and> u = Inr ())"
      | "s3_copyObject sv s ctx ?src ?dst (ho_ETag head) (int (length b)) w1 = (r, w')"
      using C H Inr s(2) b(2)
      by (auto simp: s3_Copy_def Let_def tryIO_apply bindIO_apply split: if_splits prod.splits sum.splits)
    then show ?thesis
    proof cases
      case 1
      with b w1 show ?thesis by (auto simp: only_at_def zeroCopyStat_def fun_upd_idem)
    next
      case large
      then obtain u where M: "multipartCopy ppick sv s ctx ?src ?dst head (resolveCopyPartSize sv (NewCopyOptions opts))
          (copyConcurrency sv s (NewCopyOptions opts)) w1 = (u, w')"
        and u: "\<forall>c. r = Inr c \<longrightarrow> Bytes c = int (length b) \<and> u = Inr ()" by blast
      note fr = multipartCopy_frame [OF M _ s(2)]
      have sizes: "part_sizes (length b) (resolveCopyPartSize sv (NewCopyOptions opts))"
        using large(1) object_size [OF s(1) b(1)]
        by (auto simp: part_sizes_def resolveCopyPartSize_def maxCopyObjectSize_def copyPartSize_def maxCopyPartSize_def)
      show ?thesis
      proof (cases r)
        case (Inl e)
        with fr w1 show ?thesis by simp
      next
        case (Inr c)
        with u M have "multipartCopy ppick sv s ctx ?src ?dst head (resolveCopyPartSize sv (NewCopyOptions opts))
          (copyConcurrency sv s (NewCopyOptions opts)) w1 = (Inr (), w')" by simp
        from multipartCopy_ok [OF this s(2) sizes limits _ b1 b(3,2)] w1 have "bkt w' ?dst = Some b" by simp
        with fr w1 b u Inr show ?thesis by (auto simp: only_at_def)
      qed
    next
      case 3
      from copyObject_effect [OF 3 _ s(2)] w1 b1 b(1) show ?thesis by auto
    qed
  qed
qed

section \<open>Listing\<close>

definition page_keys :: "s3_page list \<Rightarrow> string list" where
  "page_keys ps = concat (map (\<lambda>p. map so_Key (pg_Contents p)) ps)"

text \<open>What a listing has collected: keys up to a position, with the sizes of their contents.\<close>

definition listing :: "(string \<rightharpoonup> bytes) \<Rightarrow> s3_page list \<Rightarrow> bool" where
  "listing m ps \<longleftrightarrow> (\<forall>p \<in> set ps. \<forall>x \<in> set (pg_Contents p). \<forall>b. m (so_Key x) = Some b \<longrightarrow> so_Size x = int (length b))"

lemma page_keys_simps [simp]: "page_keys [] = []" "page_keys (ps @ [p]) = page_keys ps @ map so_Key (pg_Contents p)"
  by (simp_all add: page_keys_def)

lemma listing_simps [simp]:
  "listing m []"
  "listing m (ps @ [p]) \<longleftrightarrow> listing m ps \<and> (\<forall>x \<in> set (pg_Contents p). \<forall>b. m (so_Key x) = Some b \<longrightarrow> so_Size x = int (length b))"
  by (auto simp: listing_def)

definition listed_ok :: "string \<Rightarrow> 'a \<Rightarrow> ((error + s3_page list) \<times> 'a) option \<Rightarrow> bool" where
  "listed_ok pre w out \<longleftrightarrow> (\<forall>r w'. out = Some (r, w') \<longrightarrow> bkt w' = bkt w \<and> sane w' \<and>
     (\<forall>ps. r = Inr ps \<longrightarrow> chunk (bkt w) pre None (page_keys ps) None \<and> listing (bkt w) ps))"

lemma pages_v2_ok:
  assumes "sane w" "li_Bucket li = B" "li_Delimiter li = None"
    and "so_far (bkt w) (li_Prefix li) (page_keys acc) (map_option pos tok)" "listing (bkt w) acc"
  shows "listed_ok (li_Prefix li) w (pages_v2 fuel sv ctx li tok acc w)"
  using assms
proof (induction fuel arbitrary: tok acc w)
  case (Suc fuel)
  obtain n w1 where N: "sv_NextPageV2 sv ctx li tok w = (n, w1)" by fastforce
  note w1 = page2_frame [OF Suc.prems(1) N]
  show ?case
  proof (cases n)
    case (Inl e)
    with N w1 show ?thesis by (simp add: listed_ok_def)
  next
    case (Inr on)
    obtain out nxt where on: "on = (out, nxt)" by fastforce
    note ok = page2_ok [OF Suc.prems(1-3) N [unfolded Inr on]]
    have more: "listing (bkt w) (acc @ [out])" using ok Suc.prems(5) by simp
    show ?thesis
    proof (cases nxt)
      case None
      have "chunk (bkt w) (li_Prefix li) None (page_keys (acc @ [out])) None"
        using so_far_page [OF Suc.prems(4)] ok None by simp
      with None N Inr on w1 more show ?thesis by (simp add: listed_ok_def)
    next
      case (Some t)
      have "so_far (bkt w) (li_Prefix li) (page_keys (acc @ [out])) (Some (pos t))"
        using so_far_next [OF Suc.prems(4)] ok Some by simp
      then have "listed_ok (li_Prefix li) w1 (pages_v2 fuel sv ctx li (Some t) (acc @ [out]) w1)"
        using Suc.IH [of w1 "acc @ [out]" "Some t"] Suc.prems(2,3) more w1 by simp
      with Some N Inr on w1 show ?thesis by (simp add: listed_ok_def)
    qed
  qed
qed (simp add: listed_ok_def)

lemma pages_v1_ok:
  assumes "sane w" "li_Bucket li = B" "li_Delimiter li = None"
    and "so_far (bkt w) (li_Prefix li) (page_keys acc) (li_Marker li)" "listing (bkt w) acc"
  shows "listed_ok (li_Prefix li) w (pages_v1 fuel sv ctx li acc w)"
  using assms
proof (induction fuel arbitrary: li acc w)
  case (Suc fuel)
  obtain n w1 where N: "sv_ListObjects sv ctx li w = (n, w1)" by fastforce
  note w1 = page1_frame [OF Suc.prems(1) N]
  show ?case
  proof (cases n)
    case (Inl e)
    with N w1 show ?thesis by (simp add: listed_ok_def)
  next
    case (Inr out)
    note ok = page1_ok [OF Suc.prems(1-3) N [unfolded Inr], unfolded Let_def]
    have more: "listing (bkt w) (acc @ [out])" using ok Suc.prems(5) by simp
    show ?thesis
    proof (cases "pg_IsTruncated out")
      case False
      have "chunk (bkt w) (li_Prefix li) None (page_keys (acc @ [out])) None"
        using so_far_page [OF Suc.prems(4)] ok False by simp
      with False N Inr w1 more show ?thesis by (simp add: listed_ok_def)
    next
      case True
      let ?li = "li\<lparr>li_Marker := Some (next_marker out)\<rparr>"
      have "so_far (bkt w) (li_Prefix li) (page_keys (acc @ [out])) (Some (next_marker out))"
        using so_far_next [OF Suc.prems(4)] ok True by simp
      then have "listed_ok (li_Prefix li) w1 (pages_v1 fuel sv ctx ?li (acc @ [out]) w1)"
        using Suc.IH [of w1 ?li "acc @ [out]"] Suc.prems(2,3) more w1 by simp
      with True N Inr w1 ok show ?thesis by (simp add: listed_ok_def)
    qed
  qed
qed (simp add: listed_ok_def)

lemma s3_pages_ok:
  assumes "sane w" "Bucket (s3_cfg s) = B"
  shows "listed_ok pre w (s3_pages fuel sv s ctx pre None w)"
  using assms pages_v1_ok [where acc = "[]" and li = "\<lparr>li_Bucket = B, li_Prefix = pre, li_Delimiter = None, li_Marker = None\<rparr>"]
    pages_v2_ok [where acc = "[]" and tok = None and li = "\<lparr>li_Bucket = B, li_Prefix = pre, li_Delimiter = None, li_Marker = None\<rparr>"]
  by (simp add: s3_pages_def Let_def)

lemma names_collected:
  "map Name (concat (map (\<lambda>p. s3_collect pre (pg_Contents p)) ps)) =
     map (\<lambda>k. TrimPrefix k pre) (filter (\<lambda>k. TrimPrefix k pre \<noteq> '''') (page_keys ps))"
proof -
  have "map Name (s3_collect pre xs) =
      map (\<lambda>k. TrimPrefix k pre) (filter (\<lambda>k. TrimPrefix k pre \<noteq> '''') (map so_Key xs))" for xs
    by (simp add: s3_collect_def filter_map o_def)
  then show ?thesis by (induction ps) (simp_all add: page_keys_def)
qed

lemma collected_size:
  assumes "x \<in> set (concat (map (\<lambda>p. s3_collect pre (pg_Contents p)) ps))" "listing m ps"
    and "\<forall>k \<in> set (page_keys ps). HasPrefix k pre"
  shows "Exist x \<and> (\<forall>b. m (pre @ Name x) = Some b \<longrightarrow> Size x = int (length b))"
proof -
  from assms(1) obtain p y where y: "p \<in> set ps" "y \<in> set (pg_Contents p)"
    "x = \<lparr>Name = TrimPrefix (so_Key y) pre, LastModified = so_LastModified y, Exist = True, Size = so_Size y, ETag = so_ETag y\<rparr>"
    by (auto simp: s3_collect_def)
  have "so_Key y \<in> set (page_keys ps)" using y(1,2) by (auto simp: page_keys_def)
  with assms(3) obtain t where "so_Key y = pre @ t" by (auto simp: HasPrefix_iff)
  with y assms(2) show ?thesis by (auto simp: listing_def)
qed

lemma s3_List_spec:
  assumes "s3_wf s w" "prefix_ok p" "fueled (s3_List fuel sv s ctx p) w = (r, w')"
  shows "bkt w' = bkt w \<and> sane w' \<and> (\<forall>os. r = Inr os \<longrightarrow> sorted_wrt (<) (map Name os) \<and>
    (\<forall>k. key_ok k \<longrightarrow> (s3_objs s w (path_Join p k) \<noteq> None \<longleftrightarrow> k \<in> Name ` set os)) \<and>
    (\<forall>x \<in> set os. Exist x \<and> key_ok (Name x) \<and>
       (\<forall>b. s3_objs s w (path_Join p (Name x)) = Some b \<longrightarrow> Size x = int (length b))))"
proof -
  let ?pre = "root_of (s3_prefix s) @ dir_of p"
  have s: "sane w" "Bucket (s3_cfg s) = B" "rooted_prefix (s3_prefix s)" "tidy (root_of (s3_prefix s)) (bkt w)"
    using assms(1) by (simp_all add: s3_wf_def)
  have pre: "s3_fixPrefix (path_Join (s3_prefix s) p) = ?pre"
    using list_root [OF assms(2) s(3)] by (simp add: s3_fixPrefix_def slash_end_def)
  show ?thesis
  proof (cases "s3_pages fuel sv s ctx ?pre None w")
    case None
    with assms(3) s show ?thesis by (auto simp: fueled_def s3_List_def Let_def pre)
  next
    case (Some rw)
    obtain q w1 where rw: "rw = (q, w1)" by fastforce
    note ok = s3_pages_ok [OF s(1,2), of ?pre fuel ctx, unfolded Some rw listed_ok_def, simplified]
    show ?thesis
    proof (cases q)
      case (Inl e)
      with assms(3) Some rw ok show ?thesis by (auto simp: fueled_def s3_List_def Let_def pre)
    next
      case (Inr ps)
      let ?os = "concat (map (\<lambda>p. s3_collect ?pre (pg_Contents p)) ps)"
      have r: "r = Inr ?os" "w' = w1" using assms(3) Some rw Inr by (simp_all add: fueled_def s3_List_def Let_def pre)
      have ch: "chunk (bkt w) ?pre None (page_keys ps) None" and li: "listing (bkt w) ps" using ok Inr by simp_all
      note names = listing_objs [OF ch s(4) assms(2) names_collected [of ?pre ps, simplified append_assoc]]
      have "Exist x \<and> key_ok (Name x) \<and> (\<forall>b. s3_objs s w (path_Join p (Name x)) = Some b \<longrightarrow> Size x = int (length b))"
        if x: "x \<in> set ?os" for x
      proof -
        have n: "Name x \<in> set (map Name ?os)" using x by simp
        have "\<forall>k \<in> set (page_keys ps). HasPrefix k ?pre" using ch by (simp add: chunk_def)
        from collected_size [OF x li this] names n show ?thesis
          by (auto simp: s3_objs_def bucket_objs_def split: if_splits)
      qed
      with r ok names show ?thesis by (auto simp: s3_objs_def)
    qed
  qed
qed

text \<open>A listing returns when it has fuel for one more page than there are keys.\<close>

lemma pages_v2_return:
  assumes "sane w" "li_Bucket li = B" "li_Delimiter li = None"
    and "card (keys_left (bkt w) (li_Prefix li) (map_option pos tok)) < fuel"
  shows "pages_v2 fuel sv ctx li tok acc w \<noteq> None"
  using assms
proof (induction fuel arbitrary: tok acc w)
  case (Suc fuel)
  obtain n w1 where N: "sv_NextPageV2 sv ctx li tok w = (n, w1)" by fastforce
  note w1 = page2_frame [OF Suc.prems(1) N]
  show ?case
  proof (cases "\<exists>out t. n = Inr (out, Some t)")
    case True
    then obtain out t where n: "n = Inr (out, Some t)" by blast
    note ok = page2_ok [OF Suc.prems(1-3) N [unfolded n]]
    have "card (keys_left (bkt w1) (li_Prefix li) (Some (pos t))) < fuel"
      using keys_left_page [OF finite_bucket [OF Suc.prems(1)], of "li_Prefix li" "map_option pos tok"
          "map so_Key (pg_Contents out)" "pos t"] ok w1 Suc.prems(4) by simp
    with Suc.IH [of w1 "Some t" "acc @ [out]"] Suc.prems(2,3) w1 N n show ?thesis by simp
  qed (use N in \<open>auto split: sum.split prod.split option.split\<close>)
qed simp

lemma pages_v1_return:
  assumes "sane w" "li_Bucket li = B" "li_Delimiter li = None"
    and "card (keys_left (bkt w) (li_Prefix li) (li_Marker li)) < fuel"
  shows "pages_v1 fuel sv ctx li acc w \<noteq> None"
  using assms
proof (induction fuel arbitrary: li acc w)
  case (Suc fuel)
  obtain n w1 where N: "sv_ListObjects sv ctx li w = (n, w1)" by fastforce
  note w1 = page1_frame [OF Suc.prems(1) N]
  show ?case
  proof (cases "\<exists>out. n = Inr out \<and> pg_IsTruncated out")
    case True
    then obtain out where n: "n = Inr out" "pg_IsTruncated out" by blast
    let ?li = "li\<lparr>li_Marker := Some (next_marker out)\<rparr>"
    note ok = page1_ok [OF Suc.prems(1-3) N [unfolded n(1)], unfolded Let_def]
    have "card (keys_left (bkt w1) (li_Prefix ?li) (li_Marker ?li)) < fuel"
      using keys_left_page [OF finite_bucket [OF Suc.prems(1)], of "li_Prefix li" "li_Marker li"
          "map so_Key (pg_Contents out)" "next_marker out"] ok n w1 Suc.prems(4) by simp
    with Suc.IH [of w1 ?li "acc @ [out]"] Suc.prems(2,3) w1 N n show ?thesis by simp
  qed (use N in \<open>auto split: sum.split\<close>)
qed simp

lemma s3_List_returns:
  assumes "s3_wf s w" "card (dom (bkt w)) < fuel"
  shows "s3_List fuel sv s ctx p w \<noteq> None"
proof -
  have s: "sane w" "Bucket (s3_cfg s) = B" using assms(1) by (simp_all add: s3_wf_def)
  let ?pre = "s3_fixPrefix (path_Join (s3_prefix s) p)"
  have "card (keys_left (bkt w) ?pre None) \<le> card (dom (bkt w))"
    by (rule card_mono [OF finite_bucket [OF s(1)]]) (auto simp: keys_left_def)
  with assms(2) have "card (keys_left (bkt w) ?pre None) < fuel" by simp
  with s pages_v1_return [where li = "\<lparr>li_Bucket = B, li_Prefix = ?pre, li_Delimiter = None, li_Marker = None\<rparr>"]
    pages_v2_return [where tok = None and li = "\<lparr>li_Bucket = B, li_Prefix = ?pre, li_Delimiter = None, li_Marker = None\<rparr>"]
  have "s3_pages fuel sv s ctx ?pre None w \<noteq> None" by (simp add: s3_pages_def Let_def)
  then show ?thesis by (auto simp: s3_List_def Let_def split: sum.split)
qed

section \<open>The contract\<close>

lemma s3_Range_spec:
  assumes "s3_wf s w" "key_ok k" "in64 len" "s3_objs s w k = Some b" "s3_GetObjectRange sv s ctx k off len w = (Inr rd, w')"
  shows "0 \<le> off \<and> len \<noteq> 0 \<and> off < int (length b) \<and> (rd_end rd = None \<longrightarrow> rd_bytes rd = clamped off len b)"
proof -
  have s: "sane w" "Bucket (s3_cfg s) = B" using assms(1) by (simp_all add: s3_wf_def)
  from s3_Range_call [OF assms(5)] s(2)
  have G: "0 \<le> off" "len \<noteq> 0"
    "sv_GetObject sv ctx B (path_Join (s3_prefix s) k) (Some (byteRangeHeader off len)) w = (Inr rd, w')" by auto
  have b: "bkt w (path_Join (s3_prefix s) k) = Some b" using assms(2,4) by (simp add: s3_objs_key)
  have "int (length b) \<le> MaxInt64" using object_size [OF s(1) b] by (simp add: MaxInt64_def)
  from get_ok [OF s(1) G(3)] b byteRangeHeader_served [OF G(1) assms(3) G(2) this] G(1,2)
  show ?thesis by (auto split: if_splits)
qed

lemma s3_clean_contract: "sized_contract (clean_list (s3_ops fuel pick ppick sv)) s3_objs s3_wf"
proof (unfold_locales, goal_cases)
  case (1 h w k ctx res w' h')
  with s3_Get_call [of h ctx k w res w'] obtain g where
    "sv_GetObject sv ctx B (path_Join (s3_prefix h) k) None w = (g, w')" by (auto simp: s3_ops_def s3_methods_def s3_wf_def)
  with 1(1) get_frame show ?case by (intro s3_same) (auto simp: s3_wf_def)
next
  case (2 h w k b ctx r w')
  then have "sv_GetObject sv ctx B (path_Join (s3_prefix h) k) None w = (Inr r, w')" "sane w"
    using s3_Get_call [of h ctx k w "Inr r" w'] by (auto simp: s3_ops_def s3_methods_def s3_wf_def)
  from get_ok [OF this(2,1)] 2(2,3,5) show ?case by (simp add: s3_objs_key)
next
  case (3 h w k ctx found w' h')
  with s3_Exists_call [of h ctx k w found w'] obtain g where
    "sv_HeadObject sv ctx B (path_Join (s3_prefix h) k) w = (g, w')" by (auto simp: s3_ops_def s3_methods_def s3_wf_def)
  with 3(1) head_frame show ?case by (intro s3_same) (auto simp: s3_wf_def)
next
  case (4 h w k ctx w')
  with s3_Exists_call [of h ctx k w "Inr False" w'] obtain e where
    "sv_HeadObject sv ctx B (path_Join (s3_prefix h) k) w = (Inl e, w')" "s3_isNotFound e" "sane w"
    by (auto simp: s3_ops_def s3_methods_def s3_wf_def)
  with head_missing 4(2) show ?case by (auto simp: s3_objs_key)
next
  case (5 h w k ctx body n w')
  with s3_Put_call [of h ctx k body w "Inr n" w'] obtain ui where
    "sv_Upload sv ctx ui w = (Inr n, w')" "ui_Bucket ui = B" "ui_Key ui = path_Join (s3_prefix h) k" "ui_Body ui = body" "sane w"
    by (auto simp: s3_ops_def s3_methods_def s3_wf_def)
  with upload_ok [of w ui ctx n w'] s3_written [OF 5(1,2)] show ?case by simp
next
  case (6 h w k ctx body e w')
  with s3_Put_call [of h ctx k body w "Inl e" w'] obtain e' ui where
    P: "sv_Upload sv ctx ui w = (Inl e', w')" "ui_Bucket ui = B" "ui_Key ui = path_Join (s3_prefix h) k" "sane w"
    by (auto simp: s3_ops_def s3_methods_def s3_wf_def)
  with upload_err [of w ui ctx e' w'] P s3_touched [OF 6(1,2)] show ?case by simp
next
  case (7 h w s d ctx opts c w')
  then have "s3_Copy ppick sv h ctx s d opts w = (Inr c, w')" by (simp add: s3_ops_def s3_methods_def)
  from s3_Copy_effect [OF this 7(1-3)] 7(2) s3_written [OF 7(1,3)] show ?case by (auto simp: s3_objs_key)
next
  case (8 h w s d ctx opts e w')
  then have "s3_Copy ppick sv h ctx s d opts w = (Inl e, w')" by (simp add: s3_ops_def s3_methods_def)
  from s3_Copy_effect [OF this 8(1-3)] s3_touched [OF 8(1,3)] show ?case by blast
next
  case (9 h w p ctx res w' h')
  from listPrefix_Inr [OF 9(2)] obtain q where q: "listPrefix p = Inr q" "prefix_ok q" by blast
  with 9(3) have "fueled (s3_List fuel sv h ctx q) w = (res, w')" by (simp add: s3_ops_def s3_methods_def)
  from s3_List_spec [OF 9(1) q(2) this] show ?case by (intro s3_same [OF 9(1)]) blast
next
  case (10 h w p ctx os w')
  from listPrefix_Inr [OF 10(2)] obtain q where q: "listPrefix p = Inr q" "prefix_ok q" "path_segs q = path_segs p" by blast
  with 10(3) have "fueled (s3_List fuel sv h ctx q) w = (Inr os, w')" by (simp add: s3_ops_def s3_methods_def)
  note spec = s3_List_spec [OF 10(1) q(2) this]
  have "path_Join p k = path_Join q k" if "key_ok k" for k
    using path_Join_cong [OF 10(2) _ _ that, of q] q(2,3) by (auto simp: prefix_ok_def key_okD)
  with spec show ?case by simp
next
  case (11 h w s d ctx opts c w' b)
  then have "s3_Copy ppick sv h ctx s d opts w = (Inr c, w')" by (simp add: s3_ops_def s3_methods_def)
  note effect = s3_Copy_effect [OF this 11(1-3)]
  have b: "bkt w (path_Join (s3_prefix h) s) = Some b" using 11(2,5) by (simp add: s3_objs_key)
  have "wrap64 (int (length b)) = int (length b)"
    using object_size [OF _ b] 11(1) by (intro wrap64_id) (simp add: s3_wf_def in64_iff)
  with effect b show ?case using s3_objs_key [OF 11(3), of h w] by auto
next
  case (12 h w p ctx os w' x b)
  from listPrefix_Inr [OF 12(2)] obtain q where q: "listPrefix p = Inr q" "prefix_ok q" "path_segs q = path_segs p" by blast
  with 12(3) have "fueled (s3_List fuel sv h ctx q) w = (Inr os, w')" by (simp add: s3_ops_def s3_methods_def)
  note spec = s3_List_spec [OF 12(1) q(2) this]
  then have x: "key_ok (Name x)" "\<forall>b. s3_objs h w (path_Join q (Name x)) = Some b \<longrightarrow> Size x = int (length b)"
    using 12(4) by blast+
  have "path_Join p (Name x) = path_Join q (Name x)"
    using path_Join_cong [OF 12(2) _ _ x(1), of q] q(2,3) by (auto simp: prefix_ok_def key_okD)
  with x(2) 12(5) show ?case by simp
next
  case (13 h w k info w' h')
  with s3_Stat_call [of h k w info w'] obtain g where
    "sv_HeadObject sv (\<lambda>_. None) B (path_Join (s3_prefix h) k) w = (g, w')" by (auto simp: s3_ops_def s3_methods_def s3_wf_def)
  with 13(1) head_frame show ?case by (intro s3_same) (auto simp: s3_wf_def)
next
  case (14 h w k b si w')
  have w: "sane w" using 14(1) by (simp add: s3_wf_def)
  from 14 s3_Stat_call [of h k w "Inr si" w'] obtain g where
    g: "sv_HeadObject sv (\<lambda>_. None) B (path_Join (s3_prefix h) k) w = (g, w')"
    "\<forall>e. g = Inl e \<longrightarrow> s3_isNotFound e" "\<forall>ho. g = Inr ho \<longrightarrow> Exist si \<and> Size si = ho_ContentLength ho"
    by (auto simp: s3_ops_def s3_methods_def s3_wf_def)
  show ?case
  proof (cases g)
    case (Inl e)
    with g head_missing [OF w, of "\<lambda>_. None" _ e w'] 14(2,3) show ?thesis by (auto simp: s3_objs_key)
  next
    case (Inr ho)
    with g head_ok [OF w, of "\<lambda>_. None" _ ho w'] 14(2,3) show ?thesis by (fastforce simp: s3_objs_key)
  qed
next
  case (15 h w k ctx off len res w' h')
  with s3_Range_call [of h ctx k off len w res w']
  have "bkt w' = bkt w \<and> sane w'" using get_frame by (auto simp: s3_ops_def s3_methods_def s3_wf_def)
  then show ?case by (rule s3_same [OF 15(1)])
next
  case (16 h w k len b ctx off r w')
  then have "s3_GetObjectRange sv h ctx k off len w = (Inr r, w')" by (simp add: s3_ops_def s3_methods_def)
  from s3_Range_spec [OF 16(1-4) this] show ?case .
qed

text \<open>Behind the guard the contract holds for every storage, bare when its prefix is a real one.\<close>

lemma s3_guarded_contract:
  "sized_contract (guard_ops (s3_ops fuel pick ppick sv)) (\<lambda>g. s3_objs (inner g)) (\<lambda>g w. s3_wf (inner g) w \<and> guarded g)"
  by (rule guarded_clean_list [OF s3_clean_contract])

lemma s3_bare_contract:
  "sized_contract (s3_ops fuel pick ppick sv) s3_objs (\<lambda>s w. s3_wf s w \<and> path_Clean (s3_prefix s) \<noteq> ''.'')"
proof (rule bare_clean_list [OF s3_clean_contract])
  fix s :: s3_storage and ctx :: "'a ctx" and p q :: string
  assume "path_Clean (s3_prefix s) \<noteq> ''.''" "stays_inside p" "prefix_ok q" "path_segs q = path_segs p"
  then have "path_Join (s3_prefix s) p = path_Join (s3_prefix s) q" by (rule Join_wide)
  then show "List_op (s3_ops fuel pick ppick sv) s ctx p = List_op (s3_ops fuel pick ppick sv) s ctx q"
    by (simp add: s3_ops_def s3_methods_def fueled_def s3_List_def Let_def fun_eq_iff)
qed

end

end
