(* ===== verification/S3_Delete.thy ===== *)
theory S3_Delete
  imports S3_Laws
begin

text \<open>
  Deleting from S3. The delete request names up to a thousand keys and succeeds as a whole; the keys
  the service would not delete are listed in its output. The backend checks every key before it sends
  the first batch, so a request naming an absent object deletes nothing; it does not read the outputs,
  so a refused key is reported as deleted.
\<close>

section \<open>The law of the service\<close>

text \<open>\<open>locked k\<close>: the service will not delete \<open>k\<close> for this client, and says so in its output.\<close>

locale s3_deleting = s3_service +
  fixes locked :: "string \<Rightarrow> bool"
  assumes delete_ok: "sane w \<Longrightarrow> sv_DeleteObjects sv ctx B ks w = (Inr refused, w') \<Longrightarrow>
      fst ` set refused = {k \<in> set ks. locked k} \<and>
      (\<forall>k. bkt w' k = (if k \<in> set ks \<and> \<not> locked k then None else bkt w k)) \<and> sane w'"
    and delete_err: "sane w \<Longrightarrow> sv_DeleteObjects sv ctx B ks w = (Inl e, w') \<Longrightarrow>
      (\<forall>k. k \<notin> set ks \<longrightarrow> bkt w' k = bkt w k) \<and> sane w'"
begin

section \<open>The check\<close>

lemma s3_check_spec:
  assumes "s3_check sv s ctx ps w = (r, w')" "sane w" "Bucket (s3_cfg s) = B"
  shows "bkt w' = bkt w \<and> sane w' \<and> (\<forall>ms. r \<noteq> Inl (MissingObjectsError ms)) \<and>
    (\<forall>ms. r = Inr ms \<longrightarrow> ms = filter (\<lambda>p. bkt w (path_Join (s3_prefix s) p) = None) ps)"
  using assms(1,2)
proof (induction ps arbitrary: w r w')
  case (Cons p ps)
  let ?k = "path_Join (s3_prefix s) p"
  obtain h w1 where H: "sv_HeadObject sv ctx B ?k w = (h, w1)" by fastforce
  note w1 = head_frame [OF Cons.prems(2) H]
  obtain q w2 where R: "s3_check sv s ctx ps w1 = (q, w2)" by fastforce
  note rest = Cons.IH [OF R conjunct2 [OF w1]]
  show ?case
  proof (cases h)
    case (Inl e)
    show ?thesis
    proof (cases "s3_isNotFound e")
      case True
      from head_missing [OF Cons.prems(2) H [unfolded Inl] this] True Cons.prems(1) assms(3) H Inl R rest w1
      show ?thesis by (cases q) (auto simp: tryIO_apply bindIO_apply)
    next
      case False
      with Cons.prems(1) assms(3) H Inl w1 show ?thesis by (auto simp: tryIO_apply)
    qed
  next
    case (Inr ho)
    from head_ok [OF Cons.prems(2) H [unfolded Inr]] Cons.prems(1) assms(3) H Inr R rest w1
    show ?thesis by (auto simp: tryIO_apply)
  qed
qed simp

section \<open>The batches\<close>

lemma delete_batches_spec:
  assumes "delete_batches sv s ctx ks w = (r, w')" "sane w" "Bucket (s3_cfg s) = B"
  shows "sane w' \<and> (\<forall>k. k \<notin> set ks \<longrightarrow> bkt w' k = bkt w k) \<and> (\<forall>ms. r \<noteq> Inl (MissingObjectsError ms)) \<and>
    (\<forall>u. r = Inr u \<longrightarrow> (\<forall>k. bkt w' k = (if k \<in> set ks \<and> \<not> locked k then None else bkt w k)))"
  using assms(1,2)
proof (induction "length ks" arbitrary: ks w rule: less_induct)
  case less
  show ?case
  proof (cases "ks = []")
    case True
    with less.prems show ?thesis by (auto simp: delete_batches.simps)
  next
    case False
    let ?a = "take deleteObjectsBatchSize ks" and ?b = "drop deleteObjectsBatchSize ks"
    have ab: "set ks = set ?a \<union> set ?b" by (metis append_take_drop_id set_append)
    obtain d w1 where D: "sv_DeleteObjects sv ctx B ?a w = (d, w1)" by fastforce
    show ?thesis
    proof (cases d)
      case (Inl e)
      with delete_err [OF less.prems(2) D [unfolded Inl]] less.prems(1) False D assms(3) ab show ?thesis
        by (auto simp: delete_batches.simps [of sv s ctx ks])
    next
      case (Inr refused)
      note first = delete_ok [OF less.prems(2) D [unfolded Inr]]
      have "delete_batches sv s ctx ?b w1 = (r, w')"
        using less.prems(1) False D Inr assms(3) by (simp add: delete_batches.simps [of sv s ctx ks])
      moreover have "length ?b < length ks" using False by (simp add: deleteObjectsBatchSize_def)
      ultimately have "sane w' \<and> (\<forall>k. k \<notin> set ?b \<longrightarrow> bkt w' k = bkt w1 k) \<and> (\<forall>ms. r \<noteq> Inl (MissingObjectsError ms)) \<and>
          (\<forall>u. r = Inr u \<longrightarrow> (\<forall>k. bkt w' k = (if k \<in> set ?b \<and> \<not> locked k then None else bkt w1 k)))"
        using less.hyps [of ?b w1] first by blast
      with first ab show ?thesis by auto
    qed
  qed
qed

section \<open>Delete\<close>

lemma s3_Delete_spec:
  assumes D: "s3_Delete sv s ctx ps w = (r, w')" and w: "s3_wf s w" and ps: "\<forall>p \<in> set ps. key_ok p"
  shows "(\<forall>k. k \<notin> set ps \<longrightarrow> s3_objs s w' k = s3_objs s w k) \<and>
    ((\<exists>p \<in> set ps. s3_objs s w p = None) \<longrightarrow> s3_objs s w' = s3_objs s w \<and> (\<exists>e. r = Inl e)) \<and>
    (\<forall>ms. r = Inl (MissingObjectsError ms) \<longrightarrow> ms = filter (\<lambda>p. s3_objs s w p = None) ps \<and> ms \<noteq> []) \<and>
    (\<forall>u. r = Inr u \<longrightarrow> (\<forall>k. s3_objs s w' k =
       (if k \<in> set ps \<and> \<not> locked (path_Join (s3_prefix s) k) then None else s3_objs s w k)))"
proof -
  have s: "sane w" "Bucket (s3_cfg s) = B" using w by (simp_all add: s3_wf_def)
  let ?full = "path_Join (s3_prefix s)"
  obtain c w1 where C: "s3_check sv s ctx ps w = (c, w1)" by fastforce
  note check = s3_check_spec [OF C s]
  have objs1: "s3_objs s w1 = s3_objs s w" using check by (simp add: s3_objs_def)
  have gone: "filter (\<lambda>p. bkt w (?full p) = None) ps = filter (\<lambda>p. s3_objs s w p = None) ps"
    using ps by (intro filter_cong) (simp_all add: s3_objs_key)
  show ?thesis
  proof (cases c)
    case (Inl e)
    with C D check objs1 show ?thesis by (auto simp: s3_Delete_def bindIO_apply)
  next
    case (Inr ms)
    then have ms: "ms = filter (\<lambda>p. s3_objs s w p = None) ps" using check gone by simp
    show ?thesis
    proof (cases "ms = []")
      case False
      with C D Inr objs1 ms show ?thesis by (auto simp: s3_Delete_def bindIO_apply)
    next
      case True
      with C D Inr have "delete_batches sv s ctx (map ?full ps) w1 = (r, w')"
        by (simp add: s3_Delete_def s3_deleteKnown_def bindIO_apply)
      note del = delete_batches_spec [OF this conjunct1 [OF conjunct2 [OF check]] s(2)]
      have full: "?full k \<in> set (map ?full ps) \<longleftrightarrow> k \<in> set ps" if "key_ok k" for k
        using ps that path_Join_inj [OF that, of _ "s3_prefix s"] by auto
      have all: "\<forall>p \<in> set ps. s3_objs s w p \<noteq> None" using ms True filter_empty_conv [of "\<lambda>p. s3_objs s w p = None" ps] by metis
      have objs: "s3_objs s w' k = s3_objs s w k" if "key_ok k \<longrightarrow> bkt w' (?full k) = bkt w (?full k)" for k
        using that by (cases "key_ok k") (simp_all add: s3_objs_def bucket_objs_def Join_root_of)
      show ?thesis
      proof (intro conjI allI impI)
        show "s3_objs s w' k = s3_objs s w k" if "k \<notin> set ps" for k
          using that del full check by (intro objs) simp
        show "s3_objs s w' k = (if k \<in> set ps \<and> \<not> locked (?full k) then None else s3_objs s w k)" if "r = Inr u" for u k
        proof (cases "key_ok k")
          case True
          with that del full [OF True] check show ?thesis by (simp add: s3_objs_key)
        qed (use ps in \<open>auto simp: s3_objs_def bucket_objs_def\<close>)
      qed (use all del in auto)
    qed
  qed
qed

end

end
