(* ===== verification/S3_Mem.thy ===== *)
theory S3_Mem
  imports S3_Delete
begin

text \<open>
  A concrete S3 service: one bucket as an association list, open multipart uploads, listings in pages
  of two entries, entity tags that are the contents themselves. It is what the laws of the S3
  theories are interpreted on, and what the examples run against.
\<close>

section \<open>The world\<close>

record s3_world =
  sw_objs :: "(string \<times> bytes) list"
  sw_upl :: "(string \<times> (int \<times> bytes) list) list"

definition mem_bucket :: string where "mem_bucket = ''bk''"

definition sw_bkt :: "s3_world \<Rightarrow> string \<rightharpoonup> bytes" where
  "sw_bkt w = map_of (sw_objs w)"

definition bytes_tag :: "bytes \<Rightarrow> string" where
  "bytes_tag b = CHR ''t'' # map (\<lambda>x. char_of (unat x)) b"

text \<open>The same tag, read off the bits.\<close>

lemma bytes_tag_code [code]:
  "bytes_tag b = CHR ''t'' # map (\<lambda>x. Char (bit x 0) (bit x 1) (bit x 2) (bit x 3) (bit x 4) (bit x 5) (bit x 6) (bit x 7)) b"
  by (simp add: bytes_tag_def char_of_def bit_unsigned_iff)

definition sw_etag :: "s3_world \<Rightarrow> string \<Rightarrow> string" where
  "sw_etag w k = (case sw_bkt w k of None \<Rightarrow> '''' | Some b \<Rightarrow> bytes_tag b)"

definition sw_parts :: "s3_world \<Rightarrow> string \<rightharpoonup> (int \<rightharpoonup> bytes)" where
  "sw_parts w u = map_option map_of (map_of (sw_upl w) u)"

definition no_such_key :: error where "no_such_key = APIError ''NoSuchKey'' 404"

definition no_such_upload :: error where "no_such_upload = APIError ''NoSuchUpload'' 404"

definition sw_put :: "string \<Rightarrow> bytes \<Rightarrow> s3_world \<Rightarrow> s3_world" where
  "sw_put k b w = w\<lparr>sw_objs := (k, b) # filter (\<lambda>e. fst e \<noteq> k) (sw_objs w)\<rparr>"

lemma bytes_tag_inj: "bytes_tag a = bytes_tag b \<Longrightarrow> a = b"
proof -
  have "inj (\<lambda>x :: byte. char_of (unat x) :: char)"
  proof (rule injI)
    fix x y :: byte
    assume eq: "char_of (unat x) = (char_of (unat y) :: char)"
    have "unat x < 256" "unat y < 256" using unsigned_less [of x, where ?'a = nat] unsigned_less [of y, where ?'a = nat] by simp_all
    then have "unat x = unat y"
      using arg_cong [OF eq, of "of_char :: char \<Rightarrow> nat"] by simp
    then show "x = y" by (simp add: word_unat_eq_iff)
  qed
  then show "bytes_tag a = bytes_tag b \<Longrightarrow> a = b" by (simp add: bytes_tag_def inj_map_eq_map)
qed

lemma sw_bkt_put [simp]: "sw_bkt (sw_put k b w) = (sw_bkt w)(k \<mapsto> b)"
proof -
  have "map_of (filter (\<lambda>e. fst e \<noteq> k) xs) q = (if q = k then None else map_of xs q)" for q and xs :: "(string \<times> bytes) list"
    by (induction xs) auto
  then show ?thesis by (auto simp: sw_bkt_def sw_put_def)
qed

section \<open>The calls\<close>

text \<open>What a key shows up as in a listing: itself, or with a delimiter the prefix up to it.\<close>

definition listed_as :: "string \<Rightarrow> string option \<Rightarrow> string \<Rightarrow> string" where
  "listed_as prefix delimiter k =
     (case delimiter of
        None \<Rightarrow> k
      | Some d \<Rightarrow>
          let rest = drop (length prefix) k in
          if CHR ''/'' \<in> set rest then prefix @ takeWhile (\<lambda>c. c \<noteq> CHR ''/'') rest @ ''/'' else k)"

definition mem_entries_after :: "list_input \<Rightarrow> string option \<Rightarrow> s3_world \<Rightarrow> string list" where
  "mem_entries_after li after w =
     sort (remdups (filter (\<lambda>e. case after of None \<Rightarrow> True | Some m \<Rightarrow> m < e)
       (map (listed_as (li_Prefix li) (li_Delimiter li)) (filter (\<lambda>k. HasPrefix k (li_Prefix li)) (map fst (sw_objs w))))))"

definition mem_page :: "list_input \<Rightarrow> string option \<Rightarrow> s3_world \<Rightarrow> s3_page" where
  "mem_page li after w =
     (let es = mem_entries_after li after w; now = take 2 es;
          is_prefix = (\<lambda>e. li_Delimiter li \<noteq> None \<and> HasSuffix (drop (length (li_Prefix li)) e) ''/'') in
      \<lparr>pg_CommonPrefixes = filter is_prefix now,
       pg_Contents = map (\<lambda>k. \<lparr>so_Key = k, so_LastModified = 0, so_Size = int (length (the (sw_bkt w k))),
          so_ETag = sw_etag w k\<rparr>) (filter (\<lambda>e. \<not> is_prefix e) now),
       pg_IsTruncated = (length es > 2),
       pg_NextMarker = (if li_Delimiter li = None \<or> now = [] then '''' else last now)\<rparr>)"

definition no_headers :: s3_headers where
  "no_headers = \<lparr>hd_CacheControl = None, hd_ContentDisposition = None, hd_ContentEncoding = None,
     hd_ContentLanguage = None, hd_ContentType = None, hd_Expires = None, hd_Metadata = []\<rparr>"

definition mem_head :: "string \<Rightarrow> (s3_world, s3_head) io" where
  "mem_head k w =
     (case sw_bkt w k of
        None \<Rightarrow> (Inl no_such_key, w)
      | Some b \<Rightarrow> (Inr \<lparr>ho_ContentLength = int (length b), ho_ETag = Some (sw_etag w k), ho_LastModified = 0,
          ho_headers = no_headers, ho_TagCount = 0, ho_VersionId = None\<rparr>, w))"

definition mem_get :: "string \<Rightarrow> string option \<Rightarrow> (s3_world, reader) io" where
  "mem_get k rng w =
     (case sw_bkt w k of
        None \<Rightarrow> (Inl no_such_key, w)
      | Some b \<Rightarrow>
          (case rng of
             None \<Rightarrow> (Inr (bytes_reader b), w)
           | Some h \<Rightarrow>
               (case serve_range h b of
                  None \<Rightarrow> (Inl (APIError ''InvalidRange'' 416), w)
                | Some x \<Rightarrow> (Inr (bytes_reader x), w))))"

definition pinned_source :: "string \<Rightarrow> string option \<Rightarrow> s3_world \<Rightarrow> error + bytes" where
  "pinned_source copy_src match w =
     (case sw_bkt w (snd (read_copy_source copy_src)) of
        None \<Rightarrow> Inl no_such_key
      | Some b \<Rightarrow>
          if match \<noteq> None \<and> match \<noteq> Some (sw_etag w (snd (read_copy_source copy_src)))
          then Inl (APIError ''PreconditionFailed'' 412) else Inr b)"

definition mem_copy :: "copy_input \<Rightarrow> (s3_world, unit) io" where
  "mem_copy ci w =
     (case pinned_source (ci_CopySource ci) (ci_IfMatch ci) w of
        Inl e \<Rightarrow> (Inl e, w)
      | Inr b \<Rightarrow> (Inr (), sw_put (ci_Key ci) b w))"

definition mem_create :: "create_input \<Rightarrow> (s3_world, string) io" where
  "mem_create ci w =
     (let u = replicate (Suc (sum_list (map (\<lambda>e. length (fst e)) (sw_upl w)))) CHR ''u'' in
      (Inr u, w\<lparr>sw_upl := (u, []) # sw_upl w\<rparr>))"

definition mem_part :: "part_input \<Rightarrow> (s3_world, string option) io" where
  "mem_part pt w =
     (case map_of (sw_upl w) (pi_UploadId pt) of
        None \<Rightarrow> (Inl no_such_upload, w)
      | Some ps \<Rightarrow>
          (case pinned_source (pi_CopySource pt) (pi_IfMatch pt) w of
             Inl e \<Rightarrow> (Inl e, w)
           | Inr b \<Rightarrow>
               (case serve_range (pi_CopySourceRange pt) b of
                  None \<Rightarrow> (Inl (APIError ''InvalidRange'' 416), w)
                | Some x \<Rightarrow> (Inr (Some (bytes_tag x)),
                    w\<lparr>sw_upl := (pi_UploadId pt, (pi_PartNumber pt, x) # ps) # sw_upl w\<rparr>))))"

text \<open>An object has a largest size.\<close>

definition max_object :: int where "max_object = 2 ^ 61"

definition store :: "string \<Rightarrow> bytes \<Rightarrow> 'r \<Rightarrow> (s3_world, 'r) io" where
  "store k b r w =
     (if int (length b) \<le> max_object then (Inr r, sw_put k b w) else (Inl (APIError ''EntityTooLarge'' 400), w))"

definition mem_complete :: "string \<Rightarrow> string \<Rightarrow> completed_part list \<Rightarrow> (s3_world, unit) io" where
  "mem_complete dst u parts w =
     (case map_of (sw_upl w) u of
        None \<Rightarrow> (Inl no_such_upload, w)
      | Some ps \<Rightarrow>
          if \<forall>p \<in> set parts. case cp_PartNumber p of None \<Rightarrow> False | Some n \<Rightarrow> map_of ps n \<noteq> None
          then store dst (concat (map (\<lambda>p. the (map_of ps (the (cp_PartNumber p)))) parts)) () w
          else (Inl (APIError ''InvalidPart'' 400), w))"

definition mem_upload :: "upload_input \<Rightarrow> (s3_world, nat) io" where
  "mem_upload ui w =
     (case rd_end (ui_Body ui) of
        Some e \<Rightarrow> (Inl e, w)
      | None \<Rightarrow> store (ui_Key ui) (rd_bytes (ui_Body ui)) (length (rd_bytes (ui_Body ui))) w)"

text \<open>Keys below a \<^verbatim>\<open>locked\<close> directory are not deleted: the output names them.\<close>

definition mem_locked :: "string \<Rightarrow> bool" where
  "mem_locked k \<longleftrightarrow> ''locked'' \<in> set (Split (CHR ''/'') k)"

definition mem_delete :: "string list \<Rightarrow> (s3_world, (string \<times> string) list) io" where
  "mem_delete ks w =
     (Inr (map (\<lambda>k. (k, ''AccessDenied'')) (filter mem_locked ks)),
      w\<lparr>sw_objs := filter (\<lambda>e. \<not> (fst e \<in> set ks \<and> \<not> mem_locked (fst e))) (sw_objs w)\<rparr>)"

definition in_bucket :: "string \<Rightarrow> (s3_world, 'a) io \<Rightarrow> (s3_world, 'a) io" where
  "in_bucket b m = (if b = mem_bucket then m else throw (APIError ''NoSuchBucket'' 404))"

definition mem_s3 :: "s3_world s3api" where
  "mem_s3 =
     \<lparr>sv_ListObjects = (\<lambda>ctx li w. in_bucket (li_Bucket li) (ret (mem_page li (li_Marker li) w)) w),
      sv_NextPageV2 = (\<lambda>ctx li token w. in_bucket (li_Bucket li)
        (let es = mem_entries_after li token w in
         ret (mem_page li token w, if length es > 2 then Some (last (take 2 es)) else None)) w),
      sv_GetObject = (\<lambda>ctx b k rng. in_bucket b (mem_get k rng)),
      sv_HeadObject = (\<lambda>ctx b k. in_bucket b (mem_head k)),
      sv_HeadBucket = (\<lambda>ctx b. in_bucket b (ret ())),
      sv_DeleteObjects = (\<lambda>ctx b ks. in_bucket b (mem_delete ks)),
      sv_GetObjectTagging = (\<lambda>ctx b k ver. in_bucket b (ret [])),
      sv_CopyObject = (\<lambda>ctx ci. in_bucket (ci_Bucket ci) (mem_copy ci)),
      sv_CreateMultipartUpload = (\<lambda>ctx ci. in_bucket (cm_Bucket ci) (mem_create ci)),
      sv_UploadPartCopy = (\<lambda>ctx pt. in_bucket (pi_Bucket pt) (mem_part pt)),
      sv_CompleteMultipartUpload = (\<lambda>ctx b dst u parts. in_bucket b (mem_complete dst u parts)),
      sv_AbortMultipartUpload = (\<lambda>ctx b dst u. in_bucket b (\<lambda>w. (Inr (), w\<lparr>sw_upl := filter (\<lambda>e. fst e \<noteq> u) (sw_upl w)\<rparr>))),
      sv_Upload = (\<lambda>ctx ui. in_bucket (ui_Bucket ui) (mem_upload ui)),
      sv_MaxUploadParts = 10000, sv_MinUploadPartSize = 5 * 1024 * 1024, sv_DefaultUploadConcurrency = 5\<rparr>"

section \<open>The laws\<close>

definition sw_sane :: "s3_world \<Rightarrow> bool" where
  "sw_sane w \<longleftrightarrow> (\<forall>k b. sw_bkt w k = Some b \<longrightarrow> int (length b) \<le> max_object)"

lemma mem_s3_sel [simp]:
  "sv_GetObjectTagging mem_s3 ctx b k ver = in_bucket b (ret [])"
  "sv_CreateMultipartUpload mem_s3 ctx cm = in_bucket (cm_Bucket cm) (mem_create cm)"
  "sv_UploadPartCopy mem_s3 ctx pt = in_bucket (pi_Bucket pt) (mem_part pt)"
  "sv_CompleteMultipartUpload mem_s3 ctx b dst u parts = in_bucket b (mem_complete dst u parts)"
  "sv_AbortMultipartUpload mem_s3 ctx b dst u =
     in_bucket b (\<lambda>w. (Inr (), w\<lparr>sw_upl := filter (\<lambda>e. fst e \<noteq> u) (sw_upl w)\<rparr>))"
  "sv_HeadObject mem_s3 ctx b k = in_bucket b (mem_head k)"
  "sv_GetObject mem_s3 ctx b k rng = in_bucket b (mem_get k rng)"
  "sv_CopyObject mem_s3 ctx ci = in_bucket (ci_Bucket ci) (mem_copy ci)"
  "sv_DeleteObjects mem_s3 ctx b ks = in_bucket b (mem_delete ks)"
  "sv_Upload mem_s3 ctx ui = in_bucket (ui_Bucket ui) (mem_upload ui)"
  "sv_ListObjects mem_s3 ctx li = (\<lambda>w. in_bucket (li_Bucket li) (ret (mem_page li (li_Marker li) w)) w)"
  "sv_MaxUploadParts mem_s3 = 10000"
  by (simp_all add: mem_s3_def)

lemma sw_etag_content: "sw_bkt v k = Some b \<Longrightarrow> sw_bkt v' k = Some b' \<Longrightarrow> sw_etag v k = sw_etag v' k \<Longrightarrow> b = b'"
  by (simp add: sw_etag_def bytes_tag_inj)

lemma in_bucket_keeps: "in_bucket b m w = (r, w') \<Longrightarrow> (m w = (r, w') \<Longrightarrow> P w') \<Longrightarrow> P w \<Longrightarrow> P w'"
  by (auto simp: in_bucket_def split: if_splits)

lemma sw_bkt_upl [simp]: "sw_bkt (w\<lparr>sw_upl := u\<rparr>) = sw_bkt w"
  by (simp add: sw_bkt_def)

lemma sw_sane_cong: "sw_bkt w' = sw_bkt w \<Longrightarrow> sw_sane w \<Longrightarrow> sw_bkt w' = sw_bkt w \<and> sw_sane w'"
  by (simp add: sw_sane_def)

lemma sw_sane_put: "sw_sane w \<Longrightarrow> int (length b) \<le> max_object \<Longrightarrow> sw_sane (sw_put k b w)"
  by (auto simp: sw_sane_def)

lemma mem_create_bkt: "in_bucket c (mem_create cm) w = (r, w') \<Longrightarrow> sw_bkt w' = sw_bkt w"
  by (auto simp: in_bucket_def mem_create_def Let_def split: if_splits)

lemma mem_part_bkt: "in_bucket c (mem_part pt) w = (r, w') \<Longrightarrow> sw_bkt w' = sw_bkt w"
  by (auto simp: in_bucket_def mem_part_def split: if_splits option.splits sum.splits)

lemma mem_part_ok:
  assumes "pi_Bucket pt = mem_bucket" "read_copy_source (pi_CopySource pt) = (mem_bucket, src)"
    and "sw_parts w (pi_UploadId pt) = Some ps" "mem_part pt w = (Inr t, w')"
  shows "\<exists>b x. sw_bkt w src = Some b \<and> (\<forall>e. pi_IfMatch pt = Some e \<longrightarrow> sw_etag w src = e) \<and>
    serve_range (pi_CopySourceRange pt) b = Some x \<and> sw_parts w' (pi_UploadId pt) = Some (ps(pi_PartNumber pt \<mapsto> x))"
  using assms
  by (auto simp: mem_part_def pinned_source_def sw_parts_def split: option.splits sum.splits if_splits)

lemma store_effect:
  assumes "store k b r0 w = (r, w')" "sw_sane w"
  shows "only_at k (sw_bkt w) (sw_bkt w') \<and> sw_sane w' \<and> (\<forall>x. r = Inr x \<longrightarrow> x = r0 \<and> sw_bkt w' = (sw_bkt w)(k \<mapsto> b))"
  using assms sw_sane_put by (auto simp: store_def only_at_def split: if_splits)

interpretation mem_pinned: s3_pinned mem_s3 mem_bucket sw_bkt sw_etag sw_parts sw_sane
proof (unfold_locales, goal_cases)
  case 1 then show ?case by (simp add: mem_bucket_def)
next case 2 then show ?case using sw_etag_content by blast
next case (3 w ctx k ver tg w') then show ?case by (simp add: in_bucket_def)
next case (4 w ctx cm cr w')
  then show ?case using sw_sane_cong [OF mem_create_bkt [of "cm_Bucket cm" cm w cr w']] by simp
next case 5 then show ?case by (auto simp: in_bucket_def mem_create_def sw_parts_def Let_def)
next case (6 w ctx pt pr w')
  then show ?case using sw_sane_cong [OF mem_part_bkt [of "pi_Bucket pt" pt w pr w']] by simp
next case (7 w pt src ps ctx t w')
  then show ?case using mem_part_ok [of pt src w ps t w'] by (simp add: in_bucket_def)
next case (8 w u ps parts ctx dst un w')
  then show ?case
    by (auto simp: in_bucket_def mem_complete_def sw_parts_def store_def split: option.splits if_splits)
qed

lemma mem_page_ok:
  fixes li :: list_input and lo :: "string option" and w :: s3_world
  assumes "li_Delimiter li = None"
  defines "es \<equiv> mem_entries_after li lo w"
  shows "chunk (sw_bkt w) (li_Prefix li) lo (map so_Key (pg_Contents (mem_page li lo w)))
      (if length es > 2 then Some (last (take 2 es)) else None)"
    and "forward lo (if length es > 2 then Some (last (take 2 es)) else None)"
    and "length es > 2 \<Longrightarrow> pg_Contents (mem_page li lo w) \<noteq> [] \<and> next_marker (mem_page li lo w) = last (take 2 es) \<and>
      last (take 2 es) \<noteq> ''''"
    and "pg_IsTruncated (mem_page li lo w) \<longleftrightarrow> length es > 2"
    and "x \<in> set (pg_Contents (mem_page li lo w)) \<Longrightarrow> sw_bkt w (so_Key x) = Some b \<Longrightarrow> so_Size x = int (length b)"
proof -
  have keys: "map so_Key (pg_Contents (mem_page li lo w)) = take 2 es"
    by (simp add: mem_page_def Let_def assms o_def)
  have sorted: "sorted_wrt (<) es" unfolding es_def mem_entries_after_def strict_sorted_iff by simp
  have set: "set es = {k. sw_bkt w k \<noteq> None \<and> HasPrefix k (li_Prefix li) \<and> after_key lo k}"
    unfolding es_def mem_entries_after_def assms(1) listed_as_def
    by (auto simp: after_key_def sw_bkt_def map_of_eq_None_iff split: option.splits)
  show "chunk (sw_bkt w) (li_Prefix li) lo (map so_Key (pg_Contents (mem_page li lo w)))
      (if length es > 2 then Some (last (take 2 es)) else None)"
    "forward lo (if length es > 2 then Some (last (take 2 es)) else None)"
    unfolding keys using take_chunk [OF sorted set, of 2] by simp_all
  show "pg_Contents (mem_page li lo w) \<noteq> [] \<and> next_marker (mem_page li lo w) = last (take 2 es) \<and>
      last (take 2 es) \<noteq> ''''" if l: "length es > 2"
  proof -
    obtain a b c where es: "es = a # b # c" using l by (cases es rule: remdups_adj.cases) auto
    with sorted have "a < b" by simp
    then have "b \<noteq> ''''" by auto
    moreover have "pg_Contents (mem_page li lo w) \<noteq> []" using keys es by auto
    moreover from this have "so_Key (last (pg_Contents (mem_page li lo w))) = last (take 2 es)"
      using keys by (metis last_map)
    moreover have "pg_NextMarker (mem_page li lo w) = ''''" by (simp add: mem_page_def Let_def assms(1))
    ultimately show ?thesis using es by (simp add: next_marker_def)
  qed
  show "pg_IsTruncated (mem_page li lo w) \<longleftrightarrow> length es > 2" by (simp add: mem_page_def Let_def es_def)
  show "x \<in> set (pg_Contents (mem_page li lo w)) \<Longrightarrow> sw_bkt w (so_Key x) = Some b \<Longrightarrow> so_Size x = int (length b)"
    by (auto simp: mem_page_def Let_def)
qed

lemma mem_page2:
  "sv_NextPageV2 mem_s3 ctx li tok w = in_bucket (li_Bucket li)
     (ret (mem_page li tok w, if length (mem_entries_after li tok w) > 2
        then Some (last (take 2 (mem_entries_after li tok w))) else None)) w"
  by (simp add: mem_s3_def Let_def)

interpretation mem_service: s3_service mem_s3 mem_bucket sw_bkt sw_etag sw_parts sw_sane "\<lambda>t. t"
proof (unfold_locales, goal_cases)
  case (1 w k b) then show ?case by (simp add: sw_sane_def max_object_def)
next case (4 w ctx k hr w') then show ?case by (auto simp: in_bucket_def mem_head_def split: option.splits)
next case (5 w ctx k ho w') then show ?case by (auto simp: in_bucket_def mem_head_def split: option.splits)
next case (6 w ctx k e w')
  then show ?case by (auto simp: in_bucket_def mem_head_def no_such_key_def split: option.splits)
next case (7 w ctx k rng gr w')
  then show ?case by (auto simp: in_bucket_def mem_get_def split: option.splits)
next case (8 w ctx k rng rd w')
  then show ?case by (auto simp: in_bucket_def mem_get_def split: option.splits)
next case (9 w ui ctx n w')
  then show ?case
    using store_effect [of "ui_Key ui" "rd_bytes (ui_Body ui)" "length (rd_bytes (ui_Body ui))" w "Inr n" w']
    by (auto simp: in_bucket_def mem_upload_def split: option.splits)
next case (10 w ui ctx e w')
  then show ?case
    using store_effect [of "ui_Key ui" "rd_bytes (ui_Body ui)" "length (rd_bytes (ui_Body ui))" w "Inl e" w']
    by (auto simp: in_bucket_def mem_upload_def only_at_def split: option.splits)
next case (11 w ci src ctx un w')
  then show ?case using sw_sane_put [of w]
    by (auto simp: in_bucket_def mem_copy_def pinned_source_def sw_sane_def split: sum.splits option.splits if_splits)
next case (12 w ci ctx e w')
  then show ?case by (auto simp: in_bucket_def mem_copy_def only_at_def split: sum.splits)
next case (13 w ctx k ver tr w') then show ?case by (simp add: in_bucket_def)
next case (14 w ctx cm cr w') then show ?case using mem_create_bkt [of "cm_Bucket cm" cm w cr w'] by simp
next case (15 w ctx pt pr w') then show ?case using mem_part_bkt [of "pi_Bucket pt" pt w pr w'] by simp
next case (16 w ctx d u ar w') then show ?case by (auto simp: in_bucket_def sw_sane_def)
next case (17 w ctx d u ps fr w')
  then show ?case using store_effect [of d _ "()" w fr w']
    by (auto simp: in_bucket_def mem_complete_def only_at_def split: option.splits if_splits)
next case (18 w ctx li lr w') then show ?case by (auto simp: in_bucket_def split: if_splits)
next case (19 w li ctx out w')
  then have "out = mem_page li (li_Marker li) w" by (auto simp: in_bucket_def)
  with mem_page_ok [OF 19(3), where w = w and lo = "li_Marker li"] show ?case by (auto simp: Let_def)
next case (20 w ctx li tok nr w') then show ?case by (auto simp: mem_page2 in_bucket_def split: if_splits)
next case (21 w li ctx tok out nxt w')
  let ?es = "mem_entries_after li tok w"
  from 21 have "out = mem_page li tok w" "nxt = (if length ?es > 2 then Some (last (take 2 ?es)) else None)"
    by (auto simp: mem_page2 in_bucket_def)
  with mem_page_ok [OF 21(3), where w = w and lo = tok] show ?case by (auto simp: option.map_ident)
next case (22 w) then show ?case by (simp add: sw_bkt_def finite_dom_map_of)
qed simp_all

lemma mem_delete_bkt:
  "sw_bkt (snd (mem_delete ks w)) k = (if k \<in> set ks \<and> \<not> mem_locked k then None else sw_bkt w k)"
proof -
  have "map_of (filter (\<lambda>e. \<not> P (fst e)) xs) k = (if P k then None else map_of xs k)" for P and xs :: "(string \<times> bytes) list"
    by (induction xs) auto
  from this [of "\<lambda>q. q \<in> set ks \<and> \<not> mem_locked q"] show ?thesis by (simp add: mem_delete_def sw_bkt_def)
qed

interpretation mem_deleting: s3_deleting mem_s3 mem_bucket sw_bkt sw_etag sw_parts sw_sane "\<lambda>t. t" mem_locked
proof (unfold_locales, goal_cases)
  case (1 w ctx ks refused w')
  then have d: "mem_delete ks w = (Inr refused, w')" by (simp add: in_bucket_def)
  then have "fst ` set refused = {k \<in> set ks. mem_locked k}" by (force simp: mem_delete_def)
  with d mem_delete_bkt [of ks w] 1(1) show ?case by (auto simp: sw_sane_def split: if_splits)
next
  case (2 w ctx ks e w')
  then show ?case by (simp add: in_bucket_def mem_delete_def)
qed

end
