(* ===== verification/S3_Properties.thy ===== *)
theory S3_Properties
  imports S3_Mem
begin

text \<open>
  The properties of the S3 backend, for every service with the laws its copies rely on, evaluated on
  the service of \<open>S3_Mem\<close>.
\<close>

section \<open>The example storage\<close>

definition example_s3 :: s3_storage where
  "example_s3 = \<lparr>s3_cfg = s3_applyDefaults (zero_s3_config\<lparr>Bucket := mem_bucket\<rparr>), s3_prefix = ''d/'', s3_delimiter = '''',
     s3_awsLogMode = 0, s3_unsafe = False\<rparr>"

definition example_bucket :: s3_world where
  "example_bucket = \<lparr>sw_objs = [(''d/a/x'', [1, 2, 3, 4, 5]), (''d/a/s/y'', [3]), (''d/a/z'', []), (''e'', [7])], sw_upl = []\<rparr>"

lemma example_s3_sel [simp]:
  "Bucket (s3_cfg example_s3) = mem_bucket" "s3_prefix example_s3 = ''d/''"
  by (simp_all add: example_s3_def s3_applyDefaults_def zero_s3_config_def)

lemma example_bucket_sane: "sw_sane example_bucket"
  by (auto simp: sw_sane_def sw_bkt_def example_bucket_def max_object_def split: if_splits)

section \<open>The multipart copy\<close>

text \<open>
  C11. A multipart copy that succeeds leaves at its destination the bytes its source had when the copy
  looked at it, whatever the order the parts are copied in, and whatever other clients write to any
  object meanwhile: the parts cover the object exactly and number no more than the service allows, and
  each is pinned to the entity tag of the source, so a source that changes makes the copy fail.
\<close>

theorem multipartCopy_pinned:
  assumes "s3_pinned sv (Bucket (s3_cfg s)) bkt etag upl sane" "sane w" "bkt w src = Some b"
    and "ho_ETag head = Some (etag w src)" "ho_ContentLength head = int (length b)"
    and "part_sizes (length b) partSize" "0 < sv_MaxUploadParts sv" "sv_MaxUploadParts sv \<le> 10000"
    and "multipartCopy pick sv s ctx src dst head partSize concurrency w = (Inr u, w')"
  shows "bkt w' dst = Some b \<and>
    int (part_count (int (length b)) (multipart_size (sv_MaxUploadParts sv) (int (length b)) partSize)) \<le> sv_MaxUploadParts sv"
  using s3_pinned.multipartCopy_ok [OF assms(1,9) refl assms(6-8,2-5)] multipart_size_ok(2) [OF assms(6-8)] by blast

theorem multipartCopy_pinned_witness:
  "\<exists>w'. multipartCopy (\<lambda>_. 5) mem_s3 example_s3 (\<lambda>_. None) ''d/a/x'' ''d/b/x''
      \<lparr>ho_ContentLength = 5, ho_ETag = Some (bytes_tag [1, 2, 3, 4, 5]), ho_LastModified = 0, ho_headers = no_headers,
       ho_TagCount = 0, ho_VersionId = None\<rparr> 2 2 example_bucket = (Inr (), w') \<and>
     sw_bkt w' ''d/b/x'' = Some [1, 2, 3, 4, 5]"
proof -
  let ?head = "\<lparr>ho_ContentLength = 5, ho_ETag = Some (bytes_tag [1, 2, 3, 4, 5]), ho_LastModified = 0, ho_headers = no_headers,
       ho_TagCount = 0, ho_VersionId = None\<rparr>"
  let ?run = "multipartCopy (\<lambda>_. 5) mem_s3 example_s3 (\<lambda>_. None) ''d/a/x'' ''d/b/x'' ?head 2 2 example_bucket"
  have "fst ?run = Inr ()" by code_simp
  then obtain w' where run: "?run = (Inr (), w')" by (metis prod.collapse)
  have b: "sw_bkt example_bucket ''d/a/x'' = Some [1, 2, 3, 4, 5]" by (simp add: sw_bkt_def example_bucket_def)
  have "part_sizes (length ([1, 2, 3, 4, 5] :: bytes)) 2" by (simp add: part_sizes_def)
  from multipartCopy_pinned [where s = example_s3 and sv = mem_s3 and bkt = sw_bkt and etag = sw_etag and upl = sw_parts
      and sane = sw_sane, unfolded example_s3_sel, OF mem_pinned.s3_pinned_axioms example_bucket_sane b _ _ this _ _ run]
  have "sw_bkt w' ''d/b/x'' = Some [1, 2, 3, 4, 5]" using b by (simp add: sw_etag_def)
  with run show ?thesis by blast
qed

section \<open>The storage contract\<close>

text \<open>
  C7. The S3 storage implements the storage contract over every service with S3's documented laws,
  with large objects copied in parts, listings read page by page and ranges sent as headers: behind the
  guard for every prefix, and bare for every prefix that is not the bucket's root or the working
  directory. A listing returns as soon as it may read one page more than there are keys.
\<close>

theorem s3_refines_contract:
  assumes "s3_service sv B bkt etag upl sane pos"
  shows "sized_contract (guard_ops (s3_ops fuel pick ppick sv)) (\<lambda>g. s3_service.s3_objs bkt (inner g))
      (\<lambda>g w. s3_service.s3_wf B bkt sane (inner g) w \<and> guarded g) \<and>
    sized_contract (s3_ops fuel pick ppick sv) (s3_service.s3_objs bkt)
      (\<lambda>s w. s3_service.s3_wf B bkt sane s w \<and> path_Clean (s3_prefix s) \<noteq> ''.'') \<and>
    (s3_service.s3_wf B bkt sane s w \<longrightarrow> card (dom (bkt w)) < fuel \<longrightarrow> s3_List fuel sv s ctx p w \<noteq> None)"
  using s3_service.s3_guarded_contract [OF assms] s3_service.s3_bare_contract [OF assms]
    s3_service.s3_List_returns [OF assms] by blast

lemma example_s3_wf: "mem_service.s3_wf example_s3 example_bucket"
proof -
  have "path_Clean ''d/'' = ''d''" by code_simp
  moreover have "key_ok ''a/x''" "key_ok ''a/s/y''" "key_ok ''a/z''" by (simp_all add: key_ok_def path_simps)
  ultimately have "tidy (root_of ''d/'') (sw_bkt example_bucket)"
    by (auto simp: root_of_def tidy_def sw_bkt_def example_bucket_def split: if_splits)
  with \<open>path_Clean ''d/'' = ''d''\<close> show ?thesis
    by (simp add: mem_service.s3_wf_def example_bucket_sane rooted_prefix_def)
qed

theorem s3_refines_contract_witness:
  "\<exists>w'. List_op (guard_ops (s3_ops 9 (\<lambda>_. 0) (\<lambda>_. 0) mem_s3)) (Guarded example_s3) (\<lambda>_. None) ''./a/s/..'' example_bucket =
      (Inr [\<lparr>Name = ''s/y'', LastModified = 0, Exist = True, Size = 1, ETag = bytes_tag [3]\<rparr>,
            \<lparr>Name = ''x'', LastModified = 0, Exist = True, Size = 5, ETag = bytes_tag [1, 2, 3, 4, 5]\<rparr>,
            \<lparr>Name = ''z'', LastModified = 0, Exist = True, Size = 0, ETag = bytes_tag []\<rparr>], w') \<and>
    mem_service.s3_objs example_s3 w' ''a/x'' = Some [1, 2, 3, 4, 5]"
proof -
  let ?run = "List_op (guard_ops (s3_ops 9 (\<lambda>_. 0) (\<lambda>_. 0) mem_s3)) (Guarded example_s3) (\<lambda>_. None) ''./a/s/..'' example_bucket"
  have "fst ?run = Inr [\<lparr>Name = ''s/y'', LastModified = 0, Exist = True, Size = 1, ETag = bytes_tag [3]\<rparr>,
            \<lparr>Name = ''x'', LastModified = 0, Exist = True, Size = 5, ETag = bytes_tag [1, 2, 3, 4, 5]\<rparr>,
            \<lparr>Name = ''z'', LastModified = 0, Exist = True, Size = 0, ETag = bytes_tag []\<rparr>]" by code_simp
  then obtain w' where run: "?run = (Inr [\<lparr>Name = ''s/y'', LastModified = 0, Exist = True, Size = 1, ETag = bytes_tag [3]\<rparr>,
            \<lparr>Name = ''x'', LastModified = 0, Exist = True, Size = 5, ETag = bytes_tag [1, 2, 3, 4, 5]\<rparr>,
            \<lparr>Name = ''z'', LastModified = 0, Exist = True, Size = 0, ETag = bytes_tag []\<rparr>], w')" by (metis prod.collapse)
  have c: "sized_contract (guard_ops (s3_ops 9 (\<lambda>_. 0) (\<lambda>_. 0) mem_s3)) (\<lambda>g. mem_service.s3_objs (inner g))
      (\<lambda>g w. mem_service.s3_wf (inner g) w \<and> guarded g)"
    using s3_refines_contract [OF mem_service.s3_service_axioms] by blast
  have "stays_inside ''./a/s/..''" by (simp add: stays_inside_def path_simps)
  with storager_contract.list_frame [OF sized_contract.axioms(1) [OF c] _ this run, of "Guarded example_s3"] example_s3_wf
  have "mem_service.s3_objs example_s3 w' = mem_service.s3_objs example_s3 example_bucket" by simp
  moreover have "mem_service.s3_objs example_s3 example_bucket ''a/x'' = Some [1, 2, 3, 4, 5]"
  proof -
    have "key_ok ''a/x''" "path_Join ''d/'' ''a/x'' = ''d/a/x''" by (simp_all add: key_ok_def path_simps)
    then show ?thesis by (simp add: mem_service.s3_objs_key sw_bkt_def example_bucket_def)
  qed
  ultimately have "mem_service.s3_objs example_s3 w' ''a/x'' = Some [1, 2, 3, 4, 5]" by simp
  with run show ?thesis by blast
qed

section \<open>Deleting\<close>

text \<open>
  C16. Deleting from S3. Whatever the outcome, an object that was not named is as it was. A request
  naming an absent object deletes nothing and fails; if the failure is a missing-objects error it lists
  exactly the absent ones. A request that reports success has deleted every object it named but those
  the service refused to delete (\<open>locked\<close>): the batch output lists those, the backend does not read it,
  and they are still there.
\<close>

theorem s3_Delete_outcome:
  assumes "s3_deleting sv B bkt etag upl sane pos locked" "s3_service.s3_wf B bkt sane s w" "\<forall>p \<in> set ps. key_ok p"
    and "s3_Delete sv s ctx ps w = (r, w')"
  shows "(\<forall>k. k \<notin> set ps \<longrightarrow> s3_service.s3_objs bkt s w' k = s3_service.s3_objs bkt s w k) \<and>
    ((\<exists>p \<in> set ps. s3_service.s3_objs bkt s w p = None) \<longrightarrow>
       s3_service.s3_objs bkt s w' = s3_service.s3_objs bkt s w \<and> (\<exists>e. r = Inl e)) \<and>
    (\<forall>ms. r = Inl (MissingObjectsError ms) \<longrightarrow>
       ms = filter (\<lambda>p. s3_service.s3_objs bkt s w p = None) ps \<and> ms \<noteq> []) \<and>
    (\<forall>u. r = Inr u \<longrightarrow> (\<forall>k. s3_service.s3_objs bkt s w' k =
       (if k \<in> set ps \<and> \<not> locked (path_Join (s3_prefix s) k) then None else s3_service.s3_objs bkt s w k)))"
  using s3_deleting.s3_Delete_spec [OF assms(1,4,2,3)] .

definition locked_bucket :: s3_world where
  "locked_bucket = \<lparr>sw_objs = [(''d/locked/x'', [1, 2]), (''d/y'', [3])], sw_upl = []\<rparr>"

text \<open>A request for a locked and an unlocked object reports success, and the locked object is still there.\<close>

theorem s3_Delete_outcome_witness:
  "\<exists>w'. s3_Delete mem_s3 example_s3 (\<lambda>_. None) [''locked/x'', ''y''] locked_bucket = (Inr (), w') \<and>
     mem_service.s3_objs example_s3 w' ''locked/x'' = Some [1, 2] \<and> mem_service.s3_objs example_s3 w' ''y'' = None"
proof -
  let ?run = "s3_Delete mem_s3 example_s3 (\<lambda>_. None) [''locked/x'', ''y''] locked_bucket"
  have "fst ?run = Inr ()" by code_simp
  then obtain w' where run: "?run = (Inr (), w')" by (metis prod.collapse)
  have ok: "key_ok ''locked/x''" "key_ok ''y''" by (simp_all add: key_ok_def path_simps)
  have clean: "path_Clean ''d/'' = ''d''" "path_Join ''d/'' ''locked/x'' = ''d/locked/x''" "path_Join ''d/'' ''y'' = ''d/y''"
    by code_simp+
  have sane: "sw_sane locked_bucket"
    by (auto simp: sw_sane_def sw_bkt_def locked_bucket_def max_object_def split: if_splits)
  have "tidy (root_of ''d/'') (sw_bkt locked_bucket)"
    using ok clean by (auto simp: root_of_def tidy_def sw_bkt_def locked_bucket_def split: if_splits)
  then have "mem_service.s3_wf example_s3 locked_bucket"
    using sane clean by (simp add: mem_service.s3_wf_def rooted_prefix_def)
  from s3_Delete_outcome [OF mem_deleting.s3_deleting_axioms this _ run] ok
  have "\<forall>k. mem_service.s3_objs example_s3 w' k = (if k \<in> {''locked/x'', ''y''} \<and> \<not> mem_locked (path_Join ''d/'' k)
      then None else mem_service.s3_objs example_s3 locked_bucket k)" by simp
  moreover have "mem_locked ''d/locked/x''" "\<not> mem_locked ''d/y''" by code_simp+
  moreover have "mem_service.s3_objs example_s3 locked_bucket ''locked/x'' = Some [1, 2]"
    using ok clean by (simp add: mem_service.s3_objs_key sw_bkt_def locked_bucket_def)
  ultimately show ?thesis using run clean by simp
qed

section \<open>Where a prefix is not normalised\<close>

text \<open>
  A storage re-rooted by an absolute path keeps the path as it is. Without the slash its directory
  listing finds the directory itself instead of what is in it.
\<close>

lemma s3_absolute_SubStorage_lists_itself:
  "case s3_ListDir 9 mem_s3 (s3_sub example_s3 ''d/a'' False) (\<lambda>_. None) example_bucket of
     Some (Inr (files, dirs), w) \<Rightarrow> files = [] \<and> map s3_prefix dirs = [''d/a/''] | _ \<Rightarrow> False"
  by code_simp

text \<open>A bare storage without a prefix looks for \<open>.\<close> under a directory of that name.\<close>

lemma s3_bare_dot_lists_nothing:
  "case s3_List 9 mem_s3 (example_s3\<lparr>s3_prefix := ''''\<rparr>) (\<lambda>_. None) ''.'' example_bucket of
     Some (Inr os, w) \<Rightarrow> os = [] | _ \<Rightarrow> False"
  by code_simp

end
