(* ===== verification/Azure.thy ===== *)
theory Azure
  imports Walk Http_Text
begin

text \<open>
  \<^verbatim>\<open>azure/config.go\<close> and \<^verbatim>\<open>azure/storage.go\<close>: the Azure Blob Storage backend. The Azure SDK is a
  parameter: \<open>azapi\<close> holds the calls of the \<^verbatim>\<open>containerAPI\<close> and \<^verbatim>\<open>blockBlobAPI\<close> interfaces, the
  pages of the SDK's pagers and the wait of the polling loop; an SDK error is an \<open>APIError\<close> with its
  code. Logging is left out. Listings and the polling of a pending copy are loops without a bound of
  their own, so they have fuel, one unit per page or poll.
\<close>

section \<open>Configuration\<close>

record az_config =
  Container :: string
  StorageAccount :: string
  az_Prefix :: string
  AccessKey :: string
  SASToken :: string
  az_Endpoint :: string
  EndpointSuffix :: string
  EnvironmentName :: string
  BufferSize :: int64
  MaxBuffers :: int64
  TryTimeout :: int64
  az_MaxRetries :: int64
  BlobStoreAPIVersion :: string
  CopyPollInterval :: int64
  CopyPollMaxInterval :: int64

definition zero_az_config :: az_config where
  "zero_az_config =
     \<lparr>Container = '''', StorageAccount = '''', az_Prefix = '''', AccessKey = '''', SASToken = '''', az_Endpoint = '''',
      EndpointSuffix = '''', EnvironmentName = '''', BufferSize = 0, MaxBuffers = 0, TryTimeout = 0, az_MaxRetries = 0,
      BlobStoreAPIVersion = '''', CopyPollInterval = 0, CopyPollMaxInterval = 0\<rparr>"

definition defaultCopyPollInterval :: int64 where "defaultCopyPollInterval = 50000000"

definition defaultCopyPollMaxInterval :: int64 where "defaultCopyPollMaxInterval = 2000000000"

definition copyPollIntervals :: "az_config \<Rightarrow> int64 \<times> int64" where
  "copyPollIntervals c =
     (let interval = (if CopyPollInterval c \<le> 0 then defaultCopyPollInterval else CopyPollInterval c);
          maxInterval = (if CopyPollMaxInterval c \<le> 0 then defaultCopyPollMaxInterval else CopyPollMaxInterval c)
      in (interval, max maxInterval interval))"

definition az_applyDefaults :: "az_config \<Rightarrow> az_config" where
  "az_applyDefaults c0 =
     (let c1 = (if EnvironmentName c0 = '''' then c0\<lparr>EnvironmentName := ''AzurePublicCloud''\<rparr> else c0);
          c2 = (if BufferSize c1 = 0 then c1\<lparr>BufferSize := 8 * 1024 * 1024\<rparr> else c1);
          c3 = (if MaxBuffers c2 = 0 then c2\<lparr>MaxBuffers := 4\<rparr> else c2);
          c4 = (if TryTimeout c3 = 0 then c3\<lparr>TryTimeout := 5\<rparr> else c3)
      in c4\<lparr>CopyPollInterval := fst (copyPollIntervals c4), CopyPollMaxInterval := snd (copyPollIntervals c4)\<rparr>)"

definition az_DefaultConfig :: az_config where
  "az_DefaultConfig = az_applyDefaults zero_az_config"

text \<open>\<^verbatim>\<open>Validate\<close> also fills in defaults and raises the buffers to their minimums.\<close>

definition az_Validate :: "az_config \<Rightarrow> error option \<times> az_config" where
  "az_Validate c0 =
     (let c = az_applyDefaults c0 in
      if Container c = '''' then (Some (ErrorString ''container is required''), c)
      else if StorageAccount c = '''' then (Some (ErrorString ''storage_account is required''), c)
      else
        let c1 = (if BufferSize c < 1024 then c\<lparr>BufferSize := 1024\<rparr> else c) in
        (None, if MaxBuffers c1 < 1 then c1\<lparr>MaxBuffers := 1\<rparr> else c1))"

datatype authType = NotSpecified | AccessKeyAuth | SASTokenAuth

definition resolveAuth :: "az_config \<Rightarrow> authType \<times> string \<times> string" where
  "resolveAuth c =
     (if AccessKey c \<noteq> '''' then (AccessKeyAuth, '''', AccessKey c)
      else if SASToken c \<noteq> '''' then
        (SASTokenAuth, if HasPrefix (SASToken c) ''?'' then SASToken c else ''?'' @ SASToken c, '''')
      else (NotSpecified, '''', ''''))"

definition getStorageEndpointSuffix :: "string \<Rightarrow> string" where
  "getStorageEndpointSuffix environmentName =
     (if environmentName = ''AzureUSGovernmentCloud'' then ''core.usgovcloudapi.net''
      else if environmentName = ''AzureChinaCloud'' then ''core.chinacloudapi.cn''
      else if environmentName = ''AzureGermanCloud'' then ''core.cloudapi.de''
      else ''core.windows.net'')"

section \<open>Opening\<close>

definition containerBaseURL :: "az_config \<Rightarrow> string" where
  "containerBaseURL cfg =
     (if az_Endpoint cfg \<noteq> '''' then TrimSuffix (az_Endpoint cfg) ''/'' @ ''/'' @ Container cfg
      else
        let suffix = (if EndpointSuffix cfg = '''' then getStorageEndpointSuffix (EnvironmentName cfg) else EndpointSuffix cfg)
        in ''https://'' @ StorageAccount cfg @ ''.blob.'' @ suffix @ ''/'' @ Container cfg)"

record client_options =
  co_TryTimeout :: int64
  co_MaxRetries :: int
  co_apiVersion :: string

definition to_int32 :: "int64 \<Rightarrow> int" where
  "to_int32 x = (x + 2 ^ 31) mod 2 ^ 32 - 2 ^ 31"

text \<open>Durations are nanoseconds; the API version policy is there when the version is not empty.\<close>

definition buildClientOptions :: "az_config \<Rightarrow> client_options" where
  "buildClientOptions cfg =
     \<lparr>co_TryTimeout = mul64 60000000000 (TryTimeout cfg), co_MaxRetries = to_int32 (az_MaxRetries cfg),
      co_apiVersion = BlobStoreAPIVersion cfg\<rparr>"

definition apiVersionPolicy_Do :: "string \<Rightarrow> (string \<rightharpoonup> string list) \<Rightarrow> (string \<rightharpoonup> string list)" where
  "apiVersionPolicy_Do apiVersion header =
     (if apiVersion \<noteq> '''' then header(''x-ms-version'' \<mapsto> [apiVersion]) else header)"

definition az_fixPrefix :: "string \<Rightarrow> string" where
  "az_fixPrefix prefix0 =
     (let prefix = TrimPrefix prefix0 ''/'' in
      if prefix \<noteq> '''' \<and> last prefix \<noteq> CHR ''/'' then prefix @ ''/'' else prefix)"

record az_storage =
  az_cfg :: az_config
  az_prefix :: string
  az_BlockSize :: int64
  az_Concurrency :: int64
  az_unsafe :: bool

definition az_WithUnsafe :: "az_storage \<Rightarrow> az_storage" where
  "az_WithUnsafe s = s\<lparr>az_unsafe := True\<rparr>"

text \<open>How the container client is built; \<open>sdk\<close> is what the SDK and \<^verbatim>\<open>url.Parse\<close> answer.\<close>

record az_client =
  ac_auth :: authType
  ac_url :: string
  ac_secret :: string
  ac_options :: client_options

record az_sdk =
  sdk_sharedKey :: "string \<Rightarrow> string \<Rightarrow> error option"
  sdk_default :: "error option"
  sdk_parseURL :: "string \<Rightarrow> error option"
  sdk_client :: "az_client \<Rightarrow> error option"

definition az_New :: "az_sdk \<Rightarrow> az_config \<Rightarrow> (az_storage \<Rightarrow> az_storage) list \<Rightarrow> error + (az_storage gstore \<times> az_client)" where
  "az_New sdk cfg0 opts =
     (let cfg = az_applyDefaults cfg0;
          s = foldl (\<lambda>s opt. opt s)
            \<lparr>az_cfg = cfg, az_prefix = '''', az_BlockSize = 0, az_Concurrency = 0, az_unsafe = False\<rparr> opts;
          (at, sasToken, accessKey) = resolveAuth cfg;
          baseURL = containerBaseURL cfg;
          url = (if at = SASTokenAuth then baseURL @ sasToken else baseURL);
          client = \<lparr>ac_auth = at, ac_url = url, ac_secret = accessKey, ac_options = buildClientOptions cfg\<rparr>
      in
      case (case at of AccessKeyAuth \<Rightarrow> sdk_sharedKey sdk (StorageAccount cfg) accessKey
            | SASTokenAuth \<Rightarrow> None | NotSpecified \<Rightarrow> sdk_default sdk) of
        Some err \<Rightarrow> Inl (Errorf (if at = AccessKeyAuth then ''create shared key credentials''
            else ''construct the default Azure credential chain'') [err])
      | None \<Rightarrow>
          (case sdk_parseURL sdk url of
             Some err \<Rightarrow> Inl (Errorf (if at = SASTokenAuth then ''parse service URL with SAS token'' else ''parse service URL'') [err])
           | None \<Rightarrow>
               (case sdk_client sdk client of
                  Some err \<Rightarrow> Inl (Errorf ''create Azure container client'' [err])
                | None \<Rightarrow>
                    let s1 = s\<lparr>az_prefix := az_fixPrefix (az_Prefix cfg), az_BlockSize := BufferSize cfg,
                      az_Concurrency := MaxBuffers cfg\<rparr>
                    in Inr (if az_unsafe s1 then Bare s1 else Guard (Bare s1), client))))"

section \<open>The service\<close>

definition HasCode :: "error \<Rightarrow> string list \<Rightarrow> bool" where
  "HasCode err codes = (case api_error err of Some (code, _) \<Rightarrow> code \<in> set codes | None \<Rightarrow> False)"

abbreviation BlobNotFound :: string where "BlobNotFound \<equiv> ''BlobNotFound''"

record item_props =
  ip_LastModified :: "int option"
  ip_ContentLength :: "int64 option"
  ip_ETag :: "string option"

record blob_item =
  bi_Name :: string
  bi_Properties :: "item_props option"

record blob_props =
  bp_LastModified :: "int option"
  bp_ContentLength :: "int64 option"
  bp_ETag :: "string option"
  bp_CopyID :: "string option"
  bp_CopyStatus :: "string option"
  bp_CopyStatusDescription :: "string option"

definition no_props :: blob_props where
  "no_props = \<lparr>bp_LastModified = None, bp_ContentLength = None, bp_ETag = None, bp_CopyID = None, bp_CopyStatus = None,
     bp_CopyStatusDescription = None\<rparr>"

text \<open>
  A pager takes the marker the last page gave (none for the first) and \<open>None\<close> is the marker after
  the last page. A range is an offset and a count, \<open>0\<close> for the rest of the blob.
  \<open>az_After\<close> is the \<^verbatim>\<open>select\<close> between the end of the context and a timer: it tells whether the
  timer won. A copy starts with a status and an id.
\<close>

record 'w azapi =
  az_DownloadStream :: "'w ctx \<Rightarrow> string \<Rightarrow> (int64 \<times> int64) option \<Rightarrow> ('w, reader \<times> int64 option) io"
  az_UploadStream :: "'w ctx \<Rightarrow> string \<Rightarrow> reader \<Rightarrow> int64 \<Rightarrow> int64 \<Rightarrow> ('w, nat) io"
  az_DeleteBlob :: "'w ctx \<Rightarrow> string \<Rightarrow> ('w, unit) io"
  az_GetProperties :: "'w ctx \<Rightarrow> string \<Rightarrow> ('w, blob_props) io"
  az_URL :: "string \<Rightarrow> string"
  az_StartCopyFromURL :: "'w ctx \<Rightarrow> string \<Rightarrow> string \<Rightarrow> ('w, string option \<times> string option) io"
  az_AbortCopyFromURL :: "'w ctx \<Rightarrow> string \<Rightarrow> string \<Rightarrow> ('w, unit) io"
  az_HierarchyPage :: "'w ctx \<Rightarrow> string \<Rightarrow> string \<Rightarrow> string option \<Rightarrow> ('w, (string list \<times> string list) \<times> string option) io"
  az_FlatPage :: "'w ctx \<Rightarrow> string \<Rightarrow> string option \<Rightarrow> ('w, blob_item list \<times> string option) io"
  az_ContainerProperties :: "'w ctx \<Rightarrow> ('w, unit) io"
  az_After :: "'w ctx \<Rightarrow> int64 \<Rightarrow> 'w \<Rightarrow> bool \<times> 'w"

text \<open>All pages of a pager, one unit of fuel per page.\<close>

primrec pages ::
  "nat \<Rightarrow> (string option \<Rightarrow> ('w, 'p \<times> string option) io) \<Rightarrow> string option \<Rightarrow> 'p list \<Rightarrow> 'w \<Rightarrow>
    ((error + 'p list) \<times> 'w) option" where
  "pages 0 next marker acc w = None"
| "pages (Suc fuel) next marker acc w =
     (case next marker w of
        (Inl err, w1) \<Rightarrow> Some (Inl (Errorf ''error listing azure blobs'' [err]), w1)
      | (Inr (page, None), w1) \<Rightarrow> Some (Inr (acc @ [page]), w1)
      | (Inr (page, Some m), w1) \<Rightarrow> pages fuel next (Some m) (acc @ [page]) w1)"


section \<open>Listing\<close>

definition az_GetCwd :: "az_storage \<Rightarrow> string" where
  "az_GetCwd s = az_prefix s"

definition az_Dirname :: "az_storage \<Rightarrow> string" where
  "az_Dirname s = path_Base (az_prefix s)"

definition blobName :: "az_storage \<Rightarrow> string \<Rightarrow> string" where
  "blobName s name = TrimPrefix (path_Join (az_prefix s) name) ''/''"

definition azureBlobDelimiter :: string where "azureBlobDelimiter = ''/''"

definition az_child :: "az_storage \<Rightarrow> string \<Rightarrow> az_storage" where
  "az_child s prefix = s\<lparr>az_prefix := az_fixPrefix prefix, az_unsafe := False\<rparr>"

definition az_ListDir ::
  "nat \<Rightarrow> 'w azapi \<Rightarrow> az_storage \<Rightarrow> 'w ctx \<Rightarrow> 'w \<Rightarrow> ((error + (string list \<times> az_storage list)) \<times> 'w) option" where
  "az_ListDir fuel az s ctx w =
     (case pages fuel (az_HierarchyPage az ctx azureBlobDelimiter (az_prefix s)) None [] w of
        None \<Rightarrow> None
      | Some (Inl err, w1) \<Rightarrow> Some (Inl err, w1)
      | Some (Inr ps, w1) \<Rightarrow>
          Some (Inr (map (\<lambda>n. TrimPrefix n (az_prefix s)) (concat (map fst ps)), map (az_child s) (concat (map snd ps))), w1))"

text \<open>Azure quotes a tag in properties but not in listings.\<close>

definition entityTag :: "string \<Rightarrow> string" where
  "entityTag s = (if HasPrefix s [CHR 0x22] \<or> HasPrefix s [CHR ''W'', CHR ''/'', CHR 0x22] then s
     else CHR 0x22 # s @ [CHR 0x22])"

definition az_item_stat :: "string \<Rightarrow> blob_item \<Rightarrow> ObjectStat" where
  "az_item_stat name item =
     (case bi_Properties item of
        None \<Rightarrow> \<lparr>Name = name, LastModified = 0, Exist = True, Size = 0, ETag = ''''\<rparr>
      | Some p \<Rightarrow>
          \<lparr>Name = name, LastModified = (case ip_LastModified p of None \<Rightarrow> 0 | Some t \<Rightarrow> t), Exist = True,
           Size = (case ip_ContentLength p of None \<Rightarrow> 0 | Some n \<Rightarrow> n),
           ETag = (case ip_ETag p of None \<Rightarrow> '''' | Some e \<Rightarrow> entityTag e)\<rparr>)"

definition az_collect :: "string \<Rightarrow> blob_item list \<Rightarrow> ObjectStat list" where
  "az_collect fullPrefix items =
     map (\<lambda>i. az_item_stat (TrimPrefix (bi_Name i) fullPrefix) i)
       (filter (\<lambda>i. TrimPrefix (bi_Name i) fullPrefix \<noteq> '''') items)"

definition az_List ::
  "nat \<Rightarrow> 'w azapi \<Rightarrow> az_storage \<Rightarrow> 'w ctx \<Rightarrow> string \<Rightarrow> 'w \<Rightarrow> ((error + ObjectStat list) \<times> 'w) option" where
  "az_List fuel az s ctx prefix w =
     (let fullPrefix = az_fixPrefix (path_Join (az_prefix s) prefix) in
      case pages fuel (az_FlatPage az ctx fullPrefix) None [] w of
        None \<Rightarrow> None
      | Some (Inl err, w1) \<Rightarrow> Some (Inl err, w1)
      | Some (Inr ps, w1) \<Rightarrow> Some (Inr (concat (map (az_collect fullPrefix) ps)), w1))"

section \<open>Reading and writing\<close>

definition az_GetObject :: "'w azapi \<Rightarrow> az_storage \<Rightarrow> 'w ctx \<Rightarrow> string \<Rightarrow> ('w, reader) io" where
  "az_GetObject az s ctx filePath =
     tryIO (az_DownloadStream az ctx (blobName s filePath) None) (\<lambda>r. case r of
         Inl err \<Rightarrow> if HasCode err [BlobNotFound] then throw ErrFileNotFound else throw (Errorf ''error getting object'' [err])
       | Inr (body, _) \<Rightarrow> ret body)"

definition az_GetObjectRange :: "'w azapi \<Rightarrow> az_storage \<Rightarrow> 'w ctx \<Rightarrow> string \<Rightarrow> int64 \<Rightarrow> int64 \<Rightarrow> ('w, reader) io" where
  "az_GetObjectRange az s ctx filePath off len =
     (if off < 0 \<or> len = 0 then throw ErrInvalidRange
      else
        let cnt = (if len < 0 then 0 else len) in
        tryIO (az_DownloadStream az ctx (blobName s filePath) (Some (off, cnt))) (\<lambda>r. case r of
            Inl err \<Rightarrow>
              if HasCode err [BlobNotFound] then throw ErrFileNotFound
              else if HasCode err [''InvalidRange''] then throw ErrInvalidRange
              else throw (Errorf ''error getting object range'' [err])
          | Inr (body, contentLength) \<Rightarrow>
              if contentLength = Some 0 then throw ErrInvalidRange else ret body))"

definition az_PutObject :: "'w azapi \<Rightarrow> az_storage \<Rightarrow> 'w ctx \<Rightarrow> string \<Rightarrow> reader \<Rightarrow> ('w, nat) io" where
  "az_PutObject az s ctx filePath body =
     tryIO (az_UploadStream az ctx (blobName s filePath) body (az_BlockSize s) (az_Concurrency s)) (\<lambda>r. case r of
         Inl err \<Rightarrow> throw (Errorf ''azure object uploading error'' [err])
       | Inr n \<Rightarrow> ret n)"

definition az_Exists :: "'w azapi \<Rightarrow> az_storage \<Rightarrow> 'w ctx \<Rightarrow> string \<Rightarrow> ('w, bool) io" where
  "az_Exists az s ctx fileName =
     tryIO (az_GetProperties az ctx (blobName s fileName)) (\<lambda>r. case r of
         Inl err \<Rightarrow> if HasCode err [BlobNotFound] then ret False else throw (Errorf ''error getting object info'' [err])
       | Inr _ \<Rightarrow> ret True)"

definition az_Stat :: "'w azapi \<Rightarrow> az_storage \<Rightarrow> string \<Rightarrow> ('w, ObjectStat) io" where
  "az_Stat az s fileName =
     (let fullPath = blobName s fileName in
      tryIO (az_GetProperties az (\<lambda>_. None) fullPath) (\<lambda>r. case r of
          Inl err \<Rightarrow>
            if HasCode err [BlobNotFound]
            then ret \<lparr>Name = fullPath, LastModified = 0, Exist = False, Size = 0, ETag = ''''\<rparr>
            else throw (Errorf ''error getting object info'' [err])
        | Inr props \<Rightarrow>
            ret \<lparr>Name = fullPath, LastModified = (case bp_LastModified props of None \<Rightarrow> 0 | Some t \<Rightarrow> t), Exist = True,
                 Size = (case bp_ContentLength props of None \<Rightarrow> 0 | Some n \<Rightarrow> n),
                 ETag = (case bp_ETag props of None \<Rightarrow> '''' | Some e \<Rightarrow> entityTag e)\<rparr>))"

definition az_Ping :: "'w azapi \<Rightarrow> az_storage \<Rightarrow> 'w ctx \<Rightarrow> ('w, unit) io" where
  "az_Ping az s ctx =
     tryIO (az_ContainerProperties az ctx) (\<lambda>r. case r of
         Inl err \<Rightarrow> throw (Errorf ''error pinging azure container'' [err])
       | Inr _ \<Rightarrow> ret ())"

definition az_Close :: "az_storage \<Rightarrow> ('w, unit) io" where
  "az_Close s = ret ()"

definition az_sub :: "az_storage \<Rightarrow> string \<Rightarrow> bool \<Rightarrow> az_storage" where
  "az_sub s subPath relative =
     s\<lparr>az_prefix := (if relative then az_fixPrefix (path_Join (az_prefix s) subPath) else subPath), az_unsafe := False\<rparr>"

definition az_SubStorage :: "az_storage \<Rightarrow> string \<Rightarrow> bool \<Rightarrow> error + az_storage" where
  "az_SubStorage s subPath relative = Inr (az_sub s subPath relative)"

section \<open>Deleting\<close>

fun az_check :: "'w azapi \<Rightarrow> az_storage \<Rightarrow> 'w ctx \<Rightarrow> string list \<Rightarrow> ('w, string list) io" where
  "az_check az s ctx [] = ret []"
| "az_check az s ctx (fp # fps) =
     tryIO (az_GetProperties az ctx (blobName s fp)) (\<lambda>r. case r of
         Inl err \<Rightarrow>
           if HasCode err [BlobNotFound] then bindIO (az_check az s ctx fps) (\<lambda>missing. ret (fp # missing))
           else throw (Errorf ''error checking object'' [err])
       | Inr _ \<Rightarrow> az_check az s ctx fps)"

fun az_deleteKnown :: "'w azapi \<Rightarrow> az_storage \<Rightarrow> 'w ctx \<Rightarrow> string list \<Rightarrow> ('w, unit) io" where
  "az_deleteKnown az s ctx [] = ret ()"
| "az_deleteKnown az s ctx (fp # fps) =
     tryIO (az_DeleteBlob az ctx (blobName s fp)) (\<lambda>r. case r of
         Inl err \<Rightarrow>
           if HasCode err [BlobNotFound] then az_deleteKnown az s ctx fps
           else throw (Errorf ''error deleting object'' [err])
       | Inr _ \<Rightarrow> az_deleteKnown az s ctx fps)"

definition az_Delete :: "'w azapi \<Rightarrow> az_storage \<Rightarrow> 'w ctx \<Rightarrow> string list \<Rightarrow> ('w, unit) io" where
  "az_Delete az s ctx filePaths =
     bindIO (az_check az s ctx filePaths) (\<lambda>missing.
       if missing \<noteq> [] then throw (MissingObjectsError missing) else az_deleteKnown az s ctx filePaths)"

section \<open>Copying\<close>

text \<open>
  The methods that need no copy, with the others left open: \<open>StreamCopy\<close> calls \<open>Exists\<close>,
  \<open>GetObject\<close> and \<open>PutObject\<close> of it, \<open>Walk\<close> its \<open>ListDir\<close> and \<open>Dirname\<close>.
\<close>

definition az_base :: "nat \<Rightarrow> 'w azapi \<Rightarrow> (az_storage, 'w) storager" where
  "az_base fuel az =
     \<lparr>GetObject = az_GetObject az, GetObjectRange = az_GetObjectRange az, PutObject = az_PutObject az,
      Delete = az_Delete az, DeleteAll = (\<lambda>_ _ _. throw (ErrorString '''')),
      List_op = (\<lambda>s ctx p. fueled (az_List fuel az s ctx p)), Stat = az_Stat az, Exists = az_Exists az,
      GetCwd = az_GetCwd, Dirname = az_Dirname, ListDir = (\<lambda>s ctx. fueled (az_ListDir fuel az s ctx)),
      SubStorage = az_SubStorage, Copy = (\<lambda>_ _ _ _ _. throw (ErrorString '''')),
      CopyAll = (\<lambda>_ _ _ _ _ w. ((zeroCopyStat, None), w)), Ping = az_Ping az, Close = az_Close\<rparr>"

definition az_poll :: "az_storage \<Rightarrow> CopyOptions \<Rightarrow> int64 \<times> int64" where
  "az_poll s o' =
     (let cfg = az_cfg s;
          cfg1 = (if PollInterval o' > 0 then cfg\<lparr>CopyPollInterval := PollInterval o'\<rparr> else cfg);
          cfg2 = (if PollMaxInterval o' > 0 then cfg1\<lparr>CopyPollMaxInterval := PollMaxInterval o'\<rparr> else cfg1)
      in copyPollIntervals cfg2)"

text \<open>\<^verbatim>\<open>abortCopy\<close> returns the error of the context, which may be nil.\<close>

definition abortCopy :: "'w azapi \<Rightarrow> 'w ctx \<Rightarrow> string \<Rightarrow> string \<Rightarrow> 'w \<Rightarrow> error option \<times> 'w" where
  "abortCopy az ctx dst copyID w =
     (let w1 = snd (az_AbortCopyFromURL az (\<lambda>_. None) dst copyID w) in (ctx w1, w1))"

definition props_or :: "blob_props \<Rightarrow> error option \<times> 'w \<Rightarrow> (error + blob_props) \<times> 'w" where
  "props_or none r = (case fst r of Some e \<Rightarrow> Inl e | None \<Rightarrow> Inr none, snd r)"

definition copyFailed :: "string \<Rightarrow> blob_props \<Rightarrow> error" where
  "copyFailed status props =
     ErrorString (''azure object copying error: '' @ status @
       (case bp_CopyStatusDescription props of
          Some d \<Rightarrow> if d \<noteq> '''' then '': '' @ d else '''' | None \<Rightarrow> ''''))"

primrec await_loop ::
  "nat \<Rightarrow> 'w azapi \<Rightarrow> 'w ctx \<Rightarrow> string \<Rightarrow> string \<Rightarrow> int64 \<Rightarrow> int64 \<Rightarrow> 'w \<Rightarrow> ((error + blob_props) \<times> 'w) option" where
  "await_loop 0 az ctx dst copyID interval maxInterval w = None"
| "await_loop (Suc fuel) az ctx dst copyID interval maxInterval w =
     (case az_After az ctx interval w of
        (False, w1) \<Rightarrow> Some (props_or no_props (abortCopy az ctx dst copyID w1))
      | (True, w1) \<Rightarrow>
          let interval' = min (mul64 interval 2) maxInterval in
          (case az_GetProperties az ctx dst w1 of
             (Inl err, w2) \<Rightarrow>
               if ctx w2 \<noteq> None then Some (props_or no_props (abortCopy az ctx dst copyID w2))
               else (case abortCopy az ctx dst copyID w2 of (aerr, w3) \<Rightarrow>
                   Some (props_or no_props (errors_Join [Some (Errorf ''error checking copy status'' [err]), aerr], w3)))
           | (Inr props, w2) \<Rightarrow>
               if bp_CopyID props \<noteq> Some copyID then
                 Some (Inl (ErrorString ''azure object copying error: superseded at the destination''), w2)
               else (case bp_CopyStatus props of
                   None \<Rightarrow> Some (Inl (ErrorString ''azure object copying error: reported no status''), w2)
                 | Some status \<Rightarrow>
                     if status = ''pending'' then await_loop fuel az ctx dst copyID interval' maxInterval w2
                     else if status = ''success'' then Some (Inr props, w2)
                     else Some (Inl (copyFailed status props), w2))))"

definition awaitCopy ::
  "nat \<Rightarrow> 'w azapi \<Rightarrow> az_storage \<Rightarrow> 'w ctx \<Rightarrow> string \<Rightarrow> string \<Rightarrow> CopyOptions \<Rightarrow> 'w \<Rightarrow> ((error + blob_props) \<times> 'w) option" where
  "awaitCopy fuel az s ctx dst copyID o' =
     await_loop fuel az ctx dst copyID (fst (az_poll s o')) (snd (az_poll s o'))"

definition copyRefused ::
  "nat \<Rightarrow> 'w azapi \<Rightarrow> az_storage \<Rightarrow> 'w ctx \<Rightarrow> string \<Rightarrow> string \<Rightarrow> string \<Rightarrow> error \<Rightarrow> CopyOptions \<Rightarrow> ('w, CopyStat) io" where
  "copyRefused fuel az s ctx src srcPath dstPath refusal o' =
     tryIO (az_GetProperties az ctx src) (\<lambda>r. case r of
         Inl err \<Rightarrow>
           if HasCode err [BlobNotFound] then throw ErrFileNotFound
           else throw (Errorf ''azure object copying error (checking the source)'' [refusal, err])
       | Inr _ \<Rightarrow>
           if \<not> ClientSideFallback o' then throw (Errorf ''azure object copying error'' [refusal])
           else StreamCopy (az_base fuel az) s ctx srcPath dstPath)"

definition copied_stat :: "blob_props \<Rightarrow> CopyStat" where
  "copied_stat props =
     \<lparr>Bytes = (case bp_ContentLength props of None \<Rightarrow> 0 | Some n \<Rightarrow> n), Streamed = False, Objects = 0\<rparr>"

definition az_Copy ::
  "nat \<Rightarrow> 'w azapi \<Rightarrow> az_storage \<Rightarrow> 'w ctx \<Rightarrow> string \<Rightarrow> string \<Rightarrow> CopyOption list \<Rightarrow> ('w, CopyStat) io" where
  "az_Copy fuel az s ctx srcPath dstPath opts =
     (let o' = NewCopyOptions opts; src = blobName s srcPath; dst = blobName s dstPath in
      if src = dst then
        tryIO (az_GetProperties az ctx src) (\<lambda>r. case r of
            Inl err \<Rightarrow>
              if HasCode err [BlobNotFound] then throw ErrFileNotFound else throw (Errorf ''error getting object info'' [err])
          | Inr _ \<Rightarrow> ret zeroCopyStat)
      else
        tryIO (az_StartCopyFromURL az ctx dst (az_URL az src)) (\<lambda>r. case r of
            Inl err \<Rightarrow>
              if HasCode err [BlobNotFound] then throw ErrFileNotFound
              else if HasCode err [''CannotVerifyCopySource'', ''AuthorizationFailure'', ''AuthorizationPermissionMismatch'']
              then copyRefused fuel az s ctx src srcPath dstPath err o'
              else throw (Errorf ''azure object copying error'' [err])
          | Inr (status, copyID) \<Rightarrow>
              if status = Some ''success'' then
                tryIO (az_GetProperties az ctx dst) (\<lambda>r. case r of
                    Inl err \<Rightarrow> throw (Errorf ''error getting copy info'' [err])
                  | Inr props \<Rightarrow> ret (copied_stat props))
              else (case copyID of
                  None \<Rightarrow> throw (ErrorString ''azure object copying error: started without a copy id'')
                | Some i \<Rightarrow> bindIO (fueled (awaitCopy fuel az s ctx dst i o')) (\<lambda>props. ret (copied_stat props)))))"

section \<open>The method table\<close>

text \<open>
  For listings of at most \<open>fuel\<close> pages, directories at most \<open>fuel\<close> deep, and copies that settle
  within \<open>fuel\<close> polls.
\<close>

definition az_CopyAll ::
  "nat \<Rightarrow> ('w group \<Rightarrow> nat) \<Rightarrow> 'w azapi \<Rightarrow> az_storage \<Rightarrow> 'w ctx \<Rightarrow> string \<Rightarrow> string \<Rightarrow> CopyAllOption list \<Rightarrow>
    'w \<Rightarrow> (CopyStat \<times> error option) \<times> 'w" where
  "az_CopyAll fuel pick az = CopyEach pick ((az_base fuel az)\<lparr>Copy := az_Copy fuel az\<rparr>)"

definition az_DeleteAll ::
  "nat \<Rightarrow> 'w azapi \<Rightarrow> az_storage \<Rightarrow> 'w ctx \<Rightarrow> string \<Rightarrow> 'w \<Rightarrow> ((error + unit) \<times> 'w) option" where
  "az_DeleteAll fuel az s ctx pathPrefix0 w =
     (let pathPrefix = az_fixPrefix pathPrefix0; sub = az_sub s pathPrefix True in
      case Walk fuel (az_base fuel az) ctx sub w of
        None \<Rightarrow> None
      | Some (Inl err, w1) \<Rightarrow> Some (Inl (Errorf ''error walking through storage'' [err]), w1)
      | Some (Inr filesList, w1) \<Rightarrow>
          if filesList = [] then Some (Inl (MissingObjectsError [pathPrefix]), w1)
          else (case az_deleteKnown az sub ctx filesList w1 of
              (Inl err, w2) \<Rightarrow> Some (Inl (Errorf ''error deleting files'' [err]), w2)
            | (Inr _, w2) \<Rightarrow> Some (Inr (), w2)))"

definition az_ops :: "nat \<Rightarrow> ('w group \<Rightarrow> nat) \<Rightarrow> 'w azapi \<Rightarrow> (az_storage, 'w) storager" where
  "az_ops fuel pick az =
     (az_base fuel az)\<lparr>Copy := az_Copy fuel az, CopyAll := az_CopyAll fuel pick az,
       DeleteAll := (\<lambda>s ctx p. fueled (az_DeleteAll fuel az s ctx p))\<rparr>"

end
