(* ===== verification/Azure_Copy.thy ===== *)
theory Azure_Copy
  imports Azure
begin

text \<open>
  Waiting for a copy Azure carries out on its own. The locale \<open>az_clock\<close> is what the polling loop
  relies on of time and of its context; inside it the loop is shown to return soon after the context's
  deadline at the latest, and never to leave a pending copy running when it gives up: it has asked for
  the abort, or the last poll showed there was nothing left to abort.
\<close>

section \<open>The intervals\<close>

lemma copyPollIntervals_ok:
  "0 < fst (copyPollIntervals c) \<and> fst (copyPollIntervals c) \<le> snd (copyPollIntervals c)"
  by (simp add: copyPollIntervals_def defaultCopyPollInterval_def Let_def)

lemma az_poll_ok: "0 < fst (az_poll s o') \<and> fst (az_poll s o') \<le> snd (az_poll s o')"
  by (simp add: az_poll_def copyPollIntervals_ok Let_def)

text \<open>The next wait: doubled up to the maximum, so never shorter than the last one.\<close>

lemma next_interval:
  assumes "0 < i" "i \<le> m" "m < 2 ^ 62"
  shows "i \<le> min (mul64 i 2) m \<and> min (mul64 i 2) m \<le> m"
proof -
  have "mul64 i 2 = i * 2" using assms by (intro mul64_id) (simp add: in64_iff)
  then show ?thesis using assms by simp
qed

section \<open>The loop\<close>

text \<open>How a wait may end: with the copy done, with its abort asked for, or with nothing left to abort.\<close>

definition settled :: "'w azapi \<Rightarrow> 'w ctx \<Rightarrow> string \<Rightarrow> string \<Rightarrow> error + blob_props \<Rightarrow> 'w \<Rightarrow> bool" where
  "settled az ctx dst copyID r w' \<longleftrightarrow>
     (case r of
        Inr props \<Rightarrow> bp_CopyID props = Some copyID \<and> bp_CopyStatus props = Some ''success'' \<and>
          (\<exists>v. az_GetProperties az ctx dst v = (Inr props, w'))
      | Inl e \<Rightarrow> (\<exists>v. snd (az_AbortCopyFromURL az (\<lambda>_. None) dst copyID v) = w') \<or>
          (\<exists>v props. az_GetProperties az ctx dst v = (Inr props, w') \<and>
             \<not> (bp_CopyID props = Some copyID \<and> bp_CopyStatus props = Some ''pending'')))"

lemma errors_Join_Some: "\<exists>e. errors_Join [Some e1, e2] = Some e"
  by (simp add: errors_Join_def Let_def)

locale az_clock =
  fixes az :: "'w azapi"
    and ctx :: "'w ctx"
    and now :: "'w \<Rightarrow> int"
    and deadline :: int
  assumes after_lost: "az_After az ctx i w = (False, w') \<Longrightarrow> ctx w' \<noteq> None"
    and after_won: "0 < i \<Longrightarrow> az_After az ctx i w = (True, w') \<Longrightarrow> ctx w = None \<and> now w + i \<le> now w'"
    and poll_time: "az_GetProperties az ctx b w = (r, w') \<Longrightarrow> now w \<le> now w'"
    and deadline_done: "deadline \<le> now w \<Longrightarrow> ctx w \<noteq> None"
    and abort_ctx: "ctx w \<noteq> None \<Longrightarrow> az_AbortCopyFromURL az c dst u w = (r', w') \<Longrightarrow> ctx w' \<noteq> None"
begin

text \<open>The polls that are enough from a world on, when no wait is shorter than \<open>i0\<close>.\<close>

definition polls :: "int \<Rightarrow> 'w \<Rightarrow> nat" where
  "polls i0 w = (if deadline \<le> now w then 1 else nat ((deadline - now w) div i0) + 2)"

lemma polls_decrease:
  assumes "0 < i0" "now w < deadline" "now w + i0 \<le> now v"
  shows "Suc (polls i0 v) \<le> polls i0 w"
proof (cases "deadline \<le> now v")
  case False
  have "(deadline - now v) div i0 \<le> (deadline - now w - i0) div i0"
    using assms by (intro zdiv_mono1) simp_all
  also have "\<dots> = (deadline - now w) div i0 - 1"
    using assms(1) div_mult_self3 [of i0 "- 1" "deadline - now w"] by simp
  finally have "(deadline - now v) div i0 \<le> (deadline - now w) div i0 - 1" .
  moreover have "0 \<le> (deadline - now v) div i0" using False assms(1) by (simp add: pos_imp_zdiv_nonneg_iff)
  ultimately have "nat ((deadline - now v) div i0) + 1 \<le> nat ((deadline - now w) div i0)" by linarith
  then show ?thesis using False assms by (simp add: polls_def)
qed (use assms in \<open>simp add: polls_def\<close>)

lemma abort_settles:
  assumes "ctx w \<noteq> None"
  shows "\<exists>e w'. props_or none (abortCopy az ctx dst copyID w) = (Inl e, w') \<and> settled az ctx dst copyID (Inl e) w'"
proof -
  obtain r w' where A: "az_AbortCopyFromURL az (\<lambda>_. None) dst copyID w = (r, w')" by fastforce
  obtain e where "ctx w' = Some e" using abort_ctx [OF assms A] by blast
  with A have "props_or none (abortCopy az ctx dst copyID w) = (Inl e, w')"
    by (simp add: abortCopy_def props_or_def)
  moreover have "settled az ctx dst copyID (Inl e) w'"
    unfolding settled_def sum.case using A snd_conv by metis
  ultimately show ?thesis by blast
qed

lemma await_loop_settles:
  assumes "0 < i0" "i0 \<le> i" "i \<le> m" "m < 2 ^ 62" "polls i0 w \<le> fuel"
  shows "\<exists>r w'. await_loop fuel az ctx dst copyID i m w = Some (r, w') \<and> settled az ctx dst copyID r w'"
  using assms(2,3,5)
proof (induction fuel arbitrary: i w)
  case 0
  then show ?case by (simp add: polls_def split: if_splits)
next
  case (Suc fuel)
  obtain won w1 where A: "az_After az ctx i w = (won, w1)" by fastforce
  show ?case
  proof (cases won)
    case False
    then have "ctx w1 \<noteq> None" using after_lost A by simp
    from abort_settles [OF this, of no_props dst copyID] A False show ?thesis by simp blast
  next
    case True
    have i: "0 < i" using assms(1) Suc.prems(1) by simp
    have time: "now w < deadline" "now w + i \<le> now w1"
      using after_won [OF i] A True deadline_done [of w] by fastforce+
    obtain p w2 where P: "az_GetProperties az ctx dst w1 = (p, w2)" by fastforce
    have w2: "now w + i0 \<le> now w2" using poll_time [OF P] time Suc.prems(1) by linarith
    show ?thesis
    proof (cases p)
      case (Inl err)
      show ?thesis
      proof (cases "ctx w2")
        case None
        obtain aerr w3 where B: "abortCopy az ctx dst copyID w2 = (aerr, w3)" by fastforce
        then have ab: "snd (az_AbortCopyFromURL az (\<lambda>_. None) dst copyID w2) = w3" by (simp add: abortCopy_def Let_def)
        obtain e where e: "errors_Join [Some (Errorf ''error checking copy status'' [err]), aerr] = Some e"
          using errors_Join_Some by blast
        have "await_loop (Suc fuel) az ctx dst copyID i m w = Some (Inl e, w3)"
          using A True P Inl None B e by (simp add: props_or_def Let_def)
        moreover have "settled az ctx dst copyID (Inl e) w3" unfolding settled_def sum.case using ab by blast
        ultimately show ?thesis by blast
      next
        case (Some e)
        then have "ctx w2 \<noteq> None" by simp
        from abort_settles [OF this, of no_props dst copyID] A True P Inl this show ?thesis
          by (simp add: Let_def) blast
      qed
    next
      case (Inr props)
      show ?thesis
      proof (cases "bp_CopyID props = Some copyID \<and> bp_CopyStatus props = Some ''pending''")
        case False
        then show ?thesis using A True P Inr
          by (cases "bp_CopyStatus props") (auto simp: settled_def Let_def)
      next
        case True
        note ni = next_interval [OF i Suc.prems(2) assms(4)]
        have "polls i0 w2 \<le> fuel"
          using polls_decrease [OF assms(1) time(1) w2] Suc.prems(3) by simp
        then have "\<exists>r w'. await_loop fuel az ctx dst copyID (min (mul64 i 2) m) m w2 = Some (r, w') \<and>
            settled az ctx dst copyID r w'"
          using ni Suc.prems(1) by (intro Suc.IH) simp_all
        then show ?thesis using A \<open>won\<close> P Inr True by (simp add: Let_def)
      qed
    qed
  qed
qed

end

end
