(* ===== verification/Azure_Laws.thy ===== *)
theory Azure_Laws
  imports Azure_Copy Bucket
begin

text \<open>
  The Azure backend as a storage. \<open>az_service\<close> is what Azure documents of the calls the backend makes,
  for one container and one client. Inside it every method but \<open>Copy\<close> is shown to keep the storage
  contract with sizes and ranges (\<open>az_base\<close>, the table whose \<open>Copy\<close> is left open), and \<open>Copy\<close> to
  return and to leave the source's content at its destination, whether the service copies at once,
  takes its time, or refuses and the blob is streamed.
\<close>

section \<open>The laws of the service\<close>

text \<open>
  \<open>copying w d i b\<close>: a copy \<open>i\<close> of the content \<open>b\<close> to \<open>d\<close> is pending; \<open>sane w\<close> is a container with no
  pending copy. A pending copy changes nothing but its destination, and the service ends it within
  \<open>limit\<close> status checks. An abort that succeeds has ended the copy; after one that fails it may still be
  pending, and after a start whose failure is no refusal there may be a copy the caller does not know of.
  \<open>pos\<close> is the key a listing marker stands for.
\<close>

locale az_service =
  fixes az :: "'w azapi"
    and bkt :: "'w \<Rightarrow> string \<rightharpoonup> bytes"
    and sane :: "'w \<Rightarrow> bool"
    and copying :: "'w \<Rightarrow> string \<Rightarrow> string \<Rightarrow> bytes \<Rightarrow> bool"
    and left :: "'w \<Rightarrow> nat"
    and limit :: nat
    and pos :: "string \<Rightarrow> string"
  assumes object_size: "sane w \<Longrightarrow> bkt w k = Some b \<Longrightarrow> int (length b) \<le> 2 ^ 61"
    and finite_container: "sane w \<Longrightarrow> finite (dom (bkt w))"
    and download_frame: "sane w \<Longrightarrow> az_DownloadStream az ctx k rng w = (dr, w') \<Longrightarrow> bkt w' = bkt w \<and> sane w'"
    and download_ok: "sane w \<Longrightarrow> az_DownloadStream az ctx k rng w = (Inr (rd, len), w') \<Longrightarrow>
      \<exists>b x. bkt w k = Some b \<and> (rd_end rd = None \<longrightarrow> rd_bytes rd = x) \<and>
        (case rng of None \<Rightarrow> x = b
         | Some (off, n) \<Rightarrow> x = (if n = 0 then drop (nat off) b else take (nat n) (drop (nat off) b)) \<and>
             len = Some (int (length x)))"
    and upload_ok: "sane w \<Longrightarrow> az_UploadStream az ctx k body bs n w = (Inr cnt, w') \<Longrightarrow>
      rd_end body = None \<and> cnt = length (rd_bytes body) \<and> bkt w' = (bkt w)(k \<mapsto> rd_bytes body) \<and> sane w'"
    and upload_err: "sane w \<Longrightarrow> az_UploadStream az ctx k body bs n w = (Inl e, w') \<Longrightarrow>
      only_at k (bkt w) (bkt w') \<and> sane w'"
    and props_frame: "sane w \<Longrightarrow> az_GetProperties az ctx k w = (pr, w') \<Longrightarrow> bkt w' = bkt w \<and> sane w'"
    and props_ok: "sane w \<Longrightarrow> az_GetProperties az ctx k w = (Inr p, w') \<Longrightarrow>
      \<exists>b. bkt w k = Some b \<and> bp_ContentLength p = Some (int (length b))"
    and props_missing: "sane w \<Longrightarrow> az_GetProperties az ctx k w = (Inl e, w') \<Longrightarrow> HasCode e [BlobNotFound] \<Longrightarrow> bkt w k = None"
    and flat_frame: "sane w \<Longrightarrow> az_FlatPage az ctx pre m w = (fr, w') \<Longrightarrow> bkt w' = bkt w \<and> sane w'"
    and flat_ok: "sane w \<Longrightarrow> az_FlatPage az ctx pre m w = (Inr (items, nxt), w') \<Longrightarrow>
      chunk (bkt w) pre (map_option pos m) (map bi_Name items) (map_option pos nxt) \<and>
      forward (map_option pos m) (map_option pos nxt) \<and> (nxt \<noteq> None \<longrightarrow> items \<noteq> []) \<and>
      (\<forall>x \<in> set items. \<forall>b. bkt w (bi_Name x) = Some b \<longrightarrow>
         (\<exists>ip. bi_Properties x = Some ip \<and> ip_ContentLength ip = Some (int (length b))))"
    and start_done: "sane w \<Longrightarrow> az_StartCopyFromURL az ctx d (az_URL az src) w = (Inr (Some ''success'', i), w') \<Longrightarrow>
      \<exists>b. bkt w src = Some b \<and> bkt w' = (bkt w)(d \<mapsto> b) \<and> sane w'"
    and start_pending: "sane w \<Longrightarrow> az_StartCopyFromURL az ctx d (az_URL az src) w = (Inr (st, i), w') \<Longrightarrow>
      st \<noteq> Some ''success'' \<Longrightarrow>
      \<exists>b u. i = Some u \<and> bkt w src = Some b \<and> copying w' d u b \<and> only_at d (bkt w) (bkt w') \<and> left w' < limit"
    and start_refused: "sane w \<Longrightarrow> az_StartCopyFromURL az ctx d (az_URL az src) w = (Inl e, w') \<Longrightarrow>
      HasCode e [''CannotVerifyCopySource'', ''AuthorizationFailure'', ''AuthorizationPermissionMismatch''] \<Longrightarrow>
      only_at d (bkt w) (bkt w') \<and> sane w'"
    and start_err: "sane w \<Longrightarrow> az_StartCopyFromURL az ctx d (az_URL az src) w = (Inl e, w') \<Longrightarrow>
      only_at d (bkt w) (bkt w') \<and> (sane w' \<or> (\<exists>u b. copying w' d u b))"
    and wait_copying: "copying w d u b \<Longrightarrow> az_After az ctx dt w = (won, w') \<Longrightarrow>
      copying w' d u b \<and> only_at d (bkt w) (bkt w') \<and> left w' \<le> left w"
    and poll_err: "copying w d u b \<Longrightarrow> az_GetProperties az ctx d w = (Inl e, w') \<Longrightarrow>
      copying w' d u b \<and> only_at d (bkt w) (bkt w')"
    and poll_pending: "copying w d u b \<Longrightarrow> az_GetProperties az ctx d w = (Inr p, w') \<Longrightarrow>
      bp_CopyID p = Some u \<Longrightarrow> bp_CopyStatus p = Some ''pending'' \<Longrightarrow>
      copying w' d u b \<and> only_at d (bkt w) (bkt w') \<and> left w' < left w"
    and poll_done: "copying w d u b \<Longrightarrow> az_GetProperties az ctx d w = (Inr p, w') \<Longrightarrow>
      \<not> (bp_CopyID p = Some u \<and> bp_CopyStatus p = Some ''pending'') \<Longrightarrow>
      only_at d (bkt w) (bkt w') \<and> sane w' \<and>
      (bp_CopyID p = Some u \<and> bp_CopyStatus p = Some ''success'' \<longrightarrow>
         bkt w' d = Some b \<and> bp_ContentLength p = Some (int (length b)))"
    and abort_ok: "copying w d u b \<Longrightarrow> az_AbortCopyFromURL az ctx d u w = (Inr v, w') \<Longrightarrow>
      only_at d (bkt w) (bkt w') \<and> sane w'"
    and abort_err: "copying w d u b \<Longrightarrow> az_AbortCopyFromURL az ctx d u w = (Inl e, w') \<Longrightarrow>
      only_at d (bkt w) (bkt w') \<and> (sane w' \<or> copying w' d u b)"
begin

section \<open>The objects of a storage\<close>

definition az_root :: "az_storage \<Rightarrow> string" where
  "az_root s = TrimPrefix (root_of (az_prefix s)) ''/''"

definition az_objs :: "az_storage \<Rightarrow> 'w \<Rightarrow> string \<rightharpoonup> bytes" where
  "az_objs s w = bucket_objs (az_root s) (bkt w)"

definition az_wf :: "az_storage \<Rightarrow> 'w \<Rightarrow> bool" where
  "az_wf s w \<longleftrightarrow> sane w \<and> rooted_prefix (az_prefix s) \<and> tidy (az_root s) (bkt w)"

lemma TrimPrefix_slash:
  assumes that: "\<not> path_IsAbs k"
  shows "TrimPrefix (a @ k) ''/'' = TrimPrefix a ''/'' @ k"
proof (cases a)
  case Nil
  then show ?thesis using that by (cases k) (simp_all add: path_IsAbs_def TrimPrefix_no)
next
  case (Cons c t)
  then show ?thesis
    using TrimPrefix_append [of "''/''" t] TrimPrefix_append [of "''/''" "t @ k"]
    by (cases "c = CHR ''/''") (simp_all add: TrimPrefix_no)
qed

lemma blobName_root: "key_ok k \<Longrightarrow> blobName s k = az_root s @ k"
  by (simp add: blobName_def az_root_def Join_root_of TrimPrefix_slash key_ok_not_abs)

lemma az_fixPrefix_root:
  assumes "prefix_ok p" "rooted_prefix (az_prefix s)"
  shows "az_fixPrefix (path_Join (az_prefix s) p) = az_root s @ dir_of p"
proof -
  have trim: "az_fixPrefix x = TrimPrefix (slash_end x) ''/''" for x
  proof (cases "HasPrefix x ''/''")
    case True
    then obtain t where "x = ''/'' @ t" by (auto simp: HasPrefix_iff)
    then show ?thesis
      using TrimPrefix_append [of "''/''" t] TrimPrefix_append [of "''/''" "t @ ''/''"]
      by (auto simp: az_fixPrefix_def slash_end_def Let_def)
  next
    case False
    then have "\<not> HasPrefix (slash_end x) ''/''" by (cases x) (auto simp: slash_end_def)
    with False show ?thesis by (simp add: az_fixPrefix_def slash_end_def TrimPrefix_no)
  qed
  have "\<not> path_IsAbs (dir_of p)"
    using assms(1) key_ok_not_abs [of p] by (cases p) (auto simp: dir_of_def prefix_ok_def path_IsAbs_def)
  then show ?thesis
    by (simp add: trim list_root [OF assms] az_root_def TrimPrefix_slash)
qed

lemma az_objs_key: "key_ok k \<Longrightarrow> az_objs s w k = bkt w (blobName s k)"
  by (simp add: az_objs_def bucket_objs_def blobName_root)

lemma az_same:
  assumes "az_wf s w" "bkt w' = bkt w \<and> sane w'"
  shows "az_objs h' w' = az_objs h' w \<and> az_wf s w'"
  using assms by (simp add: az_objs_def az_wf_def)

lemma az_written:
  assumes "az_wf s w" "key_ok k" "bkt w' = (bkt w)(blobName s k \<mapsto> b) \<and> sane w'"
  shows "az_objs s w' = (az_objs s w)(k \<mapsto> b) \<and> az_wf s w'"
  using assms by (simp add: az_objs_def az_wf_def blobName_root bucket_objs_upd tidy_upd)

lemma az_touched:
  assumes "az_wf s w" "key_ok k" "only_at (blobName s k) (bkt w) (bkt w') \<and> sane w'"
  shows "(az_objs s w)(k := None) \<subseteq>\<^sub>m az_objs s w' \<and> az_wf s w'"
  using assms only_at_objs [of k "az_root s" "bkt w" "bkt w'"]
  by (simp add: az_objs_def az_wf_def blobName_root)

section \<open>Reading and writing\<close>

lemma az_Get_call:
  assumes "az_GetObject az s ctx k w = (r, w')"
  shows "\<exists>g. az_DownloadStream az ctx (blobName s k) None w = (g, w') \<and> (\<forall>rd. r = Inr rd \<longrightarrow> (\<exists>len. g = Inr (rd, len)))"
  using assms by (auto simp: az_GetObject_def tryIO_apply split: prod.splits sum.splits if_splits)

lemma az_Range_call:
  assumes "az_GetObjectRange az s ctx k off len w = (r, w')"
  shows "(w' = w \<and> (\<exists>e. r = Inl e)) \<or> (0 \<le> off \<and> len \<noteq> 0 \<and>
    (\<exists>g. az_DownloadStream az ctx (blobName s k) (Some (off, if len < 0 then 0 else len)) w = (g, w') \<and>
      (\<forall>rd. r = Inr rd \<longrightarrow> (\<exists>n. g = Inr (rd, n) \<and> n \<noteq> Some 0))))"
  using assms by (auto simp: az_GetObjectRange_def Let_def tryIO_apply split: prod.splits sum.splits if_splits)

lemma az_Exists_call:
  assumes "az_Exists az s ctx k w = (r, w')"
  shows "\<exists>g. az_GetProperties az ctx (blobName s k) w = (g, w') \<and>
    (r = Inr False \<longrightarrow> (\<exists>e. g = Inl e \<and> HasCode e [BlobNotFound]))"
  using assms by (auto simp: az_Exists_def tryIO_apply split: prod.splits sum.splits if_splits)

lemma az_Stat_call:
  assumes "az_Stat az s k w = (r, w')"
  shows "\<exists>g. az_GetProperties az (\<lambda>_. None) (blobName s k) w = (g, w') \<and>
    (\<forall>e. g = Inl e \<longrightarrow> (\<forall>si. r = Inr si \<longrightarrow> HasCode e [BlobNotFound])) \<and>
    (\<forall>p n. g = Inr p \<longrightarrow> bp_ContentLength p = Some n \<longrightarrow> (\<forall>si. r = Inr si \<longrightarrow> Exist si \<and> Size si = n))"
  using assms by (auto simp: az_Stat_def Let_def tryIO_apply split: prod.splits sum.splits if_splits)

lemma az_Put_call:
  assumes "az_PutObject az s ctx k body w = (r, w')"
  shows "\<exists>g. az_UploadStream az ctx (blobName s k) body (az_BlockSize s) (az_Concurrency s) w = (g, w') \<and>
    (case r of Inr n \<Rightarrow> g = Inr n | Inl _ \<Rightarrow> \<exists>e. g = Inl e)"
  using assms by (auto simp: az_PutObject_def tryIO_apply split: prod.splits sum.splits)

lemma az_Range_spec:
  assumes "az_wf s w" "key_ok k" "az_objs s w k = Some b" "az_GetObjectRange az s ctx k off len w = (Inr rd, w')"
  shows "0 \<le> off \<and> len \<noteq> 0 \<and> off < int (length b) \<and> (rd_end rd = None \<longrightarrow> rd_bytes rd = clamped off len b)"
proof -
  have s: "sane w" using assms(1) by (simp add: az_wf_def)
  from az_Range_call [OF assms(4)] obtain n where G: "0 \<le> off" "len \<noteq> 0"
    "az_DownloadStream az ctx (blobName s k) (Some (off, if len < 0 then 0 else len)) w = (Inr (rd, n), w')" "n \<noteq> Some 0"
    by auto
  from download_ok [OF s G(3)] assms(2,3) obtain x where x: "rd_end rd = None \<longrightarrow> rd_bytes rd = x"
    "x = clamped off len b" "n = Some (int (length x))"
    using G(2) by (auto simp: az_objs_key clamped_def split: if_splits)
  with G(4) have "x \<noteq> []" by auto
  then have "off < int (length b)" using x(2) G(1) by (auto simp: clamped_def split: if_splits)
  with G(1,2) x show ?thesis by blast
qed

section \<open>Listing\<close>

definition item_sizes :: "(string \<rightharpoonup> bytes) \<Rightarrow> blob_item list \<Rightarrow> bool" where
  "item_sizes m items \<longleftrightarrow> (\<forall>x \<in> set items. \<forall>b. m (bi_Name x) = Some b \<longrightarrow>
     (\<exists>ip. bi_Properties x = Some ip \<and> ip_ContentLength ip = Some (int (length b))))"

lemma flat_pages_ok:
  assumes "sane w" "so_far (bkt w) pre (map bi_Name (concat acc)) (map_option pos m)" "item_sizes (bkt w) (concat acc)"
    and "pages fuel (az_FlatPage az ctx pre) m acc w = Some (r, w')"
  shows "bkt w' = bkt w \<and> sane w' \<and> (\<forall>ps. r = Inr ps \<longrightarrow>
    chunk (bkt w) pre None (map bi_Name (concat ps)) None \<and> item_sizes (bkt w) (concat ps))"
  using assms
proof (induction fuel arbitrary: m acc w)
  case (Suc fuel)
  obtain n w1 where N: "az_FlatPage az ctx pre m w = (n, w1)" by fastforce
  note w1 = flat_frame [OF Suc.prems(1) N]
  show ?case
  proof (cases n)
    case (Inl e)
    with N w1 Suc.prems(4) show ?thesis by auto
  next
    case (Inr on)
    obtain items nxt where on: "on = (items, nxt)" by fastforce
    note ok = flat_ok [OF Suc.prems(1) N [unfolded Inr on]]
    have more: "item_sizes (bkt w) (concat (acc @ [items]))" using ok Suc.prems(3) by (auto simp: item_sizes_def)
    show ?thesis
    proof (cases nxt)
      case None
      have "chunk (bkt w) pre None (map bi_Name (concat (acc @ [items]))) None"
        using so_far_page [OF Suc.prems(2)] ok None by simp
      with None N Inr on w1 more Suc.prems(4) show ?thesis by auto
    next
      case (Some t)
      have "so_far (bkt w) pre (map bi_Name (concat (acc @ [items]))) (Some (pos t))"
        using so_far_next [OF Suc.prems(2)] ok Some by simp
      with Suc.IH [of w1 "acc @ [items]" "Some t"] Suc.prems(4) Some N Inr on w1 more show ?thesis by simp
    qed
  qed
qed simp

lemma flat_pages_return:
  assumes "sane w" "card (keys_left (bkt w) pre (map_option pos m)) < fuel"
  shows "pages fuel (az_FlatPage az ctx pre) m acc w \<noteq> None"
  using assms
proof (induction fuel arbitrary: m acc w)
  case (Suc fuel)
  obtain n w1 where N: "az_FlatPage az ctx pre m w = (n, w1)" by fastforce
  note w1 = flat_frame [OF Suc.prems(1) N]
  show ?case
  proof (cases "\<exists>items t. n = Inr (items, Some t)")
    case True
    then obtain items t where n: "n = Inr (items, Some t)" by blast
    note ok = flat_ok [OF Suc.prems(1) N [unfolded n]]
    have "card (keys_left (bkt w1) pre (Some (pos t))) < fuel"
      using keys_left_page [OF finite_container [OF Suc.prems(1)], of pre "map_option pos m" "map bi_Name items" "pos t"]
        ok w1 Suc.prems(2) by simp
    with Suc.IH [of w1 "Some t" "acc @ [items]"] w1 N n show ?thesis by simp
  qed (use N in \<open>auto split: sum.split prod.split option.split\<close>)
qed simp

lemma az_List_returns:
  assumes "az_wf s w" "card (dom (bkt w)) < fuel"
  shows "az_List fuel az s ctx p w \<noteq> None"
proof -
  have s: "sane w" using assms(1) by (simp add: az_wf_def)
  let ?pre = "az_fixPrefix (path_Join (az_prefix s) p)"
  have "card (keys_left (bkt w) ?pre None) \<le> card (dom (bkt w))"
    by (rule card_mono [OF finite_container [OF s]]) (auto simp: keys_left_def)
  with assms(2) flat_pages_return [OF s, of ?pre None fuel ctx "[]"] show ?thesis
    by (auto simp: az_List_def Let_def split: sum.split)
qed

lemma az_names_collected:
  "map Name (az_collect pre items) = map (\<lambda>k. TrimPrefix k pre) (filter (\<lambda>k. TrimPrefix k pre \<noteq> '''') (map bi_Name items))"
  by (simp add: az_collect_def filter_map o_def az_item_stat_def split: option.split)

lemma az_collected_size:
  assumes "x \<in> set (az_collect pre items)" "item_sizes m items" "\<forall>k \<in> set (map bi_Name items). HasPrefix k pre"
  shows "Exist x \<and> (\<forall>b. m (pre @ Name x) = Some b \<longrightarrow> Size x = int (length b))"
proof -
  from assms(1) obtain y where y: "y \<in> set items" "x = az_item_stat (TrimPrefix (bi_Name y) pre) y"
    by (auto simp: az_collect_def)
  from y(1) assms(3) obtain t where "bi_Name y = pre @ t" by (auto simp: HasPrefix_iff)
  with y assms(2) show ?thesis by (auto simp: item_sizes_def az_item_stat_def split: option.splits)
qed

lemma az_List_spec:
  assumes "az_wf s w" "prefix_ok p" "fueled (az_List fuel az s ctx p) w = (r, w')"
  shows "bkt w' = bkt w \<and> sane w' \<and> (\<forall>os. r = Inr os \<longrightarrow> sorted_wrt (<) (map Name os) \<and>
    (\<forall>k. key_ok k \<longrightarrow> (az_objs s w (path_Join p k) \<noteq> None \<longleftrightarrow> k \<in> Name ` set os)) \<and>
    (\<forall>x \<in> set os. Exist x \<and> key_ok (Name x) \<and>
       (\<forall>b. az_objs s w (path_Join p (Name x)) = Some b \<longrightarrow> Size x = int (length b))))"
proof -
  let ?pre = "az_root s @ dir_of p"
  have s: "sane w" "rooted_prefix (az_prefix s)" "tidy (az_root s) (bkt w)" using assms(1) by (simp_all add: az_wf_def)
  note pre = az_fixPrefix_root [OF assms(2) s(2)]
  show ?thesis
  proof (cases "pages fuel (az_FlatPage az ctx ?pre) None [] w")
    case None
    with assms(3) s show ?thesis by (auto simp: fueled_def az_List_def Let_def pre)
  next
    case (Some rw)
    obtain q w1 where rw: "rw = (q, w1)" by fastforce
    have ok: "bkt w1 = bkt w \<and> sane w1 \<and> (\<forall>ps. q = Inr ps \<longrightarrow>
        chunk (bkt w) ?pre None (map bi_Name (concat ps)) None \<and> item_sizes (bkt w) (concat ps))"
      using flat_pages_ok [OF s(1) _ _ Some [unfolded rw]] by (simp add: item_sizes_def)
    show ?thesis
    proof (cases q)
      case (Inl e)
      with assms(3) Some rw ok show ?thesis by (auto simp: fueled_def az_List_def Let_def pre)
    next
      case (Inr ps)
      let ?os = "az_collect ?pre (concat ps)"
      have os: "concat (map (az_collect ?pre) ps) = ?os" by (induction ps) (simp_all add: az_collect_def)
      have r: "r = Inr ?os" "w' = w1" using assms(3) Some rw Inr os by (simp_all add: fueled_def az_List_def Let_def pre)
      have ch: "chunk (bkt w) ?pre None (map bi_Name (concat ps)) None" and sz: "item_sizes (bkt w) (concat ps)"
        using ok Inr by simp_all
      note names = listing_objs [OF ch s(3) assms(2) az_names_collected]
      have "Exist x \<and> key_ok (Name x) \<and> (\<forall>b. az_objs s w (path_Join p (Name x)) = Some b \<longrightarrow> Size x = int (length b))"
        if x: "x \<in> set ?os" for x
      proof -
        have n: "Name x \<in> set (map Name ?os)" using x by simp
        have "\<forall>k \<in> set (map bi_Name (concat ps)). HasPrefix k ?pre" using ch by (simp add: chunk_def)
        from az_collected_size [OF x sz this] names n show ?thesis
          by (auto simp: az_objs_def bucket_objs_def split: if_splits)
      qed
      with r ok names show ?thesis by (auto simp: az_objs_def)
    qed
  qed
qed

section \<open>The contract\<close>

lemma az_base_sel [simp]:
  "GetObject (az_base fuel az) = az_GetObject az" "GetObjectRange (az_base fuel az) = az_GetObjectRange az"
  "PutObject (az_base fuel az) = az_PutObject az" "Stat (az_base fuel az) = az_Stat az"
  "Exists (az_base fuel az) = az_Exists az" "Copy (az_base fuel az) s ctx k d opts = throw (ErrorString '''')"
  "List_op (az_base fuel az) s ctx p = fueled (az_List fuel az s ctx p)"
  by (simp_all add: az_base_def)

lemma az_clean_contract: "sized_contract (clean_list (az_base fuel az)) az_objs az_wf"
proof (unfold_locales, goal_cases)
  case (1 h w k ctx res w' h')
  then obtain g where "az_DownloadStream az ctx (blobName h k) None w = (g, w')"
    using az_Get_call [of h ctx k w res w'] by auto
  with 1(1) download_frame show ?case by (intro az_same) (auto simp: az_wf_def)
next
  case (2 h w k b ctx r w')
  then obtain len where "az_DownloadStream az ctx (blobName h k) None w = (Inr (r, len), w')" "sane w"
    using az_Get_call [of h ctx k w "Inr r" w'] by (auto simp: az_wf_def)
  from download_ok [OF this(2,1)] 2(2,3,5) show ?case by (simp add: az_objs_key)
next
  case (3 h w k ctx found w' h')
  then obtain g where "az_GetProperties az ctx (blobName h k) w = (g, w')"
    using az_Exists_call [of h ctx k w found w'] by auto
  with 3(1) props_frame show ?case by (intro az_same) (auto simp: az_wf_def)
next
  case (4 h w k ctx w')
  then obtain e where "az_GetProperties az ctx (blobName h k) w = (Inl e, w')" "HasCode e [BlobNotFound]" "sane w"
    using az_Exists_call [of h ctx k w "Inr False" w'] by (auto simp: az_wf_def)
  with props_missing 4(2) show ?case by (auto simp: az_objs_key)
next
  case (5 h w k ctx body n w')
  then have "az_UploadStream az ctx (blobName h k) body (az_BlockSize h) (az_Concurrency h) w = (Inr n, w')" "sane w"
    using az_Put_call [of h ctx k body w "Inr n" w'] by (auto simp: az_wf_def)
  from upload_ok [OF this(2,1)] az_written [OF 5(1,2)] show ?case by simp
next
  case (6 h w k ctx body e w')
  then obtain e' where "az_UploadStream az ctx (blobName h k) body (az_BlockSize h) (az_Concurrency h) w = (Inl e', w')" "sane w"
    using az_Put_call [of h ctx k body w "Inl e" w'] by (auto simp: az_wf_def)
  from upload_err [OF this(2,1)] az_touched [OF 6(1,2)] show ?case by simp
next
  case (7 h w s d ctx opts c w')
  then show ?case by simp
next
  case (8 h w s d ctx opts e w')
  then show ?case by (auto simp: map_le_def)
next
  case (9 h w p ctx res w' h')
  from listPrefix_Inr [OF 9(2)] obtain q where q: "listPrefix p = Inr q" "prefix_ok q" by blast
  with 9(3) have "fueled (az_List fuel az h ctx q) w = (res, w')" by simp
  from az_List_spec [OF 9(1) q(2) this] show ?case by (intro az_same [OF 9(1)]) blast
next
  case (10 h w p ctx os w')
  from listPrefix_Inr [OF 10(2)] obtain q where q: "listPrefix p = Inr q" "prefix_ok q" "path_segs q = path_segs p" by blast
  with 10(3) have "fueled (az_List fuel az h ctx q) w = (Inr os, w')" by simp
  note spec = az_List_spec [OF 10(1) q(2) this]
  have "path_Join p k = path_Join q k" if "key_ok k" for k
    using path_Join_cong [OF 10(2) _ _ that, of q] q(2,3) by (auto simp: prefix_ok_def key_okD)
  with spec show ?case by simp
next
  case (11 h w s d ctx opts c w' b)
  then show ?case by simp
next
  case (12 h w p ctx os w' x b)
  from listPrefix_Inr [OF 12(2)] obtain q where q: "listPrefix p = Inr q" "prefix_ok q" "path_segs q = path_segs p" by blast
  with 12(3) have "fueled (az_List fuel az h ctx q) w = (Inr os, w')" by simp
  note spec = az_List_spec [OF 12(1) q(2) this]
  then have x: "key_ok (Name x)" "\<forall>b. az_objs h w (path_Join q (Name x)) = Some b \<longrightarrow> Size x = int (length b)"
    using 12(4) by blast+
  have "path_Join p (Name x) = path_Join q (Name x)"
    using path_Join_cong [OF 12(2) _ _ x(1), of q] q(2,3) by (auto simp: prefix_ok_def key_okD)
  with x(2) 12(5) show ?case by simp
next
  case (13 h w k info w' h')
  then obtain g where "az_GetProperties az (\<lambda>_. None) (blobName h k) w = (g, w')"
    using az_Stat_call [of h k w info w'] by auto
  with 13(1) props_frame show ?case by (intro az_same) (auto simp: az_wf_def)
next
  case (14 h w k b si w')
  have w: "sane w" using 14(1) by (simp add: az_wf_def)
  from 14 az_Stat_call [of h k w "Inr si" w'] obtain g where
    g: "az_GetProperties az (\<lambda>_. None) (blobName h k) w = (g, w')" "\<forall>e. g = Inl e \<longrightarrow> HasCode e [BlobNotFound]"
    "\<forall>p n. g = Inr p \<longrightarrow> bp_ContentLength p = Some n \<longrightarrow> Exist si \<and> Size si = n"
    by auto
  show ?case
  proof (cases g)
    case (Inl e)
    with g props_missing [OF w, of "\<lambda>_. None" _ e w'] 14(2,3) show ?thesis by (auto simp: az_objs_key)
  next
    case (Inr p)
    with g props_ok [OF w, of "\<lambda>_. None" _ p w'] 14(2,3) show ?thesis by (fastforce simp: az_objs_key)
  qed
next
  case (15 h w k ctx off len res w' h')
  then have "az_GetObjectRange az h ctx k off len w = (res, w')" by simp
  from az_Range_call [OF this] 15(1) have "bkt w' = bkt w \<and> sane w'" using download_frame by (auto simp: az_wf_def)
  then show ?case by (rule az_same [OF 15(1)])
next
  case (16 h w k len b ctx off r w')
  then have "az_GetObjectRange az h ctx k off len w = (Inr r, w')" by simp
  from az_Range_spec [OF 16(1,2,4) this] show ?case .
qed

lemma az_guarded_contract:
  "sized_contract (guard_ops (az_base fuel az)) (\<lambda>g. az_objs (inner g)) (\<lambda>g w. az_wf (inner g) w \<and> guarded g)"
  by (rule guarded_clean_list [OF az_clean_contract])

lemma az_bare_contract:
  "sized_contract (az_base fuel az) az_objs (\<lambda>s w. az_wf s w \<and> path_Clean (az_prefix s) \<noteq> ''.'')"
proof (rule bare_clean_list [OF az_clean_contract])
  fix s :: az_storage and ctx :: "'w ctx" and p q :: string
  assume "path_Clean (az_prefix s) \<noteq> ''.''" "stays_inside p" "prefix_ok q" "path_segs q = path_segs p"
  then have "path_Join (az_prefix s) p = path_Join (az_prefix s) q" by (rule Join_wide)
  then show "List_op (az_base fuel az) s ctx p = List_op (az_base fuel az) s ctx q"
    by (simp add: fueled_def az_List_def Let_def fun_eq_iff)
qed

section \<open>Copying\<close>

text \<open>A context that, once it has ended a wait, stays ended while the copy is aborted.\<close>

definition steady :: "'w ctx \<Rightarrow> bool" where
  "steady ctx \<longleftrightarrow> (\<forall>dt w w'. az_After az ctx dt w = (False, w') \<longrightarrow> ctx w' \<noteq> None) \<and>
     (\<forall>c d u w r w'. ctx w \<noteq> None \<longrightarrow> az_AbortCopyFromURL az c d u w = (r, w') \<longrightarrow> ctx w' \<noteq> None)"

text \<open>A copy to \<open>d\<close> is still pending although its abort was asked for: the abort failed.\<close>

definition unaborted :: "string \<Rightarrow> 'w \<Rightarrow> bool" where
  "unaborted d w' \<longleftrightarrow> (\<exists>u b v e. copying w' d u b \<and> az_AbortCopyFromURL az (\<lambda>_. None) d u v = (Inl e, w'))"

definition copied :: "'w \<Rightarrow> string \<Rightarrow> bytes \<Rightarrow> error + blob_props \<Rightarrow> 'w \<Rightarrow> bool" where
  "copied w d b r w' \<longleftrightarrow> only_at d (bkt w) (bkt w') \<and>
     (case r of
        Inr p \<Rightarrow> sane w' \<and> bkt w' d = Some b \<and> bp_ContentLength p = Some (int (length b))
      | Inl e \<Rightarrow> sane w' \<or> unaborted d w')"

lemma copied_trans: "only_at d (bkt w) (bkt v) \<Longrightarrow> copied v d b r w' \<Longrightarrow> copied w d b r w'"
  using only_at_trans by (auto simp: copied_def)

lemma abort_copied:
  assumes "copying w d u b"
  shows "\<exists>a w'. abortCopy az ctx d u w = (a, w') \<and> copied w d b (Inl e) w' \<and> (steady ctx \<longrightarrow> ctx w \<noteq> None \<longrightarrow> a \<noteq> None)"
proof -
  obtain r w' where A: "az_AbortCopyFromURL az (\<lambda>_. None) d u w = (r, w')" by fastforce
  then have "abortCopy az ctx d u w = (ctx w', w')" by (simp add: abortCopy_def)
  moreover have "copied w d b (Inl e) w'"
  proof (cases r)
    case (Inl x)
    with A have e: "az_AbortCopyFromURL az (\<lambda>_. None) d u w = (Inl x, w')" by simp
    from abort_err [OF assms e] have "only_at d (bkt w) (bkt w')" "sane w' \<or> unaborted d w'"
      unfolding unaborted_def using e by blast+
    then show ?thesis by (simp add: copied_def)
  next
    case (Inr v)
    with abort_ok [OF assms] A show ?thesis by (simp add: copied_def)
  qed
  ultimately show ?thesis using A by (auto simp: steady_def)
qed

lemma await_copied:
  assumes "steady ctx" "copying w d u b" "left w < fuel"
  shows "\<exists>r w'. await_loop fuel az ctx d u i m w = Some (r, w') \<and> copied w d b r w'"
  using assms(2,3)
proof (induction fuel arbitrary: w i)
  case (Suc fuel)
  have ended: "\<exists>r w'. props_or no_props (abortCopy az ctx d u v) = (r, w') \<and> copied v d b r w'"
    if "copying v d u b" "ctx v \<noteq> None" for v
  proof -
    note v = that
    obtain a v' where B: "abortCopy az ctx d u v = (a, v')" "copied v d b (Inl EOF) v'" "a \<noteq> None"
      using abort_copied [OF v(1), of ctx EOF] assms(1) v(2) by blast
    then obtain e where "props_or no_props (abortCopy az ctx d u v) = (Inl e, v')" by (auto simp: props_or_def)
    moreover have "copied v d b (Inl e) v'" using B(2) by (simp add: copied_def)
    ultimately show ?thesis by blast
  qed
  obtain won w1 where A: "az_After az ctx i w = (won, w1)" by fastforce
  note w1 = wait_copying [OF Suc.prems(1) A]
  show ?case
  proof (cases won)
    case False
    then have "ctx w1 \<noteq> None" using assms(1) A by (auto simp: steady_def)
    with ended [of w1] w1 obtain r w' where "props_or no_props (abortCopy az ctx d u w1) = (r, w')" "copied w1 d b r w'" by blast
    with A False w1 copied_trans show ?thesis by auto
  next
    case True
    obtain p w2 where P: "az_GetProperties az ctx d w1 = (p, w2)" by fastforce
    show ?thesis
    proof (cases p)
      case (Inl e)
      note w2 = poll_err [OF conjunct1 [OF w1] P [unfolded Inl]]
      have fr: "only_at d (bkt w) (bkt w2)" using w1 w2 only_at_trans by blast
      show ?thesis
      proof (cases "ctx w2")
        case None
        obtain a w3 where B: "abortCopy az ctx d u w2 = (a, w3)" "copied w2 d b (Inl e) w3"
          using abort_copied [OF conjunct1 [OF w2], of ctx e] by blast
        obtain e' where "errors_Join [Some (Errorf ''error checking copy status'' [e]), a] = Some e'"
          using errors_Join_Some by blast
        then have "await_loop (Suc fuel) az ctx d u i m w = Some (Inl e', w3)"
          using A True P Inl None B by (simp add: props_or_def Let_def)
        moreover have "copied w d b (Inl e') w3" using copied_trans [OF fr B(2)] by (simp add: copied_def)
        ultimately show ?thesis by blast
      next
        case (Some err)
        then have "ctx w2 \<noteq> None" by simp
        with ended [of w2] w2 obtain r w' where "props_or no_props (abortCopy az ctx d u w2) = (r, w')" "copied w2 d b r w'" by blast
        with A True P Inl Some fr copied_trans show ?thesis by (auto simp: Let_def)
      qed
    next
      case (Inr props)
      show ?thesis
      proof (cases "bp_CopyID props = Some u \<and> bp_CopyStatus props = Some ''pending''")
        case True
        note w2 = poll_pending [OF conjunct1 [OF w1] P [unfolded Inr] conjunct1 [OF True] conjunct2 [OF True]]
        have "left w2 < fuel" using w1 w2 Suc.prems(2) by linarith
        from Suc.IH [OF conjunct1 [OF w2] this, of "min (mul64 i 2) m"] obtain r w' where
          "await_loop fuel az ctx d u (min (mul64 i 2) m) m w2 = Some (r, w')" "copied w2 d b r w'" by blast
        moreover have "only_at d (bkt w) (bkt w2)" using w1 w2 only_at_trans by blast
        ultimately show ?thesis using A \<open>won\<close> P Inr True copied_trans by (auto simp: Let_def)
      next
        case False
        note w2 = poll_done [OF conjunct1 [OF w1] P [unfolded Inr] False]
        have fr: "only_at d (bkt w) (bkt w2)" using w1 w2 only_at_trans by blast
        show ?thesis using A \<open>won\<close> P Inr False w2 fr
          by (cases "bp_CopyStatus props") (auto simp: copied_def Let_def)
      qed
    qed
  qed
qed simp

text \<open>
  What \<open>Copy\<close> does, on every path. A copy that fails may leave a pending copy to its destination, only
  when the abort failed or the start's own answer was lost (\<open>adrift\<close>).
\<close>

definition adrift :: "'w ctx \<Rightarrow> az_storage \<Rightarrow> string \<Rightarrow> string \<Rightarrow> 'w \<Rightarrow> bool" where
  "adrift ctx s k d w' \<longleftrightarrow> unaborted (blobName s d) w' \<or>
     (\<exists>u b v e. copying w' (blobName s d) u b \<and>
        az_StartCopyFromURL az ctx (blobName s d) (az_URL az (blobName s k)) v = (Inl e, w'))"

definition copy_outcome :: "'w ctx \<Rightarrow> az_storage \<Rightarrow> 'w \<Rightarrow> string \<Rightarrow> string \<Rightarrow> error + CopyStat \<Rightarrow> 'w \<Rightarrow> bool" where
  "copy_outcome ctx s w k d r w' \<longleftrightarrow>
     (case r of
        Inr c \<Rightarrow> az_wf s w' \<and> (\<exists>b. az_objs s w k = Some b \<and> az_objs s w' = (az_objs s w)(d \<mapsto> b) \<and>
          (k \<noteq> d \<longrightarrow> Bytes c = int (length b)))
      | Inl e \<Rightarrow> (az_objs s w)(d := None) \<subseteq>\<^sub>m az_objs s w' \<and> (az_wf s w' \<or> adrift ctx s k d w'))"

lemma copy_outcome_err:
  assumes "az_wf s w" "key_ok d" "only_at (blobName s d) (bkt w) (bkt w')" "sane w' \<or> adrift ctx s k d w'"
  shows "copy_outcome ctx s w k d (Inl e) w'"
proof -
  have "(az_objs s w)(d := None) \<subseteq>\<^sub>m az_objs s w'"
    using assms(2,3) only_at_objs [of d "az_root s" "bkt w" "bkt w'"] by (simp add: az_objs_def blobName_root)
  moreover have "az_wf s w'" if "sane w'" using az_touched [OF assms(1,2)] assms(3) that by simp
  ultimately show ?thesis using assms(4) by (auto simp: copy_outcome_def)
qed

lemma copy_outcome_ok:
  assumes "az_wf s w" "key_ok k" "key_ok d" "bkt w (blobName s k) = Some b"
    and "bkt w' = (bkt w)(blobName s d \<mapsto> b) \<and> sane w'" "k \<noteq> d \<longrightarrow> Bytes c = int (length b)"
  shows "copy_outcome ctx s w k d (Inr c) w'"
  using az_written [OF assms(1,3,5)] assms(2,4,6) by (auto simp: copy_outcome_def az_objs_key)

text \<open>What came before may have touched the destination.\<close>

lemma copy_outcome_later:
  assumes "copy_outcome ctx s v k d r w'" "k \<noteq> d" "key_ok d" "only_at (blobName s d) (bkt w) (bkt v)"
  shows "copy_outcome ctx s w k d r w'"
proof -
  have same: "az_objs s v q = az_objs s w q" if "q \<noteq> d" for q
    using that assms(3,4) by (auto simp: az_objs_def bucket_objs_def blobName_root only_at_def)
  have upd: "(az_objs s v)(d := x) = (az_objs s w)(d := x)" for x using same by auto
  show ?thesis
    using assms(1) same [OF assms(2)] by (auto simp: copy_outcome_def upd split: sum.splits)
qed

lemma StreamCopy_clean: "StreamCopy (clean_list st) = StreamCopy st"
  by (intro ext) (simp add: StreamCopy_def)

lemma copyRefused_outcome:
  assumes "az_wf s w" "key_ok k" "key_ok d" "k \<noteq> d"
    and C: "copyRefused fuel az s ctx (blobName s k) k d refusal opts w = (r, w')"
  shows "copy_outcome ctx s w k d r w'"
proof -
  have s: "sane w" using assms(1) by (simp add: az_wf_def)
  obtain p w1 where P: "az_GetProperties az ctx (blobName s k) w = (p, w1)" by fastforce
  note w1 = props_frame [OF s P]
  note same = az_same [OF assms(1) w1]
  show ?thesis
  proof (cases "\<exists>v. p = Inr v \<and> ClientSideFallback opts")
    case False
    with C P have "w' = w1" "\<exists>e. r = Inl e"
      by (auto simp: copyRefused_def tryIO_apply split: sum.splits if_splits)
    with copy_outcome_err [OF assms(1,3), of w1] w1 show ?thesis by (auto simp: only_at_def)
  next
    case True
    then obtain v where v: "p = Inr v" by blast
    with True C P have S: "StreamCopy (clean_list (az_base fuel az)) s ctx k d w1 = (r, w')"
      by (auto simp: copyRefused_def tryIO_apply StreamCopy_clean)
    from props_ok [OF s P [unfolded v]] obtain b where b: "az_objs s w k = Some b"
      using assms(2) by (auto simp: az_objs_key)
    with same have b1: "az_objs s w1 k = Some b" by simp
    note sc = storager_contract.StreamCopy_ok [OF sized_contract.axioms(1) [OF az_clean_contract]
        conjunct2 [OF same] assms(2,3) b1 S]
    have "wrap64 (int (length b)) = int (length b)"
      using object_size [OF s, of "blobName s k" b] b assms(2) by (intro wrap64_id) (simp add: az_objs_key in64_iff)
    with sc b same assms(4) show ?thesis
      by (cases r) (auto simp: copy_outcome_def map_le_def split: if_splits)
  qed
qed

lemma az_Copy_outcome:
  assumes "az_wf s w" "key_ok k" "key_ok d" "steady ctx" "limit \<le> fuel"
    and C: "az_Copy fuel az s ctx k d opts w = (r, w')"
  shows "copy_outcome ctx s w k d r w'"
proof -
  have s: "sane w" using assms(1) by (simp add: az_wf_def)
  let ?src = "blobName s k" and ?dst = "blobName s d"
  have eq: "?src = ?dst \<longleftrightarrow> k = d" using assms(2,3) by (simp add: blobName_root)
  show ?thesis
  proof (cases "k = d")
    case True
    obtain p w1 where P: "az_GetProperties az ctx ?src w = (p, w1)" by fastforce
    note w1 = props_frame [OF s P]
    show ?thesis
    proof (cases p)
      case (Inl e)
      with C P True have "w' = w1" "\<exists>e. r = Inl e" by (auto simp: az_Copy_def Let_def tryIO_apply split: if_splits)
      with w1 copy_outcome_err [OF assms(1,3), of w1] show ?thesis by (auto simp: only_at_def)
    next
      case (Inr v)
      with C P True have r: "r = Inr zeroCopyStat" "w' = w1" by (auto simp: az_Copy_def Let_def tryIO_apply)
      from props_ok [OF s P [unfolded Inr]] obtain b where "bkt w ?src = Some b" by blast
      with copy_outcome_ok [OF assms(1-3) this, of w1] True w1 r show ?thesis by (simp add: fun_upd_idem)
    qed
  next
    case False
    obtain st w1 where S: "az_StartCopyFromURL az ctx ?dst (az_URL az ?src) w = (st, w1)" by fastforce
    show ?thesis
    proof (cases st)
      case (Inl e)
      note any = start_err [OF s S [unfolded Inl]]
      show ?thesis
      proof (cases "\<not> HasCode e [BlobNotFound] \<and>
          HasCode e [''CannotVerifyCopySource'', ''AuthorizationFailure'', ''AuthorizationPermissionMismatch'']")
        case True
        with C S Inl False eq have R: "copyRefused fuel az s ctx ?src k d e (NewCopyOptions opts) w1 = (r, w')"
          by (simp add: az_Copy_def Let_def tryIO_apply)
        note w1 = start_refused [OF s S [unfolded Inl] conjunct2 [OF True]]
        have "az_wf s w1" using az_touched [OF assms(1,3) w1] by simp
        from copy_outcome_later [OF copyRefused_outcome [OF this assms(2,3) False R] False assms(3) conjunct1 [OF w1]]
        show ?thesis .
      next
        case no: False
        with C S Inl False eq have "w' = w1" "\<exists>e. r = Inl e"
          by (auto simp: az_Copy_def Let_def tryIO_apply split: if_splits)
        moreover have "sane w1 \<or> adrift ctx s k d w1" using any S Inl by (auto simp: adrift_def)
        ultimately show ?thesis using copy_outcome_err [OF assms(1,3), of w1] any by auto
      qed
    next
      case (Inr si)
      obtain stat i where si: "si = (stat, i)" by fastforce
      show ?thesis
      proof (cases "stat = Some ''success''")
        case True
        from start_done [OF s S [unfolded Inr si True]] obtain b where
          b: "bkt w ?src = Some b" "bkt w1 = (bkt w)(?dst \<mapsto> b)" "sane w1" by blast
        obtain p w2 where P: "az_GetProperties az ctx ?dst w1 = (p, w2)" by fastforce
        note w2 = props_frame [OF b(3) P]
        show ?thesis
        proof (cases p)
          case (Inl e)
          with C S Inr si True P False eq have "w' = w2" "\<exists>e. r = Inl e" by (auto simp: az_Copy_def Let_def tryIO_apply)
          with copy_outcome_err [OF assms(1,3), of w2] b w2 show ?thesis by (auto simp: only_at_def)
        next
          case (Inr v)
          with C S \<open>st = Inr si\<close> si True P False eq have r: "r = Inr (copied_stat v)" "w' = w2"
            by (auto simp: az_Copy_def Let_def tryIO_apply)
          from props_ok [OF b(3) P [unfolded Inr]] b(2) have "bp_ContentLength v = Some (int (length b))" by simp
          with copy_outcome_ok [OF assms(1-3) b(1), of w2] b w2 r show ?thesis by (simp add: copied_stat_def)
        qed
      next
        case pend: False
        from start_pending [OF s S [unfolded Inr si] pend] obtain b u where
          b: "i = Some u" "bkt w ?src = Some b" "copying w1 ?dst u b" "only_at ?dst (bkt w) (bkt w1)" "left w1 < limit"
          by blast
        have "left w1 < fuel" using b(5) assms(5) by simp
        from await_copied [OF assms(4) b(3) this] obtain q w2 where
          A: "awaitCopy fuel az s ctx ?dst u (NewCopyOptions opts) w1 = Some (q, w2)" and q: "copied w1 ?dst b q w2"
          unfolding awaitCopy_def by blast
        have fr: "copied w ?dst b q w2" using copied_trans [OF b(4) q] .
        show ?thesis
        proof (cases q)
          case (Inl e)
          with C S Inr si pend b(1) A False eq have "w' = w2" "r = Inl e"
            by (auto simp: az_Copy_def Let_def tryIO_apply bindIO_apply fueled_def)
          with copy_outcome_err [OF assms(1,3), of w2] fr Inl show ?thesis by (auto simp: copied_def adrift_def)
        next
          case (Inr v)
          with C S \<open>st = Inr si\<close> si pend b(1) A False eq have r: "r = Inr (copied_stat v)" "w' = w2"
            by (auto simp: az_Copy_def Let_def tryIO_apply bindIO_apply fueled_def)
          from fr Inr have "bkt w2 ?dst = Some b" "only_at ?dst (bkt w) (bkt w2)" "sane w2"
            "bp_ContentLength v = Some (int (length b))" by (auto simp: copied_def)
          with copy_outcome_ok [OF assms(1-3) b(2), of w2] only_at_upd r show ?thesis by (simp add: copied_stat_def)
        qed
      qed
    qed
  qed
qed

end

end
