(* ===== verification/Azure_Mem.thy ===== *)
theory Azure_Mem
  imports Azure_Laws
begin

text \<open>
  A concrete Azure container: blobs as an association list, listings in pages of two, a clock, and
  server-side copies that stay pending for a set number of status checks before their destination
  holds the content. It is what the laws of the Azure theories are interpreted on.
\<close>

section \<open>The world\<close>

record pending_copy =
  pc_dst :: string
  pc_id :: string
  pc_content :: bytes
  pc_left :: nat

record az_world =
  aw_blobs :: "(string \<times> bytes) list"
  aw_pending :: "pending_copy option"
  aw_slow :: nat
  aw_now :: int

definition aw_bkt :: "az_world \<Rightarrow> string \<rightharpoonup> bytes" where
  "aw_bkt w = map_of (aw_blobs w)"

definition aw_put :: "string \<Rightarrow> bytes \<Rightarrow> az_world \<Rightarrow> az_world" where
  "aw_put k b w = w\<lparr>aw_blobs := (k, b) # filter (\<lambda>e. fst e \<noteq> k) (aw_blobs w)\<rparr>"

definition blob_not_found :: error where "blob_not_found = APIError ''BlobNotFound'' 404"

text \<open>A context that ends at a time of the clock.\<close>

definition until_time :: "int \<Rightarrow> az_world ctx" where
  "until_time t w = (if t \<le> aw_now w then Some DeadlineExceeded else None)"

section \<open>The calls\<close>

definition aw_download :: "string \<Rightarrow> (int64 \<times> int64) option \<Rightarrow> (az_world, reader \<times> int64 option) io" where
  "aw_download k rng w =
     (case aw_bkt w k of
        None \<Rightarrow> (Inl blob_not_found, w)
      | Some b \<Rightarrow>
          (case rng of
             None \<Rightarrow> (Inr (bytes_reader b, Some (int (length b))), w)
           | Some (off, n) \<Rightarrow>
               if int (length b) < off then (Inl (APIError ''InvalidRange'' 416), w)
               else let x = (if n = 0 then drop (nat off) b else take (nat n) (drop (nat off) b)) in
                 (Inr (bytes_reader x, Some (int (length x))), w)))"

definition max_blob :: int where "max_blob = 2 ^ 61"

definition aw_upload :: "string \<Rightarrow> reader \<Rightarrow> (az_world, nat) io" where
  "aw_upload k body w =
     (case rd_end body of
        Some e \<Rightarrow> (Inl e, w)
      | None \<Rightarrow>
          if int (length (rd_bytes body)) \<le> max_blob then (Inr (length (rd_bytes body)), aw_put k (rd_bytes body) w)
          else (Inl (APIError ''RequestBodyTooLarge'' 413), w))"

definition aw_delete :: "string \<Rightarrow> (az_world, unit) io" where
  "aw_delete k w =
     (case aw_bkt w k of
        None \<Rightarrow> (Inl blob_not_found, w)
      | Some b \<Rightarrow> (Inr (), w\<lparr>aw_blobs := filter (\<lambda>e. fst e \<noteq> k) (aw_blobs w)\<rparr>))"

definition aw_props :: "nat \<Rightarrow> string option \<Rightarrow> string option \<Rightarrow> blob_props" where
  "aw_props n copyID status = \<lparr>bp_LastModified = Some 0, bp_ContentLength = Some (int n), bp_ETag = Some ''t'',
     bp_CopyID = copyID, bp_CopyStatus = status, bp_CopyStatusDescription = None\<rparr>"

definition aw_properties :: "string \<Rightarrow> (az_world, blob_props) io" where
  "aw_properties k w =
     (case aw_pending w of
        Some p \<Rightarrow>
          if pc_dst p = k then
            (if pc_left p = 0 then
               (Inr (aw_props (length (pc_content p)) (Some (pc_id p)) (Some ''success'')),
                aw_put k (pc_content p) (w\<lparr>aw_pending := None\<rparr>))
             else (Inr (aw_props 0 (Some (pc_id p)) (Some ''pending'')), w\<lparr>aw_pending := Some (p\<lparr>pc_left := pc_left p - 1\<rparr>)\<rparr>))
          else (case aw_bkt w k of None \<Rightarrow> (Inl blob_not_found, w) | Some b \<Rightarrow> (Inr (aw_props (length b) None None), w))
      | None \<Rightarrow> (case aw_bkt w k of None \<Rightarrow> (Inl blob_not_found, w) | Some b \<Rightarrow> (Inr (aw_props (length b) None None), w)))"

definition aw_start :: "string \<Rightarrow> string \<Rightarrow> (az_world, string option \<times> string option) io" where
  "aw_start dst url w =
     (case aw_bkt w (TrimPrefix url ''https://a/'') of
        None \<Rightarrow> (Inl blob_not_found, w)
      | Some b \<Rightarrow>
          if aw_slow w = 0 then (Inr (Some ''success'', Some ''c''), aw_put dst b w)
          else (Inr (Some ''pending'', Some ''c''),
            w\<lparr>aw_pending := Some \<lparr>pc_dst = dst, pc_id = ''c'', pc_content = b, pc_left = aw_slow w\<rparr>\<rparr>))"

definition aw_abort :: "string \<Rightarrow> string \<Rightarrow> (az_world, unit) io" where
  "aw_abort dst copyID w =
     (case aw_pending w of
        Some p \<Rightarrow> if pc_dst p = dst \<and> pc_id p = copyID then (Inr (), aw_put dst [] (w\<lparr>aw_pending := None\<rparr>))
          else (Inl (APIError ''NoPendingCopyOperation'' 409), w)
      | None \<Rightarrow> (Inl (APIError ''NoPendingCopyOperation'' 409), w))"

definition aw_keys :: "string \<Rightarrow> string option \<Rightarrow> az_world \<Rightarrow> string list" where
  "aw_keys prefix after w =
     sort (remdups (filter (\<lambda>k. HasPrefix k prefix \<and> (case after of None \<Rightarrow> True | Some m \<Rightarrow> m < k)) (map fst (aw_blobs w))))"

definition aw_flat :: "string \<Rightarrow> string option \<Rightarrow> (az_world, blob_item list \<times> string option) io" where
  "aw_flat prefix after w =
     (let ks = aw_keys prefix after w; now = take 2 ks in
      (Inr (map (\<lambda>k. \<lparr>bi_Name = k, bi_Properties = Some \<lparr>ip_LastModified = Some 0,
             ip_ContentLength = Some (int (length (the (aw_bkt w k)))), ip_ETag = None\<rparr>\<rparr>) now,
           if length ks > 2 then Some (last now) else None), w))"

text \<open>The hierarchy is given in one page.\<close>

definition aw_hierarchy :: "string \<Rightarrow> (az_world, (string list \<times> string list) \<times> string option) io" where
  "aw_hierarchy prefix w =
     (let ks = aw_keys prefix None w; rest = (\<lambda>k. drop (length prefix) k) in
      (Inr ((filter (\<lambda>k. CHR ''/'' \<notin> set (rest k)) ks,
         remdups (map (\<lambda>k. prefix @ takeWhile (\<lambda>c. c \<noteq> CHR ''/'') (rest k) @ ''/'')
           (filter (\<lambda>k. CHR ''/'' \<in> set (rest k)) ks))), None), w))"

definition mem_az :: "az_world azapi" where
  "mem_az =
     \<lparr>az_DownloadStream = (\<lambda>ctx. aw_download), az_UploadStream = (\<lambda>ctx k body bs n. aw_upload k body),
      az_DeleteBlob = (\<lambda>ctx. aw_delete), az_GetProperties = (\<lambda>ctx. aw_properties), az_URL = (\<lambda>k. ''https://a/'' @ k),
      az_StartCopyFromURL = (\<lambda>ctx. aw_start), az_AbortCopyFromURL = (\<lambda>ctx. aw_abort),
      az_HierarchyPage = (\<lambda>ctx d prefix m. aw_hierarchy prefix), az_FlatPage = (\<lambda>ctx. aw_flat),
      az_ContainerProperties = (\<lambda>ctx. ret ()),
      az_After = (\<lambda>ctx i w. if ctx w \<noteq> None then (False, w) else (True, w\<lparr>aw_now := aw_now w + i\<rparr>))\<rparr>"

section \<open>The clock\<close>

lemma aw_now_put [simp]: "aw_now (aw_put k b w) = aw_now w"
  by (simp add: aw_put_def)

lemma mem_az_polling [simp]:
  "az_After mem_az ctx i w = (if ctx w \<noteq> None then (False, w) else (True, w\<lparr>aw_now := aw_now w + i\<rparr>))"
  "az_GetProperties mem_az ctx k = aw_properties k"
  "az_AbortCopyFromURL mem_az ctx k u = aw_abort k u"
  by (simp_all add: mem_az_def)

interpretation mem_clock: az_clock mem_az "until_time t" aw_now t
proof (unfold_locales, goal_cases)
  case (1 i w w') then show ?case by (simp split: if_splits)
next case (2 i w w') then show ?case by (auto split: if_splits)
next case (3 b w r w')
  then show ?case
    by (auto simp: aw_properties_def split: option.splits if_splits)
next case (4 w) then show ?case by (simp add: until_time_def)
next case (5 w c dst u r w')
  then have "aw_now w' = aw_now w" by (auto simp: aw_abort_def split: option.splits if_splits)
  with 5 show ?case by (simp add: until_time_def split: if_splits)
qed

section \<open>The laws\<close>

definition aw_sized :: "az_world \<Rightarrow> bool" where
  "aw_sized w \<longleftrightarrow> (\<forall>k b. aw_bkt w k = Some b \<longrightarrow> int (length b) \<le> max_blob)"

definition aw_sane :: "nat \<Rightarrow> az_world \<Rightarrow> bool" where
  "aw_sane n w \<longleftrightarrow> aw_sized w \<and> aw_slow w < n \<and> aw_pending w = None"

definition aw_copying :: "nat \<Rightarrow> az_world \<Rightarrow> string \<Rightarrow> string \<Rightarrow> bytes \<Rightarrow> bool" where
  "aw_copying n w d u b \<longleftrightarrow> aw_sized w \<and> aw_slow w < n \<and> int (length b) \<le> max_blob \<and>
     (\<exists>m. aw_pending w = Some \<lparr>pc_dst = d, pc_id = u, pc_content = b, pc_left = m\<rparr>)"

definition aw_left :: "az_world \<Rightarrow> nat" where
  "aw_left w = (case aw_pending w of None \<Rightarrow> 0 | Some p \<Rightarrow> pc_left p)"

lemma aw_bkt_put [simp]: "aw_bkt (aw_put k b w) = (aw_bkt w)(k \<mapsto> b)"
proof -
  have "map_of (filter (\<lambda>e. fst e \<noteq> k) xs) q = (if q = k then None else map_of xs q)" for q and xs :: "(string \<times> bytes) list"
    by (induction xs) auto
  then show ?thesis by (auto simp: aw_bkt_def aw_put_def)
qed

lemma aw_bkt_sel [simp]:
  "aw_bkt (w\<lparr>aw_pending := p\<rparr>) = aw_bkt w" "aw_bkt (w\<lparr>aw_now := t\<rparr>) = aw_bkt w"
  "aw_slow (aw_put k b w) = aw_slow w" "aw_pending (aw_put k b w) = aw_pending w"
  by (simp_all add: aw_bkt_def aw_put_def)

lemma aw_sized_sel [simp]:
  "aw_sized (w\<lparr>aw_pending := p\<rparr>) = aw_sized w" "aw_sized (w\<lparr>aw_now := t\<rparr>) = aw_sized w"
  by (simp_all add: aw_sized_def)

lemma aw_sized_put: "aw_sized w \<Longrightarrow> int (length b) \<le> max_blob \<Longrightarrow> aw_sized (aw_put k b w)"
  by (auto simp: aw_sized_def)

lemma mem_az_sel [simp]:
  "az_DownloadStream mem_az ctx = aw_download" "az_UploadStream mem_az ctx k body bs n = aw_upload k body"
  "az_StartCopyFromURL mem_az ctx = aw_start" "az_FlatPage mem_az ctx = aw_flat" "az_URL mem_az k = ''https://a/'' @ k"
  by (simp_all add: mem_az_def)

lemma aw_flat_ok:
  assumes "aw_flat pre m w = (Inr (items, nxt), w')"
  shows "chunk (aw_bkt w) pre m (map bi_Name items) nxt \<and> forward m nxt \<and> (nxt \<noteq> None \<longrightarrow> items \<noteq> []) \<and>
    (\<forall>x \<in> set items. \<forall>b. aw_bkt w (bi_Name x) = Some b \<longrightarrow>
       (\<exists>ip. bi_Properties x = Some ip \<and> ip_ContentLength ip = Some (int (length b))))"
proof -
  let ?ks = "aw_keys pre m w"
  have sorted: "sorted_wrt (<) ?ks" unfolding aw_keys_def strict_sorted_iff by simp
  have set: "set ?ks = {k. aw_bkt w k \<noteq> None \<and> HasPrefix k pre \<and> after_key m k}"
    unfolding aw_keys_def by (auto simp: after_key_def aw_bkt_def map_of_eq_None_iff split: option.splits)
  have r: "map bi_Name items = take 2 ?ks" "nxt = (if length ?ks > 2 then Some (last (take 2 ?ks)) else None)"
    using assms by (auto simp: aw_flat_def Let_def o_def)
  have "items \<noteq> []" if "nxt \<noteq> None"
  proof -
    have "take 2 ?ks \<noteq> []" using that r(2) by (auto split: if_splits)
    then show ?thesis using r(1) by auto
  qed
  moreover have "\<forall>x \<in> set items. \<forall>b. aw_bkt w (bi_Name x) = Some b \<longrightarrow>
       (\<exists>ip. bi_Properties x = Some ip \<and> ip_ContentLength ip = Some (int (length b)))"
    using assms by (auto simp: aw_flat_def Let_def)
  ultimately show ?thesis unfolding r using take_chunk [OF sorted set, of 2] by simp
qed

interpretation mem_container: az_service mem_az aw_bkt "aw_sane n" "aw_copying n" aw_left n "\<lambda>m. m"
proof (unfold_locales, goal_cases)
  case (1 w k b) then show ?case by (simp add: aw_sane_def aw_sized_def max_blob_def)
next case (2 w) then show ?case by (simp add: aw_bkt_def finite_dom_map_of)
next case (3 w ctx k rng dr w')
  then show ?case by (auto simp: aw_download_def Let_def split: option.splits if_splits)
next case (4 w ctx k rng rd len w')
  then show ?case by (auto simp: aw_download_def Let_def split: option.splits if_splits)
next case (5 w ctx k body bs n' cnt w')
  then show ?case using aw_sized_put by (auto simp: aw_upload_def aw_sane_def split: option.splits if_splits)
next case (6 w ctx k body bs n' e w')
  then show ?case by (auto simp: aw_upload_def split: option.splits if_splits)
next case (7 w ctx k pr w')
  then show ?case by (auto simp: aw_properties_def aw_sane_def split: option.splits)
next case (8 w ctx k p w')
  then show ?case by (auto simp: aw_properties_def aw_sane_def aw_props_def split: option.splits)
next case (9 w ctx k e w')
  then show ?case by (auto simp: aw_properties_def aw_sane_def split: option.splits)
next case (10 w ctx pre m fr w')
  then show ?case by (auto simp: aw_flat_def Let_def)
next case (11 w ctx pre m items nxt w')
  then show ?case using aw_flat_ok [of pre m w items nxt w'] by (simp add: option.map_ident)
next case (12 w ctx d src i w')
  then show ?case using aw_sized_put [of w] TrimPrefix_append [of "''https://a/''" src, unfolded append.simps]
    by (auto simp: aw_start_def aw_sane_def aw_sized_def split: option.splits if_splits)
next case (13 w ctx d src st i w')
  then show ?case using TrimPrefix_append [of "''https://a/''" src, unfolded append.simps]
    by (auto simp: aw_start_def aw_sane_def aw_copying_def aw_left_def aw_sized_def split: option.splits if_splits)
next case (14 w ctx d src e w')
  then show ?case by (auto simp: aw_start_def split: option.splits if_splits)
next case (15 w ctx d src e w')
  then show ?case by (auto simp: aw_start_def split: option.splits if_splits)
next case (16 w d u b ctx dt won w')
  then show ?case by (auto simp: aw_copying_def aw_left_def split: if_splits)
next case (17 w d u b ctx e w')
  then show ?case by (auto simp: aw_copying_def aw_properties_def split: if_splits)
next case (18 w d u b ctx p w')
  then show ?case by (auto simp: aw_copying_def aw_properties_def aw_left_def aw_props_def split: if_splits)
next case (19 w d u b ctx p w')
  then show ?case using aw_sized_put [of "w\<lparr>aw_pending := None\<rparr>" b d]
    by (auto simp: aw_copying_def aw_properties_def aw_sane_def aw_props_def only_at_def split: if_splits)
next case (20 w d u b ctx v w')
  then show ?case using aw_sized_put [of "w\<lparr>aw_pending := None\<rparr>" "[]" d]
    by (auto simp: aw_copying_def aw_abort_def aw_sane_def only_at_def max_blob_def split: if_splits)
next case (21 w d u b ctx e w')
  then show ?case by (auto simp: aw_copying_def aw_abort_def split: if_splits)
qed

lemma mem_az_steady: "mem_container.steady (until_time t)"
proof -
  have "aw_now w' = aw_now w" if "aw_abort d u w = (r, w')" for d u w r w'
    using that by (auto simp: aw_abort_def split: option.splits if_splits)
  then show ?thesis by (fastforce simp: mem_container.steady_def until_time_def split: if_splits)
qed

end
