(* ===== verification/Azure_Properties.thy ===== *)
theory Azure_Properties
  imports Azure_Mem
begin

text \<open>
  The properties of the Azure backend, for every service with the laws they rely on, evaluated on the
  container of \<open>Azure_Mem\<close>.
\<close>

section \<open>The example storage\<close>

definition example_az :: az_storage where
  "example_az = \<lparr>az_cfg = az_DefaultConfig, az_prefix = ''d/'', az_BlockSize = 8, az_Concurrency = 1, az_unsafe = False\<rparr>"

definition example_container :: az_world where
  "example_container = \<lparr>aw_blobs = [(''d/a/x'', [1, 2]), (''d/a/s/y'', [3]), (''d/a/z'', []), (''e'', [7])],
     aw_pending = Some \<lparr>pc_dst = ''d/b'', pc_id = ''c'', pc_content = [1, 2], pc_left = 2\<rparr>, aw_slow = 3, aw_now = 0\<rparr>"

section \<open>Waiting for a copy\<close>

text \<open>
  C38. Waiting for a pending copy ends when the context has a deadline and no poll interval exceeds
  \<open>2 ^ 62\<close> nanoseconds: the number of polls is at most the time left over the first interval, plus two,
  because the waits never get shorter. If it reports success, the last poll saw this very copy succeed; if
  it reports an error, the last call asked for the abort of the copy, whatever the service answered, or the
  last poll saw that this copy was no longer pending at the destination.
\<close>

theorem awaitCopy_settles:
  assumes "az_clock az ctx now deadline" "snd (az_poll s o') < 2 ^ 62"
    and "nat ((deadline - now w) div fst (az_poll s o')) + 2 \<le> fuel"
  shows "\<exists>r w'. awaitCopy fuel az s ctx dst copyID o' w = Some (r, w') \<and> settled az ctx dst copyID r w'"
proof -
  have "az_clock.polls now deadline (fst (az_poll s o')) w \<le> fuel"
    using assms(3) by (simp add: az_clock.polls_def [OF assms(1)])
  with az_clock.await_loop_settles [OF assms(1), of "fst (az_poll s o')"] az_poll_ok [of s o'] assms(2)
  show ?thesis by (simp add: awaitCopy_def)
qed

theorem awaitCopy_settles_witness:
  "\<exists>r w'. awaitCopy 30 mem_az example_az (until_time 1000000000) ''d/b'' ''c'' zeroCopyOptions example_container = Some (r, w') \<and>
     settled mem_az (until_time 1000000000) ''d/b'' ''c'' r w'"
proof -
  have "az_poll example_az zeroCopyOptions = (50000000, 2000000000)" by code_simp
  then show ?thesis
    using awaitCopy_settles [where now = aw_now and deadline = 1000000000 and w = example_container and fuel = 30
        and s = example_az and o' = zeroCopyOptions, OF mem_clock.az_clock_axioms]
    by (simp add: example_container_def)
qed

section \<open>The storage contract\<close>

text \<open>
  C8. Every method of the Azure storage but \<open>Copy\<close> implements the storage contract, over every
  service with Azure's documented laws: listings read page by page, ranges clamped by the service and
  an empty one refused. Behind the guard it does so for every prefix, and bare for every prefix that is not
  the container's root or the working directory. A listing returns as soon as it may read one page more
  than there are blobs.
\<close>

theorem az_refines_contract:
  assumes "az_service az bkt sane copying left limit pos"
  shows "sized_contract (guard_ops (az_base fuel az)) (\<lambda>g. az_service.az_objs bkt (inner g))
      (\<lambda>g w. az_service.az_wf bkt sane (inner g) w \<and> guarded g) \<and>
    sized_contract (az_base fuel az) (az_service.az_objs bkt)
      (\<lambda>s w. az_service.az_wf bkt sane s w \<and> path_Clean (az_prefix s) \<noteq> ''.'') \<and>
    (az_service.az_wf bkt sane s w \<longrightarrow> card (dom (bkt w)) < fuel \<longrightarrow> az_List fuel az s ctx p w \<noteq> None)"
  using az_service.az_guarded_contract [OF assms] az_service.az_bare_contract [OF assms]
    az_service.az_List_returns [OF assms] by blast

definition example_blobs :: az_world where
  "example_blobs = example_container\<lparr>aw_pending := None\<rparr>"

lemma example_blobs_wf: "mem_container.az_wf 9 example_az example_blobs"
proof -
  have clean: "path_Clean ''d/'' = ''d''" "TrimPrefix ''d/'' ''/'' = ''d/''" by code_simp+
  have "key_ok ''a/x''" "key_ok ''a/s/y''" "key_ok ''a/z''" by (simp_all add: key_ok_def path_simps)
  then have "tidy ''d/'' (aw_bkt example_blobs)"
    by (auto simp: tidy_def aw_bkt_def example_blobs_def example_container_def split: if_splits)
  moreover have "aw_sane 9 example_blobs"
    by (auto simp: aw_sane_def aw_sized_def aw_bkt_def example_blobs_def example_container_def max_blob_def split: if_splits)
  ultimately show ?thesis
    using clean by (simp add: mem_container.az_wf_def mem_container.az_root_def example_az_def rooted_prefix_def root_of_def)
qed

lemma example_blobs_objs:
  "mem_container.az_objs example_az example_blobs ''a/x'' = Some [1, 2]"
proof -
  have "key_ok ''a/x''" "blobName example_az ''a/x'' = ''d/a/x''" by (simp add: key_ok_def path_simps, code_simp)
  then show ?thesis by (simp add: mem_container.az_objs_key aw_bkt_def example_blobs_def example_container_def)
qed

theorem az_refines_contract_witness:
  "\<exists>w'. List_op (guard_ops (az_base 9 mem_az)) (Guarded example_az) (\<lambda>_. None) ''./a/s/..'' example_blobs =
      (Inr [\<lparr>Name = ''s/y'', LastModified = 0, Exist = True, Size = 1, ETag = ''''\<rparr>,
            \<lparr>Name = ''x'', LastModified = 0, Exist = True, Size = 2, ETag = ''''\<rparr>,
            \<lparr>Name = ''z'', LastModified = 0, Exist = True, Size = 0, ETag = ''''\<rparr>], w') \<and>
    mem_container.az_objs example_az w' ''a/x'' = Some [1, 2]"
proof -
  let ?run = "List_op (guard_ops (az_base 9 mem_az)) (Guarded example_az) (\<lambda>_. None) ''./a/s/..'' example_blobs"
  have "fst ?run = Inr [\<lparr>Name = ''s/y'', LastModified = 0, Exist = True, Size = 1, ETag = ''''\<rparr>,
            \<lparr>Name = ''x'', LastModified = 0, Exist = True, Size = 2, ETag = ''''\<rparr>,
            \<lparr>Name = ''z'', LastModified = 0, Exist = True, Size = 0, ETag = ''''\<rparr>]" by code_simp
  then obtain w' where run: "?run = (Inr [\<lparr>Name = ''s/y'', LastModified = 0, Exist = True, Size = 1, ETag = ''''\<rparr>,
            \<lparr>Name = ''x'', LastModified = 0, Exist = True, Size = 2, ETag = ''''\<rparr>,
            \<lparr>Name = ''z'', LastModified = 0, Exist = True, Size = 0, ETag = ''''\<rparr>], w')" by (metis prod.collapse)
  have c: "sized_contract (guard_ops (az_base 9 mem_az)) (\<lambda>g. mem_container.az_objs (inner g))
      (\<lambda>g w. mem_container.az_wf 9 (inner g) w \<and> guarded g)"
    using az_refines_contract [OF mem_container.az_service_axioms] by blast
  have "stays_inside ''./a/s/..''" by (simp add: stays_inside_def path_simps)
  with storager_contract.list_frame [OF sized_contract.axioms(1) [OF c] _ this run, of "Guarded example_az"] example_blobs_wf
  have "mem_container.az_objs example_az w' = mem_container.az_objs example_az example_blobs" by simp
  with run example_blobs_objs show ?thesis by simp
qed

section \<open>Copying\<close>

text \<open>
  C12. A copy on Azure that succeeds leaves the source's content at its destination, changes no other
  object, leaves no copy pending and reports its bytes; one that fails changes nothing but its destination.
  This holds whether the service copies at once, keeps the copy pending for up to \<open>limit\<close> status checks,
  or refuses it and the blob is streamed through the client. After a failure a copy to the destination can
  still be pending in two cases only: the best-effort abort failed, or the answer to the start was lost.
\<close>

theorem az_Copy_effect:
  assumes "az_service az bkt sane copying left limit pos" "az_service.steady az ctx" "limit \<le> fuel"
    and "az_service.az_wf bkt sane s w" "key_ok k" "key_ok d" "az_Copy fuel az s ctx k d opts w = (r, w')"
  shows "case r of
      Inr c \<Rightarrow> az_service.az_wf bkt sane s w' \<and> (\<exists>b. az_service.az_objs bkt s w k = Some b \<and>
        az_service.az_objs bkt s w' = (az_service.az_objs bkt s w)(d \<mapsto> b) \<and> (k \<noteq> d \<longrightarrow> Bytes c = int (length b)))
    | Inl e \<Rightarrow> (az_service.az_objs bkt s w)(d := None) \<subseteq>\<^sub>m az_service.az_objs bkt s w' \<and>
        (az_service.az_wf bkt sane s w' \<or> (\<exists>u b v err. copying w' (blobName s d) u b \<and>
          (az_AbortCopyFromURL az (\<lambda>_. None) (blobName s d) u v = (Inl err, w') \<or>
           az_StartCopyFromURL az ctx (blobName s d) (az_URL az (blobName s k)) v = (Inl err, w'))))"
proof -
  note outcome = az_service.az_Copy_outcome [OF assms(1,4-6,2,3,7)]
  show ?thesis
  proof (cases r)
    case (Inl e)
    with outcome show ?thesis
      by (simp add: az_service.copy_outcome_def [OF assms(1)] az_service.adrift_def [OF assms(1)]
          az_service.unaborted_def [OF assms(1)]) blast
  next
    case (Inr c)
    with outcome show ?thesis by (simp add: az_service.copy_outcome_def [OF assms(1)])
  qed
qed

theorem az_Copy_effect_witness:
  "\<exists>w'. az_Copy 9 mem_az example_az (until_time 1000000000) ''a/x'' ''b'' [] example_blobs =
      (Inr \<lparr>Bytes = 2, Streamed = False, Objects = 0\<rparr>, w') \<and>
    mem_container.az_objs example_az w' ''b'' = Some [1, 2]"
proof -
  let ?run = "az_Copy 9 mem_az example_az (until_time 1000000000) ''a/x'' ''b'' [] example_blobs"
  have "fst ?run = Inr \<lparr>Bytes = 2, Streamed = False, Objects = 0\<rparr>" by code_simp
  then obtain w' where run: "?run = (Inr \<lparr>Bytes = 2, Streamed = False, Objects = 0\<rparr>, w')" by (metis prod.collapse)
  have ok: "key_ok ''a/x''" "key_ok ''b''" by (simp_all add: key_ok_def path_simps)
  from az_Copy_effect [OF mem_container.az_service_axioms mem_az_steady _ example_blobs_wf ok run] example_blobs_objs
  have "mem_container.az_objs example_az w' ''b'' = Some [1, 2]" by auto
  with run show ?thesis by blast
qed

section \<open>Opening\<close>

text \<open>A configuration its own \<open>Validate\<close> refuses is opened: \<open>New\<close> does not call it.\<close>

lemma az_New_unvalidated:
  "fst (az_Validate zero_az_config) \<noteq> None \<and>
   (case az_New \<lparr>sdk_sharedKey = (\<lambda>_ _. None), sdk_default = None, sdk_parseURL = (\<lambda>_. None), sdk_client = (\<lambda>_. None)\<rparr>
      zero_az_config [] of Inr _ \<Rightarrow> True | Inl _ \<Rightarrow> False)"
  by (simp add: az_Validate_def az_applyDefaults_def zero_az_config_def az_New_def resolveAuth_def Let_def)

end
