(* ===== verification/Conformance.thy ===== *)
theory Conformance
  imports Suite_Laws Directory Ssh_Properties S3_Properties Azure_Properties
begin

text \<open>
  The conformance suite of \<^verbatim>\<open>storagetest/\<close> on the modelled backends. For every storage with the
  contract the cases about contents, sizes, ranges, listings and copies never report a wrong answer.
  The suite itself is run on the in-memory storage and on Azure and SSH storages over the concrete
  services of this development: each passes all of it.
\<close>

section \<open>Running the suite\<close>

lemma run_all_results:
  "(nm, l) \<in> set (fst (run_all st ns ts w)) \<Longrightarrow> \<exists>t w'. (nm, t) \<in> set ts \<and> l = fst (snd (t st ns w'))"
proof (induction ts arbitrary: w)
  case (Cons x ts)
  obtain n t where x: "x = (n, t)" by fastforce
  obtain r l1 w1 where t: "t st ns w = (r, l1, w1)" by (metis prod_cases3)
  show ?case
  proof (cases "(nm, l) = (n, l1)")
    case True
    then have "(nm, t) \<in> set (x # ts) \<and> l = fst (snd (t st ns w))" by (simp add: x t)
    then show ?thesis by blast
  next
    case False
    with Cons.prems have "(nm, l) \<in> set (fst (run_all st ns ts w1))"
      by (auto simp: x t split: prod.splits)
    with Cons.IH show ?thesis by fastforce
  qed
qed simp

definition passes :: "('h, 'w) storager \<Rightarrow> ('w, 'h) test \<Rightarrow> 'w \<Rightarrow> string \<times> ('h, 'w) subtest \<Rightarrow> bool" where
  "passes st newStorage w x = (case x of (nm, subtest) \<Rightarrow> list_all skipped (fst (snd (subtest st newStorage w))))"

text \<open>Tests that pass in every world fail in no run.\<close>

lemma failures_none:
  assumes "\<And>w. list_all (passes st ns w) ts"
  shows "failures (run_all st ns ts w) = []"
proof -
  have none: "filter (\<lambda>r. \<not> skipped r) l = []" if r: "(nm, l) \<in> set (fst (run_all st ns ts w))" for nm l
  proof -
    from run_all_results [OF r] obtain t w' where "(nm, t) \<in> set ts" "l = fst (snd (t st ns w'))" by blast
    with assms [of w'] show ?thesis by (auto simp: passes_def list_all_iff filter_empty_conv)
  qed
  then show ?thesis by (force simp: failures_def filter_empty_conv)
qed

section \<open>The cases the contract decides\<close>

definition contract_cases :: "string list" where
  "contract_cases =
     [''PutGetRoundTrip'', ''PutGetNestedCreatesDirs'', ''StatExisting'', ''StatReportsSize'', ''GetObjectRangeInside'',
      ''GetObjectRangeToEOF'', ''GetObjectRangeCrossingEOF'', ''GetObjectRangeOffsetAtOrPastSize'',
      ''GetObjectRangeZeroLength'', ''GetObjectRangeNegativeOffset'', ''ListNestedTree'', ''ListMissingPrefix'',
      ''ListPrefixThatIsAnObject'', ''ListPrefixIsolation'', ''CopyRoundTrip'', ''CopyEmptyObject'',
      ''CopyOverwritesDestination'']"

lemma contract_cases_are:
  "map snd (filter (\<lambda>(nm, t). nm \<in> set contract_cases) (suite since)) =
     [test_PutGetRoundTrip, test_PutGetNestedCreatesDirs, test_StatExisting since, test_StatReportsSize,
      test_GetObjectRangeInside, test_GetObjectRangeToEOF, test_GetObjectRangeCrossingEOF,
      test_GetObjectRangeOffsetAtOrPastSize, test_GetObjectRangeZeroLength, test_GetObjectRangeNegativeOffset,
      test_ListNestedTree since, test_ListMissingPrefix, test_ListPrefixThatIsAnObject, test_ListPrefixIsolation,
      test_CopyRoundTrip, test_CopyEmptyObject, test_CopyOverwritesDestination]"
  by (simp add: suite_def contract_cases_def)

lemma contract_case_sound:
  assumes "sized_contract st objs good" "sized_contract.fresh objs good ns"
    and "keeps_time since st good"
    and "(nm, t) \<in> set (suite since)" "nm \<in> set contract_cases"
  shows "sound (\<lambda>_. True) (t st ns) (\<lambda>_ _. True)"
proof -
  have "t \<in> set (map snd (filter (\<lambda>(nm, t). nm \<in> set contract_cases) (suite since)))"
    using assms(4,5) by force
  then show ?thesis
    unfolding contract_cases_are
    using sized_contract.sound_PutGetRoundTrip [OF assms(1,2)] sized_contract.sound_PutGetNestedCreatesDirs [OF assms(1,2)]
      sized_contract.sound_StatExisting [OF assms(1,2,3)] sized_contract.sound_StatReportsSize [OF assms(1,2)]
      sized_contract.sound_ranges [OF assms(1,2)] sized_contract.sound_bad_ranges [OF assms(1,2)]
      sized_contract.sound_ListNestedTree [OF assms(1,2,3)] sized_contract.sound_ListMissingPrefix [OF assms(1,2)]
      sized_contract.sound_ListPrefixThatIsAnObject [OF assms(1,2)] sized_contract.sound_ListPrefixIsolation [OF assms(1,2)]
      sized_contract.sound_CopyRoundTrip [OF assms(1,2)] sized_contract.sound_CopyEmptyObject [OF assms(1,2)]
      sized_contract.sound_CopyOverwritesDestination [OF assms(1,2)]
    by auto
qed

text \<open>
  C10. In any run of the suite over a storage that keeps the contract, is opened empty by its factory
  and whose modification times the test's clock finds recent, the cases about contents, sizes, ranges,
  listings and copies report no wrong answer, only errors that the storage returned.
\<close>

theorem contract_passes_suite:
  assumes "sized_contract st objs good"
    and "\<And>w. case newStorage w of (r, l, w') \<Rightarrow> (\<forall>x \<in> set l. \<not> wrong x) \<and>
      (\<forall>h. r = Some h \<longrightarrow> good h w' \<and> objs h w' = Map.empty)"
    and "keeps_time since st good"
    and "(nm, reports) \<in> set (fst (Run since st newStorage w))" "nm \<in> set contract_cases"
  shows "\<not> list_ex wrong reports"
proof -
  have "sized_contract.fresh objs good newStorage"
    using assms(2) by (simp add: sized_contract.fresh_def [OF assms(1)] sized_contract.holds_def [OF assms(1)]
        sound_def texts_def comp_def)
  note sound = contract_case_sound [OF assms(1) this assms(3)]
  obtain t w' where t: "(nm, t) \<in> set (suite since)" "reports = fst (snd (t st newStorage w'))"
    using run_all_results [OF assms(4) [unfolded Run_def]] by blast
  obtain r l w1 where "t st newStorage w' = (r, l, w1)" by (metis prod_cases3)
  with sound [OF t(1) assms(5)] t(2) have "\<forall>x \<in> set reports. \<not> wrong x"
    by (auto simp: sound_def dest: spec [of _ w'])
  then show ?thesis by (simp add: list_ex_iff)
qed

section \<open>The backends\<close>

text \<open>An operation is evaluated when it is applied to a world, and not before.\<close>

lemmas applied_code [code] =
  fs_ListDir_def [THEN fun_cong] fs_GetObject_def [THEN fun_cong] fs_GetObjectRange_def [THEN fun_cong]
  fs_List_def [THEN fun_cong] renameIntoPlace_def [THEN fun_cong] fs_PutObject_def [THEN fun_cong]
  sameFile_def [THEN fun_cong] fillAndRename_def [THEN fun_cong] fs_Copy_def [THEN fun_cong]
  fs_Delete_def [THEN fun_cong] fs_DeleteAll_def [THEN fun_cong] fs_Exists_def [THEN fun_cong]
  fs_Stat_def [THEN fun_cong] fs_Ping_def [THEN fun_cong] fs_Close_def [THEN fun_cong]
  ssh_Close_def [THEN fun_cong] ssh_ListDir_def [THEN fun_cong] ssh_GetObject_def [THEN fun_cong]
  ssh_GetObjectRange_def [THEN fun_cong] tempSibling_def [THEN fun_cong] ssh_removeQuietly_def [THEN fun_cong]
  replaceFile_def [THEN fun_cong] fillAndReplace_def [THEN fun_cong] ssh_PutObject_def [THEN fun_cong]
  ssh_copy_open_def [THEN fun_cong] ssh_Copy_def [THEN fun_cong] ssh_Delete_def [THEN fun_cong]
  ssh_Exists_def [THEN fun_cong] ssh_Ping_def [THEN fun_cong] ssh_Stat_def [THEN fun_cong]
  az_GetObject_def [THEN fun_cong] az_GetObjectRange_def [THEN fun_cong] az_PutObject_def [THEN fun_cong]
  az_Exists_def [THEN fun_cong] az_Stat_def [THEN fun_cong] az_Ping_def [THEN fun_cong]
  az_Delete_def [THEN fun_cong] copyRefused_def [THEN fun_cong] az_Copy_def [THEN fun_cong]
  StreamCopy_def [THEN fun_cong] copy_task_def [THEN fun_cong] bindIO_def [THEN fun_cong]
  wrapIO_def [THEN fun_cong]

text \<open>A factory opens its storage in a world of its own.\<close>

definition in_fresh :: "'w \<Rightarrow> ('w, 'h) io \<Rightarrow> ('w, 'h) test" where
  "in_fresh w0 m = (\<lambda>w. t_must ''new storage'' m w0)"

text \<open>The worlds' clock stands still.\<close>

definition still :: "int \<Rightarrow> 'w \<Rightarrow> int64" where
  "still t w = sub64 0 t"

text \<open>The suite, ten cases at a time.\<close>

definition cases_pass :: "('h, 'w) storager \<Rightarrow> ('w, 'h) test \<Rightarrow> nat \<Rightarrow> 'w \<Rightarrow> bool" where
  "cases_pass st newStorage n w = list_all (passes st newStorage w) (take 10 (drop n (suite still)))"

lemma suite_passes:
  assumes "\<And>w. cases_pass st ns 0 w" "\<And>w. cases_pass st ns 10 w" "\<And>w. cases_pass st ns 20 w"
    and "\<And>w. cases_pass st ns 30 w" "\<And>w. cases_pass st ns 40 w" "\<And>w. cases_pass st ns 50 w"
  shows "failures (Run still st ns w) = []"
  unfolding Run_def
proof (rule failures_none)
  fix w
  let ?s = "suite still"
  have tens: "take n (drop m ?s) @ drop (m + n) ?s = drop m ?s" for m n
    using append_take_drop_id [of n "drop m ?s"] by (simp add: add.commute)
  have "drop 60 ?s = []" by (simp add: suite_def)
  then have "?s = take 10 (drop 0 ?s) @ take 10 (drop 10 ?s) @ take 10 (drop 20 ?s) @ take 10 (drop 30 ?s) @
      take 10 (drop 40 ?s) @ take 10 (drop 50 ?s)"
    using tens [of 10 0] tens [of 10 10] tens [of 10 20] tens [of 10 30] tens [of 10 40] tens [of 10 50]
    by (metis (no_types, lifting) append_Nil2 drop0 add_0 numeral_plus_numeral add_num_simps)
  moreover have "list_all (passes st ns w) \<dots>"
    using assms unfolding cases_pass_def list_all_append by blast
  ultimately show "list_all (passes st ns w) ?s" by metis
qed

abbreviation mem_storage :: "(memfs, fs_storage gstore) test" where
  "mem_storage \<equiv> in_fresh [([], DirNode)] (mem_New mem_afero '''' [])"

abbreviation mem_ops :: "(fs_storage gstore, memfs) storager" where
  "mem_ops \<equiv> guard_ops (fs_ops (\<lambda>_. 0) mem_afero)"

lemma fresh_mem_world:
  "\<exists>w. mem_storage v = (Some (Guarded (fs_New ''/'' [])), [], w) \<and> mem_sane w \<and>
     fs_objs mem_view (fs_New ''/'' []) w = Map.empty"
proof -
  have "mem_storage v = (Some (Guarded (fs_New ''/'' [])), [], [([], DirNode)])"
    by code_simp
  moreover have "mem_sane [([], DirNode)]"
    by (simp add: mem_sane_def tree_ok_def)
  moreover have "fs_objs mem_view (fs_New ''/'' []) [([], DirNode)] = Map.empty"
    by (auto simp: fs_objs_def file_at_def mem_view_def fun_eq_iff)
  ultimately show ?thesis by blast
qed

theorem contract_passes_suite_witness:
  "\<not> list_ex wrong (snd (hd (fst (Run (\<lambda>_ _. 0) mem_ops mem_storage []))))"
proof (rule contract_passes_suite [where objs = "\<lambda>g. fs_objs mem_view (inner g)" and good = "\<lambda>g. fs_wf mem_sane (inner g)"])
  show "sized_contract mem_ops (\<lambda>g. fs_objs mem_view (inner g)) (\<lambda>g. fs_wf mem_sane (inner g))"
    by (rule sized_contract.guard_sized [OF mem.fs_sized])
  show "keeps_time (\<lambda>_ _. 0) mem_ops (\<lambda>g. fs_wf mem_sane (inner g))"
    by (simp add: keeps_time_def recent_def duration_Abs_def ten_seconds_def)
  show "case mem_storage w of (r, l, w') \<Rightarrow> (\<forall>x \<in> set l. \<not> wrong x) \<and>
      (\<forall>h. r = Some h \<longrightarrow> fs_wf mem_sane (inner h) w' \<and> fs_objs mem_view (inner h) w' = Map.empty)" for w
  proof -
    from fresh_mem_world [of w] obtain w1 where w1: "mem_storage w = (Some (Guarded (fs_New ''/'' [])), [], w1)"
      "mem_sane w1" "fs_objs mem_view (fs_New ''/'' []) w1 = Map.empty" by blast
    show ?thesis unfolding w1(1) using w1(2,3) by (simp add: fs_wf_def fs_New_def)
  qed
  show "(''PutGetRoundTrip'', snd (hd (fst (Run (\<lambda>_ _. 0) mem_ops mem_storage [])))) \<in> set (fst (Run (\<lambda>_ _. 0) mem_ops mem_storage []))"
    by (simp add: Run_def suite_def split: prod.split)
  show "''PutGetRoundTrip'' \<in> set contract_cases" by (simp add: contract_cases_def)
qed

lemma mem_passes_objects: "cases_pass mem_ops mem_storage 0 w"
  by code_simp

lemma mem_passes_metadata: "cases_pass mem_ops mem_storage 10 w"
  by code_simp

lemma mem_passes_deletes: "cases_pass mem_ops mem_storage 20 w"
  by code_simp

lemma mem_passes_copies: "cases_pass mem_ops mem_storage 30 w"
  by code_simp

lemma mem_passes_prefixes: "cases_pass mem_ops mem_storage 40 w"
  by code_simp

lemma mem_passes_guard: "cases_pass mem_ops mem_storage 50 w"
  by code_simp

abbreviation azure_storage :: "(az_world, az_storage gstore) test" where
  "azure_storage \<equiv> in_fresh \<lparr>aw_blobs = [], aw_pending = None, aw_slow = 0, aw_now = 0\<rparr> (ret (Guarded example_az))"

abbreviation azure_ops :: "(az_storage gstore, az_world) storager" where
  "azure_ops \<equiv> guard_ops (az_ops 9 (\<lambda>_. 0) mem_az)"

lemma azure_passes_objects: "cases_pass azure_ops azure_storage 0 w"
  by code_simp

lemma azure_passes_metadata: "cases_pass azure_ops azure_storage 10 w"
  by code_simp

lemma azure_passes_deletes: "cases_pass azure_ops azure_storage 20 w"
  by code_simp

lemma azure_passes_copies: "cases_pass azure_ops azure_storage 30 w"
  by code_simp

lemma azure_passes_prefixes: "cases_pass azure_ops azure_storage 40 w"
  by code_simp

lemma azure_passes_guard: "cases_pass azure_ops azure_storage 50 w"
  by code_simp

abbreviation sftp_storage :: "(memfs, ssh_storage gstore) test" where
  "sftp_storage \<equiv> in_fresh [([], DirNode)] (ret (Guarded example_ssh))"

abbreviation sftp_ops :: "(ssh_storage gstore, memfs) storager" where
  "sftp_ops \<equiv> guard_ops (ssh_ops 9 (\<lambda>_. 0) (\<lambda>_ w. (Inr mem_sftp, w)) (ret ()))"

lemma sftp_passes_objects: "cases_pass sftp_ops sftp_storage 0 w"
  by code_simp

lemma sftp_passes_metadata: "cases_pass sftp_ops sftp_storage 10 w"
  by code_simp

lemma sftp_passes_deletes: "cases_pass sftp_ops sftp_storage 20 w"
  by code_simp

lemma sftp_passes_copies: "cases_pass sftp_ops sftp_storage 30 w"
  by code_simp

lemma sftp_passes_prefixes: "cases_pass sftp_ops sftp_storage 40 w"
  by code_simp

lemma sftp_passes_guard: "cases_pass sftp_ops sftp_storage 50 w"
  by code_simp

text \<open>
  The in-memory storage opened by its own constructor, an Azure storage over the blob container and
  an SSH storage over the SFTP server of this development each pass the whole conformance suite: no case
  reports a failure.
\<close>

theorem backends_conform:
  "failures (Run still mem_ops mem_storage w1) = [] \<and>
   failures (Run still azure_ops azure_storage w2) = [] \<and>
   failures (Run still sftp_ops sftp_storage w3) = []"
  by (intro conjI suite_passes mem_passes_objects mem_passes_metadata mem_passes_deletes mem_passes_copies
      mem_passes_prefixes mem_passes_guard azure_passes_objects azure_passes_metadata azure_passes_deletes
      azure_passes_copies azure_passes_prefixes azure_passes_guard sftp_passes_objects sftp_passes_metadata
      sftp_passes_deletes sftp_passes_copies sftp_passes_prefixes sftp_passes_guard)

end
