(* ===== verification/Spec2Isabelle.thy ===== *)
theory Spec2Isabelle
  imports Enc_Properties Conformance
begin

text \<open>
  A verification of the storage library under \<^verbatim>\<open>src/\<close>: one interface, \<^verbatim>\<open>Storager\<close>, over
  file systems, SFTP servers and object stores, a key guard every backend is wrapped in, an
  encrypting decorator, and helpers that copy and walk on top of the interface.

  \<^bold>\<open>How the program is modelled.\<close> An operation with an effect takes the world (the file tree, the
  remote service, the clock) and returns an error or a value and the world it leaves. Errors are values
  with \<^verbatim>\<open>errors.Is\<close>, a \<^verbatim>\<open>context.Context\<close> is what \<^verbatim>\<open>ctx.Err()\<close> answers in a world, a
  reader is the chunks it delivers and how it ends, and \<^verbatim>\<open>int64\<close> arithmetic wraps
  (\<open>wrap64\<close>). Code outside the repository (afero, the SFTP client, age, key parsing, the
  SDKs of the object stores) is an
  argument of the definitions that call it; what the program relies on is the \<open>assumes\<close> of a
  locale, and every locale is interpreted on a concrete instance.

  \<^item> \<open>Prelude\<close>, \<open>Go_Path\<close>: Go integers, strings, errors, effects and readers, and the functions of
    package \<^verbatim>\<open>path\<close> in terms of path segments.
  \<^item> \<open>Storager\<close> (\<^verbatim>\<open>storager.go\<close>, \<^verbatim>\<open>errors.go\<close>): object metadata, the method table, and the
    abstract contracts \<open>storager_contract\<close> (a storage is a map from clean keys to contents) and
    \<open>sized_contract\<close> (sizes and ranges are those of the contents).
  \<^item> \<open>Guard\<close> (\<^verbatim>\<open>guard.go\<close>): every method of the key guard. A key is accepted exactly when its walk
    stays inside the storage, an accepted key lands strictly inside any root, every method passes
    only such keys on, a refusal has no effect, and a guarded storage keeps the contract.
  \<^item> \<open>Errgroup\<close>: the \<^verbatim>\<open>errgroup.Group\<close> the copies run in, a state machine of tasks under an
    arbitrary scheduler \<open>pick\<close>, generic in the tasks and in what they share. How many tasks run at a
    time and that a first error cancels the group's context (\<open>enabled\<close>, \<open>gctx\<close>, \<open>group_fail\<close>) is the
    documented behaviour of the library; the check of the context before a task starts is the code's.
  \<^item> \<open>Copying\<close> (\<^verbatim>\<open>copy.go\<close>): options, \<open>StreamCopy\<close>, and \<open>CopyListed\<close>, whose error group is a
    state machine run by an arbitrary scheduler \<open>pick\<close>. It starts nothing after the first error and
    (in this theory) copies exactly the objects under the source, less those already under a nested
    destination, whatever the interleaving. The one exception is a copy to an ancestor of the source that
    lands on objects still to be copied (\<open>overwrites\<close>).
  \<^item> \<open>Fsbackend\<close>, \<open>Fs_Laws\<close>, \<open>Memfs\<close>, \<open>Fs_Properties\<close>
    (\<^verbatim>\<open>internal/fsbackend/backend.go\<close>): every method, over a file system with the laws of
    \<open>afero_fs\<close>; \<open>Memfs\<close> is a file system with those laws. The backend implements the contract;
    failed writes lose nothing, \<open>Delete\<close> is all or nothing, \<open>DeleteAll\<close> removes exactly a subtree.
  \<^item> \<open>Walk\<close> (\<^verbatim>\<open>utils.go\<close>) and \<open>Directory\<close> (\<^verbatim>\<open>directory/\<close>, \<^verbatim>\<open>inmemory/\<close>): the recursive listing
    is exact, and an opened directory storage is confined to its configured prefix.
  \<^item> \<open>Layout\<close>, \<open>Range_Source\<close>, \<open>Encrypted\<close>, \<open>Plain_Age\<close>, \<open>Enc_Properties\<close> (\<^verbatim>\<open>encrypted/\<close>):
    the size arithmetic of an age file without overflow, the ciphertext sources of a range read
    (one per chunk span, one for the whole object), and every method. An encrypted storage keeps
    the contract over plaintexts, a range is the clamped slice of the plaintext, sizes are reported as
    plaintext sizes, and failures are told apart, those found while the body is read included. \<open>Plain_Age\<close> is an instance of age's laws.
  \<^item> \<open>Sftp_Lazy\<close>, \<open>Ssh\<close>, \<open>Ssh_Laws\<close>, \<open>Ssh_Effects\<close>, \<open>Ssh_Properties\<close> (\<^verbatim>\<open>ssh/\<close>): the shared connection as a
    state machine of concurrent callers with its invariant, and every method over an SFTP server with
    the laws of \<open>sftp_fs\<close>: replacing a file never loses a content, a listing is exact. With the laws of
    writing (\<open>sftp_store\<close>) a put or a copy has its effect on the destination only, and a failed one keeps
    its previous content.

  \<^item> \<open>Http_Text\<close>: the texts the object stores are given: range headers, copy sources, tags.
  \<^item> \<open>Bucket\<close>: what the object stores share: listings in pages, the objects below a root, and how
    the contract is lifted to the guarded storage of a backend that lists clean prefixes only.
  \<^item> \<open>S3\<close>, \<open>S3_Parts\<close>, \<open>S3_Laws\<close>, \<open>S3_Delete\<close>, \<open>S3_Mem\<close>, \<open>S3_Properties\<close>
    (\<^verbatim>\<open>s3/\<close>): configuration, opening and every method over the calls of the SDK. With a service that
    does what S3 documents (\<open>s3_service\<close>, \<open>s3_deleting\<close>) the backend keeps the storage contract and
    deletes all or nothing, but for keys the service refuses. A multipart copy runs its parts in an error
    group; with a service that honours the entity tag (\<open>s3_pinned\<close>) a copy that succeeds has
    copied the source's bytes, whatever else happens to the bucket meanwhile. \<open>S3_Mem\<close> is such a service.
  \<^item> \<open>Azure\<close>, \<open>Azure_Copy\<close>, \<open>Azure_Laws\<close>, \<open>Azure_Mem\<close>, \<open>Azure_Properties\<close>
    (\<^verbatim>\<open>azure/\<close>): the same for the blob service (\<open>az_service\<close>). The wait for a pending copy ends when
    the context or the copy does (\<open>az_clock\<close>), a wait that fails has asked for the abort of the copy or
    seen it over, and a copy that succeeds has the source's content. The abort is best effort, so one that
    fails may leave the copy pending. \<open>Azure_Mem\<close> is such a container.

  \<^item> \<open>Testing\<close>, \<open>Storagetest\<close>, \<open>Suite_Laws\<close>, \<open>Conformance\<close> (\<^verbatim>\<open>storagetest/\<close>):
    the conformance suite backends are held to, every subtest over any method table and factory. A test
    reports wrong answers, returned errors and skips; \<open>sound\<close> is a test that reports no wrong answer, with
    a rule per construct and helper. On every storage with the contract the cases the contract decides are
    sound, and an evaluation of the suite on the in-memory storage and on the Azure and SSH services of this
    development passes all cases.

  \<^bold>\<open>Fuel and bounds.\<close> The recursions over directories (\<open>walk\<close>, \<open>listUnder\<close>, \<open>removeAll\<close>)
  take one unit of fuel per level; the properties prove that the depth of the tree is enough, so
  running out cannot happen on a finite tree. The paged listings of the object stores take one unit
  per page and the wait for a blob copy one per poll; both loops end only when the service says so. One
  page more than there are keys is proved enough for a listing, and for the wait the number of polls up
  to the deadline of the context, or the number the service takes to finish. The scheduler of
  \<open>CopyListed\<close> and the read loops of \<open>Range_Source\<close> are total functions with a measure.

  \<^bold>\<open>Not modelled.\<close> The examples, which are command lines around the library; logging everywhere, since
  no result depends on it; the buffering of readers; and clocks beyond what a context answers and the
  \<open>since\<close> the suite is given. The suite is not evaluated on \<open>S3_Mem\<close>, where it takes too long; S3 is
  covered by its contract and by what the contract promises the suite.
\<close>

section \<open>Copying a prefix\<close>

text \<open>
  C4. A copy of a prefix that reports no error, under every interleaving of the object copies and on
  any storage that keeps the contract, has copied every object under the source except those that
  already lie under a destination nested in the source: each destination key holds what its source
  held before, no other key changed, and \<open>Objects\<close> counts the copied names. The condition is that
  no object is copied onto another one that is to be copied; \<open>apart_no_overwrites\<close> shows that it always
  holds unless the destination is an ancestor of the source, and \<open>CopyEach_onto_ancestor\<close> what
  happens without it.
\<close>

theorem CopyEach_copies:
  assumes "storager_contract st objs good" "good h w" "stays_inside src" "stays_inside dst"
    and "\<not> overwrites (objs h w) src dst"
    and "CopyEach pick st h ctx src dst opts w = ((stat, None), w')"
  shows "(\<forall>k \<in> to_copy (objs h w) src dst. objs h w' (path_Join dst k) = objs h w (path_Join src k)) \<and>
    (\<forall>k. k \<notin> path_Join dst ` to_copy (objs h w) src dst \<longrightarrow> objs h w' k = objs h w k) \<and>
    Objects stat = wrap64 (int (card (to_copy (objs h w) src dst)))"
  using storager_contract.CopyEach_ok [OF assms] unfolding copied_so_far_def by blast

theorem CopyEach_copies_witness:
  "\<exists>w'. CopyEach (\<lambda>_. 7) (fs_ops (\<lambda>_. 0) mem_afero) example_storage (\<lambda>_. None) ''a'' ''b'' [] example_fs =
     ((\<lparr>Bytes = 3, Streamed = False, Objects = 2\<rparr>, None), w') \<and>
     fs_objs mem_view example_storage w' ''b/x'' = Some [1, 2]"
proof -
  obtain w' where run: "CopyEach (\<lambda>_. 7) (fs_ops (\<lambda>_. 0) mem_afero) example_storage (\<lambda>_. None) ''a'' ''b'' [] example_fs =
      ((\<lparr>Bytes = 3, Streamed = False, Objects = 2\<rparr>, None), w')"
  proof -
    have "fst (CopyEach (\<lambda>_. 7) (fs_ops (\<lambda>_. 0) mem_afero) example_storage (\<lambda>_. None) ''a'' ''b'' [] example_fs) =
      (\<lparr>Bytes = 3, Streamed = False, Objects = 2\<rparr>, None)"
      by code_simp
    then show ?thesis using that by (metis prod.collapse)
  qed
  have "stays_inside ''a''" "stays_inside ''b''" "\<not> strictly_inside ''a'' ''b''"
    by (simp_all add: stays_inside_def strictly_inside_def path_simps)
  note inside = this(1,2) and apart = apart_no_overwrites [OF this]
  note copied = CopyEach_copies [OF mem.contract.storager_contract_axioms example_wf inside apart run]
  have join: "path_Join ''b'' ''x'' = ''b/x''" "path_Join ''a'' ''x'' = ''a/x''" by code_simp+
  have "key_ok ''x''" "\<not> strictly_inside ''b'' ''a''"
    by (simp_all add: strictly_inside_def key_ok_def path_simps)
  then have "''x'' \<in> to_copy (fs_objs mem_view example_storage example_fs) ''a'' ''b''"
    by (simp add: to_copy_def join example_objs)
  with copied have "fs_objs mem_view example_storage w' (path_Join ''b'' ''x'') =
      fs_objs mem_view example_storage example_fs (path_Join ''a'' ''x'')" by blast
  then show ?thesis using run by (simp add: join example_objs)
qed

text \<open>
  A copy to an ancestor of the source may overwrite an object before copying it, and reports success
  all the same: here \<open>a/b/x\<close> held \<open>[2]\<close>, and \<open>a/x\<close>, its copy, holds \<open>[1]\<close>, the content of
  \<open>a/b/b/x\<close>, although one object is copied at a time.
\<close>

definition ancestor_fs :: memfs where
  "ancestor_fs = [([''d'', ''a'', ''b'', ''x''], FileNode [2]), ([''d'', ''a'', ''b'', ''b'', ''x''], FileNode [1]),
     ([''d'', ''a'', ''b'', ''b''], DirNode), ([''d'', ''a'', ''b''], DirNode), ([''d'', ''a''], DirNode),
     ([''d''], DirNode), ([], DirNode)]"

theorem CopyEach_onto_ancestor:
  "(case CopyEach (\<lambda>_. 0) (fs_ops (\<lambda>_. 0) mem_afero) example_storage (\<lambda>_. None) ''a/b'' ''a''
      [WithCopyAllObjectConcurrency 1] ancestor_fs of
     ((stat, err), w) \<Rightarrow> (err, Objects stat, fs_objs mem_view example_storage ancestor_fs ''a/b/x'',
       fs_objs mem_view example_storage w ''a/x'')) = (None, 2, Some [2], Some [1])"
  by code_simp

text \<open>
  C5. Whatever a copy of a prefix reports, under every interleaving, an object whose key does not lie
  strictly inside the destination prefix keeps its content.
\<close>

theorem CopyEach_keeps_outside:
  assumes "storager_contract st objs good" "good h w" "stays_inside src" "stays_inside dst"
    and "CopyEach pick st h ctx src dst opts w = ((stat, err), w')"
    and "objs h w k = Some b" "\<not> strictly_inside k dst"
  shows "objs h w' k = Some b"
  using storager_contract.CopyEach_frame [OF assms(1-5)] assms(6,7) by blast

theorem CopyEach_keeps_outside_witness:
  "fs_objs mem_view example_storage (snd (CopyEach (\<lambda>_. 3) (fs_ops (\<lambda>_. 0) mem_afero) example_storage
     (\<lambda>_. Some Canceled) ''a'' ''b'' [] example_fs)) ''a/x'' = Some [1, 2]"
proof -
  obtain stat err w' where run: "CopyEach (\<lambda>_. 3) (fs_ops (\<lambda>_. 0) mem_afero) example_storage
      (\<lambda>_. Some Canceled) ''a'' ''b'' [] example_fs = ((stat, err), w')"
    by (metis prod.collapse)
  have inside: "stays_inside ''a''" "stays_inside ''b''" and out: "\<not> strictly_inside ''a/x'' ''b''"
    by (simp_all add: stays_inside_def strictly_inside_def path_simps)
  from CopyEach_keeps_outside [where objs = "fs_objs mem_view" and good = "fs_wf mem_sane",
      OF mem.contract.storager_contract_axioms example_wf inside run example_objs(1) out]
  show ?thesis unfolding run by simp
qed

text \<open>
  A listing that holds an unclean name (absolute, climbing, or not in cleaned form) makes the
  whole copy fail with \<open>ErrUnsafeKey\<close> before any object is copied.
\<close>

theorem CopyListed_refuses_unclean:
  assumes "listOp ctx src w = (Inr listed, w1)"
    and "x \<in> set listed" "\<not> HasSuffix (Name x) ''/''" "\<not> cleanRelative (Name x)"
  shows "\<exists>e. CopyListed pick listOp ctx src dst copyObject opts w = ((zeroCopyStat, Some e), w1) \<and>
    errors_Is e ErrUnsafeKey"
proof -
  let ?objects = "filter (\<lambda>x. \<not> HasSuffix (Name x) ''/'') listed"
  have "?objects \<noteq> []" using assms(2,3) by (auto simp: filter_empty_conv)
  moreover have "\<not> list_all (\<lambda>x. cleanRelative (Name x)) ?objects"
    using assms(2-4) by (auto simp: list_all_iff)
  ultimately show ?thesis using assms(1) by (simp add: CopyListed_def Let_def)
qed

theorem CopyListed_refuses_unclean_witness:
  "\<exists>e. CopyListed (\<lambda>_. 0)
       (\<lambda>ctx p w. (Inr [\<lparr>Name = ''../etc'', LastModified = 0, Exist = True, Size = 1, ETag = ''''\<rparr>], w))
       (\<lambda>_. None) ''a'' ''b'' (\<lambda>ctx obj s d o' w. (Inr zeroCopyStat, w + 1)) [] (5 :: nat) =
     ((zeroCopyStat, Some e), 5) \<and> errors_Is e ErrUnsafeKey"
proof (rule CopyListed_refuses_unclean)
  let ?x = "\<lparr>Name = ''../etc'', LastModified = 0, Exist = True, Size = 1, ETag = ''''\<rparr>"
  show "(Inr [?x], 5) = (Inr [?x], 5)" by (rule refl)
  show "?x \<in> set [?x]" by (rule list.set_intros(1))
  show "\<not> HasSuffix (Name ?x) ''/''" "\<not> cleanRelative (Name ?x)"
    by (simp_all add: cleanRelative_def HasSuffix_def HasPrefix_def)
qed

section \<open>The streamed copy\<close>

text \<open>
  C19. A streamed copy of an object that succeeds leaves the destination with the source's bytes and
  nothing else changed, and counts those bytes; one that fails keeps every object but the destination.
\<close>

theorem StreamCopy_copies:
  assumes "storager_contract st objs good" "good h w" "key_ok s" "key_ok d" "objs h w s = Some b"
    and "StreamCopy st h ctx s d w = (r, w')"
  shows "case r of
     Inr c \<Rightarrow> objs h w' = (objs h w)(d \<mapsto> b) \<and> (s \<noteq> d \<longrightarrow> Bytes c = wrap64 (int (length b)) \<and> Streamed c)
   | Inl e \<Rightarrow> (objs h w)(d := None) \<subseteq>\<^sub>m objs h w' \<or> objs h w' = (objs h w)(d \<mapsto> b)"
  using storager_contract.StreamCopy_ok [OF assms] by blast

theorem StreamCopy_copies_witness:
  "\<exists>c w'. StreamCopy (fs_ops (\<lambda>_. 0) mem_afero) example_storage (\<lambda>_. None) ''a/x'' ''q'' example_fs = (Inr c, w') \<and>
     fs_objs mem_view example_storage w' ''q'' = Some [1, 2]"
proof -
  have "fst (StreamCopy (fs_ops (\<lambda>_. 0) mem_afero) example_storage (\<lambda>_. None) ''a/x'' ''q'' example_fs) =
      Inr \<lparr>Bytes = 2, Streamed = True, Objects = 0\<rparr>"
    by code_simp
  then obtain c w' where run:
    "StreamCopy (fs_ops (\<lambda>_. 0) mem_afero) example_storage (\<lambda>_. None) ''a/x'' ''q'' example_fs = (Inr c, w')"
    by (metis prod.collapse)
  have "key_ok ''a/x''" "key_ok ''q''" by (simp_all add: key_ok_def path_simps)
  from StreamCopy_copies [OF mem.contract.storager_contract_axioms example_wf this example_objs(1) run] run
  show ?thesis by simp
qed

end
